(* ===== verification/SS_Prelude.thy ===== *)
theory SS_Prelude
  imports Complex_Main "HOL-Library.Word"
begin

text \<open>
  The prelude of the development: the machine types of the C code, the byte-string
  operations the components share (\<^verbatim>\<open>memcpy\<close> into an array, reading and writing integers in
  memory order), the record of what the code takes from the C library and the platform,
  the fault values of a process that stops, and the lemma collections the component
  theories extend.

  Lengths and indices (\<^verbatim>\<open>size_t\<close>) are \<open>nat\<close>; signed C integers are \<open>int\<close>; unsigned C
  integers whose wrap-around matters are words of their width.
\<close>

unbundle bit_operations_syntax

section \<open>Types\<close>

type_synonym u8 = "8 word"
type_synonym u16 = "16 word"
type_synonym u32 = "32 word"
type_synonym u64 = "64 word"
type_synonym bytes = "u8 list"

text \<open>
  What ends the process: \<^verbatim>\<open>FATAL\<close> (utils.h) prints a message and exits, a failed
  \<^verbatim>\<open>assert\<close> aborts, and so does libsodium's \<^verbatim>\<open>sodium_misuse\<close>; \<open>SEGV\<close> is an access through
  a null pointer, \<open>OOB\<close> an access outside an array and \<open>ENDLESS\<close> a loop that does not end.
\<close>

datatype fault = FATAL string | ASSERT | MISUSE | SEGV | OOB | ENDLESS

text \<open>
  What the code takes from the C library and from the platform. \<open>c_log\<close> is libm's
  \<^verbatim>\<open>log\<close> and \<open>c_round\<close> the rounding of a result to a \<^verbatim>\<open>double\<close> (a finite
  \<^verbatim>\<open>double\<close> is a rational); \<open>c_calloc\<close> says whether an allocation of that many bytes
  succeeds; \<open>c_junk\<close> gives the indeterminate bytes of freshly allocated memory and
  \<open>c_random\<close> the tape that the system's random generator hands out byte by byte.
\<close>

record libc =
  c_log :: "rat \<Rightarrow> rat"
  c_round :: "rat \<Rightarrow> rat"
  c_calloc :: "nat \<Rightarrow> bool"
  c_junk :: "nat \<Rightarrow> u8"
  c_random :: "nat \<Rightarrow> u8"

section \<open>Lemma collections\<close>

named_theorems len_simps \<open>lengths of byte strings the operations produce\<close>
named_theorems wf_intros \<open>preservation of the components' invariants\<close>

section \<open>Byte strings and memory\<close>

text \<open>
  \<^verbatim>\<open>memcpy(dst + ofs, src, n)\<close> and \<^verbatim>\<open>memmove\<close> into an array: a write past the end of the
  array makes the list longer, so an invariant that fixes the array's length rules every
  out-of-range write out.
\<close>

definition memcpy_at :: "'a list \<Rightarrow> nat \<Rightarrow> 'a list \<Rightarrow> 'a list" where
  "memcpy_at dst ofs src = take ofs dst @ src @ drop (ofs + length src) dst"

text \<open>The bytes of fresh memory.\<close>

definition fresh :: "libc \<Rightarrow> nat \<Rightarrow> bytes" where
  "fresh lc n = map (c_junk lc) [0..<n]"

text \<open>Integers in memory: most significant byte first (network order) and least first.\<close>

definition be16 :: "nat \<Rightarrow> bytes" where
  "be16 n = [of_nat (n div 256), of_nat n]"

definition from_be16 :: "u8 \<Rightarrow> u8 \<Rightarrow> nat" where
  "from_be16 hi lo = unat hi * 256 + unat lo"

definition le32 :: "u32 \<Rightarrow> bytes" where
  "le32 w = [ucast w, ucast (drop_bit 8 w), ucast (drop_bit 16 w), ucast (drop_bit 24 w)]"

definition from_le32 :: "u8 \<Rightarrow> u8 \<Rightarrow> u8 \<Rightarrow> u8 \<Rightarrow> u32" where
  "from_le32 a b c d =
     ucast a OR push_bit 8 (ucast b) OR push_bit 16 (ucast c) OR push_bit 24 (ucast d)"

text \<open>C truncates an integer division towards zero; so does the cast of a double to int.\<close>

definition c_div :: "int \<Rightarrow> int \<Rightarrow> int" where
  "c_div a b = sgn a * sgn b * (\<bar>a\<bar> div \<bar>b\<bar>)"

definition c_mod :: "int \<Rightarrow> int \<Rightarrow> int" where
  "c_mod a b = a - b * c_div a b"

definition c_trunc :: "rat \<Rightarrow> int" where
  "c_trunc r = (if r < 0 then - \<lfloor>- r\<rfloor> else \<lfloor>r\<rfloor>)"

text \<open>
  A read of one element of an array, handed to the rest of the computation: reading outside the
  array is the fault \<open>OOB\<close>.
\<close>

definition rd :: "'a list \<Rightarrow> nat \<Rightarrow> ('a \<Rightarrow> fault + 'b) \<Rightarrow> fault + 'b" where
  "rd xs i k = (if i < length xs then k (xs ! i) else Inl OOB)"

lemma rd_cong [fundef_cong]:
  "xs = xs' \<Longrightarrow> i = i' \<Longrightarrow> (\<And>x. i' < length xs' \<Longrightarrow> x = xs' ! i' \<Longrightarrow> k x = k' x) \<Longrightarrow> rd xs i k = rd xs' i' k'"
  by (simp add: rd_def)

lemma rd_in [simp]: "i < length xs \<Longrightarrow> rd xs i k = k (xs ! i)"
  by (simp add: rd_def)

text \<open>
  The conversion of a length to \<^verbatim>\<open>int\<close>, and of a \<^verbatim>\<open>char\<close> to \<^verbatim>\<open>int\<close> on a target where
  \<^verbatim>\<open>char\<close> is signed (\<open>sc\<close>, x86) or not (ARM).
\<close>

definition c_int :: "nat \<Rightarrow> int" where
  "c_int n = sint (of_nat n :: u32)"

definition c_char :: "bool \<Rightarrow> u8 \<Rightarrow> int" where
  "c_char sc b = (if sc then sint b else uint b)"

text \<open>\<^verbatim>\<open>strncpy\<close>: what follows a zero byte of the source is filled with zeros.\<close>

definition strncpy :: "bytes \<Rightarrow> nat \<Rightarrow> bytes" where
  "strncpy src n =
     (let s = takeWhile (\<lambda>b. b \<noteq> 0) (take n src) in s @ replicate (n - length s) 0)"

text \<open>The bytes of a string literal, without its final zero.\<close>

definition str :: "string \<Rightarrow> bytes" where
  "str s = map of_char s"

section \<open>Lemmas on byte strings\<close>

lemma c_int_small: "n < 2 ^ 31 \<Longrightarrow> c_int n = int n"
  by (simp add: c_int_def signed_of_nat signed_take_bit_int_eq_self)

lemma length_strncpy [simp, len_simps]: "length (strncpy src n) = n"
proof -
  have "length (takeWhile (\<lambda>b. b \<noteq> 0) (take n src)) \<le> n"
    using length_takeWhile_le [of _ "take n src"] by (simp add: le_trans)
  then show ?thesis
    by (simp add: strncpy_def Let_def)
qed

lemma strncpy_nonzero: "0 \<notin> set (take n src) \<Longrightarrow> n \<le> length src \<Longrightarrow> strncpy src n = take n src"
proof -
  assume "0 \<notin> set (take n src)" "n \<le> length src"
  then have "takeWhile (\<lambda>b. b \<noteq> 0) (take n src) = take n src" "length (take n src) = n"
    by (auto simp: takeWhile_eq_all_conv)
  then show ?thesis
    by (simp only: strncpy_def Let_def) simp
qed

lemma length_str [simp]: "length (str s) = length s"
  by (simp add: str_def)

lemma length_memcpy_at [len_simps]:
  "ofs + length src \<le> length dst \<Longrightarrow> length (memcpy_at dst ofs src) = length dst"
  by (simp add: memcpy_at_def)

lemma take_memcpy_at_0 [simp]: "take (length src) (memcpy_at dst 0 src) = src"
  by (simp add: memcpy_at_def)

lemma take_memcpy_at_end:
  "ofs \<le> length dst \<Longrightarrow> take (ofs + length src) (memcpy_at dst ofs src) = take ofs dst @ src"
  by (simp add: memcpy_at_def)

lemma memcpy_at_append:
  "pos \<le> length dst \<Longrightarrow>
     memcpy_at (memcpy_at dst pos a) (pos + length a) b = memcpy_at dst pos (a @ b)"
  by (simp add: memcpy_at_def ac_simps)

lemma memcpy_at_full: "pos + length a = length dst \<Longrightarrow> memcpy_at dst pos a = take pos dst @ a"
  by (simp add: memcpy_at_def)

lemma memcpy_at_append_0: "memcpy_at (memcpy_at dst 0 a) (length a) b = memcpy_at dst 0 (a @ b)"
  using memcpy_at_append [of 0 dst a b] by simp

lemma memcpy_at_Nil [simp]: "memcpy_at dst pos [] = dst"
  by (simp add: memcpy_at_def)

lemma length_concat_map_const:
  "(\<And>x. x \<in> set xs \<Longrightarrow> length (f x) = h) \<Longrightarrow> length (concat (map f xs)) = length xs * h"
  by (induction xs) auto

lemma length_fresh [simp, len_simps]: "length (fresh lc n) = n"
  by (simp add: fresh_def)

lemma length_be16 [simp, len_simps]: "length (be16 n) = 2"
  by (simp add: be16_def)

lemma length_le32 [simp, len_simps]: "length (le32 w) = 4"
  by (simp add: le32_def)

lemma from_be16_be16: "n < 65536 \<Longrightarrow> from_be16 (be16 n ! 0) (be16 n ! 1) = n"
  by (simp add: from_be16_def be16_def unat_of_nat)

lemma unat_u8_less [simp]: "unat (a :: u8) < 256"
  using unsigned_less [of a, where ?'a = nat] by simp

lemma from_be16_bound: "from_be16 a b < 65536"
proof -
  have "unat a < 256" "unat b < 256"
    by simp_all
  then show ?thesis unfolding from_be16_def by linarith
qed

lemma c_div_nonneg: "0 \<le> a \<Longrightarrow> 0 < b \<Longrightarrow> c_div a b = a div b"
  by (cases "a = 0") (simp_all add: c_div_def)

lemma c_mod_nonneg: "0 \<le> a \<Longrightarrow> 0 < b \<Longrightarrow> c_mod a b = a mod b"
  by (simp add: c_mod_def c_div_nonneg minus_mult_div_eq_mod)

lemma map2_xor_involution:
  "length m \<le> length ks \<Longrightarrow> map2 (XOR) ks (map2 (XOR) ks m) = (m :: bytes)"
proof (induction ks m rule: list_induct2')
  case (4 k ks x m)
  then show ?case by (simp flip: xor.assoc)
qed auto

text \<open>Writing one byte of an array and reading another.\<close>

lemma nth_list_update_cases:
  "i < length xs \<Longrightarrow> xs[i := v] ! j = (if i = j then v else xs ! j)"
  by (simp add: nth_list_update)

end
