(* ===== verification/SS_Buffer.thy ===== *)
theory SS_Buffer
  imports SS_Prelude
begin

text \<open>
  The growable buffers of \<^verbatim>\<open>src/crypto.c\<close> (\<^verbatim>\<open>buffer_t\<close>): allocation, growth, release and
  prepending, with the invariant that the valid bytes lie inside an array of exactly
  \<open>capacity\<close> bytes. Since \<^const>\<open>memcpy_at\<close> lengthens a list it writes past, keeping the
  invariant includes that no operation writes outside its array.
\<close>

record buffer =
  idx :: nat
  len :: nat
  capacity :: nat
  data :: bytes

definition contents :: "buffer \<Rightarrow> bytes" where
  "contents b = take (len b) (data b)"

definition buf_wf :: "buffer \<Rightarrow> bool" where
  "buf_wf b \<longleftrightarrow> length (data b) = capacity b \<and> len b \<le> capacity b"

section \<open>Operations\<close>

text \<open>The allocators exit the process when memory runs out, so a call that returns has memory.\<close>

definition ss_malloc :: "libc \<Rightarrow> nat \<Rightarrow> bytes" where
  "ss_malloc lc n = fresh lc n"

definition ss_realloc :: "libc \<Rightarrow> bytes \<Rightarrow> nat \<Rightarrow> bytes" where
  "ss_realloc lc old n = take n (old @ fresh lc (n - length old))"

definition balloc :: "libc \<Rightarrow> nat \<Rightarrow> nat \<times> buffer" where
  "balloc lc cap = (cap, \<lparr>idx = 0, len = 0, capacity = cap, data = ss_malloc lc cap\<rparr>)"

text \<open>\<open>brealloc\<close> on a buffer, and with the test for a null pointer.\<close>

definition brealloc_buf :: "libc \<Rightarrow> buffer \<Rightarrow> nat \<Rightarrow> nat \<Rightarrow> buffer" where
  "brealloc_buf lc b n cap =
     (let real_capacity = max n cap
      in if capacity b < real_capacity
         then b\<lparr>data := ss_realloc lc (data b) real_capacity, capacity := real_capacity\<rparr>
         else b)"

definition brealloc :: "libc \<Rightarrow> buffer option \<Rightarrow> nat \<Rightarrow> nat \<Rightarrow> int \<times> buffer option" where
  "brealloc lc ptr n cap =
     (case ptr of
        None \<Rightarrow> (-1, None)
      | Some b \<Rightarrow> (int (max n cap), Some (brealloc_buf lc b n cap)))"

definition bfree :: "buffer option \<Rightarrow> buffer option" where
  "bfree ptr =
     (case ptr of
        None \<Rightarrow> None
      | Some b \<Rightarrow> Some (b\<lparr>idx := 0, len := 0, capacity := 0, data := []\<rparr>))"

definition bprepend :: "libc \<Rightarrow> buffer \<Rightarrow> buffer \<Rightarrow> nat \<Rightarrow> nat \<times> buffer" where
  "bprepend lc dst src cap =
     (let dst = brealloc_buf lc dst (len dst + len src) cap;
          d = memcpy_at (data dst) (len src) (take (len dst) (data dst));
          d = memcpy_at d 0 (take (len src) (data src));
          n = len dst + len src
      in (n, dst\<lparr>data := d, len := n\<rparr>))"

text \<open>
  The pattern every cipher ends with: \<^verbatim>\<open>brealloc(dst, n, capacity); memcpy(dst->data, bs, n);
  dst->len = n\<close>.
\<close>

definition bstore :: "libc \<Rightarrow> buffer \<Rightarrow> bytes \<Rightarrow> nat \<Rightarrow> buffer" where
  "bstore lc dst bs cap =
     (let dst = brealloc_buf lc dst (length bs) cap
      in dst\<lparr>data := memcpy_at (data dst) 0 bs, len := length bs\<rparr>)"

text \<open>Appending what another buffer holds, as the chunk reassembly does.\<close>

definition bappend :: "libc \<Rightarrow> buffer \<Rightarrow> bytes \<Rightarrow> nat \<Rightarrow> buffer" where
  "bappend lc dst bs cap =
     (let dst = brealloc_buf lc dst (len dst + length bs) cap
      in dst\<lparr>data := memcpy_at (data dst) (len dst) bs, len := len dst + length bs\<rparr>)"

text \<open>Dropping the first \<open>n\<close> valid bytes: \<^verbatim>\<open>memmove(data, data + n, len - n); len -= n\<close>.\<close>

definition bconsume :: "buffer \<Rightarrow> nat \<Rightarrow> buffer" where
  "bconsume b n = b\<lparr>data := memcpy_at (data b) 0 (take (len b - n) (drop n (data b))), len := len b - n\<rparr>"

section \<open>The invariant and the contents\<close>

lemma length_contents [simp, len_simps]: "buf_wf b \<Longrightarrow> length (contents b) = len b"
  by (simp add: contents_def buf_wf_def)

lemma balloc_wf [wf_intros]: "buf_wf (snd (balloc lc cap))"
  by (simp add: balloc_def buf_wf_def ss_malloc_def)

lemma balloc_contents [simp]: "contents (snd (balloc lc cap)) = []"
  by (simp add: balloc_def contents_def)

lemma ss_realloc_props:
  assumes "length old \<le> n"
  shows "length (ss_realloc lc old n) = n" and "take (length old) (ss_realloc lc old n) = old"
  using assms by (simp_all add: ss_realloc_def)

lemma brealloc_buf_props:
  assumes "buf_wf b"
  shows "buf_wf (brealloc_buf lc b n cap)"
    and "len (brealloc_buf lc b n cap) = len b"
    and "contents (brealloc_buf lc b n cap) = contents b"
    and "n \<le> capacity (brealloc_buf lc b n cap)"
    and "capacity b \<le> capacity (brealloc_buf lc b n cap)"
proof -
  let ?c = "max n cap"
  have t: "take m (ss_realloc lc (data b) ?c) = take m (data b)"
    if "capacity b < ?c" "m \<le> capacity b" for m
    using assms that by (simp add: ss_realloc_def buf_wf_def)
  show "buf_wf (brealloc_buf lc b n cap)"
    using assms ss_realloc_props(1) [of "data b" ?c lc]
    by (auto simp: brealloc_buf_def buf_wf_def Let_def)
  show "contents (brealloc_buf lc b n cap) = contents b"
    using assms t by (auto simp: brealloc_buf_def contents_def buf_wf_def Let_def)
qed (auto simp: brealloc_buf_def Let_def)

lemma bstore_props:
  assumes "buf_wf b"
  shows "buf_wf (bstore lc b bs cap)" and "contents (bstore lc b bs cap) = bs"
    and "len (bstore lc b bs cap) = length bs"
    and "capacity b \<le> capacity (bstore lc b bs cap)"
  using brealloc_buf_props(1,4,5) [OF assms, where lc = lc and n = "length bs" and cap = cap]
  by (auto simp: bstore_def Let_def buf_wf_def contents_def memcpy_at_def)

lemma bappend_props:
  assumes "buf_wf b"
  shows "buf_wf (bappend lc b bs cap)" and "contents (bappend lc b bs cap) = contents b @ bs"
proof -
  let ?g = "brealloc_buf lc b (len b + length bs) cap"
  have g: "buf_wf ?g" "len ?g = len b" "contents ?g = contents b" "len b + length bs \<le> capacity ?g"
    using brealloc_buf_props [OF assms] by auto
  show "buf_wf (bappend lc b bs cap)"
    using g by (simp add: bappend_def Let_def buf_wf_def length_memcpy_at)
  have "take (len b) (data ?g) = contents b"
    using g(2,3) by (simp add: contents_def)
  then show "contents (bappend lc b bs cap) = contents b @ bs"
    using g take_memcpy_at_end [of "len b" "data ?g" bs]
    by (simp add: bappend_def Let_def contents_def buf_wf_def)
qed

lemma bconsume_props:
  assumes "buf_wf b" and "n \<le> len b"
  shows "buf_wf (bconsume b n)" and "contents (bconsume b n) = drop n (contents b)"
    and "len (bconsume b n) = len b - n"
  using assms
  by (auto simp: bconsume_def buf_wf_def contents_def memcpy_at_def drop_take min_def)

lemma bprepend_props:
  assumes "buf_wf dst" and "buf_wf src"
  shows "buf_wf (snd (bprepend lc dst src cap))"
    and "contents (snd (bprepend lc dst src cap)) = contents src @ contents dst"
proof -
  let ?g = "brealloc_buf lc dst (len dst + len src) cap"
  have g: "buf_wf ?g" "len ?g = len dst" "contents ?g = contents dst" "len dst + len src \<le> capacity ?g"
    using brealloc_buf_props [OF assms(1)] by auto
  have gd: "take (len dst) (data ?g) = contents dst"
    using g(2,3) by (simp add: contents_def)
  have l: "length (contents src) = len src" "length (contents dst) = len dst"
    using assms by simp_all
  show "buf_wf (snd (bprepend lc dst src cap))"
    using g gd l assms
    by (simp add: bprepend_def Let_def buf_wf_def length_memcpy_at flip: contents_def)
  show "contents (snd (bprepend lc dst src cap)) = contents src @ contents dst"
    using g gd l assms(2) unfolding contents_def [of src, symmetric]
    by (simp add: bprepend_def Let_def contents_def [of "_\<lparr>data := _, len := _\<rparr>"]
        memcpy_at_def buf_wf_def flip: contents_def)
qed

end
