(* ===== verification/SS_Digest.thy ===== *)
theory SS_Digest
  imports SS_Prelude
begin

text \<open>
  The digests of mbed TLS that the key schedule uses: SHA-1 (\<^verbatim>\<open>mbedtls/library/sha1.c\<close>) for the
  session subkeys and MD5 (\<^verbatim>\<open>mbedtls/library/md5.c\<close>) for passwords. The two files share their
  context, the buffering of input and the padding, which are written once over the
  compression function; the theorems show that feeding a message piece by piece gives the
  digest of the whole.
\<close>

section \<open>The common context\<close>

record md_context =
  total0 :: u32
  total1 :: u32
  mstate :: "u32 list"
  mbuffer :: bytes

type_synonym compress = "u32 list \<Rightarrow> bytes \<Rightarrow> u32 list"

definition rotl :: "u32 \<Rightarrow> nat \<Rightarrow> u32" where
  "rotl x n = push_bit n x OR drop_bit (32 - n) x"

definition be32 :: "u32 \<Rightarrow> bytes" where
  "be32 w = [ucast (drop_bit 24 w), ucast (drop_bit 16 w), ucast (drop_bit 8 w), ucast w]"

definition GET_UINT32_BE :: "bytes \<Rightarrow> nat \<Rightarrow> u32" where
  "GET_UINT32_BE b i =
     push_bit 24 (ucast (b ! i)) OR push_bit 16 (ucast (b ! (i + 1)))
       OR push_bit 8 (ucast (b ! (i + 2))) OR ucast (b ! (i + 3))"

definition GET_UINT32_LE :: "bytes \<Rightarrow> nat \<Rightarrow> u32" where
  "GET_UINT32_LE b i = from_le32 (b ! i) (b ! (i + 1)) (b ! (i + 2)) (b ! (i + 3))"

text \<open>The loop over whole blocks of the input; the second component is what is left.\<close>

function md_absorb :: "compress \<Rightarrow> u32 list \<Rightarrow> bytes \<Rightarrow> u32 list \<times> bytes" where
  "md_absorb proc st input =
     (if 64 \<le> length input then md_absorb proc (proc st (take 64 input)) (drop 64 input)
      else (st, input))"
  by pat_completeness auto
termination
  by (relation "measure (\<lambda>(proc, st, input). length input)") auto

declare md_absorb.simps [simp del]

definition md_update :: "compress \<Rightarrow> md_context \<Rightarrow> bytes \<Rightarrow> md_context" where
  "md_update proc ctx input =
     (if length input = 0 then ctx
      else
        let ilen = length input;
            left = unat (total0 ctx AND 0x3F);
            fill = 64 - left;
            t0 = total0 ctx + of_nat ilen;
            t1 = (if t0 < of_nat ilen then total1 ctx + 1 else total1 ctx);
            (st, buf, input, left) =
              (if left \<noteq> 0 \<and> ilen \<ge> fill then
                 let buf = memcpy_at (mbuffer ctx) left (take fill input)
                 in (proc (mstate ctx) buf, buf, drop fill input, 0)
               else (mstate ctx, mbuffer ctx, input, left));
            (st, rest) = md_absorb proc st input
        in \<lparr>total0 = t0, total1 = t1, mstate = st,
            mbuffer = (if length rest > 0 then memcpy_at buf left rest else buf)\<rparr>)"

text \<open>Padding and the message length; \<open>put\<close> writes the two length words, \<open>out\<close> one state word.\<close>

definition md_finish ::
  "compress \<Rightarrow> (u32 \<Rightarrow> u32 \<Rightarrow> bytes) \<Rightarrow> (u32 \<Rightarrow> bytes) \<Rightarrow> md_context \<Rightarrow> bytes" where
  "md_finish proc put out ctx =
     (let used = unat (total0 ctx AND 0x3F);
          buf = (mbuffer ctx)[used := 0x80];
          used = used + 1;
          (st, buf) =
            (if used \<le> 56 then (mstate ctx, memcpy_at buf used (replicate (56 - used) 0))
             else let buf = memcpy_at buf used (replicate (64 - used) 0)
                  in (proc (mstate ctx) buf, memcpy_at buf 0 (replicate 56 0)));
          high = drop_bit 29 (total0 ctx) OR push_bit 3 (total1 ctx);
          low = push_bit 3 (total0 ctx);
          buf = memcpy_at buf 56 (put high low)
      in concat (map out (proc st buf)))"

section \<open>SHA-1\<close>

definition sha1_F :: "nat \<Rightarrow> u32 \<Rightarrow> u32 \<Rightarrow> u32 \<Rightarrow> u32" where
  "sha1_F t x y z =
     (if t < 20 then z XOR (x AND (y XOR z))
      else if t < 40 then x XOR y XOR z
      else if t < 60 then (x AND y) OR (z AND (x OR y))
      else x XOR y XOR z)"

definition sha1_K :: "nat \<Rightarrow> u32" where
  "sha1_K t = (if t < 20 then 0x5A827999 else if t < 40 then 0x6ED9EBA1
     else if t < 60 then 0x8F1BBCDC else 0xCA62C1D6)"

text \<open>
  One line \<open>P(a, b, c, d, e, x)\<close> of the unrolled rounds: \<open>x\<close> is \<open>W[t]\<close>, or \<open>R(t)\<close> from round 16
  on. The next line names the five variables one place further round.
\<close>

definition sha1_round ::
  "u32 list \<times> u32 \<times> u32 \<times> u32 \<times> u32 \<times> u32 \<Rightarrow> nat \<Rightarrow> u32 list \<times> u32 \<times> u32 \<times> u32 \<times> u32 \<times> u32" where
  "sha1_round = (\<lambda>(W, a, b, c, d, e) t.
     let W = (if t < 16 then W
              else W[t mod 16 := rotl (W ! ((t - 3) mod 16) XOR W ! ((t - 8) mod 16)
                                       XOR W ! ((t - 14) mod 16) XOR W ! (t mod 16)) 1]);
         x = W ! (t mod 16);
         e = e + (rotl a 5 + sha1_F t b c d + sha1_K t + x)
     in (W, e, a, rotl b 30, c, d))"

definition mbedtls_internal_sha1_process :: compress where
  "mbedtls_internal_sha1_process st data =
     (let W = map (\<lambda>i. GET_UINT32_BE data (4 * i)) [0..<16];
          (_, a, b, c, d, e) = foldl sha1_round (W, st ! 0, st ! 1, st ! 2, st ! 3, st ! 4) [0..<80]
      in [st ! 0 + a, st ! 1 + b, st ! 2 + c, st ! 3 + d, st ! 4 + e])"

definition mbedtls_sha1_starts_ret :: md_context where
  "mbedtls_sha1_starts_ret = \<lparr>total0 = 0, total1 = 0,
     mstate = [0x67452301, 0xEFCDAB89, 0x98BADCFE, 0x10325476, 0xC3D2E1F0],
     mbuffer = replicate 64 0\<rparr>"

definition mbedtls_sha1_update_ret :: "md_context \<Rightarrow> bytes \<Rightarrow> md_context" where
  "mbedtls_sha1_update_ret = md_update mbedtls_internal_sha1_process"

definition mbedtls_sha1_finish_ret :: "md_context \<Rightarrow> bytes" where
  "mbedtls_sha1_finish_ret =
     md_finish mbedtls_internal_sha1_process (\<lambda>high low. be32 high @ be32 low) be32"

definition mbedtls_sha1_ret :: "bytes \<Rightarrow> bytes" where
  "mbedtls_sha1_ret input = mbedtls_sha1_finish_ret (mbedtls_sha1_update_ret mbedtls_sha1_starts_ret input)"

section \<open>MD5\<close>

definition md5_F :: "nat \<Rightarrow> u32 \<Rightarrow> u32 \<Rightarrow> u32 \<Rightarrow> u32" where
  "md5_F i x y z =
     (if i < 16 then z XOR (x AND (y XOR z))
      else if i < 32 then y XOR (z AND (x XOR y))
      else if i < 48 then x XOR y XOR z
      else y XOR (x OR NOT z))"

text \<open>The arguments \<open>k\<close>, \<open>s\<close> and \<open>t\<close> of the 64 lines.\<close>

definition md5_steps :: "(nat \<times> nat \<times> u32) list" where
  "md5_steps =
    [(0, 7, 0xD76AA478), (1, 12, 0xE8C7B756), (2, 17, 0x242070DB), (3, 22, 0xC1BDCEEE),
     (4, 7, 0xF57C0FAF), (5, 12, 0x4787C62A), (6, 17, 0xA8304613), (7, 22, 0xFD469501),
     (8, 7, 0x698098D8), (9, 12, 0x8B44F7AF), (10, 17, 0xFFFF5BB1), (11, 22, 0x895CD7BE),
     (12, 7, 0x6B901122), (13, 12, 0xFD987193), (14, 17, 0xA679438E), (15, 22, 0x49B40821),
     (1, 5, 0xF61E2562), (6, 9, 0xC040B340), (11, 14, 0x265E5A51), (0, 20, 0xE9B6C7AA),
     (5, 5, 0xD62F105D), (10, 9, 0x02441453), (15, 14, 0xD8A1E681), (4, 20, 0xE7D3FBC8),
     (9, 5, 0x21E1CDE6), (14, 9, 0xC33707D6), (3, 14, 0xF4D50D87), (8, 20, 0x455A14ED),
     (13, 5, 0xA9E3E905), (2, 9, 0xFCEFA3F8), (7, 14, 0x676F02D9), (12, 20, 0x8D2A4C8A),
     (5, 4, 0xFFFA3942), (8, 11, 0x8771F681), (11, 16, 0x6D9D6122), (14, 23, 0xFDE5380C),
     (1, 4, 0xA4BEEA44), (4, 11, 0x4BDECFA9), (7, 16, 0xF6BB4B60), (10, 23, 0xBEBFBC70),
     (13, 4, 0x289B7EC6), (0, 11, 0xEAA127FA), (3, 16, 0xD4EF3085), (6, 23, 0x04881D05),
     (9, 4, 0xD9D4D039), (12, 11, 0xE6DB99E5), (15, 16, 0x1FA27CF8), (2, 23, 0xC4AC5665),
     (0, 6, 0xF4292244), (7, 10, 0x432AFF97), (14, 15, 0xAB9423A7), (5, 21, 0xFC93A039),
     (12, 6, 0x655B59C3), (3, 10, 0x8F0CCC92), (10, 15, 0xFFEFF47D), (1, 21, 0x85845DD1),
     (8, 6, 0x6FA87E4F), (15, 10, 0xFE2CE6E0), (6, 15, 0xA3014314), (13, 21, 0x4E0811A1),
     (4, 6, 0xF7537E82), (11, 10, 0xBD3AF235), (2, 15, 0x2AD7D2BB), (9, 21, 0xEB86D391)]"

definition md5_round ::
  "u32 list \<Rightarrow> u32 \<times> u32 \<times> u32 \<times> u32 \<Rightarrow> nat \<times> nat \<times> nat \<times> u32 \<Rightarrow> u32 \<times> u32 \<times> u32 \<times> u32" where
  "md5_round X = (\<lambda>(a, b, c, d) (i, k, s, t).
     let a = a + (md5_F i b c d + X ! k + t); a = rotl a s + b in (d, a, b, c))"

definition mbedtls_internal_md5_process :: compress where
  "mbedtls_internal_md5_process st data =
     (let X = map (\<lambda>i. GET_UINT32_LE data (4 * i)) [0..<16];
          (a, b, c, d) = foldl (md5_round X) (st ! 0, st ! 1, st ! 2, st ! 3) (zip [0..<64] md5_steps)
      in [st ! 0 + a, st ! 1 + b, st ! 2 + c, st ! 3 + d])"

definition mbedtls_md5_starts_ret :: md_context where
  "mbedtls_md5_starts_ret = \<lparr>total0 = 0, total1 = 0,
     mstate = [0x67452301, 0xEFCDAB89, 0x98BADCFE, 0x10325476], mbuffer = replicate 64 0\<rparr>"

definition mbedtls_md5_update_ret :: "md_context \<Rightarrow> bytes \<Rightarrow> md_context" where
  "mbedtls_md5_update_ret = md_update mbedtls_internal_md5_process"

definition mbedtls_md5_finish_ret :: "md_context \<Rightarrow> bytes" where
  "mbedtls_md5_finish_ret =
     md_finish mbedtls_internal_md5_process (\<lambda>high low. le32 low @ le32 high) le32"

definition mbedtls_md5_ret :: "bytes \<Rightarrow> bytes" where
  "mbedtls_md5_ret input = mbedtls_md5_finish_ret (mbedtls_md5_update_ret mbedtls_md5_starts_ret input)"

section \<open>Streaming\<close>

lemma md_absorb_short: "length x < 64 \<Longrightarrow> md_absorb proc st x = (st, x)"
  by (subst md_absorb.simps) simp

lemma md_absorb_block: "length b = 64 \<Longrightarrow> md_absorb proc st (b @ x) = md_absorb proc (proc st b) x"
  by (subst md_absorb.simps) simp

lemma md_absorb_append:
  "md_absorb proc st (a @ b) = (case md_absorb proc st a of (st', r) \<Rightarrow> md_absorb proc st' (r @ b))"
proof (induction proc st a rule: md_absorb.induct)
  case (1 proc st a)
  show ?case
  proof (cases "64 \<le> length a")
    case True
    then have "md_absorb proc st (a @ b) = md_absorb proc (proc st (take 64 a)) (drop 64 a @ b)"
      using md_absorb_block [of "take 64 a" proc st "drop 64 a @ b"] by (simp flip: append_assoc)
    also have "\<dots> = (case md_absorb proc (proc st (take 64 a)) (drop 64 a) of (st', r) \<Rightarrow> md_absorb proc st' (r @ b))"
      using 1 True by simp
    also have "md_absorb proc (proc st (take 64 a)) (drop 64 a) = md_absorb proc st a"
      using True by (simp add: md_absorb.simps [of proc st a])
    finally show ?thesis .
  qed (simp add: md_absorb_short)
qed

lemma md_absorb_rest: "length (snd (md_absorb proc st a)) = length a mod 64"
proof (induction proc st a rule: md_absorb.induct)
  case (1 proc st a)
  then show ?case
    by (cases "64 \<le> length a") (simp_all add: md_absorb.simps [of proc st a] le_mod_geq)
qed

text \<open>
  The context after some calls of \<open>update\<close> stands for the concatenation \<open>msg\<close> of their inputs:
  whole blocks are compressed, the rest waits in the buffer, and the 64-bit counter is the
  length.
\<close>

definition absorbed :: "compress \<Rightarrow> u32 list \<Rightarrow> bytes \<Rightarrow> md_context \<Rightarrow> bool" where
  "absorbed proc iv msg ctx \<longleftrightarrow>
     total0 ctx = of_nat (length msg) \<and> total1 ctx = of_nat (length msg div 2 ^ 32)
     \<and> length (mbuffer ctx) = 64
     \<and> md_absorb proc iv msg = (mstate ctx, take (length msg mod 64) (mbuffer ctx))"

lemma low_bits_64: "unat (of_nat n AND 0x3F :: u32) = n mod 64"
proof -
  have "(of_nat n AND 0x3F :: u32) = take_bit 6 (of_nat n)"
    by (simp add: take_bit_eq_mask mask_eq_exp_minus_1)
  also have "unat \<dots> = take_bit 6 n"
    by (simp add: unsigned_take_bit_eq unsigned_of_nat)
  finally show ?thesis by (simp add: take_bit_eq_mod)
qed

text \<open>The carry between the two counters.\<close>

lemma counter_carry:
  assumes "l < 2 ^ 32"
  shows "(of_nat (n + l) :: u32) < of_nat l \<longleftrightarrow> (n + l) div 2 ^ 32 = n div 2 ^ 32 + 1"
    and "\<not> (of_nat (n + l) :: u32) < of_nat l \<Longrightarrow> (n + l) div 2 ^ 32 = n div 2 ^ 32"
proof -
  let ?M = "2 ^ 32 :: nat"
  have lt: "(of_nat (n + l) :: u32) < of_nat l \<longleftrightarrow> (n + l) mod ?M < l"
    using assms by (simp add: word_less_nat_alt unsigned_of_nat take_bit_eq_mod del: of_nat_add)
  define q r where "q = n div ?M" and "r = n mod ?M"
  have n: "n = q * ?M + r" "r < ?M" by (simp_all add: q_def r_def)
  have nl: "n + l = q * ?M + (r + l)" using n(1) by simp
  have c: "(n + l) div ?M = q + (r + l) div ?M" "(n + l) mod ?M = (r + l) mod ?M"
    unfolding nl by simp_all
  show "(of_nat (n + l) :: u32) < of_nat l \<longleftrightarrow> (n + l) div ?M = n div ?M + 1"
  proof (cases "r + l < ?M")
    case True
    then show ?thesis unfolding lt c q_def [symmetric] by simp
  next
    case False
    then have "(r + l) div ?M = 1" "(r + l) mod ?M = r + l - ?M"
      using n(2) assms by (simp_all add: le_div_geq le_mod_geq)
    then show ?thesis unfolding lt c q_def [symmetric] using n(2) False by simp
  qed
  show "(n + l) div ?M = n div ?M" if "\<not> (of_nat (n + l) :: u32) < of_nat l"
    using that unfolding lt c q_def [symmetric]
    by (cases "r + l < ?M") (use n(2) assms in \<open>simp_all add: le_div_geq le_mod_geq\<close>)
qed

lemma starts_absorbed:
  "absorbed proc iv [] \<lparr>total0 = 0, total1 = 0, mstate = iv, mbuffer = replicate 64 0\<rparr>"
  by (simp add: absorbed_def md_absorb_short)

text \<open>
  What \<open>update\<close> does with a part block of \<open>u\<close> bytes in the buffer: complete it if the input
  reaches, else leave it.
\<close>

lemma absorb_part_block:
  assumes "length buf = 64" and "u < 64"
  shows "md_absorb proc st (take u buf @ x) =
    (if u \<noteq> 0 \<and> 64 - u \<le> length x
     then md_absorb proc (proc st (memcpy_at buf u (take (64 - u) x))) (drop (64 - u) x)
     else (fst (md_absorb proc st x), take u buf @ snd (md_absorb proc st x)))"
proof (cases "u \<noteq> 0 \<and> 64 - u \<le> length x")
  case True
  have "memcpy_at buf u (take (64 - u) x) = take u buf @ take (64 - u) x"
    using True assms by (simp add: memcpy_at_def)
  moreover have "md_absorb proc st ((take u buf @ take (64 - u) x) @ drop (64 - u) x) =
      md_absorb proc (proc st (take u buf @ take (64 - u) x)) (drop (64 - u) x)"
    using True assms by (intro md_absorb_block) simp
  ultimately show ?thesis using True by simp
next
  case False
  show ?thesis
  proof (cases "u = 0")
    case False
    with \<open>\<not> (u \<noteq> 0 \<and> 64 - u \<le> length x)\<close> assms have "length (take u buf @ x) < 64" "length x < 64" by simp_all
    with \<open>\<not> (u \<noteq> 0 \<and> 64 - u \<le> length x)\<close> show ?thesis by (auto simp: md_absorb_short)
  qed simp
qed

lemma update_absorbed:
  assumes "absorbed proc iv msg ctx" and "length x < 2 ^ 32"
  shows "absorbed proc iv (msg @ x) (md_update proc ctx x)"
proof (cases "x = []")
  case True
  with assms show ?thesis by (simp add: md_update_def)
next
  case False
  let ?u = "length msg mod 64" and ?old = "mbuffer ctx"
  let ?fills = "?u \<noteq> 0 \<and> 64 - ?u \<le> length x"
  define buf where "buf = (if ?fills then memcpy_at ?old ?u (take (64 - ?u) x) else ?old)"
  define left where "left = (if ?fills then 0 else ?u)"
  define ab where "ab = (if ?fills then md_absorb proc (proc (mstate ctx) buf) (drop (64 - ?u) x)
    else md_absorb proc (mstate ctx) x)"
  have a: "total0 ctx = of_nat (length msg)" "total1 ctx = of_nat (length msg div 2 ^ 32)" "length ?old = 64"
      "md_absorb proc iv msg = (mstate ctx, take ?u ?old)"
    using assms(1) by (simp_all add: absorbed_def)
  have res: "md_update proc ctx x = \<lparr>total0 = total0 ctx + of_nat (length x),
      total1 = (if total0 ctx + of_nat (length x) < of_nat (length x) then total1 ctx + 1 else total1 ctx),
      mstate = fst ab, mbuffer = (if length (snd ab) > 0 then memcpy_at buf left (snd ab) else buf)\<rparr>"
    using False by (auto simp: md_update_def Let_def a(1) low_bits_64 buf_def left_def ab_def split_beta)
  have "md_absorb proc iv (msg @ x) = md_absorb proc (mstate ctx) (take ?u ?old @ x)"
    by (subst md_absorb_append) (simp add: a(4))
  then have abs: "md_absorb proc iv (msg @ x) = (fst ab, take left ?old @ snd ab)"
    using absorb_part_block [OF a(3), of ?u proc "mstate ctx" x] by (auto simp: left_def ab_def buf_def)
  have ll: "left + length (snd ab) = (length msg + length x) mod 64"
    using arg_cong [OF abs, of "\<lambda>r. length (snd r)"] a(3) mod_less_divisor [of 64 "length msg"]
    by (auto simp: md_absorb_rest left_def split: if_splits)
  then have lt: "left + length (snd ab) < 64"
    using mod_less_divisor [of 64 "length msg + length x"] by linarith
  have bl: "take left buf = take left ?old" "length buf = 64"
    using a(3) mod_less_divisor [of 64 "length msg"] by (auto simp: buf_def left_def length_memcpy_at)
  show ?thesis
    unfolding absorbed_def res using abs bl ll lt a counter_carry [OF assms(2), of "length msg"]
    by (auto simp: length_memcpy_at memcpy_at_def)
qed

section \<open>Padding\<close>

text \<open>The message with its padding and its length in bits, modulo \<open>2 ^ 64\<close>, as two words.\<close>

definition md_pad :: "(u32 \<Rightarrow> u32 \<Rightarrow> bytes) \<Rightarrow> bytes \<Rightarrow> bytes" where
  "md_pad put msg = msg @ 0x80 # replicate ((119 - length msg mod 64) mod 64) 0
     @ put (of_nat (8 * length msg div 2 ^ 32)) (of_nat (8 * length msg))"

lemma bit_length_words:
  "drop_bit 29 (of_nat n) OR push_bit 3 (of_nat (n div 2 ^ 32)) = (of_nat (8 * n div 2 ^ 32) :: u32)"
  "push_bit 3 (of_nat n) = (of_nat (8 * n) :: u32)"
proof -
  have "8 * n div 2 ^ 32 = drop_bit 29 n"
    by (simp add: drop_bit_eq_div div_mult2_eq [of _ 8 "2 ^ 29", simplified])
  moreover have "n div 2 ^ 32 = drop_bit 32 n" by (simp add: drop_bit_eq_div)
  ultimately show "drop_bit 29 (of_nat n) OR push_bit 3 (of_nat (n div 2 ^ 32)) = (of_nat (8 * n div 2 ^ 32) :: u32)"
    by (auto intro!: bit_word_eqI simp: bit_simps)
  show "push_bit 3 (of_nat n) = (of_nat (8 * n) :: u32)"
    by (simp add: push_bit_eq_mult)
qed

lemma pad_mod: "(55 - u + 64) mod 64 = 55 - (u :: nat)"
  by simp

lemma finish_absorbed:
  assumes "absorbed proc iv msg ctx" and put: "\<And>h l. length (put h l) = 8"
  shows "md_finish proc put out ctx = concat (map out (fst (md_absorb proc iv (md_pad put msg))))"
proof -
  let ?u = "length msg mod 64" and ?buf = "mbuffer ctx"
  define pl where "pl = put (of_nat (8 * length msg div 2 ^ 32)) (of_nat (8 * length msg))"
  define r where "r = take ?u ?buf"
  have a: "total0 ctx = of_nat (length msg)" "total1 ctx = of_nat (length msg div 2 ^ 32)" "length ?buf = 64"
      "md_absorb proc iv msg = (mstate ctx, r)"
    using assms(1) by (simp_all add: absorbed_def r_def)
  have u: "?u < 64" "length r = ?u" "length pl = 8" using a(3) put by (simp_all add: r_def pl_def)
  have b1: "?buf[?u := 0x80] = r @ 0x80 # drop (?u + 1) ?buf"
    using a(3) u(1) by (simp add: r_def upd_conv_take_nth_drop)
  let ?fin = "\<lambda>st b. concat (map out (proc st b))"
  let ?b = "r @ 0x80 # drop (?u + 1) ?buf"
  have lb: "length ?b = 64" "take (?u + 1) ?b = r @ [0x80]" using a(3) u by simp_all
  have short: "memcpy_at (memcpy_at ?b (?u + 1) (replicate (55 - ?u) 0)) 56 pl = r @ 0x80 # replicate (55 - ?u) 0 @ pl"
    if "?u \<le> 55"
    using that lb u memcpy_at_append [of "?u + 1" ?b "replicate (55 - ?u) 0" pl]
      memcpy_at_full [of "?u + 1" "replicate (55 - ?u) 0 @ pl" ?b] by simp
  have long: "memcpy_at ?b (?u + 1) (replicate (63 - ?u) 0) = r @ 0x80 # replicate (63 - ?u) 0"
    using lb u memcpy_at_full [of "?u + 1" "replicate (63 - ?u) 0" ?b] by simp
  have last: "memcpy_at (memcpy_at b 0 (replicate 56 0)) 56 pl = replicate 56 0 @ pl" if "length b = 64" for b
    using that u(3) memcpy_at_append_0 [of b "replicate 56 0" pl] memcpy_at_full [of 0 "replicate 56 0 @ pl" b] by simp
  have pl_eq: "pl = put (drop_bit 29 (total0 ctx) OR push_bit 3 (total1 ctx)) (push_bit 3 (total0 ctx))"
    unfolding a(1,2) pl_def bit_length_words(1) unfolding bit_length_words(2) ..
  have "md_finish proc put out ctx =
      (if ?u + 1 \<le> 56 then ?fin (mstate ctx) (memcpy_at (memcpy_at ?b (?u + 1) (replicate (55 - ?u) 0)) 56 pl)
       else let b = memcpy_at ?b (?u + 1) (replicate (63 - ?u) 0)
            in ?fin (proc (mstate ctx) b) (memcpy_at (memcpy_at b 0 (replicate 56 0)) 56 pl))"
    unfolding md_finish_def Let_def pl_eq [symmetric] unfolding a(1) low_bits_64 b1 by simp
  then have fin: "md_finish proc put out ctx =
      (if ?u + 1 \<le> 56 then ?fin (mstate ctx) (r @ 0x80 # replicate (55 - ?u) 0 @ pl)
       else ?fin (proc (mstate ctx) (r @ 0x80 # replicate (63 - ?u) 0)) (replicate 56 0 @ pl))"
    using short long last [of "r @ 0x80 # replicate (63 - ?u) 0"] u by simp
  have abs: "md_absorb proc iv (md_pad put msg) =
      md_absorb proc (mstate ctx) (r @ 0x80 # replicate ((119 - ?u) mod 64) 0 @ pl)"
    unfolding md_pad_def pl_def [symmetric] by (subst md_absorb_append) (simp add: a(4))
  have one: "fst (md_absorb proc st b) = proc st b" if "length b = 64" for st b
    using md_absorb_block [OF that, of proc st "[]"] by (simp add: md_absorb_short)
  show ?thesis
  proof (cases "?u + 1 \<le> 56")
    case True
    then have "119 - ?u = (55 - ?u) + 64" by simp
    then have "(119 - ?u) mod 64 = 55 - ?u" by (metis pad_mod)
    then show ?thesis using True fin abs one u by simp
  next
    case False
    then have "119 - ?u < 64" "119 - ?u = (63 - ?u) + 56" using u(1) by simp_all
    then have "(119 - ?u) mod 64 = (63 - ?u) + 56" by (metis mod_less)
    then have eq: "r @ 0x80 # replicate ((119 - ?u) mod 64) 0 @ pl =
        (r @ 0x80 # replicate (63 - ?u) 0) @ (replicate 56 0 @ pl)"
      by (simp only: replicate_add append_assoc append_Cons)
    have "md_absorb proc iv (md_pad put msg) =
        md_absorb proc (proc (mstate ctx) (r @ 0x80 # replicate (63 - ?u) 0)) (replicate 56 0 @ pl)"
      unfolding abs eq using u by (intro md_absorb_block) simp
    then show ?thesis using False fin one u by simp
  qed
qed

lemma foldl_absorbed:
  assumes "absorbed proc iv msg ctx" and "\<forall>x \<in> set xs. length x < 2 ^ 32"
  shows "absorbed proc iv (msg @ concat xs) (foldl (md_update proc) ctx xs)"
  using assms
proof (induction xs arbitrary: msg ctx)
  case (Cons x xs)
  then show ?case using update_absorbed [of proc iv msg ctx x] by (auto simp flip: append_assoc)
qed simp

section \<open>The two digests\<close>

abbreviation sha1_iv :: "u32 list" where
  "sha1_iv \<equiv> mstate mbedtls_sha1_starts_ret"

abbreviation md5_iv :: "u32 list" where
  "md5_iv \<equiv> mstate mbedtls_md5_starts_ret"

lemma sha1_starts_absorbed: "absorbed proc sha1_iv [] mbedtls_sha1_starts_ret"
  using starts_absorbed [of proc sha1_iv] by (simp add: mbedtls_sha1_starts_ret_def)

lemma md5_starts_absorbed: "absorbed proc md5_iv [] mbedtls_md5_starts_ret"
  using starts_absorbed [of proc md5_iv] by (simp add: mbedtls_md5_starts_ret_def)

lemma length_be32 [simp, len_simps]: "length (be32 w) = 4"
  by (simp add: be32_def)

text \<open>Any division of the message over calls of \<open>update\<close> gives the padded Merkle-Damgard digest.\<close>

lemma sha1_pieces:
  assumes "\<forall>x \<in> set xs. length x < 2 ^ 32"
  shows "mbedtls_sha1_finish_ret (foldl mbedtls_sha1_update_ret mbedtls_sha1_starts_ret xs) =
    concat (map be32 (fst (md_absorb mbedtls_internal_sha1_process sha1_iv
      (md_pad (\<lambda>high low. be32 high @ be32 low) (concat xs)))))"
  using finish_absorbed [OF foldl_absorbed [OF sha1_starts_absorbed assms]]
  by (simp add: mbedtls_sha1_finish_ret_def mbedtls_sha1_update_ret_def)

lemma md5_pieces:
  assumes "\<forall>x \<in> set xs. length x < 2 ^ 32"
  shows "mbedtls_md5_finish_ret (foldl mbedtls_md5_update_ret mbedtls_md5_starts_ret xs) =
    concat (map le32 (fst (md_absorb mbedtls_internal_md5_process md5_iv
      (md_pad (\<lambda>high low. le32 low @ le32 high) (concat xs)))))"
  using finish_absorbed [OF foldl_absorbed [OF md5_starts_absorbed assms]]
  by (simp add: mbedtls_md5_finish_ret_def mbedtls_md5_update_ret_def)

lemma length_sha1_process: "length (mbedtls_internal_sha1_process st d) = 5"
  by (simp add: mbedtls_internal_sha1_process_def split_beta Let_def)

lemma length_md5_process: "length (mbedtls_internal_md5_process st d) = 4"
  by (simp add: mbedtls_internal_md5_process_def split_beta Let_def)

lemma length_concat_words: "(\<And>w. length (out w) = 4) \<Longrightarrow> length (concat (map out ws)) = 4 * length ws"
  using length_concat_map_const [of ws out 4] by simp

lemma length_mbedtls_sha1_ret [simp, len_simps]: "length (mbedtls_sha1_ret x) = 20"
  by (simp add: mbedtls_sha1_ret_def mbedtls_sha1_finish_ret_def md_finish_def Let_def split_beta
      length_concat_words length_sha1_process)

lemma length_mbedtls_md5_ret [simp, len_simps]: "length (mbedtls_md5_ret x) = 16"
  by (simp add: mbedtls_md5_ret_def mbedtls_md5_finish_ret_def md_finish_def Let_def split_beta
      length_concat_words length_md5_process)

end
