(* ===== verification/SS_Kdf.thy ===== *)
theory SS_Kdf
  imports SS_Digest
begin

text \<open>
  Key derivation: the HMAC of mbed TLS (\<^verbatim>\<open>mbedtls/library/md.c\<close>), HKDF and the
  password-to-key function of \<^verbatim>\<open>src/crypto.c\<close>. A digest is a record of its sizes and its hash
  function; the compression functions themselves (MD5, SHA-1) are parameters of the model.
  The theorems give each loop its reference definition (RFC 5869 for HKDF, the iterated
  digest of \<^verbatim>\<open>EVP_BytesToKey\<close> for the password).
\<close>

section \<open>Digests and HMAC\<close>

record digest =
  md_size :: nat
  md_block_size :: nat
  md_hash :: "bytes \<Rightarrow> bytes"

definition digest_ok :: "digest \<Rightarrow> bool" where
  "digest_ok md \<longleftrightarrow> 0 < md_size md \<and> md_size md \<le> md_block_size md
     \<and> (\<forall>x. length (md_hash md x) = md_size md)"

text \<open>The two descriptions that \<^verbatim>\<open>mbedtls_md_info_from_string\<close> is asked for.\<close>

definition mbedtls_sha1_info :: digest where
  "mbedtls_sha1_info = \<lparr>md_size = 20, md_block_size = 64, md_hash = mbedtls_sha1_ret\<rparr>"

definition mbedtls_md5_info :: digest where
  "mbedtls_md5_info = \<lparr>md_size = 16, md_block_size = 64, md_hash = mbedtls_md5_ret\<rparr>"

lemma digest_infos_ok: "digest_ok mbedtls_sha1_info" "digest_ok mbedtls_md5_info"
  by (simp_all add: digest_ok_def mbedtls_sha1_info_def mbedtls_md5_info_def)

text \<open>\<^verbatim>\<open>mbedtls_md_hmac_starts\<close>: the key, hashed first when it is longer than a block, and the two pads.\<close>

definition hmac_key :: "digest \<Rightarrow> bytes \<Rightarrow> bytes" where
  "hmac_key md key = (if length key > md_block_size md then md_hash md key else key)"

definition hmac_pad :: "digest \<Rightarrow> u8 \<Rightarrow> bytes \<Rightarrow> bytes" where
  "hmac_pad md c key = map (\<lambda>i. if i < length key then c XOR key ! i else c) [0..<md_block_size md]"

text \<open>
  A context between \<^verbatim>\<open>starts\<close> and \<^verbatim>\<open>finish\<close> is the message hashed so far and the outer pad.
\<close>

record hmac_ctx =
  hc_msg :: bytes
  hc_opad :: bytes

definition mbedtls_md_hmac_starts :: "digest \<Rightarrow> bytes \<Rightarrow> hmac_ctx" where
  "mbedtls_md_hmac_starts md key =
     (let k = hmac_key md key in \<lparr>hc_msg = hmac_pad md 0x36 k, hc_opad = hmac_pad md 0x5C k\<rparr>)"

definition mbedtls_md_hmac_update :: "hmac_ctx \<Rightarrow> bytes \<Rightarrow> hmac_ctx" where
  "mbedtls_md_hmac_update ctx input = ctx\<lparr>hc_msg := hc_msg ctx @ input\<rparr>"

definition mbedtls_md_hmac_finish :: "digest \<Rightarrow> hmac_ctx \<Rightarrow> bytes" where
  "mbedtls_md_hmac_finish md ctx =
     (let tmp = md_hash md (hc_msg ctx) in md_hash md (hc_opad ctx @ tmp))"

definition mbedtls_md_hmac :: "digest \<Rightarrow> bytes \<Rightarrow> bytes \<Rightarrow> bytes" where
  "mbedtls_md_hmac md key input =
     mbedtls_md_hmac_finish md (mbedtls_md_hmac_update (mbedtls_md_hmac_starts md key) input)"

section \<open>HKDF\<close>

definition CRYPTO_ERROR_rc :: int where
  "CRYPTO_ERROR_rc = -2"

text \<open>Each function returns its code and what it leaves in the output array.\<close>

definition crypto_hkdf_extract ::
  "digest \<Rightarrow> bytes option \<Rightarrow> int \<Rightarrow> bytes \<Rightarrow> int \<Rightarrow> bytes \<Rightarrow> int \<times> bytes" where
  "crypto_hkdf_extract md salt salt_len ikm ikm_len prk =
     (if salt_len < 0 then (CRYPTO_ERROR_rc, prk)
      else
        let hash_len = md_size md;
            s = (case salt of None \<Rightarrow> replicate hash_len 0 | Some s \<Rightarrow> take (nat salt_len) s)
        in (0, memcpy_at prk 0 (mbedtls_md_hmac md s (take (nat ikm_len) ikm))))"

text \<open>
  The loop of \<open>crypto_hkdf_expand\<close> with \<open>k\<close> rounds left; \<open>T\<close> holds the last block
  (nothing before the first round).
\<close>

fun hkdf_loop :: "digest \<Rightarrow> bytes \<Rightarrow> bytes \<Rightarrow> nat \<Rightarrow> nat \<Rightarrow> nat \<Rightarrow> bytes \<Rightarrow> nat \<Rightarrow> bytes \<Rightarrow> bytes" where
  "hkdf_loop md prk info okm_len 0 i T pos okm = okm"
| "hkdf_loop md prk info okm_len (Suc k) i T pos okm =
     (let c = of_nat i :: u8;
          ctx = mbedtls_md_hmac_starts md prk;
          ctx = mbedtls_md_hmac_update ctx T;
          ctx = mbedtls_md_hmac_update ctx info;
          ctx = mbedtls_md_hmac_update ctx [c];
          T = mbedtls_md_hmac_finish md ctx;
          n = (if k \<noteq> 0 then md_size md else okm_len - pos)
      in hkdf_loop md prk info okm_len k (Suc i) T (pos + md_size md) (memcpy_at okm pos (take n T)))"

definition crypto_hkdf_expand ::
  "digest \<Rightarrow> bytes \<Rightarrow> int \<Rightarrow> bytes option \<Rightarrow> int \<Rightarrow> bytes option \<Rightarrow> int \<Rightarrow> int \<times> bytes option" where
  "crypto_hkdf_expand md prk prk_len info info_len okm okm_len =
     (case okm of
        None \<Rightarrow> (CRYPTO_ERROR_rc, None)
      | Some out \<Rightarrow>
          if info_len < 0 \<or> okm_len < 0 then (CRYPTO_ERROR_rc, Some out)
          else
            let hash_len = int (md_size md)
            in if prk_len < hash_len then (CRYPTO_ERROR_rc, Some out)
            else
              let inf = (case info of None \<Rightarrow> [] | Some s \<Rightarrow> take (nat info_len) s);
                  N = c_div okm_len hash_len;
                  N = (if c_mod okm_len hash_len \<noteq> 0 then N + 1 else N)
              in if N > 255 then (CRYPTO_ERROR_rc, Some out)
                 else (0, Some (hkdf_loop md (take (nat prk_len) prk) inf (nat okm_len) (nat N) 1 [] 0 out)))"

text \<open>The two calls are joined by a C \<open>||\<close>: the code is 0 or 1.\<close>

definition crypto_hkdf ::
  "digest \<Rightarrow> bytes option \<Rightarrow> int \<Rightarrow> bytes \<Rightarrow> int \<Rightarrow> bytes option \<Rightarrow> int \<Rightarrow> bytes option \<Rightarrow> int
     \<Rightarrow> int \<times> bytes option" where
  "crypto_hkdf md salt salt_len ikm ikm_len info info_len okm okm_len =
     (case crypto_hkdf_extract md salt salt_len ikm ikm_len (replicate 64 0) of
        (e1, prk) \<Rightarrow>
          if e1 \<noteq> 0 then (1, okm)
          else case crypto_hkdf_expand md prk (int (md_size md)) info info_len okm okm_len of
            (e2, okm') \<Rightarrow> (if e2 \<noteq> 0 then 1 else 0, okm'))"

section \<open>Password to key\<close>

definition md5_size :: nat where
  "md5_size = 16"

text \<open>
  The two loops of \<open>crypto_derive_key\<close>. The index \<open>j\<close> is an \<^verbatim>\<open>unsigned int\<close> and wraps around, the length of the
  key is a \<^verbatim>\<open>size_t\<close>, and a write behind the array is a fault. The inner loop copies a digest until the key is full.
\<close>

fun copy_digest :: "nat \<Rightarrow> bytes \<Rightarrow> u32 \<Rightarrow> bytes \<Rightarrow> fault + u32 \<times> bytes" where
  "copy_digest key_len [] j key = Inr (j, key)"
| "copy_digest key_len (x # xs) j key =
     (if key_len \<le> unat j then Inr (j, key)
      else if unat j < length key then copy_digest key_len xs (j + 1) (key[unat j := x])
      else Inl OOB)"

text \<open>
  The outer loop: \<open>md_buf\<close> is the previous digest, absent in the first round (\<^verbatim>\<open>addmd\<close> is 0). It does
  not end for a key of \<open>2 ^ 32\<close> bytes or more, which is \<open>None\<close>.
\<close>

partial_function (option) derive_key_loop ::
  "(bytes \<Rightarrow> bytes) \<Rightarrow> bytes \<Rightarrow> nat \<Rightarrow> u32 \<Rightarrow> bytes option \<Rightarrow> bytes \<Rightarrow> (fault + bytes) option" where
  "derive_key_loop md5 pass key_len j md_buf key =
     (if unat j < key_len then
        let md_buf' = md5 ((case md_buf of None \<Rightarrow> [] | Some b \<Rightarrow> take md5_size b) @ pass)
        in (case copy_digest key_len (take md5_size md_buf') j key of
              Inl f \<Rightarrow> Some (Inl f)
            | Inr (j, key) \<Rightarrow> derive_key_loop md5 pass key_len j (Some md_buf') key)
      else Some (Inr key))"

text \<open>
  \<open>alloc\<close> is whether \<^verbatim>\<open>mbedtls_md_setup\<close> could allocate its contexts. The length is returned as an \<^verbatim>\<open>int\<close>.
\<close>

definition crypto_derive_key ::
  "bool \<Rightarrow> (bytes \<Rightarrow> bytes) \<Rightarrow> bytes \<Rightarrow> bytes \<Rightarrow> nat \<Rightarrow> (fault + int \<times> bytes) option" where
  "crypto_derive_key alloc md5 pass key key_len =
     (if \<not> alloc then Some (Inr (0, key))
      else map_option (map_sum id (Pair (sint (of_nat key_len :: u32)))) (derive_key_loop md5 pass key_len 0 None key))"

section \<open>HMAC and HKDF against their definitions\<close>

lemma length_hmac [len_simps]: "digest_ok md \<Longrightarrow> length (mbedtls_md_hmac md k x) = md_size md"
  by (simp add: mbedtls_md_hmac_def mbedtls_md_hmac_finish_def digest_ok_def)

lemma hmac_update_append:
  "mbedtls_md_hmac_update (mbedtls_md_hmac_update ctx a) b = mbedtls_md_hmac_update ctx (a @ b)"
  by (simp add: mbedtls_md_hmac_update_def)

text \<open>The blocks \<open>T(n)\<close> of RFC 5869, section 2.3, and the number of blocks for \<open>L\<close> octets.\<close>

fun hkdf_T :: "digest \<Rightarrow> bytes \<Rightarrow> bytes \<Rightarrow> nat \<Rightarrow> bytes" where
  "hkdf_T md prk info 0 = []"
| "hkdf_T md prk info (Suc n) = mbedtls_md_hmac md prk (hkdf_T md prk info n @ info @ [of_nat (Suc n)])"

definition ceil_div :: "nat \<Rightarrow> nat \<Rightarrow> nat" where
  "ceil_div n m = (if n mod m = 0 then n div m else n div m + 1)"

definition hkdf_okm :: "digest \<Rightarrow> bytes \<Rightarrow> bytes \<Rightarrow> nat \<Rightarrow> bytes" where
  "hkdf_okm md prk info L =
     take L (concat (map (hkdf_T md prk info) [1..<ceil_div L (md_size md) + 1]))"

lemma length_hkdf_T [len_simps]: "digest_ok md \<Longrightarrow> length (hkdf_T md prk info (Suc n)) = md_size md"
  by (simp add: len_simps)

text \<open>A list cut from \<open>k\<close> blocks, the last of them perhaps in part.\<close>

lemma take_blocks_Cons:
  assumes "length b = h" and "h \<le> n"
  shows "take n (b @ rest) = b @ take (n - h) rest"
  using assms by simp

lemma hkdf_loop_eq:
  assumes "digest_ok md" and "pos \<le> length okm" and "pos + (k - 1) * md_size md \<le> L"
    and "L \<le> pos + k * md_size md"
  shows "hkdf_loop md prk info L k (Suc i) (hkdf_T md prk info i) pos okm =
    memcpy_at okm pos (take (L - pos) (concat (map (hkdf_T md prk info) [Suc i..<Suc i + k])))"
  using assms(2-4)
proof (induction k arbitrary: i pos okm)
  case (Suc k)
  let ?T = "hkdf_T md prk info" and ?h = "md_size md"
  have len: "length (?T (Suc i)) = ?h" using assms(1) by (rule length_hkdf_T)
  have upt: "[Suc i..<Suc i + Suc k] = Suc i # [Suc (Suc i)..<Suc (Suc i) + k]"
    by (simp add: upt_rec)
  have step: "hkdf_loop md prk info L (Suc k) (Suc i) (?T i) pos okm =
      hkdf_loop md prk info L k (Suc (Suc i)) (?T (Suc i)) (pos + ?h)
        (memcpy_at okm pos (take (if k \<noteq> 0 then ?h else L - pos) (?T (Suc i))))"
    by (simp add: Let_def hmac_update_append mbedtls_md_hmac_def)
  show ?case
  proof (cases "k = 0")
    case True
    with step upt show ?thesis by simp
  next
    case False
    let ?okm = "memcpy_at okm pos (?T (Suc i))" and ?rest = "concat (map ?T [Suc (Suc i)..<Suc (Suc i) + k])"
    have k: "k = Suc (k - 1)" using False by simp
    have le: "pos + ?h \<le> L" using Suc.prems(2) False by (cases k) auto
    have bnd: "pos + ?h + (k - 1) * ?h \<le> L" "L \<le> pos + ?h + k * ?h"
      using Suc.prems(2,3) False by (cases k; simp add: algebra_simps)+
    have pl: "pos + ?h \<le> length ?okm" using Suc.prems(1) len by (simp add: memcpy_at_def)
    have "hkdf_loop md prk info L (Suc k) (Suc i) (?T i) pos okm =
        hkdf_loop md prk info L k (Suc (Suc i)) (?T (Suc i)) (pos + ?h) ?okm"
      using step False len by simp
    also have "\<dots> = memcpy_at ?okm (pos + ?h) (take (L - (pos + ?h)) ?rest)"
      using pl bnd by (rule Suc.IH)
    also have "\<dots> = memcpy_at okm pos (?T (Suc i) @ take (L - (pos + ?h)) ?rest)"
      using memcpy_at_append [OF Suc.prems(1), of "?T (Suc i)"] len by simp
    also have "?T (Suc i) @ take (L - (pos + ?h)) ?rest = take (L - pos) (?T (Suc i) @ ?rest)"
      using take_blocks_Cons [OF len, of "L - pos" ?rest] le by simp
    finally show ?thesis using upt by simp
  qed
qed simp

lemma ceil_div_bounds:
  assumes "0 < h"
  shows "(ceil_div n h - 1) * h \<le> n" and "n \<le> ceil_div n h * h"
proof -
  have "n div h * h \<le> n" "n \<le> n div h * h + h"
    using div_mult_mod_eq [of n h] mod_less_divisor [OF assms, of n] by linarith+
  then show "n \<le> ceil_div n h * h" "(ceil_div n h - 1) * h \<le> n"
    by (auto simp: ceil_div_def diff_mult_distrib)
qed

lemma length_hkdf_T_pos: "digest_ok md \<Longrightarrow> 0 < n \<Longrightarrow> length (hkdf_T md prk info n) = md_size md"
  by (cases n) (simp_all add: length_hmac)

lemma length_hkdf_okm [len_simps]:
  assumes "digest_ok md"
  shows "length (hkdf_okm md prk info L) = L"
proof -
  let ?h = "md_size md" and ?n = "ceil_div L (md_size md)"
  have "length (hkdf_T md prk info i) = ?h" if "i \<in> set [1..<?n + 1]" for i
    using that by (intro length_hkdf_T_pos [OF assms]) auto
  then have "length (concat (map (hkdf_T md prk info) [1..<?n + 1])) = ?n * ?h"
    using length_concat_map_const [of "[1..<?n + 1]" "hkdf_T md prk info" ?h] by simp
  then show ?thesis
    using ceil_div_bounds(2) [of ?h L] assms by (simp add: hkdf_okm_def digest_ok_def)
qed

lemma hkdf_rounds:
  assumes "0 < h"
  shows "(if c_mod (int n) (int h) \<noteq> 0 then c_div (int n) (int h) + 1 else c_div (int n) (int h))
           = int (ceil_div n h)"
  using assms
  by (simp add: ceil_div_def c_mod_nonneg c_div_nonneg flip: zdiv_int zmod_int)

text \<open>Both HKDF stages: the code's result on every call with a usable digest.\<close>

lemma crypto_hkdf_eq:
  assumes "digest_ok md" and "md_size md \<le> 64" and "L \<le> length out"
  shows "crypto_hkdf md (Some salt) (int (length salt)) ikm (int (length ikm))
            (Some info) (int (length info)) (Some out) (int L) =
     (if ceil_div L (md_size md) \<le> 255
      then (0, Some (memcpy_at out 0 (hkdf_okm md (mbedtls_md_hmac md salt ikm) info L)))
      else (1, Some out))"
proof -
  let ?h = "md_size md" and ?prk = "mbedtls_md_hmac md salt ikm"
  have h: "0 < ?h" using assms(1) by (simp add: digest_ok_def)
  have prk: "take ?h (memcpy_at (replicate 64 0) 0 ?prk) = ?prk"
    using length_hmac [OF assms(1), of salt ikm] assms(2) by (metis take_memcpy_at_0)
  have loop: "hkdf_loop md ?prk info L (ceil_div L ?h) 1 [] 0 out
      = memcpy_at out 0 (hkdf_okm md ?prk info L)"
    using hkdf_loop_eq [OF assms(1), of 0 out "ceil_div L ?h" L ?prk info 0]
      ceil_div_bounds [OF h, of L] by (simp add: hkdf_okm_def)
  show ?thesis
    using h prk loop hkdf_rounds [OF h, of L]
    by (simp add: crypto_hkdf_def crypto_hkdf_extract_def crypto_hkdf_expand_def CRYPTO_ERROR_rc_def
        Let_def)
qed

section \<open>The password-to-key function against its definition\<close>

text \<open>\<open>D\<close> of \<^verbatim>\<open>EVP_BytesToKey\<close>: each digest covers the one before it and the password.\<close>

fun evp_D :: "(bytes \<Rightarrow> bytes) \<Rightarrow> bytes \<Rightarrow> nat \<Rightarrow> bytes" where
  "evp_D md5 pass 0 = md5 pass"
| "evp_D md5 pass (Suc n) = md5 (evp_D md5 pass n @ pass)"

lemma length_evp_D [len_simps]: "(\<And>x. length (md5 x) = md5_size) \<Longrightarrow> length (evp_D md5 pass n) = md5_size"
  by (cases n) auto

definition evp_prev :: "(bytes \<Rightarrow> bytes) \<Rightarrow> bytes \<Rightarrow> nat \<Rightarrow> bytes option" where
  "evp_prev md5 pass i = (case i of 0 \<Rightarrow> None | Suc n \<Rightarrow> Some (evp_D md5 pass n))"

lemma derive_key_loop_done: "\<not> unat j < L \<Longrightarrow> derive_key_loop md5 pass L j b key = Some (Inr key)"
  by (subst derive_key_loop.simps) simp

lemma copy_digest_eq:
  assumes "L \<le> length key" "L < 2 ^ 32" "j \<le> L"
  shows "copy_digest L xs (of_nat j) key =
     Inr (of_nat (j + min (length xs) (L - j)), memcpy_at key j (take (min (length xs) (L - j)) xs))"
  using assms
proof (induction xs arbitrary: j key)
  case (Cons x xs)
  have j: "unat (of_nat j :: u32) = j" using Cons.prems by (simp add: unat_of_nat)
  show ?case
  proof (cases "j < L")
    case True
    then have "copy_digest L (x # xs) (of_nat j) key = copy_digest L xs (of_nat (Suc j)) (key[j := x])"
      using j Cons.prems by (simp add: add.commute)
    also have "\<dots> = Inr (of_nat (Suc j + min (length xs) (L - Suc j)),
        memcpy_at (key[j := x]) (Suc j) (take (min (length xs) (L - Suc j)) xs))"
      using Cons.IH [of "key[j := x]" "Suc j"] Cons.prems True by simp
    also have "memcpy_at (key[j := x]) (Suc j) (take n xs) = memcpy_at key j (x # take n xs)" for n
      using Cons.prems True by (simp add: memcpy_at_def take_Suc_conv_app_nth)
    also have "x # take (min (length xs) (L - Suc j)) xs = take (min (length (x # xs)) (L - j)) (x # xs)"
      using True by (simp flip: Suc_diff_Suc)
    also have "Suc j + min (length xs) (L - Suc j) = j + min (length (x # xs)) (L - j)" using True by simp
    finally show ?thesis .
  qed (use Cons.prems j in simp)
qed simp

lemma derive_key_loop_eq:
  assumes md5: "\<And>x. length (md5 x) = md5_size" and L: "L \<le> length key" "L < 2 ^ 32"
    and "j + (k - 1) * md5_size < L \<or> k = 0 \<and> L = j" and "L \<le> j + k * md5_size"
  shows "derive_key_loop md5 pass L (of_nat j) (evp_prev md5 pass i) key =
     Some (Inr (memcpy_at key j (take (L - j) (concat (map (evp_D md5 pass) [i..<i + k])))))"
  using L(1) assms(4,5)
proof (induction k arbitrary: i j key)
  case 0
  then have "unat (of_nat j :: u32) = j" using L(2) by (simp add: unat_of_nat)
  with 0 show ?case by (simp add: derive_key_loop_done)
next
  case (Suc k)
  let ?D = "evp_D md5 pass" and ?n = "min md5_size (L - j)"
  have len: "length (?D i) = md5_size" using md5 by (rule length_evp_D)
  have jL: "j < L" using Suc.prems(2) by auto
  then have uj: "unat (of_nat j :: u32) = j" using L(2) by (simp add: unat_of_nat)
  have d: "md5 ((case evp_prev md5 pass i of None \<Rightarrow> [] | Some b \<Rightarrow> take md5_size b) @ pass) = ?D i"
    using length_evp_D [OF md5, where pass = pass] by (cases i) (simp_all add: evp_prev_def)
  have upt: "[i..<i + Suc k] = i # [Suc i..<Suc i + k]" by (simp add: upt_rec)
  have step: "derive_key_loop md5 pass L (of_nat j) (evp_prev md5 pass i) key =
      derive_key_loop md5 pass L (of_nat (j + ?n)) (evp_prev md5 pass (Suc i)) (memcpy_at key j (take ?n (?D i)))"
    using jL uj d len copy_digest_eq [OF Suc.prems(1) L(2), of j "?D i"] by (subst derive_key_loop.simps) (simp add: evp_prev_def Let_def)
  show ?case
  proof (cases "k = 0")
    case True
    then have n: "?n = L - j" using Suc.prems(3) by simp
    have "derive_key_loop md5 pass L (of_nat (j + ?n)) b key' = Some (Inr key')" for b key'
      using n jL L(2) by (intro derive_key_loop_done) (simp add: unat_of_nat)
    with step n True upt len Suc.prems(3) show ?thesis by simp
  next
    case False
    let ?key = "memcpy_at key j (?D i)" and ?rest = "concat (map ?D [Suc i..<Suc i + k])"
    have n: "?n = md5_size" using Suc.prems(2) False by (cases k) auto
    have pl: "L \<le> length ?key" using Suc.prems(1) len by (simp add: memcpy_at_def)
    have bnd: "j + md5_size + (k - 1) * md5_size < L \<or> k = 0 \<and> L = j + md5_size"
        "L \<le> j + md5_size + k * md5_size"
      using Suc.prems(2,3) False by (cases k; simp add: algebra_simps)+
    have le: "md5_size \<le> L - j" "j \<le> length key" using n jL Suc.prems(1) by simp_all
    have "derive_key_loop md5 pass L (of_nat j) (evp_prev md5 pass i) key =
        Some (Inr (memcpy_at ?key (j + md5_size) (take (L - (j + md5_size)) ?rest)))"
      using step n len Suc.IH [OF pl bnd, of "Suc i"] by simp
    also have "memcpy_at ?key (j + md5_size) (take (L - (j + md5_size)) ?rest) = memcpy_at key j (?D i @ take (L - (j + md5_size)) ?rest)"
      using memcpy_at_append [OF le(2), of "?D i"] len by simp
    also have "?D i @ take (L - (j + md5_size)) ?rest = take (L - j) (?D i @ ?rest)"
      using take_blocks_Cons [OF len le(1), of ?rest] by simp
    finally show ?thesis using upt by simp
  qed
qed

lemma crypto_derive_key_eq:
  assumes "\<And>x. length (md5 x) = md5_size" "L \<le> length key" "L < 2 ^ 31"
  shows "crypto_derive_key True md5 pass key L =
     Some (Inr (int L, memcpy_at key 0 (take L (concat (map (evp_D md5 pass) [0..<ceil_div L md5_size])))))"
proof (cases "L = 0")
  case True
  then show ?thesis by (simp add: crypto_derive_key_def derive_key_loop_done ceil_div_def)
next
  case False
  have rc: "sint (of_nat L :: u32) = int L"
    using assms(3) by (simp add: sint_uint uint_nat unat_of_nat signed_take_bit_int_eq_self)
  have "0 + (ceil_div L md5_size - 1) * md5_size < L"
  proof (cases "L mod 16 = 0")
    case False
    then have "L div 16 * 16 < L" using div_mult_mod_eq [of L 16] by linarith
    with False show ?thesis by (simp add: ceil_div_def md5_size_def)
  qed (use False in \<open>simp add: ceil_div_def md5_size_def diff_mult_distrib\<close>)
  then show ?thesis
    using derive_key_loop_eq [of md5 L key 0 "ceil_div L md5_size" pass 0] assms
      ceil_div_bounds(2) [of md5_size L]
    by (simp add: crypto_derive_key_def rc evp_prev_def md5_size_def)
qed

end
