(* ===== verification/SS_Replay.thy ===== *)
theory SS_Replay
  imports SS_Bloom
begin

text \<open>
  What the ciphers rely on of the nonce store: the interface \<open>replay_filter\<close> (an element is
  recognised while fewer than \<open>window\<close> others were added after it) and its proof for the
  ping-pong Bloom filter of \<^verbatim>\<open>src/ppbloom.c\<close>.
\<close>

section \<open>The interface\<close>

locale replay_filter =
  fixes add :: "'s \<Rightarrow> bytes \<Rightarrow> 's"
    and seen :: "'s \<Rightarrow> bytes \<Rightarrow> bool"
    and invar :: "'s \<Rightarrow> bool"
    and window :: "'s \<Rightarrow> nat"
    and recalls :: "'s \<Rightarrow> bytes \<Rightarrow> nat \<Rightarrow> bool"
  assumes invar_add: "invar s \<Longrightarrow> invar (add s x)"
    and window_add: "window (add s x) = window s"
    and recalls_add: "invar s \<Longrightarrow> n < window s \<Longrightarrow> recalls (add s x) x n"
    and recalls_step: "invar s \<Longrightarrow> recalls s x (Suc n) \<Longrightarrow> recalls (add s y) x n"
    and recalls_seen: "invar s \<Longrightarrow> recalls s x n \<Longrightarrow> seen s x"
begin

lemma invar_foldl: "invar s \<Longrightarrow> invar (foldl add s ys)"
  by (induction ys arbitrary: s) (auto intro: invar_add)

lemma window_foldl: "window (foldl add s ys) = window s"
  by (induction ys arbitrary: s) (auto simp: window_add)

lemma recalls_foldl:
  "invar s \<Longrightarrow> recalls s x (length ys + n) \<Longrightarrow> recalls (foldl add s ys) x n"
  by (induction ys arbitrary: s) (auto intro: invar_add recalls_step)

lemma seen_within_window:
  assumes "invar s" and "length ys < window s"
  shows "seen (foldl add (add s x) ys) x"
proof -
  have i: "invar (add s x)" using assms(1) by (rule invar_add)
  have "recalls (add s x) x (length ys + 0)"
    using assms by (auto intro: recalls_add)
  with i have "recalls (foldl add (add s x) ys) x 0" by (rule recalls_foldl)
  with i show ?thesis by (blast intro: recalls_seen invar_foldl)
qed

end

section \<open>The ping-pong filter provides it\<close>

fun pp_flip :: "ppside \<Rightarrow> ppside" where
  "pp_flip PING = PONG"
| "pp_flip PONG = PING"

abbreviation pp_other :: "ppbloom \<Rightarrow> ppside" where
  "pp_other pp \<equiv> pp_flip (pp_current pp)"

lemma pp_flip_flip [simp]: "pp_flip (pp_flip s) = s"
  by (cases s) auto

lemma pp_flip_neq [simp]: "pp_flip s \<noteq> s" "s \<noteq> pp_flip s"
  by (cases s; simp)+

text \<open>
  The invariant: both filters are initialised, the parameters give usable sizes again when a
  side is cleared, and the count of the side in use has not reached the capacity.
\<close>

definition pp_wf :: "libc \<Rightarrow> ppbloom \<Rightarrow> bool" where
  "pp_wf lc pp \<longleftrightarrow> bloom_params_ok lc (pp_entries pp) (pp_error pp)
     \<and> bloom_wf (pp_bloom pp PING) \<and> bloom_wf (pp_bloom pp PONG)
     \<and> 0 \<le> pp_count pp (pp_current pp) \<and> pp_count pp (pp_current pp) < pp_entries pp
     \<and> pp_count pp (pp_other pp) = 0"

definition pp_add :: "libc \<Rightarrow> ppbloom \<Rightarrow> bytes \<Rightarrow> ppbloom" where
  "pp_add lc pp key = snd (ppbloom_add lc pp key)"

definition pp_seen :: "ppbloom \<Rightarrow> bytes \<Rightarrow> bool" where
  "pp_seen pp key \<longleftrightarrow> ppbloom_check pp key = 1"

text \<open>The element is found now and after \<open>n\<close> more additions.\<close>

definition pp_recalls :: "libc \<Rightarrow> ppbloom \<Rightarrow> bytes \<Rightarrow> nat \<Rightarrow> bool" where
  "pp_recalls lc pp key n \<longleftrightarrow>
     bloom_has (pp_bloom pp (pp_current pp)) key
       \<and> int n < 2 * pp_entries pp - pp_count pp (pp_current pp)
     \<or> bloom_has (pp_bloom pp (pp_other pp)) key
       \<and> int n < pp_entries pp - pp_count pp (pp_current pp)"

lemma pp_wf_side: "pp_wf lc pp \<Longrightarrow> bloom_wf (pp_bloom pp s)"
  by (cases s) (auto simp: pp_wf_def)

lemma ppbloom_check_iff:
  assumes "pp_wf lc pp"
  shows "ppbloom_check pp key = 1 \<longleftrightarrow>
     bloom_has (pp_bloom pp PING) key \<or> bloom_has (pp_bloom pp PONG) key"
    and "ppbloom_check pp key \<in> {0, 1}"
  using assms by (auto simp: ppbloom_check_def bloom_check_has pp_wf_def)

text \<open>The two ways \<open>ppbloom_add\<close> ends: the side in use has room left, or it is full.\<close>

lemma pp_add_room:
  assumes "pp_wf lc pp" and "pp_count pp (pp_current pp) + 1 < pp_entries pp"
  shows "ppbloom_add lc pp key =
     (0, pp\<lparr>pp_bloom := (pp_bloom pp)(pp_current pp := snd (bloom_add (pp_bloom pp (pp_current pp)) key)),
            pp_count := (pp_count pp)(pp_current pp := pp_count pp (pp_current pp) + 1)\<rparr>)"
  using assms bloom_add_props(1) [OF pp_wf_side [OF assms(1)], of "pp_current pp" key]
  by (simp add: ppbloom_add_def split_beta Let_def)

lemma pp_add_full:
  assumes "pp_wf lc pp" and "\<not> pp_count pp (pp_current pp) + 1 < pp_entries pp"
  shows "ppbloom_add lc pp key =
     (0, pp\<lparr>pp_bloom := (pp_bloom pp)
              (pp_current pp := snd (bloom_add (pp_bloom pp (pp_current pp)) key),
               pp_other pp := snd (bloom_init lc (bloom_free (pp_bloom pp (pp_other pp)))
                                     (pp_entries pp) (pp_error pp))),
            pp_count := (pp_count pp)(pp_current pp := 0),
            pp_current := pp_other pp\<rparr>)"
  using assms bloom_add_props(1) [OF pp_wf_side [OF assms(1)], of "pp_current pp" key]
  by (cases "pp_current pp") (simp_all add: ppbloom_add_def split_beta Let_def)

lemma pp_wf_alt:
  "pp_wf lc pp \<longleftrightarrow> bloom_params_ok lc (pp_entries pp) (pp_error pp)
     \<and> bloom_wf (pp_bloom pp (pp_current pp)) \<and> bloom_wf (pp_bloom pp (pp_other pp))
     \<and> 0 \<le> pp_count pp (pp_current pp) \<and> pp_count pp (pp_current pp) < pp_entries pp
     \<and> pp_count pp (pp_other pp) = 0"
  by (cases "pp_current pp") (auto simp: pp_wf_def)

text \<open>The effect of an addition, by whether the side in use has room.\<close>

lemma pp_add_state:
  assumes "pp_wf lc pp"
  shows "pp_entries (pp_add lc pp key) = pp_entries pp"
    and "pp_error (pp_add lc pp key) = pp_error pp"
    and "pp_wf lc (pp_add lc pp key)"
  using assms bloom_add_props(2) [OF pp_wf_side [OF assms]]
    bloom_init_wf(2) [of lc "pp_entries pp" "pp_error pp"]
  by (cases "pp_count pp (pp_current pp) + 1 < pp_entries pp";
      simp add: pp_add_def pp_add_room pp_add_full pp_wf_alt)+

lemma pp_recalls_add:
  assumes "pp_wf lc pp" and "int n < pp_entries pp"
  shows "pp_recalls lc (pp_add lc pp key) key n"
  using assms bloom_add_props(3) [OF pp_wf_side [OF assms(1)]]
  by (cases "pp_count pp (pp_current pp) + 1 < pp_entries pp")
     (auto simp: pp_add_def pp_add_room pp_add_full pp_recalls_def pp_wf_alt)

lemma pp_recalls_step:
  assumes "pp_wf lc pp" and "pp_recalls lc pp key (Suc n)"
  shows "pp_recalls lc (pp_add lc pp key') key n"
  using assms bloom_add_props(4) [OF pp_wf_side [OF assms(1)]]
  by (cases "pp_count pp (pp_current pp) + 1 < pp_entries pp")
     (auto simp: pp_add_def pp_add_room pp_add_full pp_recalls_def pp_wf_alt)

lemma pp_recalls_seen: "pp_wf lc pp \<Longrightarrow> pp_recalls lc pp key n \<Longrightarrow> pp_seen pp key"
  by (cases "pp_current pp")
     (auto simp: pp_seen_def ppbloom_check_iff pp_recalls_def)

interpretation ppf: replay_filter "pp_add lc" pp_seen "pp_wf lc" "\<lambda>pp. nat (pp_entries pp)" "pp_recalls lc"
  for lc
proof (unfold_locales, goal_cases)
  case (1 s x)
  then show ?case by (rule pp_add_state(3))
next
  case (2 s x)
  then show ?case
    by (simp add: pp_add_def ppbloom_add_def split_beta Let_def)
next
  case (3 s n x)
  then show ?case by (auto intro: pp_recalls_add)
next
  case (4 s x n y)
  then show ?case by (rule pp_recalls_step)
next
  case (5 s x n)
  then show ?case by (rule pp_recalls_seen)
qed

lemmas pp_seen_within_window = ppf.seen_within_window

section \<open>Initialisation\<close>

lemma ppbloom_init_wf:
  assumes "bloom_params_ok lc (c_div n 2) e"
  shows "fst (ppbloom_init lc pp n e) = 0"
    and "pp_wf lc (snd (ppbloom_init lc pp n e))"
    and "pp_entries (snd (ppbloom_init lc pp n e)) = c_div n 2"
proof -
  have i: "fst (bloom_init lc bl (c_div n 2) e) = 0" "bloom_wf (snd (bloom_init lc bl (c_div n 2) e))" for bl
    using assms by (rule bloom_init_wf)+
  have "1 \<le> c_div n 2"
    using assms by (simp add: bloom_params_ok_def)
  then show "fst (ppbloom_init lc pp n e) = 0"
    and "pp_wf lc (snd (ppbloom_init lc pp n e))"
    and "pp_entries (snd (ppbloom_init lc pp n e)) = c_div n 2"
    using i assms by (simp_all add: ppbloom_init_def split_beta Let_def pp_wf_def)
qed

lemma ppbloom_init_empty:
  assumes "bloom_params_ok lc (c_div n 2) e" and "0 < snd (bloom_sizes lc (c_div n 2) e)"
  shows "ppbloom_check (snd (ppbloom_init lc pp n e)) key = 0"
proof -
  let ?pp = "snd (ppbloom_init lc pp n e)"
  have wf: "pp_wf lc ?pp" using assms(1) by (rule ppbloom_init_wf)
  have "\<not> bloom_has (pp_bloom ?pp s) key" for s
    using bloom_init_wf(1) [OF assms(1)] bloom_init_empty [OF assms]
    by (cases s) (simp_all add: ppbloom_init_def split_beta Let_def)
  then show ?thesis using ppbloom_check_iff [OF wf] by auto
qed

end
