(* ===== verification/SS_Chacha.thy ===== *)
theory SS_Chacha
  imports SS_Prelude
begin

text \<open>
  The ChaCha20 stream cipher of libsodium (\<^verbatim>\<open>crypto_stream/chacha20/ref/chacha20_ref.c\<close>,
  \<^verbatim>\<open>crypto_stream/chacha20/stream_chacha20.c\<close>, \<^verbatim>\<open>crypto_core/hchacha20/core_hchacha20.c\<close>), in
  the order of the code: the quarter round, the key and nonce set-up, the block loop with its
  padded last block. The theorems: the loop XORs the message with a keystream that the key,
  the nonce and the counter determine, so it keeps the length and is its own inverse.
\<close>

section \<open>Quarter round and blocks\<close>

type_synonym chacha_state = "u32 list"

definition quarterround :: "nat \<Rightarrow> nat \<Rightarrow> nat \<Rightarrow> nat \<Rightarrow> chacha_state \<Rightarrow> chacha_state" where
  "quarterround a b c d x =
     (let x = x[a := x ! a + x ! b];
          x = x[d := word_rotl 16 (x ! d XOR x ! a)];
          x = x[c := x ! c + x ! d];
          x = x[b := word_rotl 12 (x ! b XOR x ! c)];
          x = x[a := x ! a + x ! b];
          x = x[d := word_rotl 8 (x ! d XOR x ! a)];
          x = x[c := x ! c + x ! d];
          x = x[b := word_rotl 7 (x ! b XOR x ! c)]
      in x)"

definition doubleround :: "chacha_state \<Rightarrow> chacha_state" where
  "doubleround x =
     (let x = quarterround 0 4 8 12 x;
          x = quarterround 1 5 9 13 x;
          x = quarterround 2 6 10 14 x;
          x = quarterround 3 7 11 15 x;
          x = quarterround 0 5 10 15 x;
          x = quarterround 1 6 11 12 x;
          x = quarterround 2 7 8 13 x;
          x = quarterround 3 4 9 14 x
      in x)"

fun doublerounds :: "nat \<Rightarrow> chacha_state \<Rightarrow> chacha_state" where
  "doublerounds 0 x = x"
| "doublerounds (Suc n) x = doublerounds n (doubleround x)"

definition load32_le :: "bytes \<Rightarrow> nat \<Rightarrow> u32" where
  "load32_le bs i = from_le32 (bs ! i) (bs ! (i + 1)) (bs ! (i + 2)) (bs ! (i + 3))"

definition load32s :: "nat \<Rightarrow> bytes \<Rightarrow> u32 list" where
  "load32s n bs = map (\<lambda>i. load32_le bs (4 * i)) [0..<n]"

definition store32s :: "u32 list \<Rightarrow> bytes" where
  "store32s ws = concat (map le32 ws)"

section \<open>Set-up\<close>

definition chacha_keysetup :: "bytes \<Rightarrow> u32 list" where
  "chacha_keysetup k = [0x61707865, 0x3320646e, 0x79622d32, 0x6b206574] @ load32s 8 k"

text \<open>The 64-bit counter and 8-byte nonce of the original cipher, and the IETF variant.\<close>

definition chacha_ivsetup :: "u32 list \<Rightarrow> bytes \<Rightarrow> bytes option \<Rightarrow> chacha_state" where
  "chacha_ivsetup input iv counter =
     take 12 input @
     (case counter of None \<Rightarrow> [0, 0] | Some c \<Rightarrow> [load32_le c 0, load32_le c 4]) @
     [load32_le iv 0, load32_le iv 4]"

definition chacha_ietf_ivsetup :: "u32 list \<Rightarrow> bytes \<Rightarrow> bytes option \<Rightarrow> chacha_state" where
  "chacha_ietf_ivsetup input iv counter =
     take 12 input @
     [case counter of None \<Rightarrow> 0 | Some c \<Rightarrow> load32_le c 0,
      load32_le iv 0, load32_le iv 4, load32_le iv 8]"

section \<open>The block loop\<close>

definition chacha_next :: "chacha_state \<Rightarrow> chacha_state" where
  "chacha_next j =
     (let j = j[12 := j ! 12 + 1] in if j ! 12 = 0 then j[13 := j ! 13 + 1] else j)"

text \<open>
  One turn of the loop on a whole block: twenty rounds, the feed-forward, the XOR with the
  message words, and the store.
\<close>

definition chacha_block :: "chacha_state \<Rightarrow> bytes \<Rightarrow> bytes" where
  "chacha_block j m =
     (let x = doublerounds 10 j;
          x = map2 (+) x j;
          x = map2 (XOR) x (load32s 16 m)
      in store32s x)"

function chacha20_loop :: "chacha_state \<Rightarrow> bytes \<Rightarrow> bytes \<times> chacha_state" where
  "chacha20_loop j m =
     (let tmp = (if length m < 64 then m @ replicate (64 - length m) 0 else take 64 m);
          c = chacha_block j tmp;
          j' = chacha_next j
      in if length m \<le> 64 then (take (length m) c, j')
         else case chacha20_loop j' (drop 64 m) of (rest, j'') \<Rightarrow> (c @ rest, j''))"
  by pat_completeness auto
termination
  by (relation "measure (\<lambda>(j, m). length m)") auto

declare chacha20_loop.simps [simp del]

definition chacha20_encrypt_bytes :: "chacha_state \<Rightarrow> bytes \<Rightarrow> bytes \<times> chacha_state" where
  "chacha20_encrypt_bytes ctx m = (if m = [] then ([], ctx) else chacha20_loop ctx m)"

definition stream_ietf_ext_ref :: "nat \<Rightarrow> bytes \<Rightarrow> bytes \<Rightarrow> bytes" where
  "stream_ietf_ext_ref clen n k =
     (if clen = 0 then []
      else fst (chacha20_encrypt_bytes (chacha_ietf_ivsetup (chacha_keysetup k) n None) (replicate clen 0)))"

definition stream_ietf_ext_ref_xor_ic :: "bytes \<Rightarrow> bytes \<Rightarrow> u32 \<Rightarrow> bytes \<Rightarrow> bytes" where
  "stream_ietf_ext_ref_xor_ic m n ic k =
     (if m = [] then []
      else fst (chacha20_encrypt_bytes (chacha_ietf_ivsetup (chacha_keysetup k) n (Some (le32 ic))) m))"

definition stream_ref_xor_ic :: "bytes \<Rightarrow> bytes \<Rightarrow> u64 \<Rightarrow> bytes \<Rightarrow> bytes" where
  "stream_ref_xor_ic m n ic k =
     (if m = [] then []
      else
        let ic_high = ucast (drop_bit 32 ic) :: u32; ic_low = ucast ic :: u32
        in fst (chacha20_encrypt_bytes
                  (chacha_ivsetup (chacha_keysetup k) n (Some (le32 ic_low @ le32 ic_high))) m))"

section \<open>HChaCha20\<close>

definition crypto_core_hchacha20 :: "bytes \<Rightarrow> bytes \<Rightarrow> bytes option \<Rightarrow> bytes" where
  "crypto_core_hchacha20 inp k c =
     (let x = (case c of
                 None \<Rightarrow> [0x61707865, 0x3320646e, 0x79622d32, 0x6b206574]
               | Some c \<Rightarrow> load32s 4 c) @ load32s 8 k @ load32s 4 inp;
          x = doublerounds 10 x
      in store32s (take 4 x @ drop 12 x))"

section \<open>Lengths\<close>

lemma length_quarterround [simp, len_simps]: "length (quarterround a b c d x) = length x"
  by (simp add: quarterround_def Let_def)

lemma length_doubleround [simp, len_simps]: "length (doubleround x) = length x"
  by (simp add: doubleround_def Let_def)

lemma length_doublerounds [simp, len_simps]: "length (doublerounds n x) = length x"
  by (induction n arbitrary: x) auto

lemma length_load32s [simp, len_simps]: "length (load32s n bs) = n"
  by (simp add: load32s_def)

lemma length_store32s [simp, len_simps]: "length (store32s ws) = 4 * length ws"
  by (induction ws) (auto simp: store32s_def)

lemma length_chacha_next [simp, len_simps]: "length (chacha_next j) = length j"
  by (simp add: chacha_next_def Let_def)

lemma length_keysetup [simp, len_simps]: "length (chacha_keysetup k) = 12"
  by (simp add: chacha_keysetup_def)

lemma length_ivsetup [simp, len_simps]:
  "length i = 12 \<Longrightarrow> length (chacha_ietf_ivsetup i iv c) = 16"
  "length i = 12 \<Longrightarrow> length (chacha_ivsetup i iv c) = 16"
  by (simp_all add: chacha_ietf_ivsetup_def chacha_ivsetup_def split: option.splits)

lemma length_hchacha20 [simp, len_simps]: "length (crypto_core_hchacha20 inp k c) = 32"
  by (simp add: crypto_core_hchacha20_def Let_def split: option.splits)

section \<open>The output is the message XORed with a keystream\<close>

lemma u8_bit_beyond: "8 \<le> n \<Longrightarrow> bit (a :: u8) n = False"
  using bit_imp_le_length [of a n] by auto

lemma le32_xor: "le32 (x XOR from_le32 a b c d) = map2 (XOR) (le32 x) [a, b, c, d]"
  by (simp add: le32_def from_le32_def) (auto intro!: bit_eqI simp: bit_simps u8_bit_beyond)

lemma four_bytesE:
  "length bs = Suc (Suc (Suc (Suc n))) \<Longrightarrow> \<exists>a b c d rest. bs = a # b # c # d # rest \<and> length rest = n"
  by (auto simp: length_Suc_conv)

lemma store32s_xor:
  "length bs = 4 * length ws \<Longrightarrow>
     store32s (map2 (XOR) ws (load32s (length ws) bs)) = map2 (XOR) (store32s ws) bs"
proof (induction ws arbitrary: bs)
  case (Cons w ws)
  then obtain a b c d rest where bs: "bs = a # b # c # d # rest" and l: "length rest = 4 * length ws"
    using four_bytesE [of bs "4 * length ws"] by auto
  have "load32s (length (w # ws)) bs = from_le32 a b c d # load32s (length ws) rest"
    by (simp add: load32s_def load32_le_def bs upt_conv_Cons map_Suc_upt [symmetric] add.commute del: upt_Suc)
  then show ?case
    using Cons.IH [OF l] by (simp add: bs store32s_def le32_xor) (simp add: le32_def)
qed (simp add: store32s_def)

text \<open>The keystream: the blocks of the states from \<open>j\<close> on.\<close>

definition keyblock :: "chacha_state \<Rightarrow> bytes" where
  "keyblock j = store32s (map2 (+) (doublerounds 10 j) j)"

fun keystream :: "nat \<Rightarrow> chacha_state \<Rightarrow> bytes" where
  "keystream 0 j = []"
| "keystream (Suc n) j = keyblock j @ keystream n (chacha_next j)"

lemma length_keyblock [simp, len_simps]: "length j = 16 \<Longrightarrow> length (keyblock j) = 64"
  by (simp add: keyblock_def)

lemma length_keystream [simp, len_simps]: "length j = 16 \<Longrightarrow> length (keystream n j) = 64 * n"
  by (induction n arbitrary: j) auto

lemma chacha_block_xor:
  assumes "length j = 16" and "length m = 64"
  shows "chacha_block j m = map2 (XOR) (keyblock j) m"
proof -
  have "length (map2 (+) (doublerounds 10 j) j) = 16" using assms by simp
  then show ?thesis
    using store32s_xor [of m "map2 (+) (doublerounds 10 j) j"] assms
    by (simp only: chacha_block_def keyblock_def Let_def)
qed

text \<open>Number of blocks for a message.\<close>

definition nblocks :: "bytes \<Rightarrow> nat" where
  "nblocks m = (length m + 63) div 64"

lemma map2_take_left: "map2 f (take (length xs) ks) xs = map2 f ks xs"
  by (induction ks xs rule: list_induct2') auto

lemma chacha20_loop_xor:
  assumes "length j = 16" and "m \<noteq> []"
  shows "fst (chacha20_loop j m) = map2 (XOR) (keystream (nblocks m) j) m"
  using assms
proof (induction j m rule: chacha20_loop.induct)
  case (1 j m)
  let ?tmp = "if length m < 64 then m @ replicate (64 - length m) 0 else take 64 m"
  have blk: "chacha_block j ?tmp = map2 (XOR) (keyblock j) ?tmp"
    using "1.prems" by (intro chacha_block_xor) auto
  show ?case
  proof (cases "length m \<le> 64")
    case True
    have "nblocks m = 1"
      using "1.prems"(2) True by (cases m) (auto simp: nblocks_def)
    moreover have "take (length m) (map2 (XOR) (keyblock j) ?tmp) = map2 (XOR) (keyblock j) m"
      using "1.prems" True by (auto simp: take_map take_zip map2_take_left)
    ultimately show ?thesis
      using True blk by (subst chacha20_loop.simps) (simp add: Let_def)
  next
    case False
    then have nb: "nblocks m = Suc (nblocks (drop 64 m))"
      by (simp add: nblocks_def)
    have ih: "fst (chacha20_loop (chacha_next j) (drop 64 m)) =
        map2 (XOR) (keystream (nblocks (drop 64 m)) (chacha_next j)) (drop 64 m)"
      using "1.IH" [OF refl refl refl False] "1.prems" False by simp
    have "map2 (XOR) (keystream (nblocks m) j) m =
        map2 (XOR) (keyblock j) (take 64 m) @
        map2 (XOR) (keystream (nblocks (drop 64 m)) (chacha_next j)) (drop 64 m)"
      using "1.prems" False nb by (simp add: zip_append1)
    then show ?thesis
      using False blk ih by (subst chacha20_loop.simps) (simp add: Let_def split_beta)
  qed
qed

lemma nblocks_enough: "length m \<le> 64 * nblocks m"
  by (simp add: nblocks_def)

lemma stream_ietf_ext_ref_xor_ic_eq:
  "stream_ietf_ext_ref_xor_ic m n ic k =
     map2 (XOR) (keystream (nblocks m) (chacha_ietf_ivsetup (chacha_keysetup k) n (Some (le32 ic)))) m"
  by (cases "m = []")
     (simp_all add: stream_ietf_ext_ref_xor_ic_def chacha20_encrypt_bytes_def chacha20_loop_xor)

lemma stream_ref_xor_ic_eq:
  "stream_ref_xor_ic m n ic k =
     map2 (XOR) (keystream (nblocks m) (chacha_ivsetup (chacha_keysetup k) n
       (Some (le32 (ucast ic) @ le32 (ucast (drop_bit 32 ic)))))) m"
  by (cases "m = []")
     (simp_all add: stream_ref_xor_ic_def chacha20_encrypt_bytes_def chacha20_loop_xor Let_def)

text \<open>Both stream functions keep the length and undo themselves.\<close>

lemma length_stream_xor [simp, len_simps]:
  "length (stream_ietf_ext_ref_xor_ic m n ic k) = length m"
  "length (stream_ref_xor_ic m n ic' k) = length m"
  using nblocks_enough [of m] by (simp_all add: stream_ietf_ext_ref_xor_ic_eq stream_ref_xor_ic_eq)

lemma stream_xor_involution:
  "stream_ietf_ext_ref_xor_ic (stream_ietf_ext_ref_xor_ic m n ic k) n ic k = m"
  "stream_ref_xor_ic (stream_ref_xor_ic m n ic' k) n ic' k = m"
proof -
  have "nblocks (stream_ietf_ext_ref_xor_ic m n ic k) = nblocks m"
    "nblocks (stream_ref_xor_ic m n ic' k) = nblocks m"
    by (simp_all add: nblocks_def)
  then show "stream_ietf_ext_ref_xor_ic (stream_ietf_ext_ref_xor_ic m n ic k) n ic k = m"
    "stream_ref_xor_ic (stream_ref_xor_ic m n ic' k) n ic' k = m"
    using nblocks_enough [of m]
    by (simp_all add: stream_ietf_ext_ref_xor_ic_eq stream_ref_xor_ic_eq map2_xor_involution)
qed

lemma length_stream_ietf_ext_ref [simp, len_simps]: "length (stream_ietf_ext_ref clen n k) = clen"
  using chacha20_loop_xor [of "chacha_ietf_ivsetup (chacha_keysetup k) n None" "replicate clen 0"]
    nblocks_enough [of "replicate clen 0"]
  by (simp add: stream_ietf_ext_ref_def chacha20_encrypt_bytes_def)

end
