(* ===== verification/SS_Poly1305.thy ===== *)
theory SS_Poly1305
  imports SS_Chacha
begin

text \<open>
  The Poly1305 authenticator of libsodium (\<^verbatim>\<open>crypto_onetimeauth/poly1305/donna\<close>), on limbs of 26
  bits kept in a 64-bit \<^verbatim>\<open>unsigned long\<close> (the LP64 targets; \<^verbatim>\<open>poly1305_donna32.h\<close> is the variant
  the Android build compiles, as it does not define \<^verbatim>\<open>HAVE_TI_MODE\<close>), with the constant-time
  comparison of \<^verbatim>\<open>crypto_verify/sodium/verify.c\<close>. The theorems: feeding a message in pieces
  gives the state of feeding it whole, and the comparison tells equal tags from different ones.
\<close>

section \<open>State and initialisation\<close>

text \<open>\<open>p_buffer\<close> holds the first \<^verbatim>\<open>leftover\<close> bytes of the block buffer.\<close>

record poly1305 =
  p_r :: "u64 list"
  p_h :: "u64 list"
  p_pad :: "u64 list"
  p_buffer :: bytes
  p_final :: bool

definition load64 :: "bytes \<Rightarrow> nat \<Rightarrow> nat \<Rightarrow> u64" where
  "load64 bs i shift = ucast (drop_bit shift (load32_le bs i))"

definition poly1305_init :: "bytes \<Rightarrow> poly1305" where
  "poly1305_init key =
     \<lparr>p_r = [load64 key 0 0 AND 0x3ffffff, load64 key 3 2 AND 0x3ffff03, load64 key 6 4 AND 0x3ffc0ff,
             load64 key 9 6 AND 0x3f03fff, load64 key 12 8 AND 0x00fffff],
      p_h = [0, 0, 0, 0, 0],
      p_pad = [load64 key 16 0, load64 key 20 0, load64 key 24 0, load64 key 28 0],
      p_buffer = [], p_final = False\<rparr>"

section \<open>Blocks\<close>

text \<open>
  One turn of the loop of \<open>poly1305_blocks\<close>, in its three stages: the block is added to
  \<open>h\<close>, \<open>h\<close> is multiplied by \<open>r\<close> (limbs above \<open>2 ^ 130\<close> folded back times 5), and
  the products are carried.
\<close>

definition poly_add_block :: "bool \<Rightarrow> u64 list \<Rightarrow> bytes \<Rightarrow> u64 list" where
  "poly_add_block final h m =
     (let hibit = (if final then 0 else 2 ^ 24)
      in [h ! 0 + (load64 m 0 0 AND 0x3ffffff), h ! 1 + (load64 m 3 2 AND 0x3ffffff),
          h ! 2 + (load64 m 6 4 AND 0x3ffffff), h ! 3 + (load64 m 9 6 AND 0x3ffffff),
          h ! 4 + (load64 m 12 8 OR hibit)])"

definition poly_mul :: "u64 list \<Rightarrow> u64 list \<Rightarrow> u64 list" where
  "poly_mul r h =
     (let r0 = r ! 0; r1 = r ! 1; r2 = r ! 2; r3 = r ! 3; r4 = r ! 4;
          s1 = r1 * 5; s2 = r2 * 5; s3 = r3 * 5; s4 = r4 * 5;
          h0 = h ! 0; h1 = h ! 1; h2 = h ! 2; h3 = h ! 3; h4 = h ! 4
      in [h0 * r0 + h1 * s4 + h2 * s3 + h3 * s2 + h4 * s1,
          h0 * r1 + h1 * r0 + h2 * s4 + h3 * s3 + h4 * s2,
          h0 * r2 + h1 * r1 + h2 * r0 + h3 * s4 + h4 * s3,
          h0 * r3 + h1 * r2 + h2 * r1 + h3 * r0 + h4 * s4,
          h0 * r4 + h1 * r3 + h2 * r2 + h3 * r1 + h4 * r0])"

definition poly_carry :: "u64 list \<Rightarrow> u64 list" where
  "poly_carry d =
     (let d0 = d ! 0; d1 = d ! 1; d2 = d ! 2; d3 = d ! 3; d4 = d ! 4;
          c = drop_bit 26 d0; h0 = d0 AND 0x3ffffff; d1 = d1 + c;
          c = drop_bit 26 d1; h1 = d1 AND 0x3ffffff; d2 = d2 + c;
          c = drop_bit 26 d2; h2 = d2 AND 0x3ffffff; d3 = d3 + c;
          c = drop_bit 26 d3; h3 = d3 AND 0x3ffffff; d4 = d4 + c;
          c = drop_bit 26 d4; h4 = d4 AND 0x3ffffff; h0 = h0 + c * 5;
          c = drop_bit 26 h0; h0 = h0 AND 0x3ffffff; h1 = h1 + c
      in [h0, h1, h2, h3, h4])"

definition poly1305_block :: "poly1305 \<Rightarrow> bytes \<Rightarrow> poly1305" where
  "poly1305_block st m =
     st\<lparr>p_h := poly_carry (poly_mul (p_r st) (poly_add_block (p_final st) (p_h st) m))\<rparr>"

function poly1305_blocks :: "poly1305 \<Rightarrow> bytes \<Rightarrow> poly1305" where
  "poly1305_blocks st m =
     (if 16 \<le> length m then poly1305_blocks (poly1305_block st m) (drop 16 m) else st)"
  by pat_completeness auto
termination
  by (relation "measure (\<lambda>(st, m). length m)") auto

declare poly1305_blocks.simps [simp del]

section \<open>Streaming\<close>

text \<open>Whole blocks are processed at once and what remains goes to the buffer.\<close>

definition poly1305_bulk :: "poly1305 \<Rightarrow> bytes \<Rightarrow> poly1305" where
  "poly1305_bulk st m =
     (let want = (if length m \<ge> 16 then length m - length m mod 16 else 0);
          st = poly1305_blocks st (take want m);
          m = drop want m
      in st\<lparr>p_buffer := p_buffer st @ m\<rparr>)"

definition poly1305_update :: "poly1305 \<Rightarrow> bytes \<Rightarrow> poly1305" where
  "poly1305_update st m =
     (if p_buffer st \<noteq> [] then
        let want = min (16 - length (p_buffer st)) (length m);
            buf = p_buffer st @ take want m
        in if length buf < 16 then st\<lparr>p_buffer := buf\<rparr>
           else poly1305_bulk ((poly1305_blocks st buf)\<lparr>p_buffer := []\<rparr>) (drop want m)
      else poly1305_bulk st m)"

text \<open>
  The stages of \<open>poly1305_finish\<close>: the last, padded block; the full carry; the choice of
  \<open>h\<close> or \<open>h - p\<close> by a mask; the conversion to 32-bit limbs; the addition of the pad.
\<close>

definition poly_last_block :: "poly1305 \<Rightarrow> poly1305" where
  "poly_last_block st =
     (if p_buffer st \<noteq> []
      then poly1305_blocks (st\<lparr>p_final := True\<rparr>)
             (p_buffer st @ [1] @ replicate (16 - (length (p_buffer st) + 1)) 0)
      else st)"

definition poly_full_carry :: "u64 list \<Rightarrow> u64 list" where
  "poly_full_carry h =
     (let h0 = h ! 0; h1 = h ! 1; h2 = h ! 2; h3 = h ! 3; h4 = h ! 4;
          c = drop_bit 26 h1; h1 = h1 AND 0x3ffffff; h2 = h2 + c;
          c = drop_bit 26 h2; h2 = h2 AND 0x3ffffff; h3 = h3 + c;
          c = drop_bit 26 h3; h3 = h3 AND 0x3ffffff; h4 = h4 + c;
          c = drop_bit 26 h4; h4 = h4 AND 0x3ffffff; h0 = h0 + c * 5;
          c = drop_bit 26 h0; h0 = h0 AND 0x3ffffff; h1 = h1 + c
      in [h0, h1, h2, h3, h4])"

definition poly_select :: "u64 list \<Rightarrow> u64 list" where
  "poly_select h =
     (let h0 = h ! 0; h1 = h ! 1; h2 = h ! 2; h3 = h ! 3; h4 = h ! 4;
          g0 = h0 + 5; c = drop_bit 26 g0; g0 = g0 AND 0x3ffffff;
          g1 = h1 + c; c = drop_bit 26 g1; g1 = g1 AND 0x3ffffff;
          g2 = h2 + c; c = drop_bit 26 g2; g2 = g2 AND 0x3ffffff;
          g3 = h3 + c; c = drop_bit 26 g3; g3 = g3 AND 0x3ffffff;
          g4 = h4 + c - 2 ^ 26;
          mask = drop_bit 63 g4 - 1;
          g0 = g0 AND mask; g1 = g1 AND mask; g2 = g2 AND mask; g3 = g3 AND mask; g4 = g4 AND mask;
          mask = NOT mask
      in [(h0 AND mask) OR g0, (h1 AND mask) OR g1, (h2 AND mask) OR g2,
          (h3 AND mask) OR g3, (h4 AND mask) OR g4])"

definition poly_to32 :: "u64 list \<Rightarrow> u64 list" where
  "poly_to32 h =
     (let h0 = h ! 0; h1 = h ! 1; h2 = h ! 2; h3 = h ! 3; h4 = h ! 4
      in [(h0 OR push_bit 26 h1) AND 0xffffffff,
          (drop_bit 6 h1 OR push_bit 20 h2) AND 0xffffffff,
          (drop_bit 12 h2 OR push_bit 14 h3) AND 0xffffffff,
          (drop_bit 18 h3 OR push_bit 8 h4) AND 0xffffffff])"

definition poly_add_pad :: "u64 list \<Rightarrow> u64 list \<Rightarrow> u64 list" where
  "poly_add_pad h pad =
     (let f0 = h ! 0 + pad ! 0;
          f1 = h ! 1 + pad ! 1 + drop_bit 32 f0;
          f2 = h ! 2 + pad ! 2 + drop_bit 32 f1;
          f3 = h ! 3 + pad ! 3 + drop_bit 32 f2
      in [f0, f1, f2, f3])"

definition poly1305_finish :: "poly1305 \<Rightarrow> bytes" where
  "poly1305_finish st =
     (let st = poly_last_block st;
          f = poly_add_pad (poly_to32 (poly_select (poly_full_carry (p_h st)))) (p_pad st)
      in le32 (ucast (f ! 0)) @ le32 (ucast (f ! 1)) @ le32 (ucast (f ! 2)) @ le32 (ucast (f ! 3)))"

section \<open>Comparison of tags\<close>

fun verify_acc :: "u64 \<Rightarrow> bytes \<Rightarrow> bytes \<Rightarrow> u64" where
  "verify_acc d (x # xs) (y # ys) = verify_acc (d OR ucast (x XOR y)) xs ys"
| "verify_acc d _ _ = d"

definition crypto_verify_n :: "bytes \<Rightarrow> bytes \<Rightarrow> nat \<Rightarrow> int" where
  "crypto_verify_n x y n =
     (let d = verify_acc 0 (take n x) (take n y)
      in uint (1 AND drop_bit 8 (d - 1)) - 1)"

definition crypto_verify_16 :: "bytes \<Rightarrow> bytes \<Rightarrow> int" where
  "crypto_verify_16 x y = crypto_verify_n x y 16"

section \<open>Facts\<close>

lemma length_poly1305_finish [simp, len_simps]: "length (poly1305_finish st) = 16"
  by (simp add: poly1305_finish_def Let_def)

lemma poly1305_block_take: "length a = 16 \<Longrightarrow> poly1305_block st (a @ b) = poly1305_block st a"
  by (simp add: poly1305_block_def poly_add_block_def load64_def load32_le_def nth_append)

lemma poly1305_block_buffer [simp]:
  "p_buffer (poly1305_block st m) = p_buffer st"
  "poly1305_block (st\<lparr>p_buffer := b\<rparr>) m = (poly1305_block st m)\<lparr>p_buffer := b\<rparr>"
  by (simp_all add: poly1305_block_def Let_def)

lemma poly1305_blocks_short [simp]: "length m < 16 \<Longrightarrow> poly1305_blocks st m = st"
  by (subst poly1305_blocks.simps) simp

lemma poly1305_blocks_buffer [simp]:
  "p_buffer (poly1305_blocks st m) = p_buffer st"
  "poly1305_blocks (st\<lparr>p_buffer := b\<rparr>) m = (poly1305_blocks st m)\<lparr>p_buffer := b\<rparr>"
proof -
  show "p_buffer (poly1305_blocks st m) = p_buffer st"
    by (induction st m rule: poly1305_blocks.induct) (subst poly1305_blocks.simps, simp)
  show "poly1305_blocks (st\<lparr>p_buffer := b\<rparr>) m = (poly1305_blocks st m)\<lparr>p_buffer := b\<rparr>"
  proof (induction st m rule: poly1305_blocks.induct)
    case (1 st m)
    then show ?case
      by (simp add: poly1305_blocks.simps [of _ m])
  qed
qed

lemma poly1305_blocks_append:
  "length a mod 16 = 0 \<Longrightarrow> poly1305_blocks st (a @ b) = poly1305_blocks (poly1305_blocks st a) b"
proof (induction st a rule: poly1305_blocks.induct)
  case (1 st a)
  show ?case
  proof (cases "16 \<le> length a")
    case True
    have "poly1305_block st (a @ b) = poly1305_block st a"
      using poly1305_block_take [of "take 16 a" st "drop 16 a @ b"]
        poly1305_block_take [of "take 16 a" st "drop 16 a"] True by (simp flip: append_assoc)
    moreover have "length (drop 16 a) mod 16 = 0"
      using "1.prems" True by (simp add: le_mod_geq)
    ultimately show ?thesis
      using "1.IH" True
      by (simp add: poly1305_blocks.simps [of st "a @ b"] poly1305_blocks.simps [of st a])
  next
    case False
    with "1.prems" have "a = []" by (cases a) auto
    then show ?thesis by simp
  qed
qed

text \<open>
  The state after a message \<open>msg\<close>, whatever the pieces it came in: all whole blocks
  absorbed, the rest in the buffer.
\<close>

definition poly_absorbed :: "poly1305 \<Rightarrow> bytes \<Rightarrow> poly1305" where
  "poly_absorbed st msg =
     (let full = length msg - length msg mod 16
      in (poly1305_blocks st (take full msg))\<lparr>p_buffer := drop full msg\<rparr>)"

lemma poly_absorbed_whole:
  assumes "length a mod 16 = 0"
  shows "poly_absorbed (poly1305_blocks st a) b = poly_absorbed st (a @ b)"
proof -
  let ?f = "length b - length b mod 16"
  have "length (a @ b) - length (a @ b) mod 16 = length a + ?f"
    using assms by (simp add: mod_add_eq [symmetric] mod_le_divisor)
  then show ?thesis
    using poly1305_blocks_append [OF assms, of st "take ?f b"] by (simp add: poly_absorbed_def Let_def)
qed

lemma length_mod_take: "length (take (length m - length m mod 16) m) mod 16 = 0"
  by (simp add: minus_mod_eq_mult_div)

text \<open>Feeding a further piece.\<close>

lemma poly1305_bulk_empty:
  "p_buffer st = [] \<Longrightarrow> poly1305_bulk st m = poly_absorbed st m"
  by (auto simp: poly1305_bulk_def poly_absorbed_def Let_def)

lemma poly1305_update_empty:
  "p_buffer st = [] \<Longrightarrow> poly1305_update st m = poly_absorbed st m"
  by (simp add: poly1305_update_def poly1305_bulk_empty)

lemma poly_absorbed_buffer [simp]: "poly_absorbed (st\<lparr>p_buffer := b\<rparr>) m = poly_absorbed st m"
  by (simp add: poly_absorbed_def Let_def)

lemma poly1305_update_fill:
  assumes "p_buffer st \<noteq> []" "length (p_buffer st) < 16" "16 \<le> length (p_buffer st) + length m"
  shows "poly1305_update st m = poly_absorbed st (p_buffer st @ m)"
proof -
  let ?l = "p_buffer st" and ?n = "16 - length (p_buffer st)"
  have t: "length (?l @ take ?n m) = 16" using assms by simp
  have w: "min ?n (length m) = ?n" using assms by simp
  have "poly1305_update st m =
      poly1305_bulk ((poly1305_blocks st (?l @ take ?n m))\<lparr>p_buffer := []\<rparr>) (drop ?n m)"
    using assms(1) t unfolding poly1305_update_def Let_def w by simp
  also have "\<dots> = poly_absorbed (poly1305_blocks st (?l @ take ?n m)) (drop ?n m)"
    by (simp add: poly1305_bulk_empty)
  also have "\<dots> = poly_absorbed st ((?l @ take ?n m) @ drop ?n m)"
    using t by (intro poly_absorbed_whole) simp
  finally show ?thesis by simp
qed

lemma poly1305_update_absorbed:
  assumes "p_buffer st = []"
  shows "poly1305_update (poly_absorbed st a) b = poly_absorbed st (a @ b)"
proof -
  let ?f = "length a - length a mod 16"
  let ?w = "take ?f a" and ?l = "drop ?f a" and ?s = "poly1305_blocks st (take ?f a)"
  have w: "length ?w mod 16 = 0" by (rule length_mod_take)
  have l: "length ?l < 16" by simp
  have abs: "poly_absorbed st (a @ c) = poly_absorbed ?s (?l @ c)" for c
    using poly_absorbed_whole [OF w, of st "?l @ c"] by (simp flip: append_assoc)
  have st: "poly_absorbed st a = ?s\<lparr>p_buffer := ?l\<rparr>" by (simp add: poly_absorbed_def Let_def)
  consider "?l = []" | "?l \<noteq> []" "length ?l + length b < 16" | "?l \<noteq> []" "16 \<le> length ?l + length b"
    by linarith
  then show ?thesis
  proof cases
    case 1
    then show ?thesis
      unfolding st abs by (simp add: poly1305_update_empty)
  next
    case 2
    then show ?thesis
      unfolding st abs
      by (simp add: poly1305_update_def poly_absorbed_def Let_def del: length_drop)
  next
    case 3
    then show ?thesis
      using poly1305_update_fill [of "?s\<lparr>p_buffer := ?l\<rparr>" b] l unfolding st abs by simp
  qed
qed

lemma poly1305_update_append:
  assumes "p_buffer st = []"
  shows "poly1305_update (poly1305_update st a) b = poly1305_update st (a @ b)"
  using assms by (simp add: poly1305_update_empty poly1305_update_absorbed)


lemma ucast_u8_eq_0: "(ucast (x :: u8) :: u64) = 0 \<longleftrightarrow> x = 0"
  by (auto simp: bit_eq_iff bit_simps) (metis u8_bit_beyond linorder_not_le)

lemma xor_u8_eq_0: "(x :: u8) XOR y = 0 \<longleftrightarrow> x = y"
  by (auto simp: bit_eq_iff bit_simps)

lemma verify_acc_zero:
  "length x = length y \<Longrightarrow> verify_acc d x y = 0 \<longleftrightarrow> d = 0 \<and> x = y"
proof (induction x y arbitrary: d rule: list_induct2)
  case (Cons x xs y ys)
  then show ?case
    using Cons.IH [of "d OR ucast (x XOR y)"] ucast_u8_eq_0 [of "x XOR y"]
    by (simp add: or_eq_0_iff xor_u8_eq_0)
qed simp

lemma verify_acc_small: "take_bit 8 d = d \<Longrightarrow> take_bit 8 (verify_acc d x y) = verify_acc d x y"
proof (induction d x y rule: verify_acc.induct)
  case (1 d x xs y ys)
  have "take_bit 8 (ucast z :: u64) = ucast z" for z :: u8
    by (auto simp: bit_eq_iff bit_simps dest: bit_imp_le_length)
  with 1 show ?case by (simp add: take_bit_or)
qed auto

lemma crypto_verify_n_iff:
  assumes "length x = n" and "length y = n"
  shows "crypto_verify_n x y n = (if x = y then 0 else -1)"
proof -
  let ?d = "verify_acc 0 x y"
  have "unat ?d = take_bit 8 (unat ?d)"
    using verify_acc_small [of 0 x y] by (metis take_bit_of_0 unsigned_take_bit_eq)
  then have small: "unat ?d < 256"
    using take_bit_nat_less_exp [of 8 "unat ?d"] by simp
  show ?thesis
  proof (cases "x = y")
    case True
    then have "?d = 0" using verify_acc_zero [of x y 0] by simp
    moreover have "1 AND mask 56 = (1 :: u64)"
      using take_bit_eq_mask [of 56 "1 :: u64"] by simp
    ultimately show ?thesis using True assms by (simp add: crypto_verify_n_def)
  next
    case False
    then have "?d \<noteq> 0" using verify_acc_zero [of x y 0] assms by simp
    then have "unat (?d - 1) = unat ?d - 1" by (simp add: unat_sub_if_size unat_gt_0 Suc_leI)
    then have "unat (drop_bit 8 (?d - 1)) = 0"
      using small by (simp add: drop_bit_eq_div unat_div)
    then have "drop_bit 8 (?d - 1) = 0" by (simp add: unat_eq_zero)
    with False assms show ?thesis by (simp add: crypto_verify_n_def)
  qed
qed

lemma crypto_verify_16_iff:
  "length x = 16 \<Longrightarrow> length y = 16 \<Longrightarrow> crypto_verify_16 x y = (if x = y then 0 else -1)"
  by (simp add: crypto_verify_16_def crypto_verify_n_iff)

end
