(* ===== verification/SS_AeadPrim.thy ===== *)
theory SS_AeadPrim
  imports SS_Poly1305
begin

text \<open>
  The combined modes of libsodium that shadowsocks uses
  (\<^verbatim>\<open>crypto_aead/chacha20poly1305\<close> and \<^verbatim>\<open>crypto_aead/xchacha20poly1305\<close>), and the interface
  \<open>aead_cipher\<close> the protocol relies on: the ciphertext is the message plus a tag, and
  decryption with the same key and nonce gives the message back. Both modes are proved to
  provide it. \<^verbatim>\<open>sodium_misuse\<close> (a message beyond the mode's limit) ends the process; the model
  returns \<open>None\<close> there.
\<close>

section \<open>The interface\<close>

locale aead_cipher =
  fixes enc :: "bytes \<Rightarrow> bytes \<Rightarrow> bytes \<Rightarrow> bytes option"
    and dec :: "bytes \<Rightarrow> bytes \<Rightarrow> bytes \<Rightarrow> bytes option"
    and tag :: nat
    and maxlen :: nat
  assumes enc_Some: "length m \<le> maxlen \<Longrightarrow> \<exists>c. enc n k m = Some c"
    and enc_length: "enc n k m = Some c \<Longrightarrow> length c = length m + tag"
    and dec_enc: "enc n k m = Some c \<Longrightarrow> dec n k c = Some m"
    and dec_length: "dec n k c = Some m \<Longrightarrow> length c = length m + tag"
begin

lemma dec_short: "length c < tag \<Longrightarrow> dec n k c = None"
  using dec_length [of n k c] by (cases "dec n k c") auto

lemma enc_inj: "enc n k m = Some c \<Longrightarrow> enc n k m' = Some c \<Longrightarrow> m = m'"
  by (drule dec_enc)+ simp

end

section \<open>ChaCha20-Poly1305 (IETF)\<close>

definition ABYTES :: nat where
  "ABYTES = 16"

definition le64 :: "nat \<Rightarrow> bytes" where
  "le64 n = map (\<lambda>i. of_nat (n div 256 ^ i)) [0..<8]"

definition pad0 :: "nat \<Rightarrow> bytes" where
  "pad0 n = replicate (unat ((0x10 - of_nat n :: u64) AND 0xf)) 0"

text \<open>
  The tag both directions compute: the one-time key is the first block of the keystream, and
  additional data, ciphertext and their lengths are fed to Poly1305 in turn.
\<close>

definition ietf_mac :: "bytes \<Rightarrow> bytes \<Rightarrow> bytes \<Rightarrow> bytes \<Rightarrow> bytes" where
  "ietf_mac ad c npub k =
     (let block0 = stream_ietf_ext_ref 64 npub k;
          st = poly1305_init block0;
          st = poly1305_update st ad;
          st = poly1305_update st (pad0 (length ad));
          st = poly1305_update st c;
          st = poly1305_update st (pad0 (length c));
          st = poly1305_update st (le64 (length ad));
          st = poly1305_update st (le64 (length c))
      in poly1305_finish st)"

definition ietf_encrypt_detached :: "bytes \<Rightarrow> bytes \<Rightarrow> bytes \<Rightarrow> bytes \<Rightarrow> bytes \<times> bytes" where
  "ietf_encrypt_detached m ad npub k =
     (let c = stream_ietf_ext_ref_xor_ic m npub 1 k in (c, ietf_mac ad c npub k))"

definition ietf_decrypt_detached :: "bytes \<Rightarrow> bytes \<Rightarrow> bytes \<Rightarrow> bytes \<Rightarrow> bytes \<Rightarrow> bytes option" where
  "ietf_decrypt_detached c mac ad npub k =
     (let computed_mac = ietf_mac ad c npub k
      in if crypto_verify_16 computed_mac mac \<noteq> 0 then None
         else Some (stream_ietf_ext_ref_xor_ic c npub 1 k))"

definition ietf_MESSAGEBYTES_MAX :: nat where
  "ietf_MESSAGEBYTES_MAX = min (2 ^ 64 - 1 - ABYTES) (64 * (2 ^ 32 - 1))"

definition crypto_aead_chacha20poly1305_ietf_encrypt ::
  "bytes \<Rightarrow> bytes \<Rightarrow> bytes \<Rightarrow> bytes \<Rightarrow> bytes option" where
  "crypto_aead_chacha20poly1305_ietf_encrypt m ad npub k =
     (if length m > ietf_MESSAGEBYTES_MAX then None
      else case ietf_encrypt_detached m ad npub k of (c, mac) \<Rightarrow> Some (c @ mac))"

definition crypto_aead_chacha20poly1305_ietf_decrypt ::
  "bytes \<Rightarrow> bytes \<Rightarrow> bytes \<Rightarrow> bytes \<Rightarrow> bytes option" where
  "crypto_aead_chacha20poly1305_ietf_decrypt c ad npub k =
     (if length c \<ge> ABYTES
      then ietf_decrypt_detached (take (length c - ABYTES) c) (drop (length c - ABYTES) c) ad npub k
      else None)"

section \<open>XChaCha20-Poly1305 (IETF)\<close>

definition xchacha_npub2 :: "bytes \<Rightarrow> bytes" where
  "xchacha_npub2 npub = replicate 4 0 @ take 8 (drop 16 npub)"

definition xchacha_MESSAGEBYTES_MAX :: nat where
  "xchacha_MESSAGEBYTES_MAX = 2 ^ 64 - 1 - ABYTES"

definition crypto_aead_xchacha20poly1305_ietf_encrypt ::
  "bytes \<Rightarrow> bytes \<Rightarrow> bytes \<Rightarrow> bytes \<Rightarrow> bytes option" where
  "crypto_aead_xchacha20poly1305_ietf_encrypt m ad npub k =
     (if length m > xchacha_MESSAGEBYTES_MAX then None
      else case ietf_encrypt_detached m ad (xchacha_npub2 npub) (crypto_core_hchacha20 npub k None) of
        (c, mac) \<Rightarrow> Some (c @ mac))"

definition crypto_aead_xchacha20poly1305_ietf_decrypt ::
  "bytes \<Rightarrow> bytes \<Rightarrow> bytes \<Rightarrow> bytes \<Rightarrow> bytes option" where
  "crypto_aead_xchacha20poly1305_ietf_decrypt c ad npub k =
     (if length c \<ge> ABYTES
      then ietf_decrypt_detached (take (length c - ABYTES) c) (drop (length c - ABYTES) c) ad
             (xchacha_npub2 npub) (crypto_core_hchacha20 npub k None)
      else None)"

section \<open>Both modes provide the interface\<close>

lemma length_ietf_mac [simp, len_simps]: "length (ietf_mac ad c n k) = ABYTES"
  by (simp add: ietf_mac_def Let_def ABYTES_def)

lemma ietf_detached_roundtrip:
  "ietf_encrypt_detached m ad n k = (c, mac) \<Longrightarrow> ietf_decrypt_detached c mac ad n k = Some m"
  by (auto simp: ietf_encrypt_detached_def ietf_decrypt_detached_def Let_def crypto_verify_16_iff
      stream_xor_involution ABYTES_def)

lemma ietf_encrypt_detached_length:
  "ietf_encrypt_detached m ad n k = (c, mac) \<Longrightarrow> length c = length m \<and> length mac = ABYTES"
  by (auto simp: ietf_encrypt_detached_def Let_def)

lemma ietf_decrypt_detached_length:
  "ietf_decrypt_detached c mac ad n k = Some m \<Longrightarrow> length m = length c"
  by (auto simp: ietf_decrypt_detached_def Let_def split: if_splits)

lemma ietf_joined_roundtrip:
  assumes "ietf_encrypt_detached m ad n k = (c, mac)"
  shows "ABYTES \<le> length (c @ mac)"
    and "ietf_decrypt_detached (take (length (c @ mac) - ABYTES) (c @ mac))
           (drop (length (c @ mac) - ABYTES) (c @ mac)) ad n k = Some m"
  using ietf_detached_roundtrip [OF assms] ietf_encrypt_detached_length [OF assms] by simp_all

interpretation chacha: aead_cipher
  "\<lambda>n k m. crypto_aead_chacha20poly1305_ietf_encrypt m [] n k"
  "\<lambda>n k c. crypto_aead_chacha20poly1305_ietf_decrypt c [] n k"
  ABYTES ietf_MESSAGEBYTES_MAX
proof (unfold_locales, goal_cases)
  case (3 n k m c)
  then show ?case
    by (auto simp: crypto_aead_chacha20poly1305_ietf_encrypt_def crypto_aead_chacha20poly1305_ietf_decrypt_def
        simp del: take_append drop_append length_append split: if_splits prod.splits
        dest: ietf_joined_roundtrip)
next
  case (4 n k c m)
  then show ?case
    by (auto simp: crypto_aead_chacha20poly1305_ietf_decrypt_def split: if_splits
        dest: ietf_decrypt_detached_length)
qed (auto simp: crypto_aead_chacha20poly1305_ietf_encrypt_def split: if_splits prod.splits
    dest: ietf_encrypt_detached_length)

interpretation xchacha: aead_cipher
  "\<lambda>n k m. crypto_aead_xchacha20poly1305_ietf_encrypt m [] n k"
  "\<lambda>n k c. crypto_aead_xchacha20poly1305_ietf_decrypt c [] n k"
  ABYTES xchacha_MESSAGEBYTES_MAX
proof (unfold_locales, goal_cases)
  case (3 n k m c)
  then show ?case
    by (auto simp: crypto_aead_xchacha20poly1305_ietf_encrypt_def crypto_aead_xchacha20poly1305_ietf_decrypt_def
        simp del: take_append drop_append length_append split: if_splits prod.splits
        dest: ietf_joined_roundtrip)
next
  case (4 n k c m)
  then show ?case
    by (auto simp: crypto_aead_xchacha20poly1305_ietf_decrypt_def split: if_splits
        dest: ietf_decrypt_detached_length)
qed (auto simp: crypto_aead_xchacha20poly1305_ietf_encrypt_def split: if_splits prod.splits
    dest: ietf_encrypt_detached_length)

end
