(* ===== verification/SS_Aes.thy ===== *)
theory SS_Aes
  imports SS_Digest
begin

text \<open>
  The AES block cipher of mbed TLS (\<^verbatim>\<open>mbedtls/library/aes.c\<close>) in the configuration the
  application builds: tables computed at run time (no \<^verbatim>\<open>MBEDTLS_AES_ROM_TABLES\<close>, no
  \<^verbatim>\<open>MBEDTLS_AES_FEWER_TABLES\<close>), portable code (no AES-NI, no padlock). Only the encryption
  direction is modelled: CFB, CTR and GCM never decrypt a block.

  The C code works on \<^verbatim>\<open>int\<close> and \<^verbatim>\<open>uint32_t\<close>; the table generation keeps the \<^verbatim>\<open>int\<close>s, which
  stay below 512. An array that the code leaves uninitialised starts as zeros here; no entry is
  read before it is written.
\<close>

section \<open>The tables\<close>

definition XTIME :: "int \<Rightarrow> int" where
  "XTIME x = push_bit 1 x XOR (if x AND 0x80 \<noteq> 0 then 0x1B else 0)"

definition aes_pow_log :: "int list \<times> int list" where
  "aes_pow_log =
     (case fold (\<lambda>i (powt, logt, x).
               (powt[i := x], logt[nat x := int i], (x XOR XTIME x) AND 0xFF))
             [0..<256] (replicate 256 0, replicate 256 0, 1) of
        (powt, logt, x) \<Rightarrow> (powt, logt))"

definition RCON :: "u32 list" where
  "RCON =
     fst (fold (\<lambda>i (rcon, x). (rcon[i := word_of_int x], XTIME x AND 0xFF))
            [0..<10] (replicate 10 0, 1))"

text \<open>One entry of the S-box from the multiplicative inverse.\<close>

definition sbox_entry :: "int \<Rightarrow> int" where
  "sbox_entry x =
     (let rot = (\<lambda>y. (push_bit 1 y OR drop_bit 7 y) AND 0xFF);
          y = x; y = rot y; x = x XOR y;
          y = rot y; x = x XOR y;
          y = rot y; x = x XOR y;
          y = rot y; x = x XOR (y XOR 0x63)
      in x)"

definition aes_sboxes :: "bytes \<times> bytes" where
  "aes_sboxes =
     (case aes_pow_log of (powt, logt) \<Rightarrow>
        fold (\<lambda>i (fsb, rsb).
            let x = sbox_entry (powt ! (255 - nat (logt ! i)))
            in (fsb[i := word_of_int x], rsb[nat x := of_nat i]))
          [1..<256] ((replicate 256 0)[0 := 0x63], (replicate 256 0)[0x63 := 0]))"

definition FSb :: bytes where "FSb = fst aes_sboxes"

definition FT0_entry :: "u8 \<Rightarrow> u32" where
  "FT0_entry s =
     (let x = uint s; y = XTIME x AND 0xFF; z = (y XOR x) AND 0xFF
      in word_of_int y XOR push_bit 8 (word_of_int x) XOR push_bit 16 (word_of_int x)
         XOR push_bit 24 (word_of_int z))"

definition ROTL8 :: "u32 \<Rightarrow> u32" where
  "ROTL8 x = push_bit 8 x OR drop_bit 24 x"

definition FT0 :: "u32 list" where "FT0 = map (\<lambda>i. FT0_entry (FSb ! i)) [0..<256]"
definition FT1 :: "u32 list" where "FT1 = map ROTL8 FT0"
definition FT2 :: "u32 list" where "FT2 = map ROTL8 FT1"
definition FT3 :: "u32 list" where "FT3 = map ROTL8 FT2"

section \<open>The key schedule\<close>

text \<open>\<^verbatim>\<open>buf\<close> has 68 words; \<^verbatim>\<open>rk\<close> points to its start.\<close>

record aes_context =
  nr :: nat
  rk :: "u32 list"

definition mbedtls_aes_init :: aes_context where
  "mbedtls_aes_init = \<lparr>nr = 0, rk = replicate 68 0\<rparr>"

text \<open>Byte \<open>i\<close> of a word, and a byte put back at that place.\<close>

definition byte_of :: "nat \<Rightarrow> u32 \<Rightarrow> nat" where
  "byte_of i w = unat (drop_bit (8 * i) w AND 0xFF)"

definition at_byte :: "nat \<Rightarrow> u8 \<Rightarrow> u32" where
  "at_byte i b = push_bit (8 * i) (ucast b)"

text \<open>The S-box on the four bytes of a rotated word, and of a word as it is.\<close>

definition sub_rot :: "u32 \<Rightarrow> u32" where
  "sub_rot w = at_byte 0 (FSb ! byte_of 1 w) XOR at_byte 1 (FSb ! byte_of 2 w)
     XOR at_byte 2 (FSb ! byte_of 3 w) XOR at_byte 3 (FSb ! byte_of 0 w)"

definition sub_word :: "u32 \<Rightarrow> u32" where
  "sub_word w = at_byte 0 (FSb ! byte_of 0 w) XOR at_byte 1 (FSb ! byte_of 1 w)
     XOR at_byte 2 (FSb ! byte_of 2 w) XOR at_byte 3 (FSb ! byte_of 3 w)"

text \<open>\<open>RK[b + d] = RK[b + s] ^ RK[b + d - 1]\<close>, the step most words are made by.\<close>

definition chain :: "nat \<Rightarrow> nat \<Rightarrow> u32 list \<Rightarrow> u32 list" where
  "chain s d RK = RK[d := RK ! s XOR RK ! (d - 1)]"

definition expand128 :: "u32 list \<Rightarrow> nat \<Rightarrow> u32 list" where
  "expand128 RK i =
     (let b = 4 * i;
          RK = RK[b + 4 := RK ! b XOR RCON ! i XOR sub_rot (RK ! (b + 3))];
          RK = chain (b + 1) (b + 5) RK;
          RK = chain (b + 2) (b + 6) RK
      in chain (b + 3) (b + 7) RK)"

definition expand192 :: "u32 list \<Rightarrow> nat \<Rightarrow> u32 list" where
  "expand192 RK i =
     (let b = 6 * i;
          RK = RK[b + 6 := RK ! b XOR RCON ! i XOR sub_rot (RK ! (b + 5))];
          RK = chain (b + 1) (b + 7) RK;
          RK = chain (b + 2) (b + 8) RK;
          RK = chain (b + 3) (b + 9) RK;
          RK = chain (b + 4) (b + 10) RK
      in chain (b + 5) (b + 11) RK)"

definition expand256 :: "u32 list \<Rightarrow> nat \<Rightarrow> u32 list" where
  "expand256 RK i =
     (let b = 8 * i;
          RK = RK[b + 8 := RK ! b XOR RCON ! i XOR sub_rot (RK ! (b + 7))];
          RK = chain (b + 1) (b + 9) RK;
          RK = chain (b + 2) (b + 10) RK;
          RK = chain (b + 3) (b + 11) RK;
          RK = RK[b + 12 := RK ! (b + 4) XOR sub_word (RK ! (b + 11))];
          RK = chain (b + 5) (b + 13) RK;
          RK = chain (b + 6) (b + 14) RK
      in chain (b + 7) (b + 15) RK)"

text \<open>\<open>None\<close> is \<^verbatim>\<open>MBEDTLS_ERR_AES_INVALID_KEY_LENGTH\<close>.\<close>

definition mbedtls_aes_setkey_enc :: "aes_context \<Rightarrow> bytes \<Rightarrow> nat \<Rightarrow> aes_context option" where
  "mbedtls_aes_setkey_enc ctx k keybits =
     (if keybits \<notin> {128, 192, 256} then None
      else
        let nr' = (if keybits = 128 then 10 else if keybits = 192 then 12 else 14);
            RK = fold (\<lambda>i RK. RK[i := GET_UINT32_LE k (i * 4)]) [0..<keybits div 32] (rk ctx);
            RK = (if nr' = 10 then foldl expand128 RK [0..<10]
                  else if nr' = 12 then foldl expand192 RK [0..<8]
                  else foldl expand256 RK [0..<7])
        in Some (ctx\<lparr>nr := nr', rk := RK\<rparr>))"

section \<open>Encrypting a block\<close>

type_synonym quad = "u32 \<times> u32 \<times> u32 \<times> u32"

definition FT_mix :: "u32 \<Rightarrow> u32 \<Rightarrow> u32 \<Rightarrow> u32 \<Rightarrow> u32" where
  "FT_mix a b c d = FT0 ! byte_of 0 a XOR FT1 ! byte_of 1 b XOR FT2 ! byte_of 2 c XOR FT3 ! byte_of 3 d"

definition FSb_mix :: "u32 \<Rightarrow> u32 \<Rightarrow> u32 \<Rightarrow> u32 \<Rightarrow> u32" where
  "FSb_mix a b c d = at_byte 0 (FSb ! byte_of 0 a) XOR at_byte 1 (FSb ! byte_of 1 b)
     XOR at_byte 2 (FSb ! byte_of 2 c) XOR at_byte 3 (FSb ! byte_of 3 d)"

text \<open>One round with the round keys at index \<open>r\<close>; the last round has no column mixing.\<close>

definition AES_FROUND :: "u32 list \<Rightarrow> nat \<Rightarrow> quad \<Rightarrow> quad" where
  "AES_FROUND RK r Y =
     (case Y of (Y0, Y1, Y2, Y3) \<Rightarrow>
        (RK ! r XOR FT_mix Y0 Y1 Y2 Y3, RK ! (r + 1) XOR FT_mix Y1 Y2 Y3 Y0,
         RK ! (r + 2) XOR FT_mix Y2 Y3 Y0 Y1, RK ! (r + 3) XOR FT_mix Y3 Y0 Y1 Y2))"

definition AES_LAST :: "u32 list \<Rightarrow> nat \<Rightarrow> quad \<Rightarrow> quad" where
  "AES_LAST RK r Y =
     (case Y of (Y0, Y1, Y2, Y3) \<Rightarrow>
        (RK ! r XOR FSb_mix Y0 Y1 Y2 Y3, RK ! (r + 1) XOR FSb_mix Y1 Y2 Y3 Y0,
         RK ! (r + 2) XOR FSb_mix Y2 Y3 Y0 Y1, RK ! (r + 3) XOR FSb_mix Y3 Y0 Y1 Y2))"

text \<open>The loop runs two rounds a turn; \<open>r\<close> is the index that \<^verbatim>\<open>RK\<close> has advanced to.\<close>

fun aes_rounds :: "u32 list \<Rightarrow> nat \<Rightarrow> nat \<Rightarrow> quad \<Rightarrow> quad \<times> nat" where
  "aes_rounds RK 0 r X = (X, r)"
| "aes_rounds RK (Suc i) r X = aes_rounds RK i (r + 8) (AES_FROUND RK (r + 4) (AES_FROUND RK r X))"

definition mbedtls_internal_aes_encrypt :: "aes_context \<Rightarrow> bytes \<Rightarrow> bytes" where
  "mbedtls_internal_aes_encrypt ctx inp =
     (let RK = rk ctx;
          X = (GET_UINT32_LE inp 0 XOR RK ! 0, GET_UINT32_LE inp 4 XOR RK ! 1,
               GET_UINT32_LE inp 8 XOR RK ! 2, GET_UINT32_LE inp 12 XOR RK ! 3)
      in case aes_rounds RK (nr ctx div 2 - 1) 4 X of (X, r) \<Rightarrow>
           (case AES_LAST RK (r + 4) (AES_FROUND RK r X) of
              (X0, X1, X2, X3) \<Rightarrow> le32 X0 @ le32 X1 @ le32 X2 @ le32 X3))"

text \<open>\<^verbatim>\<open>mbedtls_aes_crypt_ecb\<close> in the mode \<^verbatim>\<open>MBEDTLS_AES_ENCRYPT\<close>.\<close>

definition mbedtls_aes_crypt_ecb :: "aes_context \<Rightarrow> bytes \<Rightarrow> bytes" where
  "mbedtls_aes_crypt_ecb ctx inp = mbedtls_internal_aes_encrypt ctx inp"

section \<open>Shapes\<close>

lemma length_aes_encrypt [simp, len_simps]: "length (mbedtls_aes_crypt_ecb ctx inp) = 16"
  by (simp add: mbedtls_aes_crypt_ecb_def mbedtls_internal_aes_encrypt_def Let_def split: prod.splits)

lemma length_expand [simp, len_simps]:
  "length (expand128 RK i) = length RK" "length (expand192 RK i) = length RK" "length (expand256 RK i) = length RK"
  by (simp_all add: expand128_def expand192_def expand256_def chain_def Let_def)

lemma length_foldl: "(\<And>xs i. length (f xs i) = length xs) \<Longrightarrow> length (foldl f xs is) = length xs"
  by (induction "is" arbitrary: xs) simp_all

lemma length_fold: "(\<And>xs i. length (f i xs) = length xs) \<Longrightarrow> length (fold f is xs) = length xs"
  by (induction "is" arbitrary: xs) simp_all

text \<open>Every key of a supported size is accepted, and the schedule stays inside its array.\<close>

lemma aes_setkey_enc_props:
  assumes "mbedtls_aes_setkey_enc ctx k bits = Some ctx'"
  shows "length (rk ctx') = length (rk ctx)" "nr ctx' \<in> {10, 12, 14}" "nr ctx' = bits div 32 + 6"
  using assms
  by (auto simp: mbedtls_aes_setkey_enc_def Let_def length_foldl length_fold split: if_splits)

lemma aes_setkey_enc_Some:
  "bits \<in> {128, 192, 256} \<longleftrightarrow> (\<exists>ctx'. mbedtls_aes_setkey_enc ctx k bits = Some ctx')"
  by (auto simp: mbedtls_aes_setkey_enc_def Let_def)

end
