(* ===== verification/SS_Modes.thy ===== *)
theory SS_Modes
  imports SS_Prelude
begin

text \<open>
  The byte loops of the stream modes in mbed TLS: cipher feedback (\<^verbatim>\<open>mbedtls_aes_crypt_cfb128\<close>,
  \<^verbatim>\<open>mbedtls_camellia_crypt_cfb128\<close>, \<^verbatim>\<open>mbedtls_blowfish_crypt_cfb64\<close>), counter mode
  (\<^verbatim>\<open>mbedtls_aes_crypt_ctr\<close>) and ARC4 (\<^verbatim>\<open>arc4.c\<close>). Each is \<open>while (length--) { body }\<close> over a state
  it keeps between calls: \<open>byte_loop\<close> with the body as its first argument. The locale
  \<open>byte_cipher\<close> is what makes two such loops a cipher: the decrypting body undoes the
  encrypting one and reaches the same state.
\<close>

section \<open>Byte loops\<close>

fun byte_loop :: "('s \<Rightarrow> u8 \<Rightarrow> u8 \<times> 's) \<Rightarrow> 's \<Rightarrow> bytes \<Rightarrow> bytes \<times> 's" where
  "byte_loop f s [] = ([], s)"
| "byte_loop f s (x # xs) =
     (case f s x of (y, s) \<Rightarrow> case byte_loop f s xs of (ys, s) \<Rightarrow> (y # ys, s))"

lemma length_byte_loop [simp, len_simps]: "length (fst (byte_loop f s xs)) = length xs"
  by (induction xs arbitrary: s) (simp_all add: split_beta)

lemma byte_loop_append:
  "byte_loop f s (xs @ ys) =
     (case byte_loop f s xs of (a, s) \<Rightarrow> case byte_loop f s ys of (b, s) \<Rightarrow> (a @ b, s))"
  by (induction xs arbitrary: s) (simp_all add: split_beta)

lemma byte_loop_inv:
  "P s \<Longrightarrow> (\<And>s x. P s \<Longrightarrow> P (snd (f s x))) \<Longrightarrow> P (snd (byte_loop f s xs))"
  by (induction xs arbitrary: s) (simp_all add: split_beta)

locale byte_cipher =
  fixes estep :: "'s \<Rightarrow> u8 \<Rightarrow> u8 \<times> 's"
    and dstep :: "'s \<Rightarrow> u8 \<Rightarrow> u8 \<times> 's"
  assumes undo: "estep s x = (y, s') \<Longrightarrow> dstep s y = (x, s')"
begin

lemma loop_undo: "byte_loop estep s xs = (ys, s') \<Longrightarrow> byte_loop dstep s ys = (xs, s')"
proof (induction xs arbitrary: s ys s')
  case (Cons x xs)
  obtain y s1 where e: "estep s x = (y, s1)" by fastforce
  obtain zs s2 where r: "byte_loop estep s1 xs = (zs, s2)" by fastforce
  with Cons.prems e have "ys = y # zs" "s' = s2" by simp_all
  with Cons.IH [OF r] undo [OF e] show ?case by simp
qed simp

end

section \<open>Cipher feedback\<close>

text \<open>
  The state is the array \<^verbatim>\<open>iv\<close> and the offset \<^verbatim>\<open>n\<close>; \<open>E\<close> is the block encryption and \<open>bs\<close> the
  block size. A fresh block replaces the first \<open>bs\<close> bytes of the array.
\<close>

type_synonym cfb_state = "bytes \<times> nat"

definition cfb_block :: "(bytes \<Rightarrow> bytes) \<Rightarrow> nat \<Rightarrow> cfb_state \<Rightarrow> bytes" where
  "cfb_block E bs s = (case s of (iv, n) \<Rightarrow> if n = 0 then memcpy_at iv 0 (E (take bs iv)) else iv)"

definition cfb_enc_byte :: "(bytes \<Rightarrow> bytes) \<Rightarrow> nat \<Rightarrow> cfb_state \<Rightarrow> u8 \<Rightarrow> u8 \<times> cfb_state" where
  "cfb_enc_byte E bs s x =
     (let iv = cfb_block E bs s; n = snd s;
          c = iv ! n XOR x
      in (c, iv[n := c], (n + 1) mod bs))"

definition cfb_dec_byte :: "(bytes \<Rightarrow> bytes) \<Rightarrow> nat \<Rightarrow> cfb_state \<Rightarrow> u8 \<Rightarrow> u8 \<times> cfb_state" where
  "cfb_dec_byte E bs s c =
     (let iv = cfb_block E bs s; n = snd s
      in (c XOR iv ! n, iv[n := c], (n + 1) mod bs))"

text \<open>The whole function: an offset outside the block is an error.\<close>

definition crypt_cfb :: "(bytes \<Rightarrow> bytes) \<Rightarrow> nat \<Rightarrow> bool \<Rightarrow> cfb_state \<Rightarrow> bytes \<Rightarrow> (bytes \<times> cfb_state) option" where
  "crypt_cfb E bs enc s inp =
     (if snd s \<ge> bs then None
      else if \<not> enc then Some (byte_loop (cfb_dec_byte E bs) s inp)
      else Some (byte_loop (cfb_enc_byte E bs) s inp))"

lemma xor_cancel: "(a XOR x) XOR a = (x :: u8)"
  by (simp add: xor.commute [of a x] xor.assoc)

interpretation cfb: byte_cipher "cfb_enc_byte E bs" "cfb_dec_byte E bs" for E bs
  by unfold_locales (auto simp: cfb_enc_byte_def cfb_dec_byte_def Let_def xor_cancel)

definition cfb_wf :: "nat \<Rightarrow> cfb_state \<Rightarrow> bool" where
  "cfb_wf bs s \<longleftrightarrow> length (fst s) = 16 \<and> snd s < bs"

lemma length_cfb_block:
  assumes "\<And>b. length (E b) = bs" "cfb_wf bs s" "bs \<le> 16"
  shows "length (cfb_block E bs s) = 16"
  using assms by (cases s) (auto simp: cfb_block_def cfb_wf_def length_memcpy_at)

lemma cfb_byte_wf:
  assumes "\<And>b. length (E b) = bs" "0 < bs" "bs \<le> 16" "cfb_wf bs s"
  shows "cfb_wf bs (snd (cfb_enc_byte E bs s x))" "cfb_wf bs (snd (cfb_dec_byte E bs s x))"
  using length_cfb_block [OF assms(1,4,3)] assms(2)
  by (simp_all add: cfb_enc_byte_def cfb_dec_byte_def cfb_wf_def Let_def)

lemma crypt_cfb_total:
  assumes "\<And>b. length (E b) = bs" "0 < bs" "bs \<le> 16" "cfb_wf bs s"
  obtains ys s' where "crypt_cfb E bs enc s xs = Some (ys, s')" "length ys = length xs" "cfb_wf bs s'"
proof -
  let ?f = "if enc then cfb_enc_byte E bs else cfb_dec_byte E bs"
  have r: "crypt_cfb E bs enc s xs = Some (byte_loop ?f s xs)"
    using assms(4) by (simp add: crypt_cfb_def cfb_wf_def)
  have "cfb_wf bs (snd (byte_loop ?f s xs))"
    using assms(4) cfb_byte_wf [OF assms(1-3)] by (intro byte_loop_inv [where P = "cfb_wf bs"]) auto
  then show ?thesis
    using that [of "fst (byte_loop ?f s xs)" "snd (byte_loop ?f s xs)"] r by simp
qed

lemma crypt_cfb_append:
  assumes "crypt_cfb E bs enc s xs = Some (a, s1)" "crypt_cfb E bs enc s1 ys = Some (b, s2)"
  shows "crypt_cfb E bs enc s (xs @ ys) = Some (a @ b, s2)"
  using assms by (auto simp: crypt_cfb_def byte_loop_append split: if_splits)

lemma crypt_cfb_undo:
  assumes "crypt_cfb E bs True s xs = Some (ys, s')"
  shows "crypt_cfb E bs False s ys = Some (xs, s')"
  using assms cfb.loop_undo [of E bs s xs ys s'] by (simp add: crypt_cfb_def split: if_splits)

section \<open>Counter mode\<close>

text \<open>
  \<open>for (i = hi; i > lo; i--) if (++a[i - 1] != 0) break;\<close>: the big-endian counter that occupies the
  bytes from \<open>lo\<close> to \<open>hi\<close> of an array.
\<close>

fun incr_down :: "nat \<Rightarrow> nat \<Rightarrow> bytes \<Rightarrow> bytes" where
  "incr_down lo 0 a = a"
| "incr_down lo (Suc i) a =
     (if Suc i > lo then
        let v = a ! i + 1; a = a[i := v]
        in if v \<noteq> 0 then a else incr_down lo i a
      else a)"

lemma length_incr_down [simp, len_simps]: "length (incr_down lo i a) = length a"
  by (induction lo i a rule: incr_down.induct) (simp_all add: Let_def)

type_synonym ctr_state = "bytes \<times> bytes \<times> nat"

definition ctr_byte :: "(bytes \<Rightarrow> bytes) \<Rightarrow> ctr_state \<Rightarrow> u8 \<Rightarrow> u8 \<times> ctr_state" where
  "ctr_byte E s c =
     (case s of (nonce_counter, stream_block, n) \<Rightarrow>
        let stream_block = (if n = 0 then E nonce_counter else stream_block);
            nonce_counter = (if n = 0 then incr_down 0 16 nonce_counter else nonce_counter)
        in (c XOR stream_block ! n, nonce_counter, stream_block, (n + 1) mod 16))"

definition crypt_ctr :: "(bytes \<Rightarrow> bytes) \<Rightarrow> ctr_state \<Rightarrow> bytes \<Rightarrow> (bytes \<times> ctr_state) option" where
  "crypt_ctr E s inp =
     (if snd (snd s) > 15 then None else Some (byte_loop (ctr_byte E) s inp))"

interpretation ctr: byte_cipher "ctr_byte E" "ctr_byte E" for E
  by unfold_locales (auto simp: ctr_byte_def Let_def xor.assoc split: prod.splits if_splits)

definition ctr_wf :: "ctr_state \<Rightarrow> bool" where
  "ctr_wf s \<longleftrightarrow> length (fst s) = 16 \<and> length (fst (snd s)) = 16 \<and> snd (snd s) < 16"

lemma ctr_byte_wf: "(\<And>b. length (E b) = 16) \<Longrightarrow> ctr_wf s \<Longrightarrow> ctr_wf (snd (ctr_byte E s x))"
  by (cases s) (simp add: ctr_byte_def ctr_wf_def Let_def)

lemma crypt_ctr_total:
  assumes "\<And>b. length (E b) = 16" "ctr_wf s"
  obtains ys s' where "crypt_ctr E s xs = Some (ys, s')" "length ys = length xs" "ctr_wf s'"
proof -
  have "ctr_wf (snd (byte_loop (ctr_byte E) s xs))"
    using assms(2) ctr_byte_wf [OF assms(1)] by (intro byte_loop_inv [where P = ctr_wf]) auto
  then show ?thesis
    using that [of "fst (byte_loop (ctr_byte E) s xs)" "snd (byte_loop (ctr_byte E) s xs)"] assms(2)
    by (simp add: crypt_ctr_def ctr_wf_def)
qed

lemma crypt_ctr_append:
  assumes "crypt_ctr E s xs = Some (a, s1)" "crypt_ctr E s1 ys = Some (b, s2)"
  shows "crypt_ctr E s (xs @ ys) = Some (a @ b, s2)"
  using assms by (auto simp: crypt_ctr_def byte_loop_append split: if_splits)

lemma crypt_ctr_undo:
  assumes "crypt_ctr E s xs = Some (ys, s')"
  shows "crypt_ctr E s ys = Some (xs, s')"
  using assms ctr.loop_undo [of E s xs ys s'] by (simp add: crypt_ctr_def split: if_splits)

section \<open>ARC4\<close>

record arc4_context =
  arc4_x :: nat
  arc4_y :: nat
  arc4_m :: bytes

definition mbedtls_arc4_init :: arc4_context where
  "mbedtls_arc4_init = \<lparr>arc4_x = 0, arc4_y = 0, arc4_m = replicate 256 0\<rparr>"

text \<open>The key schedule; \<open>k\<close> runs through the key cyclically.\<close>

definition arc4_schedule :: "bytes \<Rightarrow> nat \<Rightarrow> nat \<Rightarrow> bytes \<times> nat \<times> nat \<Rightarrow> bytes \<times> nat \<times> nat" where
  "arc4_schedule key keylen i s =
     (case s of (m, j, k) \<Rightarrow>
        let k = (if k \<ge> keylen then 0 else k);
            a = m ! i;
            j = (j + unat a + unat (key ! k)) mod 256;
            m = m[i := m ! j];
            m = m[j := a]
        in (m, j, k + 1))"

definition mbedtls_arc4_setup :: "arc4_context \<Rightarrow> bytes \<Rightarrow> nat \<Rightarrow> arc4_context" where
  "mbedtls_arc4_setup ctx key keylen =
     (let m = fold (\<lambda>i m. m[i := of_nat i]) [0..<256] (arc4_m ctx)
      in ctx\<lparr>arc4_x := 0, arc4_y := 0,
             arc4_m := fst (fold (arc4_schedule key keylen) [0..<256] (m, 0, 0))\<rparr>)"

definition arc4_byte :: "arc4_context \<Rightarrow> u8 \<Rightarrow> u8 \<times> arc4_context" where
  "arc4_byte ctx c =
     (let m = arc4_m ctx;
          x = (arc4_x ctx + 1) mod 256; a = m ! x;
          y = (arc4_y ctx + unat a) mod 256; b = m ! y;
          m = m[x := b];
          m = m[y := a]
      in (c XOR m ! unat (a + b), ctx\<lparr>arc4_x := x, arc4_y := y, arc4_m := m\<rparr>))"

definition mbedtls_arc4_crypt :: "arc4_context \<Rightarrow> bytes \<Rightarrow> bytes \<times> arc4_context" where
  "mbedtls_arc4_crypt ctx inp = byte_loop arc4_byte ctx inp"

interpretation arc4: byte_cipher arc4_byte arc4_byte
  by unfold_locales (auto simp: arc4_byte_def Let_def xor.assoc)

definition arc4_wf :: "arc4_context \<Rightarrow> bool" where
  "arc4_wf ctx \<longleftrightarrow> length (arc4_m ctx) = 256 \<and> arc4_x ctx < 256 \<and> arc4_y ctx < 256"

lemma arc4_byte_wf: "arc4_wf ctx \<Longrightarrow> arc4_wf (snd (arc4_byte ctx c))"
  by (simp add: arc4_wf_def arc4_byte_def Let_def)

lemma arc4_crypt_wf: "arc4_wf ctx \<Longrightarrow> arc4_wf (snd (mbedtls_arc4_crypt ctx xs))"
  unfolding mbedtls_arc4_crypt_def by (rule byte_loop_inv) (auto intro: arc4_byte_wf)

lemma arc4_schedule_length: "length (fst (fold (arc4_schedule k n) is s)) = length (fst s)"
  by (induction "is" arbitrary: s) (simp_all add: arc4_schedule_def Let_def split_beta)

lemma arc4_setup_wf: "length (arc4_m ctx) = 256 \<Longrightarrow> arc4_wf (mbedtls_arc4_setup ctx k n)"
proof -
  have "length (fold (\<lambda>i m. m[i := of_nat i]) is (m :: bytes)) = length m" for "is" m
    by (induction "is" arbitrary: m) simp_all
  then show "length (arc4_m ctx) = 256 \<Longrightarrow> arc4_wf (mbedtls_arc4_setup ctx k n)"
    by (simp add: arc4_wf_def mbedtls_arc4_setup_def Let_def arc4_schedule_length)
qed

end
