(* ===== verification/SS_Gcm.thy ===== *)
theory SS_Gcm
  imports SS_Aes SS_Modes
begin

text \<open>
  Galois/counter mode of mbed TLS (\<^verbatim>\<open>mbedtls/library/gcm.c\<close>) over AES: the table of multiples of H,
  Shoup's multiplication, the start from an IV and additional data, the counter loop with the
  running hash, and the tag. The theorem: opening what was sealed under the same key, IV and
  additional data gives the message back, and a tag that differs is refused. The C code's inner
  \<^verbatim>\<open>cipher_ctx\<close> is an AES context in ECB mode, on which \<^verbatim>\<open>mbedtls_cipher_update\<close> of sixteen bytes is
  one block encryption.
\<close>

record gcm_context =
  g_cipher :: aes_context
  HL :: "u64 list"
  HH :: "u64 list"
  g_len :: u64
  g_add_len :: u64
  base_ectr :: bytes
  g_y :: bytes
  g_buf :: bytes

definition mbedtls_gcm_init :: gcm_context where
  "mbedtls_gcm_init = \<lparr>g_cipher = mbedtls_aes_init, HL = replicate 16 0, HH = replicate 16 0, g_len = 0,
     g_add_len = 0, base_ectr = replicate 16 0, g_y = replicate 16 0, g_buf = replicate 16 0\<rparr>"

section \<open>Multiplication by H\<close>

definition gcm_block :: "gcm_context \<Rightarrow> bytes \<Rightarrow> bytes" where
  "gcm_block ctx x = mbedtls_aes_crypt_ecb (g_cipher ctx) x"

definition get_u64 :: "bytes \<Rightarrow> nat \<Rightarrow> u64" where
  "get_u64 b i = push_bit 32 (ucast (GET_UINT32_BE b i)) OR ucast (GET_UINT32_BE b (i + 4))"

definition put_u64 :: "u64 \<Rightarrow> bytes" where
  "put_u64 w = be32 (ucast (drop_bit 32 w)) @ be32 (ucast w)"

text \<open>The two halves of the table: halving three times, then every other entry as a sum of two.\<close>

definition gcm_half :: "u64 \<times> u64 \<Rightarrow> u64 \<times> u64" where
  "gcm_half v =
     (case v of (vl, vh) \<Rightarrow>
        let T = ucast (vl AND 1) * 0xe1000000 :: u32
        in (push_bit 63 vh OR drop_bit 1 vl, drop_bit 1 vh XOR push_bit 32 (ucast T)))"

definition gcm_tables :: "u64 \<Rightarrow> u64 \<Rightarrow> u64 list \<Rightarrow> u64 list \<Rightarrow> u64 list \<times> u64 list" where
  "gcm_tables vl vh hl hh =
     (let hl = hl[8 := vl, 0 := 0];
          hh = hh[8 := vh, 0 := 0];
          (hl, hh, _) =
            fold (\<lambda>i (hl, hh, v). let v = gcm_half v in (hl[i := fst v], hh[i := snd v], v))
              [4, 2, 1] (hl, hh, vl, vh)
      in fold (\<lambda>i (hl, hh).
                let vh = hh ! i; vl = hl ! i
                in fold (\<lambda>j (hl, hh). (hl[i + j := vl XOR hl ! j], hh[i + j := vh XOR hh ! j])) [1..<i] (hl, hh))
           [2, 4, 8] (hl, hh))"

definition gcm_gen_table :: "gcm_context \<Rightarrow> gcm_context" where
  "gcm_gen_table ctx =
     (let h = gcm_block ctx (replicate 16 0);
          vh = get_u64 h 0;
          vl = get_u64 h 8
      in case gcm_tables vl vh (HL ctx) (HH ctx) of (hl, hh) \<Rightarrow> ctx\<lparr>HL := hl, HH := hh\<rparr>)"

definition last4 :: "u64 list" where
  "last4 = [0x0000, 0x1c20, 0x3840, 0x2460, 0x7080, 0x6ca0, 0x48c0, 0x54e0,
            0xe100, 0xfd20, 0xd940, 0xc560, 0x9180, 0x8da0, 0xa9c0, 0xb5e0]"

text \<open>Divide by P to the fourth and add the multiple of H for the next four bits.\<close>

definition gcm_shift :: "gcm_context \<Rightarrow> nat \<Rightarrow> u64 \<times> u64 \<Rightarrow> u64 \<times> u64" where
  "gcm_shift ctx nibble z =
     (case z of (zh, zl) \<Rightarrow>
        let rem = unat (ucast zl AND (0xf :: u8));
            zl = push_bit 60 zh OR drop_bit 4 zl;
            zh = drop_bit 4 zh;
            zh = zh XOR push_bit 48 (last4 ! rem)
        in (zh XOR HH ctx ! nibble, zl XOR HL ctx ! nibble))"

definition gcm_mult :: "gcm_context \<Rightarrow> bytes \<Rightarrow> bytes" where
  "gcm_mult ctx x =
     (let lo = unat (x ! 15 AND 0xf)
      in case fold (\<lambda>i z.
              let lo = unat (x ! i AND 0xf); hi = unat (drop_bit 4 (x ! i));
                  z = (if i \<noteq> 15 then gcm_shift ctx lo z else z)
              in gcm_shift ctx hi z)
            (rev [0..<16]) (HH ctx ! lo, HL ctx ! lo) of
           (zh, zl) \<Rightarrow> put_u64 zh @ put_u64 zl)"

section \<open>Operations\<close>

text \<open>\<open>None\<close> is \<^verbatim>\<open>MBEDTLS_ERR_GCM_BAD_INPUT\<close>: no AES with that key size.\<close>

definition mbedtls_gcm_setkey :: "gcm_context \<Rightarrow> bytes \<Rightarrow> nat \<Rightarrow> gcm_context option" where
  "mbedtls_gcm_setkey ctx k keybits =
     (case mbedtls_aes_setkey_enc mbedtls_aes_init k keybits of
        None \<Rightarrow> None
      | Some a \<Rightarrow> Some (gcm_gen_table (ctx\<lparr>g_cipher := a\<rparr>)))"

text \<open>\<open>for (i = 0; i < use_len; i++) b[i] ^= p[i];\<close>\<close>

definition xor_into :: "bytes \<Rightarrow> bytes \<Rightarrow> bytes" where
  "xor_into b p = map2 (XOR) b p @ drop (length p) b"

function gcm_hash :: "gcm_context \<Rightarrow> bytes \<Rightarrow> bytes \<Rightarrow> bytes" where
  "gcm_hash ctx b p =
     (if p = [] then b
      else gcm_hash ctx (gcm_mult ctx (xor_into b (take 16 p))) (drop 16 p))"
  by pat_completeness auto
termination
  by (relation "measure (\<lambda>(ctx, b, p). length p)") auto

declare gcm_hash.simps [simp del]

definition mbedtls_gcm_starts :: "gcm_context \<Rightarrow> bytes \<Rightarrow> bytes \<Rightarrow> gcm_context option" where
  "mbedtls_gcm_starts ctx iv ad =
     (if iv = [] \<or> drop_bit 61 (of_nat (length iv) :: u64) \<noteq> 0 \<or> drop_bit 61 (of_nat (length ad) :: u64) \<noteq> 0
      then None
      else
        let ctx = ctx\<lparr>g_y := replicate 16 0, g_buf := replicate 16 0, g_len := 0, g_add_len := 0\<rparr>;
            y = (if length iv = 12 then (memcpy_at (g_y ctx) 0 iv)[15 := 1]
                 else
                   let work_buf = memcpy_at (replicate 16 0) 12 (be32 (of_nat (length iv * 8)));
                       y = gcm_hash ctx (g_y ctx) iv
                   in gcm_mult ctx (xor_into y work_buf));
            ctx = ctx\<lparr>g_y := y, base_ectr := gcm_block ctx y, g_add_len := of_nat (length ad)\<rparr>
        in Some (ctx\<lparr>g_buf := gcm_hash ctx (g_buf ctx) ad\<rparr>))"

text \<open>The loop over blocks: counter, key stream, output, and the hash of the ciphertext side.\<close>

function gcm_loop :: "gcm_context \<Rightarrow> bool \<Rightarrow> bytes \<Rightarrow> bytes \<Rightarrow> bytes \<Rightarrow> bytes \<times> bytes \<times> bytes" where
  "gcm_loop ctx enc y buf p =
     (if p = [] then ([], y, buf)
      else
        let q = take 16 p;
            y = incr_down 12 16 y;
            ectr = gcm_block ctx y;
            out = map2 (XOR) ectr q;
            buf = gcm_mult ctx (xor_into buf (if enc then out else q))
        in case gcm_loop ctx enc y buf (drop 16 p) of (rest, y, buf) \<Rightarrow> (out @ rest, y, buf))"
  by pat_completeness auto
termination
  by (relation "measure (\<lambda>(ctx, enc, y, buf, p). length p)") auto

declare gcm_loop.simps [simp del]

definition mbedtls_gcm_update :: "gcm_context \<Rightarrow> bool \<Rightarrow> bytes \<Rightarrow> (bytes \<times> gcm_context) option" where
  "mbedtls_gcm_update ctx enc inp =
     (let n = g_len ctx + of_nat (length inp)
      in if n < g_len ctx \<or> n > 0xFFFFFFFE0 then None
         else
           case gcm_loop ctx enc (g_y ctx) (g_buf ctx) inp of
             (out, y, buf) \<Rightarrow> Some (out, ctx\<lparr>g_len := n, g_y := y, g_buf := buf\<rparr>))"

definition mbedtls_gcm_finish :: "gcm_context \<Rightarrow> nat \<Rightarrow> bytes option" where
  "mbedtls_gcm_finish ctx tag_len =
     (let orig_len = g_len ctx * 8;
          orig_add_len = g_add_len ctx * 8
      in if tag_len > 16 \<or> tag_len < 4 then None
         else
           let tag = take tag_len (base_ectr ctx)
           in if orig_len \<noteq> 0 \<or> orig_add_len \<noteq> 0 then
                let work_buf = put_u64 orig_add_len @ put_u64 orig_len;
                    buf = gcm_mult ctx (xor_into (g_buf ctx) work_buf)
                in Some (map2 (XOR) tag (take tag_len buf))
              else Some tag)"

text \<open>The output and the tag; the context is started anew on every call.\<close>

definition mbedtls_gcm_crypt_and_tag ::
  "gcm_context \<Rightarrow> bool \<Rightarrow> bytes \<Rightarrow> bytes \<Rightarrow> bytes \<Rightarrow> nat \<Rightarrow> (bytes \<times> bytes) option" where
  "mbedtls_gcm_crypt_and_tag ctx enc iv ad inp tag_len =
     (case mbedtls_gcm_starts ctx iv ad of
        None \<Rightarrow> None
      | Some ctx \<Rightarrow>
          (case mbedtls_gcm_update ctx enc inp of
             None \<Rightarrow> None
           | Some (out, ctx) \<Rightarrow>
               (case mbedtls_gcm_finish ctx tag_len of
                  None \<Rightarrow> None
                | Some tag \<Rightarrow> Some (out, tag))))"

text \<open>\<open>diff |= tag[i] ^ check_tag[i]\<close> over the whole tag.\<close>

definition tag_diff :: "bytes \<Rightarrow> bytes \<Rightarrow> u8" where
  "tag_diff s t = fold (\<lambda>(a, b) d. d OR (a XOR b)) (zip s t) 0"

definition mbedtls_gcm_auth_decrypt :: "gcm_context \<Rightarrow> bytes \<Rightarrow> bytes \<Rightarrow> bytes \<Rightarrow> bytes \<Rightarrow> bytes option" where
  "mbedtls_gcm_auth_decrypt ctx iv ad tag inp =
     (case mbedtls_gcm_crypt_and_tag ctx False iv ad inp (length tag) of
        None \<Rightarrow> None
      | Some (out, check_tag) \<Rightarrow> if tag_diff tag check_tag \<noteq> 0 then None else Some out)"

section \<open>Opening undoes sealing\<close>

lemma length_put_u64 [simp, len_simps]: "length (put_u64 w) = 8"
  by (simp add: put_u64_def)

lemma length_gcm_mult [simp, len_simps]: "length (gcm_mult ctx x) = 16"
  by (simp add: gcm_mult_def Let_def split: prod.splits)

lemma length_gcm_block [simp, len_simps]: "length (gcm_block ctx x) = 16"
  by (simp add: gcm_block_def)

lemma length_gcm_hash [len_simps]: "length b = 16 \<Longrightarrow> length (gcm_hash ctx b p) = 16"
  by (induction ctx b p rule: gcm_hash.induct) (subst gcm_hash.simps, simp)

lemma gcm_loop_undo:
  "gcm_loop ctx True y buf p = (c, y', buf') \<Longrightarrow> gcm_loop ctx False y buf c = (p, y', buf') \<and> length c = length p"
proof (induction ctx "True" y buf p arbitrary: c y' buf' rule: gcm_loop.induct)
  case (1 ctx y buf p)
  show ?case
  proof (cases "p = []")
    case True
    with "1.prems" show ?thesis by (simp add: gcm_loop.simps)
  next
    case False
    let ?y = "incr_down 12 16 y"
    let ?e = "gcm_block ctx ?y"
    let ?out = "map2 (XOR) ?e (take 16 p)"
    let ?b = "gcm_mult ctx (xor_into buf ?out)"
    obtain rest where r: "gcm_loop ctx True ?y ?b (drop 16 p) = (rest, y', buf')" "c = ?out @ rest"
      using "1.prems" False by (subst (asm) gcm_loop.simps) (auto simp: Let_def split: prod.splits)
    have lo: "length ?out = min 16 (length p)" by simp
    have ih: "gcm_loop ctx False ?y ?b rest = (drop 16 p, y', buf')" "length rest = length (drop 16 p)"
      using "1.hyps" [OF False refl refl refl refl refl] r(1) by (auto simp del: length_drop)
    have t: "take 16 c = ?out" "drop 16 c = rest"
    proof -
      have "length p \<le> 16 \<Longrightarrow> rest = []" using ih(2) by simp
      then show "take 16 c = ?out" "drop 16 c = rest"
        using r(2) lo by (cases "length p \<le> 16"; simp)+
    qed
    have inv: "map2 (XOR) ?e ?out = take 16 p"
      using map2_xor_involution [of "take 16 p" ?e] by simp
    have "length ?out \<noteq> 0" using False lo by simp
    then have "c \<noteq> []" using r(2) by (metis append_is_Nil_conv list.size(3))
    then have "gcm_loop ctx False y buf c = (take 16 p @ drop 16 p, y', buf')"
      by (subst gcm_loop.simps) (simp add: Let_def t ih(1) inv)
    with r(2) ih(2) lo show ?thesis by simp
  qed
qed

lemma gcm_loop_length: "gcm_loop ctx enc y buf p = (c, y', buf') \<Longrightarrow> length c = length p"
proof (induction ctx enc y buf p arbitrary: c y' buf' rule: gcm_loop.induct)
  case (1 ctx enc y buf p)
  show ?case
  proof (cases "p = []")
    case True
    with "1.prems" show ?thesis by (simp add: gcm_loop.simps)
  next
    case False
    let ?y = "incr_down 12 16 y"
    let ?out = "map2 (XOR) (gcm_block ctx ?y) (take 16 p)"
    let ?b = "gcm_mult ctx (xor_into buf (if enc then ?out else take 16 p))"
    obtain rest where r: "gcm_loop ctx enc ?y ?b (drop 16 p) = (rest, y', buf')" "c = ?out @ rest"
      using "1.prems" False by (subst (asm) gcm_loop.simps) (auto simp: Let_def split: prod.splits)
    have "length rest = length (drop 16 p)"
      using "1.IH" [OF False refl refl refl refl refl r(1)] .
    with r(2) show ?thesis by simp
  qed
qed

lemma gcm_update_undo:
  assumes "mbedtls_gcm_update ctx True m = Some (c, ctx')"
  shows "mbedtls_gcm_update ctx False c = Some (m, ctx')"
proof -
  obtain y buf where l: "gcm_loop ctx True (g_y ctx) (g_buf ctx) m = (c, y, buf)"
    using assms by (auto simp: mbedtls_gcm_update_def Let_def split: if_splits prod.splits)
  show ?thesis
    using assms gcm_loop_undo [OF l] l by (auto simp: mbedtls_gcm_update_def Let_def split: if_splits)
qed

lemma tag_diff_fold:
  "length s = length t \<Longrightarrow> fold (\<lambda>(a, b) d. d OR (a XOR b)) (zip s t) d = (0 :: u8) \<longleftrightarrow> d = 0 \<and> s = t"
proof (induction s t arbitrary: d rule: list_induct2)
  case (Cons a s b t)
  have "b = a XOR (a XOR b)"
    by (simp flip: xor.assoc)
  then have "a = b" if "a XOR b = 0"
    using that by simp
  then have "d OR (a XOR b) = 0 \<longleftrightarrow> d = 0 \<and> a = b"
    by (auto simp: or_eq_0_iff)
  with Cons show ?case by auto
qed simp

lemma tag_diff_0: "length s = length t \<Longrightarrow> tag_diff s t = 0 \<longleftrightarrow> s = t"
  by (simp add: tag_diff_def tag_diff_fold)

lemma gcm_auth_decrypt_sealed:
  assumes "mbedtls_gcm_crypt_and_tag ctx True iv ad m 16 = Some (c, t)" "length t = 16"
  shows "mbedtls_gcm_auth_decrypt ctx iv ad t c = Some m"
  using assms
  by (auto simp: mbedtls_gcm_crypt_and_tag_def mbedtls_gcm_auth_decrypt_def tag_diff_0
      dest: gcm_update_undo split: option.splits)

lemma gcm_crypt_lengths:
  assumes "mbedtls_gcm_crypt_and_tag ctx enc iv ad m n = Some (c, t)"
  shows "length c = length m" "length t = n"
  using assms gcm_loop_length
  by (auto simp: mbedtls_gcm_crypt_and_tag_def mbedtls_gcm_starts_def mbedtls_gcm_update_def
      mbedtls_gcm_finish_def Let_def split: option.splits if_splits prod.splits)

text \<open>With an IV of twelve bytes and no additional data every message up to the limit is sealed.\<close>

lemma gcm_crypt_total:
  assumes "length iv = 12" "length m \<le> 2 ^ 36 - 32"
  shows "\<exists>c t. mbedtls_gcm_crypt_and_tag ctx enc iv [] m 16 = Some (c, t)"
proof -
  have "(of_nat (length m) :: u64) \<le> 0xFFFFFFFE0"
    using assms(2) by (simp add: word_le_nat_alt unsigned_of_nat take_bit_nat_eq_self)
  moreover have "iv \<noteq> []" using assms(1) by auto
  ultimately show ?thesis
    using assms(1)
    by (simp add: mbedtls_gcm_crypt_and_tag_def mbedtls_gcm_starts_def mbedtls_gcm_update_def
        mbedtls_gcm_finish_def Let_def not_less split: option.splits prod.splits)
qed

section \<open>A used context is as good as a new one\<close>

text \<open>
  What a context computes depends only on its key: \<open>gcm_gen_table\<close> overwrites the whole table and
  \<open>mbedtls_gcm_starts\<close> everything else.
\<close>

definition same_key :: "gcm_context \<Rightarrow> gcm_context \<Rightarrow> bool" where
  "same_key g g' \<longleftrightarrow> g_cipher g = g_cipher g' \<and> HL g = HL g' \<and> HH g = HH g'"

definition gcm_wf :: "gcm_context \<Rightarrow> bool" where
  "gcm_wf g \<longleftrightarrow> length (HL g) = 16 \<and> length (HH g) = 16"

lemma list16:
  assumes "length xs = 16"
  obtains a0 a1 a2 a3 a4 a5 a6 a7 a8 a9 a10 a11 a12 a13 a14 a15
  where "xs = [a0, a1, a2, a3, a4, a5, a6, a7, a8, a9, a10, a11, a12, a13, a14, a15]"
  using assms by (auto simp: length_Suc_conv numeral_eq_Suc)

lemma gcm_tables_overwrite:
  assumes "length hl = 16" "length hh = 16" "length hl' = 16" "length hh' = 16"
  shows "gcm_tables vl vh hl hh = gcm_tables vl vh hl' hh'"
    and "length (fst (gcm_tables vl vh hl hh)) = 16" "length (snd (gcm_tables vl vh hl hh)) = 16"
proof -
  have u: "[Suc 0..<2] = [1]" "[Suc 0..<4] = [1, 2, 3]" "[Suc 0..<8] = [1, 2, 3, 4, 5, 6, 7]" by (simp_all add: upt_rec)
  obtain a0 a1 a2 a3 a4 a5 a6 a7 a8 a9 a10 a11 a12 a13 a14 a15 where as: "hl = [a0, a1, a2, a3, a4, a5, a6, a7, a8, a9, a10, a11, a12, a13, a14, a15]"
    by (rule list16 [OF assms(1)])
  obtain b0 b1 b2 b3 b4 b5 b6 b7 b8 b9 b10 b11 b12 b13 b14 b15 where bs: "hh = [b0, b1, b2, b3, b4, b5, b6, b7, b8, b9, b10, b11, b12, b13, b14, b15]"
    by (rule list16 [OF assms(2)])
  obtain c0 c1 c2 c3 c4 c5 c6 c7 c8 c9 c10 c11 c12 c13 c14 c15 where cs: "hl' = [c0, c1, c2, c3, c4, c5, c6, c7, c8, c9, c10, c11, c12, c13, c14, c15]"
    by (rule list16 [OF assms(3)])
  obtain d0 d1 d2 d3 d4 d5 d6 d7 d8 d9 d10 d11 d12 d13 d14 d15 where ds: "hh' = [d0, d1, d2, d3, d4, d5, d6, d7, d8, d9, d10, d11, d12, d13, d14, d15]"
    by (rule list16 [OF assms(4)])
  show "gcm_tables vl vh hl hh = gcm_tables vl vh hl' hh'"
    unfolding gcm_tables_def as bs cs ds by (simp add: Let_def u)
  show "length (fst (gcm_tables vl vh hl hh)) = 16" "length (snd (gcm_tables vl vh hl hh)) = 16"
    unfolding gcm_tables_def as bs by (simp_all add: Let_def u)
qed

lemma gcm_setkey_any:
  assumes "gcm_wf g" "bits \<in> {128, 192, 256}"
  obtains g1 g2 where "mbedtls_gcm_setkey g k bits = Some g1" "mbedtls_gcm_setkey mbedtls_gcm_init k bits = Some g2"
    "same_key g1 g2" "gcm_wf g1"
proof -
  obtain a where a: "mbedtls_aes_setkey_enc mbedtls_aes_init k bits = Some a"
    using assms(2) by (auto simp: mbedtls_aes_setkey_enc_def Let_def)
  let ?g1 = "gcm_gen_table (g\<lparr>g_cipher := a\<rparr>)" and ?g2 = "gcm_gen_table (mbedtls_gcm_init\<lparr>g_cipher := a\<rparr>)"
  note t = gcm_tables_overwrite [of "HL g" "HH g" "HL mbedtls_gcm_init" "HH mbedtls_gcm_init"]
  have "same_key ?g1 ?g2 \<and> gcm_wf ?g1"
    using assms(1) t
    by (simp add: gcm_gen_table_def gcm_block_def same_key_def gcm_wf_def mbedtls_gcm_init_def split_beta Let_def)
  with a show ?thesis
    by (intro that [of ?g1 ?g2]) (simp_all add: mbedtls_gcm_setkey_def)
qed

lemma same_key_block: "same_key g g' \<Longrightarrow> gcm_block g x = gcm_block g' x"
  by (simp add: gcm_block_def same_key_def)

lemma same_key_mult: "same_key g g' \<Longrightarrow> gcm_mult g x = gcm_mult g' x"
  unfolding gcm_mult_def gcm_shift_def same_key_def by (simp cong: if_cong)

lemma same_key_hash: "same_key g g' \<Longrightarrow> gcm_hash g b p = gcm_hash g' b p"
proof (induction "length p" arbitrary: b p rule: less_induct)
  case less
  then show ?case
    by (subst (1 2) gcm_hash.simps) (simp add: same_key_mult [OF less.prems])
qed

lemma same_key_crypt:
  assumes "same_key g g'"
  shows "mbedtls_gcm_crypt_and_tag g enc iv ad m n = mbedtls_gcm_crypt_and_tag g' enc iv ad m n"
    and "mbedtls_gcm_auth_decrypt g iv ad t m = mbedtls_gcm_auth_decrypt g' iv ad t m"
proof -
  let ?r = "\<lambda>g. g\<lparr>g_y := replicate 16 0, g_buf := replicate 16 0, g_len := 0, g_add_len := 0\<rparr>"
  have h: "gcm_hash (?r g) b p = gcm_hash (?r g') b p" "gcm_mult (?r g) x = gcm_mult (?r g') x"
      "gcm_block (?r g) x = gcm_block (?r g') x" for b p x
    using assms by (auto intro!: same_key_hash same_key_mult same_key_block simp: same_key_def)
  have e: "(?r g)\<lparr>g_y := y, base_ectr := z, g_add_len := l\<rparr> = (?r g')\<lparr>g_y := y, base_ectr := z, g_add_len := l\<rparr>" for y z l
    using assms by (simp add: same_key_def)
  have "mbedtls_gcm_starts g iv ad = mbedtls_gcm_starts g' iv ad"
    unfolding mbedtls_gcm_starts_def Let_def h e by simp
  then show "mbedtls_gcm_crypt_and_tag g enc iv ad m n = mbedtls_gcm_crypt_and_tag g' enc iv ad m n" for enc m n
    by (simp add: mbedtls_gcm_crypt_and_tag_def)
  then show "mbedtls_gcm_auth_decrypt g iv ad t m = mbedtls_gcm_auth_decrypt g' iv ad t m"
    by (simp add: mbedtls_gcm_auth_decrypt_def)
qed

end
