(* ===== verification/SS_Camellia.thy ===== *)
theory SS_Camellia
  imports SS_Digest
begin

text \<open>
  The Camellia block cipher of mbed TLS (\<^verbatim>\<open>mbedtls/library/camellia.c\<close>, without
  \<^verbatim>\<open>MBEDTLS_CAMELLIA_SMALL_MEMORY\<close>): the Feistel function on four S-boxes, the key schedule that
  rotates and places the four intermediate keys, and the encryption of a block.
\<close>

section \<open>Tables\<close>

definition SIGMA_CHARS :: "bytes list" where
  "SIGMA_CHARS =
     [[0xa0, 0x9e, 0x66, 0x7f, 0x3b, 0xcc, 0x90, 0x8b],
      [0xb6, 0x7a, 0xe8, 0x58, 0x4c, 0xaa, 0x73, 0xb2],
      [0xc6, 0xef, 0x37, 0x2f, 0xe9, 0x4f, 0x82, 0xbe],
      [0x54, 0xff, 0x53, 0xa5, 0xf1, 0xd3, 0x6f, 0x1c],
      [0x10, 0xe5, 0x27, 0xfa, 0xde, 0x68, 0x2d, 0x1d],
      [0xb0, 0x56, 0x88, 0xc2, 0xb3, 0xe6, 0xc1, 0xfd]]"

definition camellia_SBOX1 :: bytes where
  "camellia_SBOX1 =
     [112, 130, 44, 236, 179, 39, 192, 229, 228, 133, 87, 53, 234, 12, 174, 65,
      35, 239, 107, 147, 69, 25, 165, 33, 237, 14, 79, 78, 29, 101, 146, 189,
      134, 184, 175, 143, 124, 235, 31, 206, 62, 48, 220, 95, 94, 197, 11, 26,
      166, 225, 57, 202, 213, 71, 93, 61, 217, 1, 90, 214, 81, 86, 108, 77,
      139, 13, 154, 102, 251, 204, 176, 45, 116, 18, 43, 32, 240, 177, 132, 153,
      223, 76, 203, 194, 52, 126, 118, 5, 109, 183, 169, 49, 209, 23, 4, 215,
      20, 88, 58, 97, 222, 27, 17, 28, 50, 15, 156, 22, 83, 24, 242, 34,
      254, 68, 207, 178, 195, 181, 122, 145, 36, 8, 232, 168, 96, 252, 105, 80,
      170, 208, 160, 125, 161, 137, 98, 151, 84, 91, 30, 149, 224, 255, 100, 210,
      16, 196, 0, 72, 163, 247, 117, 219, 138, 3, 230, 218, 9, 63, 221, 148,
      135, 92, 131, 2, 205, 74, 144, 51, 115, 103, 246, 243, 157, 127, 191, 226,
      82, 155, 216, 38, 200, 55, 198, 59, 129, 150, 111, 75, 19, 190, 99, 46,
      233, 121, 167, 140, 159, 110, 188, 142, 41, 245, 249, 182, 47, 253, 180, 89,
      120, 152, 6, 106, 231, 70, 113, 186, 212, 37, 171, 66, 136, 162, 141, 250,
      114, 7, 185, 85, 248, 238, 172, 10, 54, 73, 42, 104, 60, 56, 241, 164,
      64, 40, 211, 123, 187, 201, 67, 193, 21, 227, 173, 244, 119, 199, 128, 158]"

definition camellia_SBOX2 :: bytes where
  "camellia_SBOX2 =
     [224, 5, 88, 217, 103, 78, 129, 203, 201, 11, 174, 106, 213, 24, 93, 130,
      70, 223, 214, 39, 138, 50, 75, 66, 219, 28, 158, 156, 58, 202, 37, 123,
      13, 113, 95, 31, 248, 215, 62, 157, 124, 96, 185, 190, 188, 139, 22, 52,
      77, 195, 114, 149, 171, 142, 186, 122, 179, 2, 180, 173, 162, 172, 216, 154,
      23, 26, 53, 204, 247, 153, 97, 90, 232, 36, 86, 64, 225, 99, 9, 51,
      191, 152, 151, 133, 104, 252, 236, 10, 218, 111, 83, 98, 163, 46, 8, 175,
      40, 176, 116, 194, 189, 54, 34, 56, 100, 30, 57, 44, 166, 48, 229, 68,
      253, 136, 159, 101, 135, 107, 244, 35, 72, 16, 209, 81, 192, 249, 210, 160,
      85, 161, 65, 250, 67, 19, 196, 47, 168, 182, 60, 43, 193, 255, 200, 165,
      32, 137, 0, 144, 71, 239, 234, 183, 21, 6, 205, 181, 18, 126, 187, 41,
      15, 184, 7, 4, 155, 148, 33, 102, 230, 206, 237, 231, 59, 254, 127, 197,
      164, 55, 177, 76, 145, 110, 141, 118, 3, 45, 222, 150, 38, 125, 198, 92,
      211, 242, 79, 25, 63, 220, 121, 29, 82, 235, 243, 109, 94, 251, 105, 178,
      240, 49, 12, 212, 207, 140, 226, 117, 169, 74, 87, 132, 17, 69, 27, 245,
      228, 14, 115, 170, 241, 221, 89, 20, 108, 146, 84, 208, 120, 112, 227, 73,
      128, 80, 167, 246, 119, 147, 134, 131, 42, 199, 91, 233, 238, 143, 1, 61]"

definition camellia_SBOX3 :: bytes where
  "camellia_SBOX3 =
     [56, 65, 22, 118, 217, 147, 96, 242, 114, 194, 171, 154, 117, 6, 87, 160,
      145, 247, 181, 201, 162, 140, 210, 144, 246, 7, 167, 39, 142, 178, 73, 222,
      67, 92, 215, 199, 62, 245, 143, 103, 31, 24, 110, 175, 47, 226, 133, 13,
      83, 240, 156, 101, 234, 163, 174, 158, 236, 128, 45, 107, 168, 43, 54, 166,
      197, 134, 77, 51, 253, 102, 88, 150, 58, 9, 149, 16, 120, 216, 66, 204,
      239, 38, 229, 97, 26, 63, 59, 130, 182, 219, 212, 152, 232, 139, 2, 235,
      10, 44, 29, 176, 111, 141, 136, 14, 25, 135, 78, 11, 169, 12, 121, 17,
      127, 34, 231, 89, 225, 218, 61, 200, 18, 4, 116, 84, 48, 126, 180, 40,
      85, 104, 80, 190, 208, 196, 49, 203, 42, 173, 15, 202, 112, 255, 50, 105,
      8, 98, 0, 36, 209, 251, 186, 237, 69, 129, 115, 109, 132, 159, 238, 74,
      195, 46, 193, 1, 230, 37, 72, 153, 185, 179, 123, 249, 206, 191, 223, 113,
      41, 205, 108, 19, 100, 155, 99, 157, 192, 75, 183, 165, 137, 95, 177, 23,
      244, 188, 211, 70, 207, 55, 94, 71, 148, 250, 252, 91, 151, 254, 90, 172,
      60, 76, 3, 53, 243, 35, 184, 93, 106, 146, 213, 33, 68, 81, 198, 125,
      57, 131, 220, 170, 124, 119, 86, 5, 27, 164, 21, 52, 30, 28, 248, 82,
      32, 20, 233, 189, 221, 228, 161, 224, 138, 241, 214, 122, 187, 227, 64, 79]"

definition camellia_SBOX4 :: bytes where
  "camellia_SBOX4 =
     [112, 44, 179, 192, 228, 87, 234, 174, 35, 107, 69, 165, 237, 79, 29, 146,
      134, 175, 124, 31, 62, 220, 94, 11, 166, 57, 213, 93, 217, 90, 81, 108,
      139, 154, 251, 176, 116, 43, 240, 132, 223, 203, 52, 118, 109, 169, 209, 4,
      20, 58, 222, 17, 50, 156, 83, 242, 254, 207, 195, 122, 36, 232, 96, 105,
      170, 160, 161, 98, 84, 30, 224, 100, 16, 0, 163, 117, 138, 230, 9, 221,
      135, 131, 205, 144, 115, 246, 157, 191, 82, 216, 200, 198, 129, 111, 19, 99,
      233, 167, 159, 188, 41, 249, 47, 180, 120, 6, 231, 113, 212, 171, 136, 141,
      114, 185, 248, 172, 54, 42, 60, 241, 64, 211, 187, 67, 21, 173, 119, 128,
      130, 236, 39, 229, 133, 53, 12, 65, 239, 147, 25, 33, 14, 78, 101, 189,
      184, 143, 235, 206, 48, 95, 197, 26, 225, 202, 71, 61, 1, 214, 86, 77,
      13, 102, 204, 45, 18, 32, 177, 153, 76, 194, 126, 5, 183, 49, 23, 215,
      88, 97, 27, 28, 15, 22, 24, 34, 68, 178, 181, 145, 8, 168, 252, 80,
      208, 125, 137, 151, 91, 149, 255, 210, 196, 72, 247, 219, 3, 218, 63, 148,
      92, 2, 74, 51, 103, 243, 127, 226, 155, 38, 55, 59, 150, 75, 190, 46,
      121, 140, 110, 142, 245, 182, 253, 89, 152, 106, 70, 186, 37, 66, 162, 250,
      7, 85, 238, 10, 73, 104, 56, 164, 40, 123, 201, 193, 227, 244, 199, 158]"

definition camellia_shifts :: "bool list list list" where
  "camellia_shifts =
     [[[True, True, True, True],
       [False, False, False, False],
       [True, True, True, True],
       [False, False, False, False]],
      [[True, False, True, True],
       [True, True, False, True],
       [True, True, True, False],
       [True, True, False, True]]]"

definition camellia_indexes :: "int list list list" where
  "camellia_indexes =
     [[[0, 1, 2, 3, 8, 9, 10, 11, 38, 39, 36, 37, 23, 20, 21, 22, 27, - 1, - 1, 26],
       [- 1, - 1, - 1, - 1, - 1, - 1, - 1, - 1, - 1, - 1, - 1, - 1, - 1, - 1, - 1, - 1, - 1, - 1, - 1, - 1],
       [4, 5, 6, 7, 12, 13, 14, 15, 16, 17, 18, 19, - 1, 24, 25, - 1, 31, 28, 29, 30],
       [- 1, - 1, - 1, - 1, - 1, - 1, - 1, - 1, - 1, - 1, - 1, - 1, - 1, - 1, - 1, - 1, - 1, - 1, - 1, - 1]],
      [[0, 1, 2, 3, 61, 62, 63, 60, - 1, - 1, - 1, - 1, 27, 24, 25, 26, 35, 32, 33, 34],
       [- 1, - 1, - 1, - 1, 8, 9, 10, 11, 16, 17, 18, 19, - 1, - 1, - 1, - 1, 39, 36, 37, 38],
       [- 1, - 1, - 1, - 1, 12, 13, 14, 15, 58, 59, 56, 57, 31, 28, 29, 30, - 1, - 1, - 1, - 1],
       [4, 5, 6, 7, 65, 66, 67, 64, 20, 21, 22, 23, - 1, - 1, - 1, - 1, 43, 40, 41, 42]]]"

definition camellia_transposes :: "int list list" where
  "camellia_transposes =
     [[21, 22, 23, 20, - 1, - 1, - 1, - 1, 18, 19, 16, 17, 11, 8, 9, 10, 15, 12, 13, 14],
      [25, 26, 27, 24, 29, 30, 31, 28, 18, 19, 16, 17, - 1, - 1, - 1, - 1, - 1, - 1, - 1, - 1]]"

section \<open>The Feistel function\<close>

type_synonym word_pair = "u32 \<times> u32"

definition rotl32 :: "nat \<Rightarrow> u32 \<Rightarrow> u32" where
  "rotl32 n w = push_bit n w OR drop_bit (32 - n) w"

text \<open>
  \<open>camellia_feistel\<close> xors its result into \<open>z\<close>; the array arguments are pairs of words.
  A rotation to the right by 8 is written as one to the left by 24.
\<close>

definition camellia_feistel :: "word_pair \<Rightarrow> word_pair \<Rightarrow> word_pair \<Rightarrow> word_pair" where
  "camellia_feistel x k z =
     (let I0 = fst x XOR fst k;
          I1 = snd x XOR snd k;
          byte = (\<lambda>s w. unat (drop_bit s w AND 0xFF));
          I0 = push_bit 24 (ucast (camellia_SBOX1 ! byte 24 I0)) OR push_bit 16 (ucast (camellia_SBOX2 ! byte 16 I0))
               OR push_bit 8 (ucast (camellia_SBOX3 ! byte 8 I0)) OR ucast (camellia_SBOX4 ! byte 0 I0);
          I1 = push_bit 24 (ucast (camellia_SBOX2 ! byte 24 I1)) OR push_bit 16 (ucast (camellia_SBOX3 ! byte 16 I1))
               OR push_bit 8 (ucast (camellia_SBOX4 ! byte 8 I1)) OR ucast (camellia_SBOX1 ! byte 0 I1);
          I0 = I0 XOR rotl32 8 I1;
          I1 = I1 XOR rotl32 16 I0;
          I0 = I0 XOR rotl32 24 I1;
          I1 = I1 XOR rotl32 24 I0
      in (fst z XOR I1, snd z XOR I0))"

section \<open>Key schedule\<close>

record camellia_context =
  cm_nr :: nat
  cm_rk :: "u32 list"

definition mbedtls_camellia_init :: camellia_context where
  "mbedtls_camellia_init = \<lparr>cm_nr = 0, cm_rk = replicate 68 0\<rparr>"

text \<open>The pair at index \<open>i\<close> of an array, and the same call on parts of an array.\<close>

definition pair_at :: "u32 list \<Rightarrow> nat \<Rightarrow> word_pair" where
  "pair_at a i = (a ! i, a ! (i + 1))"

definition feistel_at :: "nat \<Rightarrow> word_pair \<Rightarrow> nat \<Rightarrow> u32 list \<Rightarrow> u32 list" where
  "feistel_at x k z a =
     (case camellia_feistel (pair_at a x) k (pair_at a z) of (z0, z1) \<Rightarrow> a[z := z0, z + 1 := z1])"

definition camellia_SIGMA :: "nat \<Rightarrow> word_pair" where
  "camellia_SIGMA i = (GET_UINT32_BE (SIGMA_CHARS ! i) 0, GET_UINT32_BE (SIGMA_CHARS ! i) 4)"

text \<open>Left rotation of the first four words of \<open>TK\<close> into the words from \<open>d\<close> on.\<close>

definition camellia_ROTL :: "nat \<Rightarrow> nat \<Rightarrow> u32 list \<Rightarrow> u32 list" where
  "camellia_ROTL d s TK =
     (let r = (\<lambda>i j. push_bit s (TK ! i) XOR drop_bit (32 - s) (TK ! j))
      in TK[d := r 0 1, d + 1 := r 1 2, d + 2 := r 2 3, d + 3 := r 3 0])"

definition SHIFT_AND_PLACE :: "u32 list \<Rightarrow> nat \<Rightarrow> nat \<Rightarrow> u32 list \<times> u32 list \<Rightarrow> u32 list \<times> u32 list" where
  "SHIFT_AND_PLACE KC ix ofs s =
     (case s of (TK, RK) \<Rightarrow>
        let TK = TK[0 := KC ! (ofs * 4), 1 := KC ! (ofs * 4 + 1), 2 := KC ! (ofs * 4 + 2), 3 := KC ! (ofs * 4 + 3)];
            TK = fold (\<lambda>i TK. if camellia_shifts ! ix ! ofs ! (i - 1) then camellia_ROTL (i * 4) (15 * i mod 32) TK else TK)
                   [1..<5] TK;
            RK = fold (\<lambda>i RK. let p = camellia_indexes ! ix ! ofs ! i in if p \<noteq> - 1 then RK[nat p := TK ! i] else RK)
                   [0..<20] RK
        in (TK, RK))"

text \<open>The key bytes, with the second half of a 192-bit key completed by its complement.\<close>

definition camellia_key_bytes :: "bytes \<Rightarrow> nat \<Rightarrow> bytes" where
  "camellia_key_bytes k keybits =
     (let t = memcpy_at (replicate 64 0) 0 (take (keybits div 8) k)
      in if keybits = 192 then fold (\<lambda>i t. t[24 + i := NOT (t ! (16 + i))]) [0..<8] t else t)"

text \<open>\<open>KC\<close> holds KL, KR, KA and KB, four words each.\<close>

definition camellia_KC :: "bytes \<Rightarrow> nat \<Rightarrow> u32 list" where
  "camellia_KC t keybits =
     (let KC = fold (\<lambda>i KC. KC[i := GET_UINT32_BE t (i * 4)]) [0..<8] (replicate 16 0);
          KC = fold (\<lambda>i KC. KC[8 + i := KC ! i XOR KC ! (4 + i)]) [0..<4] KC;
          KC = feistel_at 8 (camellia_SIGMA 0) 10 KC;
          KC = feistel_at 10 (camellia_SIGMA 1) 8 KC;
          KC = fold (\<lambda>i KC. KC[8 + i := KC ! (8 + i) XOR KC ! i]) [0..<4] KC;
          KC = feistel_at 8 (camellia_SIGMA 2) 10 KC;
          KC = feistel_at 10 (camellia_SIGMA 3) 8 KC
      in if keybits > 128 then
           let KC = fold (\<lambda>i KC. KC[12 + i := KC ! (4 + i) XOR KC ! (8 + i)]) [0..<4] KC;
               KC = feistel_at 12 (camellia_SIGMA 4) 14 KC
           in feistel_at 14 (camellia_SIGMA 5) 12 KC
         else KC)"

text \<open>\<open>None\<close> is \<^verbatim>\<open>MBEDTLS_ERR_CAMELLIA_BAD_INPUT_DATA\<close>.\<close>

definition mbedtls_camellia_setkey_enc :: "camellia_context \<Rightarrow> bytes \<Rightarrow> nat \<Rightarrow> camellia_context option" where
  "mbedtls_camellia_setkey_enc ctx k keybits =
     (if keybits \<notin> {128, 192, 256} then None
      else
        let ix = (if keybits = 128 then 0 else 1);
            KC = camellia_KC (camellia_key_bytes k keybits) keybits;
            s = SHIFT_AND_PLACE KC ix 0 (replicate 20 0, replicate 68 0);
            s = (if keybits > 128 then SHIFT_AND_PLACE KC ix 1 s else s);
            s = SHIFT_AND_PLACE KC ix 2 s;
            s = (if keybits > 128 then SHIFT_AND_PLACE KC ix 3 s else s);
            RK = fold (\<lambda>i RK. let p = camellia_transposes ! ix ! i
                              in if p \<noteq> - 1 then RK[32 + 12 * ix + i := RK ! nat p] else RK) [0..<20] (snd s)
        in Some (ctx\<lparr>cm_nr := (if keybits = 128 then 3 else 4), cm_rk := RK\<rparr>))"

section \<open>Encrypting a block\<close>

definition camellia_FL :: "word_pair \<Rightarrow> word_pair \<Rightarrow> word_pair" where
  "camellia_FL X K =
     (let XR = rotl32 1 (fst X AND fst K) XOR snd X;
          XL = (XR OR snd K) XOR fst X
      in (XL, XR))"

definition camellia_FLInv :: "word_pair \<Rightarrow> word_pair \<Rightarrow> word_pair" where
  "camellia_FLInv Y K =
     (let YL = (snd Y OR snd K) XOR fst Y;
          YR = rotl32 1 (YL AND fst K) XOR snd Y
      in (YL, YR))"

text \<open>Two of the six Feistel steps of a round; \<open>L\<close> is \<open>X[0..1]\<close> and \<open>R\<close> is \<open>X[2..3]\<close>.\<close>

definition feistel_twice :: "u32 list \<Rightarrow> nat \<Rightarrow> word_pair \<times> word_pair \<Rightarrow> word_pair \<times> word_pair" where
  "feistel_twice RK r X =
     (case X of (L, R) \<Rightarrow>
        let R = camellia_feistel L (pair_at RK r) R
        in (camellia_feistel R (pair_at RK (r + 2)) L, R))"

fun camellia_rounds :: "u32 list \<Rightarrow> nat \<Rightarrow> nat \<Rightarrow> word_pair \<times> word_pair \<Rightarrow> (word_pair \<times> word_pair) \<times> nat" where
  "camellia_rounds RK 0 r X = (X, r)"
| "camellia_rounds RK (Suc n) r X =
     (let X = feistel_twice RK (r + 8) (feistel_twice RK (r + 4) (feistel_twice RK r X));
          r = r + 12
      in if n \<noteq> 0
         then camellia_rounds RK n (r + 4)
                (camellia_FL (fst X) (pair_at RK r), camellia_FLInv (snd X) (pair_at RK (r + 2)))
         else (X, r))"

definition mbedtls_camellia_crypt_ecb :: "camellia_context \<Rightarrow> bytes \<Rightarrow> bytes" where
  "mbedtls_camellia_crypt_ecb ctx inp =
     (let RK = cm_rk ctx;
          X = ((GET_UINT32_BE inp 0 XOR RK ! 0, GET_UINT32_BE inp 4 XOR RK ! 1),
               (GET_UINT32_BE inp 8 XOR RK ! 2, GET_UINT32_BE inp 12 XOR RK ! 3))
      in case camellia_rounds RK (cm_nr ctx) 4 X of
           ((L, R), r) \<Rightarrow>
             be32 (fst R XOR RK ! r) @ be32 (snd R XOR RK ! (r + 1))
               @ be32 (fst L XOR RK ! (r + 2)) @ be32 (snd L XOR RK ! (r + 3)))"

lemma length_camellia_encrypt [simp, len_simps]: "length (mbedtls_camellia_crypt_ecb ctx inp) = 16"
  by (simp add: mbedtls_camellia_crypt_ecb_def Let_def split: prod.splits)

end
