(* ===== verification/SS_Mbed.thy ===== *)
theory SS_Mbed
  imports SS_Gcm SS_Blowfish SS_Camellia
begin

text \<open>
  The generic cipher layer of mbed TLS (\<^verbatim>\<open>mbedtls/library/cipher.c\<close> with the tables of
  \<^verbatim>\<open>cipher_wrap.c\<close>), for the ciphers that shadowsocks looks up by name. A context holds the
  description of its cipher, the direction, the IV with the offset into it, and the context of the
  primitive. \<open>None\<close> stands for a non-zero return code. Contexts are allocated on the heap; as with
  \<^verbatim>\<open>ss_malloc\<close>, a call that returns has its memory.
\<close>

section \<open>Descriptions\<close>

datatype cipher_mode = MODE_CFB | MODE_CTR | MODE_STREAM | MODE_GCM

datatype cipher_base = BASE_AES | BASE_GCM_AES | BASE_ARC4 | BASE_BLOWFISH | BASE_CAMELLIA

record cipher_info =
  ci_name :: string
  ci_mode :: cipher_mode
  ci_key_bitlen :: nat
  ci_iv_size :: nat
  ci_variable_iv_len :: bool
  ci_variable_key_len :: bool
  ci_block_size :: nat
  ci_base :: cipher_base

definition cfb128_info :: "string \<Rightarrow> cipher_base \<Rightarrow> nat \<Rightarrow> cipher_info" where
  "cfb128_info nm b bits = \<lparr>ci_name = nm, ci_mode = MODE_CFB, ci_key_bitlen = bits, ci_iv_size = 16,
     ci_variable_iv_len = False, ci_variable_key_len = False, ci_block_size = 16, ci_base = b\<rparr>"

definition aes_ctr_info :: "string \<Rightarrow> nat \<Rightarrow> cipher_info" where
  "aes_ctr_info nm bits = \<lparr>ci_name = nm, ci_mode = MODE_CTR, ci_key_bitlen = bits, ci_iv_size = 16,
     ci_variable_iv_len = False, ci_variable_key_len = False, ci_block_size = 16, ci_base = BASE_AES\<rparr>"

definition aes_gcm_info :: "string \<Rightarrow> nat \<Rightarrow> cipher_info" where
  "aes_gcm_info nm bits = \<lparr>ci_name = nm, ci_mode = MODE_GCM, ci_key_bitlen = bits, ci_iv_size = 12,
     ci_variable_iv_len = True, ci_variable_key_len = False, ci_block_size = 16, ci_base = BASE_GCM_AES\<rparr>"

definition arc4_128_info :: cipher_info where
  "arc4_128_info = \<lparr>ci_name = ''ARC4-128'', ci_mode = MODE_STREAM, ci_key_bitlen = 128, ci_iv_size = 0,
     ci_variable_iv_len = False, ci_variable_key_len = False, ci_block_size = 1, ci_base = BASE_ARC4\<rparr>"

definition blowfish_cfb64_info :: cipher_info where
  "blowfish_cfb64_info = \<lparr>ci_name = ''BLOWFISH-CFB64'', ci_mode = MODE_CFB, ci_key_bitlen = 128, ci_iv_size = 8,
     ci_variable_iv_len = False, ci_variable_key_len = True, ci_block_size = 8, ci_base = BASE_BLOWFISH\<rparr>"

text \<open>The entries of the table that a name of this program can select, in its order.\<close>

definition mbedtls_cipher_definitions :: "cipher_info list" where
  "mbedtls_cipher_definitions =
     [cfb128_info ''AES-128-CFB128'' BASE_AES 128, cfb128_info ''AES-192-CFB128'' BASE_AES 192,
      cfb128_info ''AES-256-CFB128'' BASE_AES 256,
      aes_ctr_info ''AES-128-CTR'' 128, aes_ctr_info ''AES-192-CTR'' 192, aes_ctr_info ''AES-256-CTR'' 256,
      aes_gcm_info ''AES-128-GCM'' 128, aes_gcm_info ''AES-192-GCM'' 192, aes_gcm_info ''AES-256-GCM'' 256,
      arc4_128_info, blowfish_cfb64_info,
      cfb128_info ''CAMELLIA-128-CFB128'' BASE_CAMELLIA 128, cfb128_info ''CAMELLIA-192-CFB128'' BASE_CAMELLIA 192,
      cfb128_info ''CAMELLIA-256-CFB128'' BASE_CAMELLIA 256]"

fun info_loop :: "string \<Rightarrow> cipher_info list \<Rightarrow> cipher_info option" where
  "info_loop nm [] = None"
| "info_loop nm (def # defs) = (if ci_name def = nm then Some def else info_loop nm defs)"

definition mbedtls_cipher_info_from_string :: "string \<Rightarrow> cipher_info option" where
  "mbedtls_cipher_info_from_string nm = info_loop nm mbedtls_cipher_definitions"

section \<open>Contexts\<close>

datatype prim_ctx =
    AesCtx aes_context
  | GcmCtx gcm_context
  | Arc4Ctx arc4_context
  | BlowfishCtx blowfish_context
  | CamelliaCtx camellia_context

definition ctx_alloc_func :: "cipher_base \<Rightarrow> prim_ctx" where
  "ctx_alloc_func b =
     (case b of
        BASE_AES \<Rightarrow> AesCtx mbedtls_aes_init
      | BASE_GCM_AES \<Rightarrow> GcmCtx mbedtls_gcm_init
      | BASE_ARC4 \<Rightarrow> Arc4Ctx mbedtls_arc4_init
      | BASE_BLOWFISH \<Rightarrow> BlowfishCtx mbedtls_blowfish_init
      | BASE_CAMELLIA \<Rightarrow> CamelliaCtx mbedtls_camellia_init)"

record mbed_context =
  m_info :: cipher_info
  m_key_bitlen :: nat
  m_encrypt :: bool
  unprocessed_data :: bytes
  unprocessed_len :: nat
  m_iv :: bytes
  m_iv_size :: nat
  m_prim :: prim_ctx

definition mbedtls_cipher_setup :: "cipher_info option \<Rightarrow> mbed_context option" where
  "mbedtls_cipher_setup info =
     (case info of
        None \<Rightarrow> None
      | Some ci \<Rightarrow> Some \<lparr>m_info = ci, m_key_bitlen = 0, m_encrypt = False,
          unprocessed_data = replicate 16 0, unprocessed_len = 0, m_iv = replicate 16 0, m_iv_size = 0,
          m_prim = ctx_alloc_func (ci_base ci)\<rparr>)"

text \<open>
  The wrappers of \<^verbatim>\<open>cipher_wrap.c\<close> around the key set-up. All modes here use the encryption
  schedule, in either direction; GCM and ARC4 have the same function for both.
\<close>

definition setkey_func :: "prim_ctx \<Rightarrow> bytes \<Rightarrow> nat \<Rightarrow> prim_ctx option" where
  "setkey_func p k bits =
     (case p of
        AesCtx a \<Rightarrow> map_option AesCtx (mbedtls_aes_setkey_enc a k bits)
      | GcmCtx g \<Rightarrow> map_option GcmCtx (mbedtls_gcm_setkey g k bits)
      | Arc4Ctx a \<Rightarrow> if bits mod 8 \<noteq> 0 then None else Some (Arc4Ctx (mbedtls_arc4_setup a k (bits div 8)))
      | BlowfishCtx b \<Rightarrow> map_option BlowfishCtx (mbedtls_blowfish_setkey b k bits)
      | CamelliaCtx c \<Rightarrow> map_option CamelliaCtx (mbedtls_camellia_setkey_enc c k bits))"

definition mbedtls_cipher_setkey :: "mbed_context \<Rightarrow> bytes \<Rightarrow> nat \<Rightarrow> bool \<Rightarrow> mbed_context option" where
  "mbedtls_cipher_setkey ctx k bits enc =
     (if \<not> ci_variable_key_len (m_info ctx) \<and> ci_key_bitlen (m_info ctx) \<noteq> bits then None
      else
        let ctx = ctx\<lparr>m_key_bitlen := bits, m_encrypt := enc\<rparr>
        in case setkey_func (m_prim ctx) k bits of
             None \<Rightarrow> None
           | Some p \<Rightarrow> Some (ctx\<lparr>m_prim := p\<rparr>))"

definition MAX_IV_LENGTH :: nat where "MAX_IV_LENGTH = 16"

definition mbedtls_cipher_set_iv :: "mbed_context \<Rightarrow> bytes \<Rightarrow> nat \<Rightarrow> mbed_context option" where
  "mbedtls_cipher_set_iv ctx iv iv_len =
     (if iv_len > MAX_IV_LENGTH then None
      else
        let actual = (if ci_variable_iv_len (m_info ctx) then iv_len else ci_iv_size (m_info ctx))
        in if \<not> ci_variable_iv_len (m_info ctx) \<and> actual > iv_len then None
           else if actual \<noteq> 0
           then Some (ctx\<lparr>m_iv := memcpy_at (m_iv ctx) 0 (take actual iv), m_iv_size := actual\<rparr>)
           else Some ctx)"

definition mbedtls_cipher_reset :: "mbed_context \<Rightarrow> mbed_context" where
  "mbedtls_cipher_reset ctx = ctx\<lparr>unprocessed_len := 0\<rparr>"

section \<open>Update\<close>

text \<open>The block encryption behind a mode, and the block size of its loop.\<close>

definition prim_encrypt :: "prim_ctx \<Rightarrow> bytes \<Rightarrow> bytes" where
  "prim_encrypt p =
     (case p of
        AesCtx a \<Rightarrow> mbedtls_aes_crypt_ecb a
      | BlowfishCtx b \<Rightarrow> mbedtls_blowfish_crypt_ecb b
      | CamelliaCtx c \<Rightarrow> mbedtls_camellia_crypt_ecb c
      | _ \<Rightarrow> (\<lambda>x. x))"

definition cfb_func :: "prim_ctx \<Rightarrow> bool \<Rightarrow> cfb_state \<Rightarrow> bytes \<Rightarrow> (bytes \<times> cfb_state) option" where
  "cfb_func p enc s inp =
     (case p of
        AesCtx _ \<Rightarrow> crypt_cfb (prim_encrypt p) 16 enc s inp
      | CamelliaCtx _ \<Rightarrow> crypt_cfb (prim_encrypt p) 16 enc s inp
      | BlowfishCtx _ \<Rightarrow> crypt_cfb (prim_encrypt p) 8 enc s inp
      | _ \<Rightarrow> None)"

text \<open>
  \<open>mbedtls_cipher_update\<close> on the stream modes. The offset into the block is kept in
  \<^verbatim>\<open>unprocessed_len\<close>, the key stream block of counter mode in \<^verbatim>\<open>unprocessed_data\<close>. The output
  never overlaps the input.
\<close>

definition mbedtls_cipher_update :: "mbed_context \<Rightarrow> bytes \<Rightarrow> (bytes \<times> mbed_context) option" where
  "mbedtls_cipher_update ctx inp =
     (if ci_block_size (m_info ctx) = 0 then None
      else
        case ci_mode (m_info ctx) of
          MODE_CFB \<Rightarrow>
            (case cfb_func (m_prim ctx) (m_encrypt ctx) (m_iv ctx, unprocessed_len ctx) inp of
               None \<Rightarrow> None
             | Some (out, iv, n) \<Rightarrow> Some (out, ctx\<lparr>m_iv := iv, unprocessed_len := n\<rparr>))
        | MODE_CTR \<Rightarrow>
            (case crypt_ctr (prim_encrypt (m_prim ctx)) (m_iv ctx, unprocessed_data ctx, unprocessed_len ctx) inp of
               None \<Rightarrow> None
             | Some (out, nc, sb, n) \<Rightarrow>
                 Some (out, ctx\<lparr>m_iv := nc, unprocessed_data := sb, unprocessed_len := n\<rparr>))
        | MODE_STREAM \<Rightarrow>
            (case m_prim ctx of
               Arc4Ctx a \<Rightarrow> (case mbedtls_arc4_crypt a inp of (out, a) \<Rightarrow> Some (out, ctx\<lparr>m_prim := Arc4Ctx a\<rparr>))
             | _ \<Rightarrow> None)
        | MODE_GCM \<Rightarrow> None)"

section \<open>Sealing and opening\<close>

text \<open>Only the GCM ciphers; every call starts the context anew, so none is handed on.\<close>

definition mbedtls_cipher_auth_encrypt :: "mbed_context \<Rightarrow> bytes \<Rightarrow> bytes \<Rightarrow> bytes \<Rightarrow> nat \<Rightarrow> (bytes \<times> bytes) option" where
  "mbedtls_cipher_auth_encrypt ctx iv ad inp tag_len =
     (case m_prim ctx of
        GcmCtx g \<Rightarrow> if ci_mode (m_info ctx) = MODE_GCM then mbedtls_gcm_crypt_and_tag g True iv ad inp tag_len else None
      | _ \<Rightarrow> None)"

definition mbedtls_cipher_auth_decrypt :: "mbed_context \<Rightarrow> bytes \<Rightarrow> bytes \<Rightarrow> bytes \<Rightarrow> bytes \<Rightarrow> bytes option" where
  "mbedtls_cipher_auth_decrypt ctx iv ad inp tag =
     (case m_prim ctx of
        GcmCtx g \<Rightarrow> if ci_mode (m_info ctx) = MODE_GCM then mbedtls_gcm_auth_decrypt g iv ad tag inp else None
      | _ \<Rightarrow> None)"

section \<open>Stream contexts\<close>

text \<open>
  The invariant of a keyed context in one of the stream modes: arrays of their sizes, the offset
  inside the block, and the primitive that the description names.
\<close>

definition evp_wf :: "mbed_context \<Rightarrow> bool" where
  "evp_wf ctx \<longleftrightarrow> length (m_iv ctx) = 16 \<and> length (unprocessed_data ctx) = 16
     \<and> (case ci_mode (m_info ctx) of
          MODE_CFB \<Rightarrow> unprocessed_len ctx < ci_block_size (m_info ctx)
            \<and> ci_block_size (m_info ctx) =
                (case m_prim ctx of AesCtx _ \<Rightarrow> 16 | CamelliaCtx _ \<Rightarrow> 16 | BlowfishCtx _ \<Rightarrow> 8 | _ \<Rightarrow> 0)
        | MODE_CTR \<Rightarrow> unprocessed_len ctx < 16 \<and> ci_block_size (m_info ctx) = 16 \<and> (\<exists>a. m_prim ctx = AesCtx a)
        | MODE_STREAM \<Rightarrow> ci_block_size (m_info ctx) = 1 \<and> (\<exists>a. m_prim ctx = Arc4Ctx a \<and> arc4_wf a)
        | MODE_GCM \<Rightarrow> False)"

lemma length_prim_encrypt:
  "length (prim_encrypt (AesCtx a) b) = 16" "length (prim_encrypt (CamelliaCtx c) b) = 16"
  "length (prim_encrypt (BlowfishCtx d) b) = 8"
  by (simp_all add: prim_encrypt_def)

lemma cfb_func_eq:
  assumes "evp_wf ctx" "ci_mode (m_info ctx) = MODE_CFB"
  shows "cfb_func (m_prim ctx) e s xs = crypt_cfb (prim_encrypt (m_prim ctx)) (ci_block_size (m_info ctx)) e s xs"
    and "\<And>b. length (prim_encrypt (m_prim ctx) b) = ci_block_size (m_info ctx)"
    and "0 < ci_block_size (m_info ctx)" "ci_block_size (m_info ctx) \<le> 16"
    and "cfb_wf (ci_block_size (m_info ctx)) (m_iv ctx, unprocessed_len ctx)"
  using assms by (auto simp: evp_wf_def cfb_func_def cfb_wf_def length_prim_encrypt split: prim_ctx.splits)

text \<open>An update takes every input, keeps its length and the invariant.\<close>

lemma cipher_update_total:
  assumes "evp_wf ctx"
  obtains ys ctx' where "mbedtls_cipher_update ctx xs = Some (ys, ctx')" "length ys = length xs" "evp_wf ctx'"
    "m_info ctx' = m_info ctx" "m_encrypt ctx' = m_encrypt ctx"
proof (cases "ci_mode (m_info ctx)")
  case MODE_CFB
  note c = cfb_func_eq [OF assms MODE_CFB]
  obtain ys s' where r: "crypt_cfb (prim_encrypt (m_prim ctx)) (ci_block_size (m_info ctx)) (m_encrypt ctx)
      (m_iv ctx, unprocessed_len ctx) xs = Some (ys, s')" "length ys = length xs" "cfb_wf (ci_block_size (m_info ctx)) s'"
    by (rule crypt_cfb_total [OF c(2-5)])
  obtain iv n where s': "s' = (iv, n)" by fastforce
  show ?thesis
    using assms MODE_CFB c(1,3) r
    by (intro that [of ys "ctx\<lparr>m_iv := iv, unprocessed_len := n\<rparr>"])
       (auto simp: s' mbedtls_cipher_update_def evp_wf_def cfb_wf_def split: prim_ctx.splits)
next
  case MODE_CTR
  obtain a where a: "m_prim ctx = AesCtx a" and w: "ctr_wf (m_iv ctx, unprocessed_data ctx, unprocessed_len ctx)"
    using assms MODE_CTR by (auto simp: evp_wf_def ctr_wf_def)
  obtain ys s' where r: "crypt_ctr (prim_encrypt (m_prim ctx)) (m_iv ctx, unprocessed_data ctx, unprocessed_len ctx) xs =
      Some (ys, s')" "length ys = length xs" "ctr_wf s'"
    unfolding a by (rule crypt_ctr_total [OF length_prim_encrypt(1) w])
  obtain nc sb n where s': "s' = (nc, sb, n)" by (cases s') auto
  show ?thesis
    using assms MODE_CTR r
    by (intro that [of ys "ctx\<lparr>m_iv := nc, unprocessed_data := sb, unprocessed_len := n\<rparr>"])
       (auto simp: s' mbedtls_cipher_update_def evp_wf_def ctr_wf_def)
next
  case MODE_STREAM
  obtain a where a: "m_prim ctx = Arc4Ctx a" "arc4_wf a"
    using assms MODE_STREAM by (auto simp: evp_wf_def)
  obtain ys a' where r: "mbedtls_arc4_crypt a xs = (ys, a')" by fastforce
  have "arc4_wf a'" "length ys = length xs"
    using arc4_crypt_wf [OF a(2), of xs] r by (simp, metis fst_conv length_byte_loop mbedtls_arc4_crypt_def)
  then show ?thesis
    using assms MODE_STREAM a r
    by (intro that [of ys "ctx\<lparr>m_prim := Arc4Ctx a'\<rparr>"]) (auto simp: mbedtls_cipher_update_def evp_wf_def)
qed (use assms in \<open>simp add: evp_wf_def\<close>)

text \<open>Two updates are one update of the concatenation.\<close>

lemma cipher_update_append:
  assumes "evp_wf ctx" "mbedtls_cipher_update ctx xs = Some (a, c1)" "mbedtls_cipher_update c1 ys = Some (b, c2)"
  shows "mbedtls_cipher_update ctx (xs @ ys) = Some (a @ b, c2)"
proof (cases "ci_mode (m_info ctx)")
  case MODE_CFB
  note f = cfb_func_eq(1,3) [OF assms(1) MODE_CFB]
  let ?cfb = "crypt_cfb (prim_encrypt (m_prim ctx)) (ci_block_size (m_info ctx)) (m_encrypt ctx)"
  obtain iv n where e: "?cfb (m_iv ctx, unprocessed_len ctx) xs = Some (a, iv, n)"
      "c1 = ctx\<lparr>m_iv := iv, unprocessed_len := n\<rparr>"
    using assms(2) MODE_CFB by (auto simp: mbedtls_cipher_update_def f split: option.splits if_splits)
  obtain iv' n' where e': "?cfb (iv, n) ys = Some (b, iv', n')" "c2 = ctx\<lparr>m_iv := iv', unprocessed_len := n'\<rparr>"
    using assms(3) MODE_CFB e(2) by (auto simp: mbedtls_cipher_update_def f split: option.splits if_splits)
  show ?thesis
    using crypt_cfb_append [OF e(1) e'(1)] e'(2) MODE_CFB f by (simp add: mbedtls_cipher_update_def)
next
  case MODE_CTR
  let ?ctr = "crypt_ctr (prim_encrypt (m_prim ctx))"
  obtain nc sb n where e: "?ctr (m_iv ctx, unprocessed_data ctx, unprocessed_len ctx) xs = Some (a, nc, sb, n)"
      "c1 = ctx\<lparr>m_iv := nc, unprocessed_data := sb, unprocessed_len := n\<rparr>" "ci_block_size (m_info ctx) \<noteq> 0"
    using assms(2) MODE_CTR by (auto simp: mbedtls_cipher_update_def split: option.splits if_splits)
  obtain nc' sb' n' where e': "?ctr (nc, sb, n) ys = Some (b, nc', sb', n')"
      "c2 = ctx\<lparr>m_iv := nc', unprocessed_data := sb', unprocessed_len := n'\<rparr>"
    using assms(3) MODE_CTR e(2) by (auto simp: mbedtls_cipher_update_def split: option.splits if_splits)
  show ?thesis
    using crypt_ctr_append [OF e(1) e'(1)] e'(2) e(3) MODE_CTR by (simp add: mbedtls_cipher_update_def)
next
  case MODE_STREAM
  obtain p where p: "m_prim ctx = Arc4Ctx p" "ci_block_size (m_info ctx) = 1"
    using assms(1) MODE_STREAM by (auto simp: evp_wf_def)
  obtain p1 where e: "byte_loop arc4_byte p xs = (a, p1)" "c1 = ctx\<lparr>m_prim := Arc4Ctx p1\<rparr>"
    using assms(2) MODE_STREAM p by (auto simp: mbedtls_cipher_update_def mbedtls_arc4_crypt_def split: prod.splits)
  obtain p2 where e': "byte_loop arc4_byte p1 ys = (b, p2)" "c2 = ctx\<lparr>m_prim := Arc4Ctx p2\<rparr>"
    using assms(3) MODE_STREAM p e(2) by (auto simp: mbedtls_cipher_update_def mbedtls_arc4_crypt_def split: prod.splits)
  show ?thesis
    using p MODE_STREAM e(1) e' by (simp add: mbedtls_cipher_update_def mbedtls_arc4_crypt_def byte_loop_append)
qed (use assms in \<open>simp add: evp_wf_def\<close>)

text \<open>The same context turned to decryption undoes the update.\<close>

abbreviation decrypting :: "mbed_context \<Rightarrow> mbed_context" where
  "decrypting ctx \<equiv> ctx\<lparr>m_encrypt := False\<rparr>"

lemma cipher_update_undo:
  assumes "evp_wf ctx" "m_encrypt ctx" "mbedtls_cipher_update ctx xs = Some (ys, ctx')"
  shows "mbedtls_cipher_update (decrypting ctx) ys = Some (xs, decrypting ctx')"
proof (cases "ci_mode (m_info ctx)")
  case MODE_CFB
  note f = cfb_func_eq(1,3) [OF assms(1) MODE_CFB]
  obtain iv n where e: "crypt_cfb (prim_encrypt (m_prim ctx)) (ci_block_size (m_info ctx)) True
      (m_iv ctx, unprocessed_len ctx) xs = Some (ys, iv, n)" "ctx' = ctx\<lparr>m_iv := iv, unprocessed_len := n\<rparr>"
    using assms(2,3) MODE_CFB by (auto simp: mbedtls_cipher_update_def f split: option.splits if_splits)
  show ?thesis
    using crypt_cfb_undo [OF e(1)] e(2) MODE_CFB f by (simp add: mbedtls_cipher_update_def)
next
  case MODE_CTR
  obtain nc sb n where e: "crypt_ctr (prim_encrypt (m_prim ctx)) (m_iv ctx, unprocessed_data ctx, unprocessed_len ctx) xs =
      Some (ys, nc, sb, n)" "ctx' = ctx\<lparr>m_iv := nc, unprocessed_data := sb, unprocessed_len := n\<rparr>"
      "ci_block_size (m_info ctx) \<noteq> 0"
    using assms(3) MODE_CTR by (auto simp: mbedtls_cipher_update_def split: option.splits if_splits)
  show ?thesis
    using crypt_ctr_undo [OF e(1)] e(2,3) MODE_CTR by (simp add: mbedtls_cipher_update_def)
next
  case MODE_STREAM
  then obtain a where a: "m_prim ctx = Arc4Ctx a" "ci_block_size (m_info ctx) = 1"
    using assms(1) by (auto simp: evp_wf_def)
  then obtain a' where l: "byte_loop arc4_byte a xs = (ys, a')" "ctx' = ctx\<lparr>m_prim := Arc4Ctx a'\<rparr>"
    using assms(3) MODE_STREAM by (auto simp: mbedtls_cipher_update_def mbedtls_arc4_crypt_def split: prod.splits)
  show ?thesis
    using a MODE_STREAM arc4.loop_undo [OF l(1)] l(2)
    by (simp add: mbedtls_cipher_update_def mbedtls_arc4_crypt_def)
qed (use assms in \<open>simp add: evp_wf_def\<close>)

section \<open>Starting a stream context\<close>

text \<open>What the table says of the stream ciphers.\<close>

definition stream_info :: "cipher_info \<Rightarrow> bool" where
  "stream_info ci \<longleftrightarrow> \<not> ci_variable_iv_len ci \<and> ci_iv_size ci \<le> 16
     \<and> (case (ci_mode ci, ci_base ci) of
          (MODE_CFB, BASE_AES) \<Rightarrow> ci_block_size ci = 16 \<and> ci_key_bitlen ci \<in> {128, 192, 256}
        | (MODE_CFB, BASE_CAMELLIA) \<Rightarrow> ci_block_size ci = 16 \<and> ci_key_bitlen ci \<in> {128, 192, 256}
        | (MODE_CFB, BASE_BLOWFISH) \<Rightarrow> ci_block_size ci = 8 \<and> ci_key_bitlen ci = 128
        | (MODE_CTR, BASE_AES) \<Rightarrow> ci_block_size ci = 16 \<and> ci_key_bitlen ci \<in> {128, 192, 256}
        | (MODE_STREAM, BASE_ARC4) \<Rightarrow> ci_block_size ci = 1 \<and> ci_key_bitlen ci = 128
        | _ \<Rightarrow> False)"

lemmas cipher_infos = cfb128_info_def aes_ctr_info_def aes_gcm_info_def arc4_128_info_def blowfish_cfb64_info_def

lemma table_stream_info:
  "ci \<in> set mbedtls_cipher_definitions \<Longrightarrow> ci_mode ci \<noteq> MODE_GCM \<Longrightarrow> stream_info ci"
  by (auto simp: mbedtls_cipher_definitions_def cipher_infos stream_info_def)

lemma info_loop_in: "info_loop nm defs = Some ci \<Longrightarrow> ci \<in> set defs \<and> ci_name ci = nm"
  by (induction defs) (auto split: if_splits)

text \<open>Key, IV and reset on a context fresh from \<open>mbedtls_cipher_setup\<close>.\<close>

definition evp_start :: "cipher_info \<Rightarrow> bytes \<Rightarrow> bytes \<Rightarrow> nat \<Rightarrow> bool \<Rightarrow> mbed_context option" where
  "evp_start ci k iv iv_len enc =
     (case mbedtls_cipher_setkey (the (mbedtls_cipher_setup (Some ci))) k (ci_key_bitlen ci) enc of
        None \<Rightarrow> None
      | Some c \<Rightarrow> map_option mbedtls_cipher_reset (mbedtls_cipher_set_iv c iv iv_len))"

lemma setkey_stream:
  assumes "stream_info ci"
  obtains p where "setkey_func (ctx_alloc_func (ci_base ci)) k (ci_key_bitlen ci) = Some p"
    "case ci_mode ci of
       MODE_CFB \<Rightarrow> ci_block_size ci = (case p of AesCtx _ \<Rightarrow> 16 | CamelliaCtx _ \<Rightarrow> 16 | BlowfishCtx _ \<Rightarrow> 8 | _ \<Rightarrow> 0)
     | MODE_CTR \<Rightarrow> (\<exists>a. p = AesCtx a)
     | MODE_STREAM \<Rightarrow> (\<exists>a. p = Arc4Ctx a \<and> arc4_wf a)
     | MODE_GCM \<Rightarrow> False"
proof -
  have aes: "\<exists>a. mbedtls_aes_setkey_enc mbedtls_aes_init k bits = Some a" if "bits \<in> {128, 192, 256}" for bits
    using that aes_setkey_enc_Some by blast
  have cam: "\<exists>a. mbedtls_camellia_setkey_enc mbedtls_camellia_init k bits = Some a" if "bits \<in> {128, 192, 256}" for bits
    using that by (simp add: mbedtls_camellia_setkey_enc_def Let_def)
  have bf: "\<exists>a. mbedtls_blowfish_setkey mbedtls_blowfish_init k 128 = Some a"
    by (simp add: mbedtls_blowfish_setkey_def Let_def)
  have arc: "arc4_wf (mbedtls_arc4_setup mbedtls_arc4_init k 16)"
    by (rule arc4_setup_wf) (simp add: mbedtls_arc4_init_def)
  show ?thesis
    using assms that aes [of "ci_key_bitlen ci"] cam [of "ci_key_bitlen ci"] bf arc
    by (auto simp: stream_info_def setkey_func_def ctx_alloc_func_def split: cipher_mode.splits cipher_base.splits)
qed

lemma evp_start_ok:
  assumes "stream_info ci" "ci_iv_size ci \<le> iv_len" "iv_len \<le> 16" "iv_len \<le> length iv"
  obtains c where "evp_start ci k iv iv_len enc = Some c" "evp_wf c" "m_info c = ci" "m_encrypt c = enc"
proof -
  obtain p where p: "setkey_func (ctx_alloc_func (ci_base ci)) k (ci_key_bitlen ci) = Some p"
    "case ci_mode ci of
       MODE_CFB \<Rightarrow> ci_block_size ci = (case p of AesCtx _ \<Rightarrow> 16 | CamelliaCtx _ \<Rightarrow> 16 | BlowfishCtx _ \<Rightarrow> 8 | _ \<Rightarrow> 0)
     | MODE_CTR \<Rightarrow> (\<exists>a. p = AesCtx a)
     | MODE_STREAM \<Rightarrow> (\<exists>a. p = Arc4Ctx a \<and> arc4_wf a)
     | MODE_GCM \<Rightarrow> False"
    by (rule setkey_stream [OF assms(1)])
  define c0 where "c0 = (the (mbedtls_cipher_setup (Some ci)))\<lparr>m_key_bitlen := ci_key_bitlen ci, m_encrypt := enc, m_prim := p\<rparr>"
  have c0: "m_info c0 = ci" "m_prim c0 = p" "m_encrypt c0 = enc" "length (m_iv c0) = 16" "length (unprocessed_data c0) = 16"
    "unprocessed_len c0 = 0"
    by (simp_all add: c0_def mbedtls_cipher_setup_def)
  have k: "mbedtls_cipher_setkey (the (mbedtls_cipher_setup (Some ci))) k (ci_key_bitlen ci) enc = Some c0"
    using p(1) by (simp add: mbedtls_cipher_setkey_def mbedtls_cipher_setup_def c0_def)
  have v: "\<not> ci_variable_iv_len ci" using assms(1) by (simp add: stream_info_def)
  define c where "c = (if ci_iv_size ci = 0 then c0
      else c0\<lparr>m_iv := memcpy_at (m_iv c0) 0 (take (ci_iv_size ci) iv), m_iv_size := ci_iv_size ci\<rparr>)"
  have c: "mbedtls_cipher_set_iv c0 iv iv_len = Some c" "m_info c = ci" "m_prim c = p" "m_encrypt c = enc"
      "length (m_iv c) = 16" "length (unprocessed_data c) = 16"
    using assms(2-4) c0 v by (simp_all add: c_def mbedtls_cipher_set_iv_def MAX_IV_LENGTH_def length_memcpy_at Let_def)
  have "0 < ci_block_size ci \<and> (ci_mode ci = MODE_CTR \<longrightarrow> ci_block_size ci = 16)
      \<and> (ci_mode ci = MODE_STREAM \<longrightarrow> ci_block_size ci = 1)"
    using assms(1) by (auto simp: stream_info_def split: cipher_mode.splits cipher_base.splits)
  then have "evp_wf (mbedtls_cipher_reset c)"
    using p(2) c by (auto simp: evp_wf_def mbedtls_cipher_reset_def split: cipher_mode.splits)
  then show ?thesis
    using k c by (intro that [of "mbedtls_cipher_reset c"]) (simp_all add: evp_start_def mbedtls_cipher_reset_def)
qed

text \<open>The two directions start from the same state.\<close>

lemma evp_start_dec: "evp_start ci k iv iv_len False = map_option decrypting (evp_start ci k iv iv_len True)"
proof (cases "setkey_func (ctx_alloc_func (ci_base ci)) k (ci_key_bitlen ci)")
  case None
  then show ?thesis
    by (simp add: evp_start_def mbedtls_cipher_setkey_def mbedtls_cipher_setup_def)
next
  case (Some p)
  then show ?thesis
    by (simp add: evp_start_def mbedtls_cipher_setkey_def mbedtls_cipher_setup_def mbedtls_cipher_set_iv_def
        mbedtls_cipher_reset_def Let_def)
qed

end
