(* ===== verification/SS_Crypto.thy ===== *)
theory SS_Crypto
  imports SS_Buffer SS_Kdf SS_Replay SS_AeadPrim SS_Mbed
begin

text \<open>
  What the two cipher families of shadowsocks-libev share (\<^verbatim>\<open>src/crypto.h\<close>): return codes, the
  cipher and its per-connection context, the global state of the crypto code (the nonce
  filter and the position on the random tape), and the one library primitive that is a
  parameter of this development.
\<close>

datatype crypto_rc = CRYPTO_OK | CRYPTO_NEED_MORE | CRYPTO_ERROR

definition MAX_KEY_LENGTH :: nat where
  "MAX_KEY_LENGTH = 64"

definition MAX_NONCE_LENGTH :: nat where
  "MAX_NONCE_LENGTH = 32"

record cipher_t =
  cmethod :: nat
  nonce_len :: nat
  key_len :: nat
  tag_len :: nat
  key :: bytes

text \<open>
  A cipher context: \<open>evp\<close> is the mbed TLS context, \<open>aes256gcm_ctx\<close> the one of libsodium, absent or
  with the key it was set up with (the empty string before), and \<open>chunk\<close> the reassembly buffer.
\<close>

record cipher_ctx =
  init :: nat
  counter :: u64
  evp :: "mbed_context option"
  aes256gcm_ctx :: "bytes option"
  cipher :: cipher_t
  chunk :: "buffer option"
  salt :: bytes
  skey :: bytes
  nonce :: bytes

text \<open>
  The state all connections share: the nonce filter, the position on the random tape, and the
  static buffer \<^verbatim>\<open>tmp\<close> that each of the eight cipher functions keeps between calls.
\<close>

datatype tmp_id =
    AEAD_ENCRYPT_ALL | AEAD_DECRYPT_ALL | AEAD_ENCRYPT | AEAD_DECRYPT
  | STREAM_ENCRYPT_ALL | STREAM_DECRYPT_ALL | STREAM_ENCRYPT | STREAM_DECRYPT

record crypto_state =
  ppb :: ppbloom
  rand_pos :: nat
  tmps :: "tmp_id \<Rightarrow> buffer"

definition state_wf :: "libc \<Rightarrow> crypto_state \<Rightarrow> bool" where
  "state_wf lc st \<longleftrightarrow> pp_wf lc (ppb st) \<and> (\<forall>i. buf_wf (tmps st i))"

definition set_tmp :: "tmp_id \<Rightarrow> buffer \<Rightarrow> crypto_state \<Rightarrow> crypto_state" where
  "set_tmp i b st = st\<lparr>tmps := (tmps st)(i := b)\<rparr>"

definition remember :: "libc \<Rightarrow> bytes \<Rightarrow> crypto_state \<Rightarrow> crypto_state" where
  "remember lc s st = st\<lparr>ppb := snd (ppbloom_add lc (ppb st) s)\<rparr>"

text \<open>
  AES-256-GCM of libsodium is written in vector instructions of the processor and taken as a
  parameter: whether the hardware has it, sealing and opening (key, nonce, message).
\<close>

record cryptolib =
  lib_aes256gcm_available :: bool
  lib_aes256gcm_enc :: "bytes \<Rightarrow> bytes \<Rightarrow> bytes \<Rightarrow> bytes option"
  lib_aes256gcm_dec :: "bytes \<Rightarrow> bytes \<Rightarrow> bytes \<Rightarrow> bytes option"

definition rand_bytes :: "libc \<Rightarrow> crypto_state \<Rightarrow> nat \<Rightarrow> bytes \<times> crypto_state" where
  "rand_bytes lc st n =
     (map (\<lambda>i. c_random lc (rand_pos st + i)) [0..<n], st\<lparr>rand_pos := rand_pos st + n\<rparr>)"

lemma length_rand_bytes [simp, len_simps]: "length (fst (rand_bytes lc st n)) = n"
  by (simp add: rand_bytes_def)

lemma state_wf_set_tmp [wf_intros]: "state_wf lc st \<Longrightarrow> buf_wf b \<Longrightarrow> state_wf lc (set_tmp i b st)"
  by (simp add: state_wf_def set_tmp_def)

lemma state_wf_remember [wf_intros]: "state_wf lc st \<Longrightarrow> state_wf lc (remember lc s st)"
  using ppf.invar_add [of lc "ppb st" s] by (simp add: state_wf_def remember_def pp_add_def)

lemma state_wf_rand [wf_intros]: "state_wf lc st \<Longrightarrow> state_wf lc (snd (rand_bytes lc st n))"
  by (simp add: state_wf_def rand_bytes_def)

lemma state_simps [simp]:
  "ppb (set_tmp i b st) = ppb st"
  "tmps (set_tmp i b st) = (tmps st)(i := b)"
  "rand_pos (set_tmp i b st) = rand_pos st"
  "ppb (remember lc s st) = pp_add lc (ppb st) s"
  "tmps (remember lc s st) = tmps st"
  "rand_pos (remember lc s st) = rand_pos st"
  "ppb (snd (rand_bytes lc st n)) = ppb st"
  "tmps (snd (rand_bytes lc st n)) = tmps st"
  by (simp_all add: set_tmp_def remember_def rand_bytes_def pp_add_def)

section \<open>The nonce counter of libsodium\<close>

text \<open>The addition with carry over the bytes, with a carry variable of whatever width.\<close>

fun increment_loop :: "'a :: len word \<Rightarrow> bytes \<Rightarrow> bytes" where
  "increment_loop c [] = []"
| "increment_loop c (x # xs) = (let c = c + ucast x in ucast c # increment_loop (drop_bit 8 c) xs)"

definition sodium_increment :: "bytes \<Rightarrow> nat \<Rightarrow> bytes" where
  "sodium_increment n nlen = increment_loop (1 :: u64) (take nlen n) @ drop nlen n"

text \<open>The little-endian value of a byte string.\<close>

fun le_value :: "bytes \<Rightarrow> nat" where
  "le_value [] = 0"
| "le_value (x # xs) = unat x + 256 * le_value xs"

lemma byte_scale_less: "x < (256 :: nat) \<Longrightarrow> v < M \<Longrightarrow> x + 256 * v < 256 * M"
  by linarith

lemma le_value_bound: "le_value xs < 256 ^ length xs"
proof (induction xs)
  case (Cons x xs)
  with byte_scale_less [OF unat_u8_less Cons.IH] show ?case by simp
qed simp

lemma small_sum_less: "c \<le> 1 \<Longrightarrow> x < 256 \<Longrightarrow> 9 \<le> n \<Longrightarrow> c + x < (2 :: nat) ^ n"
  using power_increasing [of 9 n "2 :: nat"] by simp

lemma byte_div_mod: "(unat (x :: u8) + 256 * v) div 256 = v" "(unat x + 256 * v) mod 256 = unat x"
  by simp_all

lemma byte_mod_scale:
  "unat (x :: u8) + 256 * (v mod M) = (unat x + 256 * v) mod (256 * M)"
  by (simp add: mod_mult2_eq)

lemma le_value_inj: "length xs = length ys \<Longrightarrow> le_value xs = le_value ys \<Longrightarrow> xs = ys"
proof (induction xs ys rule: list_induct2)
  case (Cons x xs y ys)
  from Cons.prems have "unat x + 256 * le_value xs = unat y + 256 * le_value ys" by simp
  then have "unat x = unat y" "le_value xs = le_value ys"
    by (metis byte_div_mod(2), metis byte_div_mod(1))
  with Cons.IH show ?case by (simp add: unsigned_word_eqI)
qed simp

lemma length_increment_loop [simp, len_simps]: "length (increment_loop c xs) = length xs"
  by (induction xs arbitrary: c) (auto simp: Let_def)

lemma length_sodium_increment [simp, len_simps]: "length (sodium_increment n nlen) = length n"
  by (simp add: sodium_increment_def)

lemma carry_step:
  assumes "unat (c :: 'a :: len word) \<le> 1" and w: "9 \<le> LENGTH('a)"
  shows "unat (c + ucast (x :: u8)) = unat c + unat x"
    and "unat (drop_bit 8 (c + ucast x)) \<le> 1"
    and "unat (ucast (c + ucast x) :: u8) + 256 * unat (drop_bit 8 (c + ucast x)) = unat c + unat x"
proof -
  have lim: "unat c + unat x < 2 ^ LENGTH('a)"
    using small_sum_less [OF assms(1) unat_u8_less w] .
  have x: "unat (ucast x :: 'a word) = unat x" "unat x < 256"
    using take_bit_nat_eq_self [of "unat x" "LENGTH('a)"] lim
    by (simp_all add: unsigned_ucast_eq unsigned_take_bit_eq)
  show s: "unat (c + ucast x) = unat c + unat x"
    unfolding unat_word_ariths x(1) using mod_less [OF lim] by simp
  have d: "unat (drop_bit 8 (c + ucast x)) = (unat c + unat x) div 256"
    using drop_bit_eq_div [of 8 "unat c + unat x"] s take_bit_nat_eq_self [OF lim]
    by (simp add: unsigned_drop_bit_eq)
  show "unat (drop_bit 8 (c + ucast x)) \<le> 1"
    unfolding d using assms x(2) by linarith
  have "unat (ucast (c + ucast x) :: u8) = (unat c + unat x) mod 256"
    using s by (simp add: unsigned_ucast_eq unsigned_take_bit_eq take_bit_eq_mod)
  then show "unat (ucast (c + ucast x) :: u8) + 256 * unat (drop_bit 8 (c + ucast x)) = unat c + unat x"
    unfolding d by simp
qed

lemma increment_loop_value:
  assumes "9 \<le> LENGTH('a)"
  shows "unat (c :: 'a :: len word) \<le> 1 \<Longrightarrow>
     le_value (increment_loop c xs) = (unat c + le_value xs) mod 256 ^ length xs"
proof (induction xs arbitrary: c)
  case (Cons x xs)
  let ?c = "c + ucast x"
  note cs = carry_step [OF Cons.prems assms, of x]
  have "le_value (increment_loop c (x # xs)) =
      unat (ucast ?c :: u8) + 256 * ((unat (drop_bit 8 ?c) + le_value xs) mod 256 ^ length xs)"
    using Cons.IH [OF cs(2)] by (simp add: Let_def)
  also have "\<dots> = (unat (ucast ?c :: u8) + 256 * (unat (drop_bit 8 ?c) + le_value xs)) mod (256 * 256 ^ length xs)"
    by (rule byte_mod_scale)
  also have "unat (ucast ?c :: u8) + 256 * (unat (drop_bit 8 ?c) + le_value xs) = unat c + le_value (x # xs)"
    using cs(3) unfolding distrib_left le_value.simps by linarith
  also have "256 * 256 ^ length xs = (256 :: nat) ^ length (x # xs)" by simp
  finally show ?case .
qed simp

text \<open>
  \<^verbatim>\<open>sodium_increment\<close> adds one to the little-endian number, modulo the width of the nonce.
\<close>

lemma sodium_increment_value:
  "nlen \<le> length n \<Longrightarrow>
     le_value (take nlen (sodium_increment n nlen)) = (le_value (take nlen n) + 1) mod 256 ^ nlen"
  by (simp add: sodium_increment_def increment_loop_value)

end
