(* ===== verification/SS_Aead.thy ===== *)
theory SS_Aead
  imports SS_Crypto
begin

text \<open>
  The AEAD ciphers of \<^verbatim>\<open>src/aead.c\<close>: the per-connection context, TCP chunks
  (\<^verbatim>\<open>[length][tag][payload][tag]\<close> behind a salt) and UDP packets (\<^verbatim>\<open>[salt][payload][tag]\<close>).
  The functions that write through a pointer into a static buffer take that buffer from the
  shared state and put it back; a function that ends the process returns \<open>Inl\<close>.
\<close>

section \<open>Methods\<close>

definition AES128GCM :: nat where "AES128GCM = 0"
definition AES192GCM :: nat where "AES192GCM = 1"
definition AES256GCM :: nat where "AES256GCM = 2"
definition CHACHA20POLY1305IETF :: nat where "CHACHA20POLY1305IETF = 3"
definition XCHACHA20POLY1305IETF :: nat where "XCHACHA20POLY1305IETF = 4"
definition AEAD_CIPHER_NUM :: nat where "AEAD_CIPHER_NUM = 5"

lemmas method_defs = AES128GCM_def AES192GCM_def AES256GCM_def CHACHA20POLY1305IETF_def
  XCHACHA20POLY1305IETF_def AEAD_CIPHER_NUM_def

definition CHUNK_SIZE_LEN :: nat where "CHUNK_SIZE_LEN = 2"
definition CHUNK_SIZE_MASK :: nat where "CHUNK_SIZE_MASK = 0x3FFF"

definition supported_aead_ciphers :: "string list" where
  "supported_aead_ciphers =
     [''aes-128-gcm'', ''aes-192-gcm'', ''aes-256-gcm'', ''chacha20-ietf-poly1305'',
      ''xchacha20-ietf-poly1305'']"

definition CIPHER_UNSUPPORTED :: string where
  "CIPHER_UNSUPPORTED = ''unsupported''"

definition supported_aead_ciphers_mbedtls :: "string list" where
  "supported_aead_ciphers_mbedtls =
     [''AES-128-GCM'', ''AES-192-GCM'', ''AES-256-GCM'', CIPHER_UNSUPPORTED, CIPHER_UNSUPPORTED]"

definition supported_aead_ciphers_nonce_size :: "nat list" where
  "supported_aead_ciphers_nonce_size = [12, 12, 12, 12, 24]"

definition supported_aead_ciphers_key_size :: "nat list" where
  "supported_aead_ciphers_key_size = [16, 24, 32, 32, 32]"

definition supported_aead_ciphers_tag_size :: "nat list" where
  "supported_aead_ciphers_tag_size = [16, 16, 16, 16, 16]"

lemmas aead_tables = supported_aead_ciphers_mbedtls_def supported_aead_ciphers_nonce_size_def
  supported_aead_ciphers_key_size_def supported_aead_ciphers_tag_size_def CIPHER_UNSUPPORTED_def

section \<open>The primitives by method\<close>

text \<open>
  \<open>Inr None\<close> is an error code of the primitive, \<open>Inr (Some c)\<close> the bytes it writes and, as
  their number, the length it reports. AES-256-GCM falls through to the mbed TLS branch when
  libsodium has no context for it. There \<open>mlen - tlen\<close> wraps around on a message shorter than the tag.
\<close>

definition aead_cipher_encrypt ::
  "cryptolib \<Rightarrow> cipher_ctx \<Rightarrow> bytes \<Rightarrow> bytes \<Rightarrow> bytes \<Rightarrow> fault + bytes option" where
  "aead_cipher_encrypt lib ctx m n k =
     (let nlen = nonce_len (cipher ctx);
          tlen = tag_len (cipher ctx);
          meth = cmethod (cipher ctx)
      in if meth = AES256GCM \<and> aes256gcm_ctx ctx \<noteq> None
         then Inr (lib_aes256gcm_enc lib (the (aes256gcm_ctx ctx)) n m)
         else if meth = AES256GCM \<or> meth = AES192GCM \<or> meth = AES128GCM
         then (case evp ctx of
                 None \<Rightarrow> Inl SEGV
               | Some e \<Rightarrow> Inr (map_option (\<lambda>(c, t). c @ t) (mbedtls_cipher_auth_encrypt e (take nlen n) [] m tlen)))
         else if meth = CHACHA20POLY1305IETF
         then (case crypto_aead_chacha20poly1305_ietf_encrypt m [] n k of
                 None \<Rightarrow> Inl MISUSE | Some c \<Rightarrow> Inr (Some c))
         else if meth = XCHACHA20POLY1305IETF
         then (case crypto_aead_xchacha20poly1305_ietf_encrypt m [] n k of
                 None \<Rightarrow> Inl MISUSE | Some c \<Rightarrow> Inr (Some c))
         else Inr None)"

definition aead_cipher_decrypt ::
  "cryptolib \<Rightarrow> cipher_ctx \<Rightarrow> bytes \<Rightarrow> bytes \<Rightarrow> bytes \<Rightarrow> fault + bytes option" where
  "aead_cipher_decrypt lib ctx m n k =
     (let nlen = nonce_len (cipher ctx);
          tlen = tag_len (cipher ctx);
          meth = cmethod (cipher ctx)
      in if meth = AES256GCM \<and> aes256gcm_ctx ctx \<noteq> None
         then Inr (lib_aes256gcm_dec lib (the (aes256gcm_ctx ctx)) n m)
         else if meth = AES256GCM \<or> meth = AES192GCM \<or> meth = AES128GCM
         then (case evp ctx of
                 None \<Rightarrow> Inl SEGV
               | Some e \<Rightarrow>
                   if length m < tlen then Inl SEGV
                   else Inr (mbedtls_cipher_auth_decrypt e (take nlen n) [] (take (length m - tlen) m)
                               (drop (length m - tlen) m)))
         else if meth = CHACHA20POLY1305IETF
         then Inr (crypto_aead_chacha20poly1305_ietf_decrypt m [] n k)
         else if meth = XCHACHA20POLY1305IETF
         then Inr (crypto_aead_xchacha20poly1305_ietf_decrypt m [] n k)
         else Inr None)"

section \<open>Contexts\<close>

text \<open>The mbed TLS description of a method, by its name there.\<close>

definition aead_get_cipher_type :: "int \<Rightarrow> cipher_info option" where
  "aead_get_cipher_type meth =
     (if meth < int AES128GCM \<or> meth \<ge> int AEAD_CIPHER_NUM then None
      else if meth \<ge> int CHACHA20POLY1305IETF then None
      else let mbedtlsname = supported_aead_ciphers_mbedtls ! nat meth
           in if mbedtlsname = CIPHER_UNSUPPORTED then None
              else mbedtls_cipher_info_from_string mbedtlsname)"

definition SUBKEY_INFO :: bytes where
  "SUBKEY_INFO = map (\<lambda>ch. of_nat (of_char ch)) ''ss-subkey''"

definition aead_cipher_ctx_set_key :: "cipher_ctx \<Rightarrow> bool \<Rightarrow> fault + cipher_ctx" where
  "aead_cipher_ctx_set_key ctx enc =
     (let c = cipher ctx;
          kl = key_len c
      in case crypto_hkdf mbedtls_sha1_info (Some (salt ctx)) (int kl) (take kl (key c)) (int kl)
                (Some SUBKEY_INFO) (int (length SUBKEY_INFO)) (Some (skey ctx)) (int kl) of
        (err, out) \<Rightarrow>
          if err \<noteq> 0 then Inl (FATAL ''Unable to generate subkey'')
          else
            let ctx = ctx\<lparr>skey := the out\<rparr>;
                ctx = ctx\<lparr>nonce := memcpy_at (nonce ctx) 0 (replicate (nonce_len c) 0)\<rparr>
            in if cmethod c \<ge> CHACHA20POLY1305IETF then Inr ctx
               else if aes256gcm_ctx ctx \<noteq> None
               then Inr (ctx\<lparr>aes256gcm_ctx := Some (take 32 (skey ctx))\<rparr>)
               else (case evp ctx of
                       None \<Rightarrow> Inl SEGV
                     | Some e \<Rightarrow>
                         (case mbedtls_cipher_setkey e (skey ctx) (kl * 8) enc of
                            None \<Rightarrow> Inl (FATAL ''Cannot set mbed TLS cipher key'')
                          | Some e \<Rightarrow> Inr (ctx\<lparr>evp := Some (mbedtls_cipher_reset e)\<rparr>))))"

definition aead_cipher_ctx_init :: "cryptolib \<Rightarrow> cipher_ctx \<Rightarrow> nat \<Rightarrow> fault + cipher_ctx" where
  "aead_cipher_ctx_init lib ctx meth =
     (if meth < AES128GCM \<or> meth \<ge> AEAD_CIPHER_NUM then Inr ctx
      else if meth \<ge> CHACHA20POLY1305IETF then Inr ctx
      else
        let cipher = aead_get_cipher_type (int meth)
        in if meth = AES256GCM \<and> lib_aes256gcm_available lib
           then (if cipher = None then Inl (FATAL ''Cannot initialize mbed TLS cipher'')
                 else Inr (ctx\<lparr>aes256gcm_ctx := Some []\<rparr>))
           else (case mbedtls_cipher_setup cipher of
                   None \<Rightarrow> Inl (FATAL ''Cannot initialize mbed TLS cipher context'')
                 | Some e \<Rightarrow> Inr (ctx\<lparr>aes256gcm_ctx := None, evp := Some e\<rparr>)))"

text \<open>\<^verbatim>\<open>sodium_memzero\<close> over the whole context.\<close>

definition zero_ctx :: "cipher_t \<Rightarrow> cipher_ctx" where
  "zero_ctx c = \<lparr>init = 0, counter = 0, evp = None, aes256gcm_ctx = None, cipher = c, chunk = None,
     salt = replicate MAX_KEY_LENGTH 0, skey = replicate MAX_KEY_LENGTH 0,
     nonce = replicate MAX_NONCE_LENGTH 0\<rparr>"

definition aead_ctx_init ::
  "libc \<Rightarrow> cryptolib \<Rightarrow> cipher_t \<Rightarrow> bool \<Rightarrow> crypto_state \<Rightarrow> fault + cipher_ctx \<times> crypto_state" where
  "aead_ctx_init lc lib c enc st =
     (case aead_cipher_ctx_init lib (zero_ctx c) (cmethod c) of
        Inl f \<Rightarrow> Inl f
      | Inr ctx \<Rightarrow>
          if enc then
            (case rand_bytes lc st (key_len c) of
               (bs, st) \<Rightarrow> Inr (ctx\<lparr>salt := memcpy_at (salt ctx) 0 bs\<rparr>, st))
          else Inr (ctx, st))"

definition aead_ctx_release :: "cipher_ctx \<Rightarrow> cipher_ctx" where
  "aead_ctx_release ctx =
     (let ctx = ctx\<lparr>chunk := None\<rparr>
      in if cmethod (cipher ctx) \<ge> CHACHA20POLY1305IETF then ctx
         else if aes256gcm_ctx ctx \<noteq> None then ctx\<lparr>aes256gcm_ctx := None\<rparr>
         else ctx\<lparr>evp := None\<rparr>)"

section \<open>UDP packets\<close>

definition aead_encrypt_all ::
  "libc \<Rightarrow> cryptolib \<Rightarrow> buffer \<Rightarrow> cipher_t \<Rightarrow> nat \<Rightarrow> crypto_state
     \<Rightarrow> fault + crypto_rc \<times> buffer \<times> crypto_state" where
  "aead_encrypt_all lc lib plaintext c cap st =
     (case aead_ctx_init lc lib c True st of
        Inl f \<Rightarrow> Inl f
      | Inr (ctx, st) \<Rightarrow>
          let salt_len = key_len c;
              tag_len = tag_len c;
              tmp = brealloc_buf lc (tmps st AEAD_ENCRYPT_ALL) (salt_len + tag_len + len plaintext) cap;
              tmp = tmp\<lparr>len := tag_len + len plaintext\<rparr>;
              tmp = tmp\<lparr>data := memcpy_at (data tmp) 0 (take salt_len (salt ctx))\<rparr>;
              st = remember lc (take salt_len (salt ctx)) st
          in case aead_cipher_ctx_set_key ctx True of
               Inl f \<Rightarrow> Inl f
             | Inr ctx \<Rightarrow>
                 (case aead_cipher_encrypt lib ctx (contents plaintext) (nonce ctx) (skey ctx) of
                    Inl f \<Rightarrow> Inl f
                  | Inr None \<Rightarrow> Inr (CRYPTO_ERROR, plaintext, set_tmp AEAD_ENCRYPT_ALL tmp st)
                  | Inr (Some ct) \<Rightarrow>
                      if len tmp \<noteq> length ct then Inl ASSERT
                      else
                        let tmp = tmp\<lparr>data := memcpy_at (data tmp) salt_len ct\<rparr>
                        in Inr (CRYPTO_OK,
                                bstore lc plaintext (take (salt_len + len tmp) (data tmp)) cap,
                                set_tmp AEAD_ENCRYPT_ALL tmp st)))"

definition aead_decrypt_all ::
  "libc \<Rightarrow> cryptolib \<Rightarrow> buffer \<Rightarrow> cipher_t \<Rightarrow> nat \<Rightarrow> crypto_state
     \<Rightarrow> fault + crypto_rc \<times> buffer \<times> crypto_state" where
  "aead_decrypt_all lc lib ciphertext c cap st =
     (let salt_len = key_len c;
          tag_len = tag_len c
      in if len ciphertext \<le> salt_len + tag_len then Inr (CRYPTO_ERROR, ciphertext, st)
         else
           case aead_ctx_init lc lib c False st of
             Inl f \<Rightarrow> Inl f
           | Inr (ctx, st) \<Rightarrow>
               let tmp = brealloc_buf lc (tmps st AEAD_DECRYPT_ALL) (len ciphertext) cap;
                   tmp = tmp\<lparr>len := len ciphertext - salt_len - tag_len\<rparr>;
                   ctx = ctx\<lparr>salt := memcpy_at (salt ctx) 0 (take salt_len (data ciphertext))\<rparr>;
                   s = take salt_len (salt ctx)
               in if ppbloom_check (ppb st) s = 1
                  then Inr (CRYPTO_ERROR, ciphertext, set_tmp AEAD_DECRYPT_ALL tmp st)
                  else
                    case aead_cipher_ctx_set_key ctx False of
                      Inl f \<Rightarrow> Inl f
                    | Inr ctx \<Rightarrow>
                        (case aead_cipher_decrypt lib ctx (drop salt_len (contents ciphertext))
                                (nonce ctx) (skey ctx) of
                           Inl f \<Rightarrow> Inl f
                         | Inr None \<Rightarrow> Inr (CRYPTO_ERROR, ciphertext, set_tmp AEAD_DECRYPT_ALL tmp st)
                         | Inr (Some m) \<Rightarrow>
                             let tmp = tmp\<lparr>data := memcpy_at (data tmp) 0 m\<rparr>;
                                 st = remember lc s st
                             in Inr (CRYPTO_OK, bstore lc ciphertext (contents tmp) cap,
                                     set_tmp AEAD_DECRYPT_ALL tmp st)))"

section \<open>TCP chunks\<close>

text \<open>
  \<open>aead_chunk_encrypt\<close> writes at offset \<open>ofs\<close> of the array \<open>d\<close>; its nonce argument is always
  the context's own nonce. \<open>plen\<close> is a \<^verbatim>\<open>uint16_t\<close>.
\<close>

definition aead_chunk_encrypt ::
  "cryptolib \<Rightarrow> cipher_ctx \<Rightarrow> bytes \<Rightarrow> bytes \<Rightarrow> nat \<Rightarrow> nat
     \<Rightarrow> fault + crypto_rc \<times> bytes \<times> cipher_ctx" where
  "aead_chunk_encrypt lib ctx p d ofs plen =
     (let nlen = nonce_len (cipher ctx);
          tlen = tag_len (cipher ctx)
      in if \<not> plen \<le> CHUNK_SIZE_MASK then Inl ASSERT
         else
           let len_buf = be16 (plen AND CHUNK_SIZE_MASK)
           in case aead_cipher_encrypt lib ctx len_buf (nonce ctx) (skey ctx) of
                Inl f \<Rightarrow> Inl f
              | Inr None \<Rightarrow> Inr (CRYPTO_ERROR, d, ctx)
              | Inr (Some c1) \<Rightarrow>
                  if length c1 \<noteq> CHUNK_SIZE_LEN + tlen then Inl ASSERT
                  else
                    let d = memcpy_at d ofs c1;
                        ctx = ctx\<lparr>nonce := sodium_increment (nonce ctx) nlen\<rparr>
                    in case aead_cipher_encrypt lib ctx (take plen p) (nonce ctx) (skey ctx) of
                         Inl f \<Rightarrow> Inl f
                       | Inr None \<Rightarrow> Inr (CRYPTO_ERROR, d, ctx)
                       | Inr (Some c2) \<Rightarrow>
                           if length c2 \<noteq> plen + tlen then Inl ASSERT
                           else Inr (CRYPTO_OK, memcpy_at d (ofs + CHUNK_SIZE_LEN + tlen) c2,
                                     ctx\<lparr>nonce := sodium_increment (nonce ctx) nlen\<rparr>))"

text \<open>The first call on a connection emits the salt and derives the subkey.\<close>

definition aead_encrypt_start ::
  "libc \<Rightarrow> cipher_ctx \<Rightarrow> bytes \<Rightarrow> crypto_state \<Rightarrow> fault + bytes \<times> cipher_ctx \<times> crypto_state" where
  "aead_encrypt_start lc ctx d st =
     (if init ctx = 0 then
        let s = take (key_len (cipher ctx)) (salt ctx)
        in case aead_cipher_ctx_set_key ctx True of
             Inl f \<Rightarrow> Inl f
           | Inr ctx \<Rightarrow> Inr (memcpy_at d 0 s, ctx\<lparr>init := 1\<rparr>, remember lc s st)
      else Inr (d, ctx, st))"

definition aead_encrypt ::
  "libc \<Rightarrow> cryptolib \<Rightarrow> buffer \<Rightarrow> cipher_ctx option \<Rightarrow> nat \<Rightarrow> crypto_state
     \<Rightarrow> fault + crypto_rc \<times> buffer \<times> cipher_ctx option \<times> crypto_state" where
  "aead_encrypt lc lib plaintext cipher_ctx cap st =
     (case cipher_ctx of
        None \<Rightarrow> Inr (CRYPTO_ERROR, plaintext, None, st)
      | Some ctx \<Rightarrow>
          if len plaintext = 0 then Inr (CRYPTO_OK, plaintext, Some ctx, st)
          else
            let c = cipher ctx;
                salt_ofst = (if init ctx = 0 then key_len c else 0);
                out_len = salt_ofst + 2 * tag_len c + len plaintext + CHUNK_SIZE_LEN;
                tmp = brealloc_buf lc (tmps st AEAD_ENCRYPT) out_len cap;
                tmp = tmp\<lparr>len := out_len\<rparr>
            in case aead_encrypt_start lc ctx (data tmp) st of
                 Inl f \<Rightarrow> Inl f
               | Inr (d, ctx, st) \<Rightarrow>
                   (case aead_chunk_encrypt lib ctx (data plaintext) d salt_ofst (len plaintext mod 65536) of
                      Inl f \<Rightarrow> Inl f
                    | Inr (err, d, ctx) \<Rightarrow>
                        let tmp = tmp\<lparr>data := d\<rparr>;
                            st = set_tmp AEAD_ENCRYPT tmp st
                        in if err \<noteq> CRYPTO_OK then Inr (err, plaintext, Some ctx, st)
                           else Inr (CRYPTO_OK, bstore lc plaintext (contents tmp) cap, Some ctx, st)))"

text \<open>
  \<open>aead_chunk_decrypt\<close> reads the chunk buffer \<open>b\<close> and writes the payload at offset \<open>ofs\<close> of
  the array \<open>p\<close>; on success the chunk is removed from the front of \<open>b\<close>. The last component of
  the result is \<^verbatim>\<open>*plen\<close>.
\<close>

definition aead_chunk_decrypt ::
  "cryptolib \<Rightarrow> cipher_ctx \<Rightarrow> bytes \<Rightarrow> nat \<Rightarrow> buffer
     \<Rightarrow> fault + crypto_rc \<times> bytes \<times> buffer \<times> cipher_ctx \<times> nat" where
  "aead_chunk_decrypt lib ctx p ofs b =
     (let nlen = nonce_len (cipher ctx);
          tlen = tag_len (cipher ctx);
          c = data b
      in if len b \<le> 2 * tlen + CHUNK_SIZE_LEN then Inr (CRYPTO_NEED_MORE, p, b, ctx, 0)
         else
           case aead_cipher_decrypt lib ctx (take (CHUNK_SIZE_LEN + tlen) c) (nonce ctx) (skey ctx) of
             Inl f \<Rightarrow> Inl f
           | Inr None \<Rightarrow> Inr (CRYPTO_ERROR, p, b, ctx, 0)
           | Inr (Some len_buf) \<Rightarrow>
               if length len_buf \<noteq> CHUNK_SIZE_LEN then Inl ASSERT
               else
                 let mlen = from_be16 (len_buf ! 0) (len_buf ! 1) AND CHUNK_SIZE_MASK;
                     chunk_len = 2 * tlen + CHUNK_SIZE_LEN + mlen
                 in if mlen = 0 then Inr (CRYPTO_ERROR, p, b, ctx, CHUNK_SIZE_LEN)
                    else if len b < chunk_len then Inr (CRYPTO_NEED_MORE, p, b, ctx, CHUNK_SIZE_LEN)
                    else
                      let ctx = ctx\<lparr>nonce := sodium_increment (nonce ctx) nlen\<rparr>
                      in case aead_cipher_decrypt lib ctx
                                (take (mlen + tlen) (drop (CHUNK_SIZE_LEN + tlen) c))
                                (nonce ctx) (skey ctx) of
                           Inl f \<Rightarrow> Inl f
                         | Inr None \<Rightarrow> Inr (CRYPTO_ERROR, p, b, ctx, CHUNK_SIZE_LEN)
                         | Inr (Some m) \<Rightarrow>
                             if length m \<noteq> mlen then Inl ASSERT
                             else Inr (CRYPTO_OK, memcpy_at p ofs m, bconsume b chunk_len,
                                       ctx\<lparr>nonce := sodium_increment (nonce ctx) nlen\<rparr>, mlen))"

lemma aead_chunk_decrypt_consumes:
  "aead_chunk_decrypt lib ctx p ofs b = Inr (CRYPTO_OK, p', b', ctx', n) \<Longrightarrow> len b' < len b"
  by (auto simp: aead_chunk_decrypt_def Let_def bconsume_def CHUNK_SIZE_LEN_def
      split: if_splits sum.splits option.splits)

text \<open>The loop of \<open>aead_decrypt\<close> over the chunk buffer; \<open>plen\<close> counts the bytes written.\<close>

function aead_decrypt_loop ::
  "cryptolib \<Rightarrow> cipher_ctx \<Rightarrow> buffer \<Rightarrow> bytes \<Rightarrow> nat
     \<Rightarrow> fault + crypto_rc \<times> cipher_ctx \<times> buffer \<times> bytes \<times> nat" where
  "aead_decrypt_loop lib ctx b p plen =
     (if 0 < len b then
        case aead_chunk_decrypt lib ctx p plen b of
          Inl f \<Rightarrow> Inl f
        | Inr (CRYPTO_ERROR, p', b', ctx', _) \<Rightarrow> Inr (CRYPTO_ERROR, ctx', b', p', plen)
        | Inr (CRYPTO_NEED_MORE, p', b', ctx', _) \<Rightarrow>
            if plen = 0 then Inr (CRYPTO_NEED_MORE, ctx', b', p', plen)
            else Inr (CRYPTO_OK, ctx', b', p', plen)
        | Inr (CRYPTO_OK, p', b', ctx', chunk_plen) \<Rightarrow>
            aead_decrypt_loop lib ctx' b' p' (plen + chunk_plen)
      else Inr (CRYPTO_OK, ctx, b, p, plen))"
  by pat_completeness auto
termination
  by (relation "measure (\<lambda>(lib, ctx, b, p, plen). len b)") (auto dest: aead_chunk_decrypt_consumes)

declare aead_decrypt_loop.simps [simp del]

text \<open>
  The start of a connection: once more than the salt has arrived, take the salt off the
  buffer, derive the subkey and refuse a salt that the filter knows. \<open>Inr\<close> carries what
  the code returns early with, if it does.
\<close>

definition aead_decrypt_start ::
  "cipher_ctx \<Rightarrow> buffer \<Rightarrow> crypto_state
     \<Rightarrow> fault + crypto_rc option \<times> cipher_ctx \<times> buffer" where
  "aead_decrypt_start ctx b st =
     (let salt_len = key_len (cipher ctx)
      in if init ctx = 0 then
           if len b \<le> salt_len then Inr (Some CRYPTO_NEED_MORE, ctx, b)
           else
             let ctx = ctx\<lparr>salt := memcpy_at (salt ctx) 0 (take salt_len (data b))\<rparr>
             in case aead_cipher_ctx_set_key ctx False of
                  Inl f \<Rightarrow> Inl f
                | Inr ctx \<Rightarrow>
                    if ppbloom_check (ppb st) (take salt_len (salt ctx)) = 1
                    then Inr (Some CRYPTO_ERROR, ctx, b)
                    else Inr (None, ctx\<lparr>init := 1\<rparr>, bconsume b salt_len)
         else Inr (None, ctx, b))"

definition aead_decrypt ::
  "libc \<Rightarrow> cryptolib \<Rightarrow> buffer \<Rightarrow> cipher_ctx \<Rightarrow> nat \<Rightarrow> crypto_state
     \<Rightarrow> fault + crypto_rc \<times> buffer \<times> cipher_ctx \<times> crypto_state" where
  "aead_decrypt lc lib ciphertext ctx cap st =
     (let salt_len = key_len (cipher ctx);
          b = (case chunk ctx of None \<Rightarrow> snd (balloc lc cap) | Some b \<Rightarrow> b);
          b = bappend lc b (contents ciphertext) cap;
          tmp = brealloc_buf lc (tmps st AEAD_DECRYPT) (len b) cap
      in case aead_decrypt_start ctx b st of
           Inl f \<Rightarrow> Inl f
         | Inr (Some err, ctx, b) \<Rightarrow>
             Inr (err, ciphertext, ctx\<lparr>chunk := Some b\<rparr>, set_tmp AEAD_DECRYPT tmp st)
         | Inr (None, ctx, b) \<Rightarrow>
             (case aead_decrypt_loop lib ctx b (data tmp) 0 of
                Inl f \<Rightarrow> Inl f
              | Inr (err, ctx, b, p, plen) \<Rightarrow>
                  let ctx = ctx\<lparr>chunk := Some b\<rparr>;
                      tmp = tmp\<lparr>data := p\<rparr>;
                      s = take salt_len (salt ctx)
                  in if err \<noteq> CRYPTO_OK
                     then Inr (err, ciphertext, ctx, set_tmp AEAD_DECRYPT tmp st)
                     else
                       let tmp = tmp\<lparr>len := plen\<rparr>;
                           st = set_tmp AEAD_DECRYPT tmp st
                       in if init ctx = 1 \<and> ppbloom_check (ppb st) s = 1
                          then Inr (CRYPTO_ERROR, ciphertext, ctx, st)
                          else
                            let st = (if init ctx = 1 then remember lc s st else st);
                                ctx = (if init ctx = 1 then ctx\<lparr>init := 2\<rparr> else ctx)
                            in Inr (CRYPTO_OK, bstore lc ciphertext (take plen p) cap, ctx, st)))"

end
