(* ===== verification/SS_AeadSession.thy ===== *)
theory SS_AeadSession
  imports SS_Aead
begin

text \<open>
  What the AEAD code of \<^verbatim>\<open>src/aead.c\<close> guarantees. The wire format is written down as a function
  of the subkey (\<open>chunk_wire\<close>, \<open>stream_wire\<close>); the sender is shown to produce it and the
  receiver to take it apart again however the network cuts it into pieces.
\<close>

section \<open>Ciphers and keyed contexts\<close>

text \<open>A cipher as \<open>aead_key_init\<close> leaves it.\<close>

definition cipher_ok :: "cipher_t \<Rightarrow> bool" where
  "cipher_ok c \<longleftrightarrow> cmethod c < AEAD_CIPHER_NUM
     \<and> nonce_len c = supported_aead_ciphers_nonce_size ! cmethod c
     \<and> key_len c = supported_aead_ciphers_key_size ! cmethod c
     \<and> tag_len c = supported_aead_ciphers_tag_size ! cmethod c
     \<and> length (key c) = MAX_KEY_LENGTH"

definition AES_GCM_MAX :: nat where
  "AES_GCM_MAX = 2 ^ 36 - 32"

text \<open>
  What the code relies on of libsodium's AES-256-GCM, where the hardware has it: the interface
  \<^const>\<open>aead_cipher\<close>.
\<close>

definition lib_ok :: "cryptolib \<Rightarrow> cipher_t \<Rightarrow> bool" where
  "lib_ok lib c \<longleftrightarrow> (cmethod c = AES256GCM \<and> lib_aes256gcm_available lib \<longrightarrow>
     aead_cipher (\<lambda>n k. lib_aes256gcm_enc lib k n) (\<lambda>n k. lib_aes256gcm_dec lib k n) 16 AES_GCM_MAX)"

text \<open>The sizes that every cipher has.\<close>

lemma method_cases:
  assumes "cipher_ok c"
  shows "cmethod c = 0 \<or> cmethod c = 1 \<or> cmethod c = 2 \<or> cmethod c = 3 \<or> cmethod c = 4"
  using assms by (auto simp: cipher_ok_def method_defs)

lemma cipher_sizes:
  assumes "cipher_ok c"
  shows "tag_len c = 16" "key_len c \<in> {16, 24, 32}" "nonce_len c \<in> {12, 24}"
    "length (key c) = 64"
  using assms method_cases [OF assms] by (auto simp: cipher_ok_def aead_tables MAX_KEY_LENGTH_def)

text \<open>The subkey of a salt, by RFC 5869.\<close>

definition subkey :: "cipher_t \<Rightarrow> bytes \<Rightarrow> bytes" where
  "subkey c s =
     hkdf_okm mbedtls_sha1_info (mbedtls_md_hmac mbedtls_sha1_info s (take (key_len c) (key c)))
       SUBKEY_INFO (key_len c)"

text \<open>The mbed TLS side of the GCM methods: the description, and the context of a key.\<close>

definition padded :: "bytes \<Rightarrow> bytes" where
  "padded sk = memcpy_at (replicate MAX_KEY_LENGTH 0) 0 sk"

definition gcm_info :: "cipher_t \<Rightarrow> cipher_info" where
  "gcm_info c = the (aead_get_cipher_type (int (cmethod c)))"

definition gcm_of :: "cipher_t \<Rightarrow> bytes \<Rightarrow> gcm_context" where
  "gcm_of c sk = the (mbedtls_gcm_setkey mbedtls_gcm_init (padded sk) (key_len c * 8))"

definition gcm_evp :: "cipher_t \<Rightarrow> mbed_context \<Rightarrow> gcm_context \<Rightarrow> bool" where
  "gcm_evp c e g \<longleftrightarrow> m_info e = gcm_info c \<and> m_prim e = GcmCtx g \<and> gcm_wf g"

lemma gcm_names:
  "mbedtls_cipher_info_from_string ''AES-128-GCM'' = Some (aes_gcm_info ''AES-128-GCM'' 128)"
  "mbedtls_cipher_info_from_string ''AES-192-GCM'' = Some (aes_gcm_info ''AES-192-GCM'' 192)"
  "mbedtls_cipher_info_from_string ''AES-256-GCM'' = Some (aes_gcm_info ''AES-256-GCM'' 256)"
  by (simp_all add: mbedtls_cipher_info_from_string_def mbedtls_cipher_definitions_def cipher_infos)

lemma gcm_info_props:
  assumes "cipher_ok c" "cmethod c < CHACHA20POLY1305IETF"
  shows "aead_get_cipher_type (int (cmethod c)) = Some (gcm_info c)"
    "ci_mode (gcm_info c) = MODE_GCM" "ci_base (gcm_info c) = BASE_GCM_AES"
    "ci_key_bitlen (gcm_info c) = key_len c * 8" "key_len c * 8 \<in> {128, 192, 256}" "nonce_len c = 12"
proof -
  have m: "cmethod c = 0 \<or> cmethod c = 1 \<or> cmethod c = 2" using assms(2) by (auto simp: CHACHA20POLY1305IETF_def)
  have t: "aead_get_cipher_type 0 = Some (aes_gcm_info ''AES-128-GCM'' 128)"
      "aead_get_cipher_type 1 = Some (aes_gcm_info ''AES-192-GCM'' 192)"
      "aead_get_cipher_type 2 = Some (aes_gcm_info ''AES-256-GCM'' 256)"
    by (simp_all add: aead_get_cipher_type_def method_defs aead_tables gcm_names)
  have "aead_get_cipher_type (int (cmethod c)) = Some (gcm_info c) \<and> ci_mode (gcm_info c) = MODE_GCM
     \<and> ci_base (gcm_info c) = BASE_GCM_AES \<and> ci_key_bitlen (gcm_info c) = key_len c * 8 \<and> key_len c * 8 \<in> {128, 192, 256}
     \<and> nonce_len c = 12"
    using m assms(1) by (elim disjE) (simp_all add: gcm_info_def t aes_gcm_info_def cipher_ok_def aead_tables)
  then show "aead_get_cipher_type (int (cmethod c)) = Some (gcm_info c)"
    "ci_mode (gcm_info c) = MODE_GCM" "ci_base (gcm_info c) = BASE_GCM_AES"
    "ci_key_bitlen (gcm_info c) = key_len c * 8" "key_len c * 8 \<in> {128, 192, 256}" "nonce_len c = 12" by simp_all
qed

text \<open>The library contexts of a cipher before and after it has a key.\<close>

definition ready_ctx :: "cryptolib \<Rightarrow> cipher_t \<Rightarrow> bytes option \<Rightarrow> mbed_context option \<Rightarrow> bool" where
  "ready_ctx lib c a e \<longleftrightarrow>
     (if cmethod c = AES256GCM \<and> lib_aes256gcm_available lib then a \<noteq> None
      else a = None \<and> (cmethod c < CHACHA20POLY1305IETF \<longrightarrow> (\<exists>e' g. e = Some e' \<and> gcm_evp c e' g)))"

definition keyed_ctx :: "cryptolib \<Rightarrow> cipher_t \<Rightarrow> bytes \<Rightarrow> bytes option \<Rightarrow> mbed_context option \<Rightarrow> bool" where
  "keyed_ctx lib c sk a e \<longleftrightarrow>
     (if cmethod c = AES256GCM \<and> lib_aes256gcm_available lib then a = Some sk
      else a = None \<and> (cmethod c < CHACHA20POLY1305IETF \<longrightarrow>
        (\<exists>e' g. e = Some e' \<and> gcm_evp c e' g \<and> same_key g (gcm_of c sk))))"

lemma keyed_ctx_cases:
  assumes "keyed_ctx lib c sk a e"
  obtains (hardware) "cmethod c = AES256GCM" "lib_aes256gcm_available lib" "a = Some sk"
  | (mbedtls) e' g where "\<not> (cmethod c = AES256GCM \<and> lib_aes256gcm_available lib)" "cmethod c < CHACHA20POLY1305IETF"
      "a = None" "e = Some e'" "gcm_evp c e' g" "same_key g (gcm_of c sk)"
  | (sodium) "CHACHA20POLY1305IETF \<le> cmethod c" "a = None"
  using assms by (auto simp: keyed_ctx_def split: if_splits) (metis not_le)+

text \<open>A context whose keys were set from the salt \<open>s\<close>.\<close>

definition keyed :: "cryptolib \<Rightarrow> cipher_t \<Rightarrow> bytes \<Rightarrow> cipher_ctx \<Rightarrow> bool" where
  "keyed lib c s ctx \<longleftrightarrow> cipher ctx = c \<and> skey ctx = padded (subkey c s)
     \<and> keyed_ctx lib c (subkey c s) (aes256gcm_ctx ctx) (evp ctx)"

text \<open>A context ready to be keyed: fresh from \<open>aead_ctx_init\<close>, or keyed before.\<close>

definition keyable :: "cryptolib \<Rightarrow> cipher_t \<Rightarrow> cipher_ctx \<Rightarrow> bool" where
  "keyable lib c ctx \<longleftrightarrow> cipher ctx = c
     \<and> (\<exists>k. length k = key_len c \<and> skey ctx = padded k)
     \<and> nonce ctx = replicate MAX_NONCE_LENGTH 0
     \<and> length (salt ctx) = MAX_KEY_LENGTH
     \<and> ready_ctx lib c (aes256gcm_ctx ctx) (evp ctx)"

text \<open>Setting a key on any GCM context gives one for that key.\<close>

lemma setkey_gcm:
  assumes "cipher_ok c" "cmethod c < CHACHA20POLY1305IETF" "gcm_evp c e g"
  obtains e' g' where "mbedtls_cipher_setkey e (padded sk) (key_len c * 8) enc = Some e'"
    "gcm_evp c (mbedtls_cipher_reset e') g'" "same_key g' (gcm_of c sk)"
proof -
  note i = gcm_info_props [OF assms(1,2)]
  have e: "m_info e = gcm_info c" "m_prim e = GcmCtx g" "gcm_wf g" using assms(3) by (simp_all add: gcm_evp_def)
  obtain g1 g2 where k: "mbedtls_gcm_setkey g (padded sk) (key_len c * 8) = Some g1"
      "mbedtls_gcm_setkey mbedtls_gcm_init (padded sk) (key_len c * 8) = Some g2" "same_key g1 g2" "gcm_wf g1"
    by (rule gcm_setkey_any [OF e(3) i(5)])
  let ?e = "e\<lparr>m_key_bitlen := key_len c * 8, m_encrypt := enc, m_prim := GcmCtx g1\<rparr>"
  have "mbedtls_cipher_setkey e (padded sk) (key_len c * 8) enc = Some ?e"
    using e i(4) k(1) by (simp add: mbedtls_cipher_setkey_def setkey_func_def)
  then show ?thesis
    by (rule that) (use e k in \<open>simp_all add: gcm_evp_def mbedtls_cipher_reset_def gcm_of_def\<close>)
qed

lemma length_subkey [simp]: "length (subkey c s) = key_len c"
  by (simp add: subkey_def length_hkdf_okm digest_infos_ok)

lemma zero_nonce: "nl \<le> N \<Longrightarrow> memcpy_at (replicate N (0 :: u8)) 0 (replicate nl 0) = replicate N 0"
  by (simp add: memcpy_at_def flip: replicate_add)

lemma rekey:
  "length a = length b \<Longrightarrow> memcpy_at (memcpy_at d 0 a) 0 b = memcpy_at d 0 b"
  by (simp add: memcpy_at_def)

lemma hkdf_subkey:
  assumes "cipher_ok c" "length s = key_len c" "length k = key_len c"
  shows "crypto_hkdf mbedtls_sha1_info (Some (s @ x)) (int (key_len c)) (take (key_len c) (key c)) (int (key_len c))
      (Some SUBKEY_INFO) (int (length SUBKEY_INFO)) (Some (padded k)) (int (key_len c))
    = (0, Some (padded (subkey c s)))"
proof -
  let ?out = "padded k"
  have kl: "key_len c \<le> 32" and kk: "length (take (key_len c) (key c)) = key_len c"
    using cipher_sizes [OF assms(1)] by auto
  have sha: "digest_ok mbedtls_sha1_info" "md_size mbedtls_sha1_info = 20"
    by (rule digest_infos_ok, simp add: mbedtls_sha1_info_def)
  have cd: "ceil_div (key_len c) 20 \<le> 255"
    using cipher_sizes(2) [OF assms(1)] by (auto simp: ceil_div_def)
  have "key_len c \<le> length ?out"
    using kl assms(3) by (simp add: padded_def memcpy_at_def MAX_KEY_LENGTH_def)
  then have "crypto_hkdf mbedtls_sha1_info (Some s) (int (length s)) (take (key_len c) (key c))
      (int (length (take (key_len c) (key c)))) (Some SUBKEY_INFO) (int (length SUBKEY_INFO)) (Some ?out) (int (key_len c))
    = (0, Some (memcpy_at ?out 0 (subkey c s)))"
    using crypto_hkdf_eq [OF sha(1), of "key_len c" ?out s "take (key_len c) (key c)" SUBKEY_INFO] sha cd
    by (simp add: subkey_def)
  then show ?thesis
    using assms kk by (simp add: crypto_hkdf_def crypto_hkdf_extract_def rekey padded_def)
qed

text \<open>Setting the key never fails on a usable context.\<close>

lemma set_key_keyed:
  assumes "cipher_ok c" "keyable lib c ctx" "take (key_len c) (salt ctx) = s"
  obtains ctx' where "aead_cipher_ctx_set_key ctx enc = Inr ctx'" "keyed lib c s ctx'"
    "keyable lib c ctx'" "salt ctx' = salt ctx" "init ctx' = init ctx" "chunk ctx' = chunk ctx"
proof -
  obtain k where k: "length k = key_len c" "skey ctx = padded k"
    using assms(2) by (auto simp: keyable_def)
  have sl: "length s = key_len c" "salt ctx = s @ drop (key_len c) (salt ctx)"
    using assms cipher_sizes(2) [OF assms(1)] append_take_drop_id [of "key_len c" "salt ctx"]
    by (auto simp: keyable_def MAX_KEY_LENGTH_def)
  have ctx: "cipher ctx = c" "nonce ctx = replicate MAX_NONCE_LENGTH 0"
    using assms(2) by (simp_all add: keyable_def)
  note hk = hkdf_subkey [OF assms(1) sl(1) k(1), of "drop (key_len c) (salt ctx)", folded sl(2) k(2)]
  let ?sk = "subkey c s"
  let ?skey = "padded ?sk"
  have n: "memcpy_at (nonce ctx) 0 (replicate (nonce_len c) 0) = nonce ctx"
    using cipher_sizes(3) [OF assms(1)] ctx(2) zero_nonce [of "nonce_len c" MAX_NONCE_LENGTH]
    by (auto simp: MAX_NONCE_LENGTH_def)
  have tk: "take (key_len c) ?skey = ?sk"
    using take_memcpy_at_0 [of ?sk "replicate MAX_KEY_LENGTH 0"] by (simp add: padded_def)
  have k2: "key_len c = 32" if "cmethod c = AES256GCM"
    using that assms(1) by (simp add: cipher_ok_def aead_tables method_defs)
  let ?c = "ctx\<lparr>skey := ?skey, nonce := nonce ctx\<rparr>"
  have res: "aead_cipher_ctx_set_key ctx enc =
      (if cmethod c \<ge> CHACHA20POLY1305IETF then Inr ?c
       else if aes256gcm_ctx ctx \<noteq> None then Inr (?c\<lparr>aes256gcm_ctx := Some (take 32 ?skey)\<rparr>)
       else (case evp ctx of None \<Rightarrow> Inl SEGV | Some e \<Rightarrow>
          (case mbedtls_cipher_setkey e ?skey (key_len c * 8) enc of
             None \<Rightarrow> Inl (FATAL ''Cannot set mbed TLS cipher key'')
           | Some e \<Rightarrow> Inr (?c\<lparr>evp := Some (mbedtls_cipher_reset e)\<rparr>))))"
    using ctx(1) n by (simp add: aead_cipher_ctx_set_key_def Let_def hk split: option.splits)
  have kk: "length ?sk = key_len c" by simp
  have kb: "\<exists>k. length k = key_len c \<and> ?skey = padded k" using kk by blast
  have rd: "ready_ctx lib c (aes256gcm_ctx ctx) (evp ctx)" using assms(2) by (simp add: keyable_def)
  note done_with = that
  have fin: ?thesis if r: "aead_cipher_ctx_set_key ctx enc = Inr (?c\<lparr>aes256gcm_ctx := a, evp := e\<rparr>)"
      and "keyed_ctx lib c ?sk a e" "ready_ctx lib c a e" for a e
    by (rule done_with [OF r]) (use that(2,3) assms(2) ctx kb in \<open>simp_all add: keyed_def keyable_def\<close>)
  have self: "?c\<lparr>aes256gcm_ctx := aes256gcm_ctx ctx, evp := evp ctx\<rparr> = ?c"
      "?c\<lparr>aes256gcm_ctx := a, evp := evp ctx\<rparr> = ?c\<lparr>aes256gcm_ctx := a\<rparr>"
      "?c\<lparr>aes256gcm_ctx := aes256gcm_ctx ctx, evp := e\<rparr> = ?c\<lparr>evp := e\<rparr>" for a e by simp_all
  show ?thesis
  proof (cases "cmethod c = AES256GCM \<and> lib_aes256gcm_available lib")
    case True
    then have "aead_cipher_ctx_set_key ctx enc = Inr (?c\<lparr>aes256gcm_ctx := Some ?sk, evp := evp ctx\<rparr>)"
      using res rd tk k2 by (auto simp: ready_ctx_def method_defs)
    then show ?thesis by (rule fin) (use True in \<open>simp_all add: keyed_ctx_def ready_ctx_def\<close>)
  next
    case False
    show ?thesis
    proof (cases "cmethod c \<ge> CHACHA20POLY1305IETF")
      case True
      then have "aead_cipher_ctx_set_key ctx enc = Inr (?c\<lparr>aes256gcm_ctx := aes256gcm_ctx ctx, evp := evp ctx\<rparr>)"
        using res self(1) by simp
      then show ?thesis
        by (rule fin) (use True False rd in \<open>auto simp: keyed_ctx_def ready_ctx_def\<close>)
    next
      case f: False
      then have m: "cmethod c < CHACHA20POLY1305IETF" by simp
      obtain e g where e: "evp ctx = Some e" "gcm_evp c e g" "aes256gcm_ctx ctx = None"
        using rd False m by (auto simp: ready_ctx_def)
      obtain e' g' where s: "mbedtls_cipher_setkey e ?skey (key_len c * 8) enc = Some e'"
          "gcm_evp c (mbedtls_cipher_reset e') g'" "same_key g' (gcm_of c ?sk)"
        by (rule setkey_gcm [OF assms(1) m e(2)])
      have "aead_cipher_ctx_set_key ctx enc =
          Inr (?c\<lparr>aes256gcm_ctx := aes256gcm_ctx ctx, evp := Some (mbedtls_cipher_reset e')\<rparr>)"
        using res m e s(1) by simp
      then show ?thesis
        by (rule fin) (use m False e(3) s(2,3) in \<open>auto simp: keyed_ctx_def ready_ctx_def\<close>)
    qed
  qed
qed

text \<open>A new context is ready to be keyed; a sender's carries fresh salt.\<close>

lemma ctx_init_keyable:
  assumes "cipher_ok c"
  obtains ctx where "aead_ctx_init lc lib c enc st =
      Inr (ctx, if enc then snd (rand_bytes lc st (key_len c)) else st)"
    "keyable lib c ctx" "init ctx = 0" "chunk ctx = None"
    "enc \<Longrightarrow> take (key_len c) (salt ctx) = fst (rand_bytes lc st (key_len c))"
proof -
  define e where "e = the (mbedtls_cipher_setup (Some (gcm_info c)))"
  have e: "mbedtls_cipher_setup (Some (gcm_info c)) = Some e" by (simp add: e_def mbedtls_cipher_setup_def)
  have gw: "gcm_wf mbedtls_gcm_init" by (simp add: gcm_wf_def mbedtls_gcm_init_def)
  have ge: "\<exists>g. gcm_evp c e g" if "cmethod c < CHACHA20POLY1305IETF"
    using gcm_info_props(3) [OF assms that] gw
    by (simp add: gcm_evp_def e_def mbedtls_cipher_setup_def ctx_alloc_func_def)
  define ctx where "ctx = (if cmethod c \<ge> CHACHA20POLY1305IETF then zero_ctx c
      else if cmethod c = AES256GCM \<and> lib_aes256gcm_available lib
      then (zero_ctx c)\<lparr>aes256gcm_ctx := Some []\<rparr>
      else (zero_ctx c)\<lparr>aes256gcm_ctx := None, evp := Some e\<rparr>)"
  have c: "aead_cipher_ctx_init lib (zero_ctx c) (cmethod c) = Inr ctx"
    using gcm_info_props(1) [OF assms] assms e
    by (simp add: aead_cipher_ctx_init_def cipher_ok_def AES128GCM_def Let_def ctx_def)
  have kl: "key_len c \<le> 64" using cipher_sizes(2) [OF assms] by auto
  have ex: "\<exists>k. length k = key_len c \<and> replicate MAX_KEY_LENGTH (0 :: u8) = padded k"
    using zero_nonce [of "key_len c" MAX_KEY_LENGTH] kl
    by (intro exI [of _ "replicate (key_len c) 0"]) (simp add: padded_def MAX_KEY_LENGTH_def)
  have base: "keyable lib c ctx" "init ctx = 0" "chunk ctx = None" "salt ctx = replicate MAX_KEY_LENGTH 0"
    using ex ge by (auto simp: ctx_def keyable_def ready_ctx_def zero_ctx_def method_defs split: if_splits)
  show ?thesis
  proof (cases enc)
    case True
    let ?bs = "fst (rand_bytes lc st (key_len c))"
    let ?ctx = "ctx\<lparr>salt := memcpy_at (salt ctx) 0 ?bs\<rparr>"
    have bs: "length ?bs = key_len c" by simp
    have "take (key_len c) (salt ?ctx) = ?bs"
      using take_memcpy_at_0 [of ?bs "salt ctx"] bs by simp
    moreover have "keyable lib c ?ctx"
      using base(1,4) kl bs by (auto simp: keyable_def length_memcpy_at MAX_KEY_LENGTH_def)
    ultimately show ?thesis
      using True c base by (intro that [of ?ctx]) (auto simp: aead_ctx_init_def split_beta)
  next
    case False
    then show ?thesis
      using c base by (intro that [of ctx]) (auto simp: aead_ctx_init_def)
  qed
qed

section \<open>The wire format\<close>

text \<open>Sealing and opening one message under the subkey \<open>sk\<close> and the nonce array \<open>n\<close>.\<close>

definition gcm_seal :: "gcm_context \<Rightarrow> bytes \<Rightarrow> bytes \<Rightarrow> bytes option" where
  "gcm_seal g iv m = map_option (\<lambda>(c, t). c @ t) (mbedtls_gcm_crypt_and_tag g True iv [] m 16)"

definition gcm_open :: "gcm_context \<Rightarrow> bytes \<Rightarrow> bytes \<Rightarrow> bytes option" where
  "gcm_open g iv x = (if length x < 16 then None
     else mbedtls_gcm_auth_decrypt g iv [] (drop (length x - 16) x) (take (length x - 16) x))"

definition aead_seal :: "cryptolib \<Rightarrow> cipher_t \<Rightarrow> bytes \<Rightarrow> bytes \<Rightarrow> bytes \<Rightarrow> bytes option" where
  "aead_seal lib c n sk m =
     (if cmethod c = AES256GCM \<and> lib_aes256gcm_available lib then lib_aes256gcm_enc lib sk n m
      else if cmethod c < CHACHA20POLY1305IETF then gcm_seal (gcm_of c sk) (take (nonce_len c) n) m
      else if cmethod c = CHACHA20POLY1305IETF
      then crypto_aead_chacha20poly1305_ietf_encrypt m [] n (padded sk)
      else crypto_aead_xchacha20poly1305_ietf_encrypt m [] n (padded sk))"

definition aead_open :: "cryptolib \<Rightarrow> cipher_t \<Rightarrow> bytes \<Rightarrow> bytes \<Rightarrow> bytes \<Rightarrow> bytes option" where
  "aead_open lib c n sk m =
     (if cmethod c = AES256GCM \<and> lib_aes256gcm_available lib then lib_aes256gcm_dec lib sk n m
      else if cmethod c < CHACHA20POLY1305IETF then gcm_open (gcm_of c sk) (take (nonce_len c) n) m
      else if cmethod c = CHACHA20POLY1305IETF
      then crypto_aead_chacha20poly1305_ietf_decrypt m [] n (padded sk)
      else crypto_aead_xchacha20poly1305_ietf_decrypt m [] n (padded sk))"

text \<open>GCM of mbed TLS provides the interface, for IVs of twelve bytes.\<close>

lemma gcm_open_length:
  assumes "gcm_open g iv x = Some m"
  shows "length x = length m + 16"
proof -
  have l: "16 \<le> length x" "mbedtls_gcm_auth_decrypt g iv [] (drop (length x - 16) x) (take (length x - 16) x) = Some m"
    using assms by (auto simp: gcm_open_def split: if_splits)
  then obtain t where "mbedtls_gcm_crypt_and_tag g False iv [] (take (length x - 16) x) 16 = Some (m, t)"
    by (auto simp: mbedtls_gcm_auth_decrypt_def split: option.splits if_splits)
  from gcm_crypt_lengths(1) [OF this] l(1) show ?thesis by simp
qed

lemma gcm_open_seal:
  assumes "gcm_seal g iv m = Some x"
  shows "gcm_open g iv x = Some m" "length x = length m + 16"
proof -
  obtain c t where c: "mbedtls_gcm_crypt_and_tag g True iv [] m 16 = Some (c, t)" "x = c @ t"
    using assms by (auto simp: gcm_seal_def)
  note l = gcm_crypt_lengths [OF c(1)]
  show "length x = length m + 16" using c(2) l by simp
  show "gcm_open g iv x = Some m"
    using gcm_auth_decrypt_sealed [OF c(1) l(2)] c(2) l by (simp add: gcm_open_def)
qed

lemma gcm_cipher:
  fixes f :: "bytes \<Rightarrow> bytes" and G :: "bytes \<Rightarrow> gcm_context"
  assumes "\<And>n. length (f n) = 12"
  shows "aead_cipher (\<lambda>n k. gcm_seal (G k) (f n)) (\<lambda>n k. gcm_open (G k) (f n)) 16 AES_GCM_MAX"
proof
  fix m n k :: bytes
  assume "length m \<le> AES_GCM_MAX"
  then show "\<exists>c. gcm_seal (G k) (f n) m = Some c"
    using gcm_crypt_total [OF assms, where m = m and ctx = "G k" and enc = True] by (auto simp: gcm_seal_def AES_GCM_MAX_def)
qed (use gcm_open_seal gcm_open_length in blast)+

text \<open>Every usable cipher provides the interface, whatever library serves it.\<close>

lemma aead_cipher_weaken:
  assumes "aead_cipher E D t M" and "M' \<le> M"
  shows "aead_cipher (\<lambda>n k. E (f n) (g k)) (\<lambda>n k. D (f n) (g k)) t M'"
  using assms by (auto simp: aead_cipher_def)

definition fit :: "bytes \<Rightarrow> bytes" where
  "fit n = take MAX_NONCE_LENGTH (n @ replicate MAX_NONCE_LENGTH 0)"

lemma fit_id [simp]: "length n = MAX_NONCE_LENGTH \<Longrightarrow> fit n = n"
  by (simp add: fit_def)

lemma session_cipher:
  assumes "cipher_ok c" "lib_ok lib c"
  shows "aead_cipher (\<lambda>n. aead_seal lib c (fit n)) (\<lambda>n. aead_open lib c (fit n)) 16 AES_GCM_MAX"
proof -
  have le: "AES_GCM_MAX \<le> ietf_MESSAGEBYTES_MAX" "AES_GCM_MAX \<le> xchacha_MESSAGEBYTES_MAX" "ABYTES = 16"
    by (simp_all add: AES_GCM_MAX_def ietf_MESSAGEBYTES_MAX_def xchacha_MESSAGEBYTES_MAX_def ABYTES_def)
  consider "cmethod c = AES256GCM \<and> lib_aes256gcm_available lib" | "\<not> (cmethod c = AES256GCM \<and> lib_aes256gcm_available lib)"
      "cmethod c < CHACHA20POLY1305IETF"
    | "cmethod c = CHACHA20POLY1305IETF" | "cmethod c = XCHACHA20POLY1305IETF"
    using method_cases [OF assms(1)]
    by (cases "lib_aes256gcm_available lib") (auto simp: method_defs)
  then show ?thesis
  proof cases
    case 1
    then have "(\<lambda>n. aead_seal lib c (fit n)) = (\<lambda>n k. lib_aes256gcm_enc lib k (fit n))"
      "(\<lambda>n. aead_open lib c (fit n)) = (\<lambda>n k. lib_aes256gcm_dec lib k (fit n))"
      by (auto simp: fun_eq_iff aead_seal_def aead_open_def)
    moreover have "aead_cipher (\<lambda>n k. lib_aes256gcm_enc lib k n) (\<lambda>n k. lib_aes256gcm_dec lib k n) 16 AES_GCM_MAX"
      using 1 assms(2) by (simp add: lib_ok_def)
    ultimately show ?thesis
      using aead_cipher_weaken [OF _ order_refl, where f = fit and g = "\<lambda>k. k"] by simp
  next
    case 2
    have "nonce_len c = 12" by (rule gcm_info_props(6) [OF assms(1) 2(2)])
    then have "\<And>n. length (take (nonce_len c) (fit n)) = 12" by (simp add: fit_def MAX_NONCE_LENGTH_def)
    note gcm_cipher [OF this, of "gcm_of c"]
    moreover have "(\<lambda>n. aead_seal lib c (fit n)) = (\<lambda>n k. gcm_seal (gcm_of c k) (take (nonce_len c) (fit n)))"
      "(\<lambda>n. aead_open lib c (fit n)) = (\<lambda>n k. gcm_open (gcm_of c k) (take (nonce_len c) (fit n)))"
      using 2 by (auto simp: fun_eq_iff aead_seal_def aead_open_def)
    ultimately show ?thesis by simp
  next
    case 3
    note aead_cipher_weaken [OF chacha.aead_cipher_axioms le(1), where f = fit and g = padded]
    moreover have "(\<lambda>n. aead_seal lib c (fit n)) = (\<lambda>n k m. crypto_aead_chacha20poly1305_ietf_encrypt m [] (fit n) (padded k))"
      "(\<lambda>n. aead_open lib c (fit n)) = (\<lambda>n k m. crypto_aead_chacha20poly1305_ietf_decrypt m [] (fit n) (padded k))"
      using 3 by (auto simp: fun_eq_iff aead_seal_def aead_open_def method_defs)
    ultimately show ?thesis by (simp add: le(3))
  next
    case 4
    note aead_cipher_weaken [OF xchacha.aead_cipher_axioms le(2), where f = fit and g = padded]
    moreover have "(\<lambda>n. aead_seal lib c (fit n)) = (\<lambda>n k m. crypto_aead_xchacha20poly1305_ietf_encrypt m [] (fit n) (padded k))"
      "(\<lambda>n. aead_open lib c (fit n)) = (\<lambda>n k m. crypto_aead_xchacha20poly1305_ietf_decrypt m [] (fit n) (padded k))"
      using 4 by (auto simp: fun_eq_iff aead_seal_def aead_open_def method_defs)
    ultimately show ?thesis by (simp add: le(3))
  qed
qed

text \<open>Whatever is opened is sixteen bytes shorter, under any nonce array.\<close>

lemma open_length:
  assumes "lib_ok lib c" "aead_open lib c n sk x = Some m"
  shows "length x = length m + 16"
proof -
  have "ABYTES = 16" by (simp add: ABYTES_def)
  then show ?thesis
    using assms gcm_open_length aead_cipher.dec_length [of _ "\<lambda>n k. lib_aes256gcm_dec lib k n" 16 AES_GCM_MAX n sk x m]
      chacha.dec_length [of x n "padded sk" m] xchacha.dec_length [of x n "padded sk" m]
    by (auto simp: aead_open_def lib_ok_def split: if_splits)
qed

text \<open>The code's switch on a keyed context.\<close>

lemma cipher_encrypt_keyed:
  assumes "cipher_ok c" "keyed lib c s ctx" "aead_seal lib c n (subkey c s) m = Some ct"
  shows "aead_cipher_encrypt lib ctx m n (skey ctx) = Inr (Some ct)"
proof -
  have k: "cipher ctx = c" "skey ctx = padded (subkey c s)" "tag_len c = 16"
    using assms(2) cipher_sizes(1) [OF assms(1)] by (simp_all add: keyed_def)
  have "keyed_ctx lib c (subkey c s) (aes256gcm_ctx ctx) (evp ctx)" using assms(2) by (simp add: keyed_def)
  then show ?thesis
  proof (cases rule: keyed_ctx_cases)
    case hardware
    then show ?thesis using assms(3) k by (simp add: aead_cipher_encrypt_def aead_seal_def)
  next
    case (mbedtls e g)
    have "gcm_seal g (take (nonce_len c) n) m = Some ct"
      using assms(3) mbedtls(1,2) same_key_crypt(1) [OF mbedtls(6)] by (simp add: aead_seal_def gcm_seal_def)
    moreover have "cmethod c = AES256GCM \<or> cmethod c = AES192GCM \<or> cmethod c = AES128GCM"
      using mbedtls(2) by (auto simp: method_defs)
    ultimately show ?thesis
      using mbedtls(3-5) k gcm_info_props(2) [OF assms(1) mbedtls(2)]
      by (simp add: aead_cipher_encrypt_def gcm_evp_def mbedtls_cipher_auth_encrypt_def gcm_seal_def)
  next
    case sodium
    then show ?thesis
      using assms(3) k method_cases [OF assms(1)] by (elim disjE) (simp_all add: aead_cipher_encrypt_def aead_seal_def method_defs)
  qed
qed

lemma cipher_decrypt_keyed:
  assumes "cipher_ok c" "keyed lib c s ctx" "16 \<le> length m"
  shows "aead_cipher_decrypt lib ctx m n (skey ctx) = Inr (aead_open lib c n (subkey c s) m)"
proof -
  have k: "cipher ctx = c" "skey ctx = padded (subkey c s)" "tag_len c = 16"
    using assms(2) cipher_sizes(1) [OF assms(1)] by (simp_all add: keyed_def)
  have "keyed_ctx lib c (subkey c s) (aes256gcm_ctx ctx) (evp ctx)" using assms(2) by (simp add: keyed_def)
  then show ?thesis
  proof (cases rule: keyed_ctx_cases)
    case hardware
    then show ?thesis using k by (simp add: aead_cipher_decrypt_def aead_open_def)
  next
    case (mbedtls e g)
    have "aead_open lib c n (subkey c s) m = gcm_open g (take (nonce_len c) n) m"
      using mbedtls(1,2) same_key_crypt(2) [OF mbedtls(6)] by (auto simp: aead_open_def gcm_open_def)
    moreover have "cmethod c = AES256GCM \<or> cmethod c = AES192GCM \<or> cmethod c = AES128GCM"
      using mbedtls(2) by (auto simp: method_defs)
    ultimately show ?thesis
      using mbedtls(3-5) k gcm_info_props(2) [OF assms(1) mbedtls(2)] assms(3)
      by (simp add: aead_cipher_decrypt_def gcm_evp_def mbedtls_cipher_auth_decrypt_def gcm_open_def)
  next
    case sodium
    then show ?thesis
      using k method_cases [OF assms(1)] by (elim disjE) (simp_all add: aead_cipher_decrypt_def aead_open_def method_defs)
  qed
qed

text \<open>The nonce after \<open>i\<close> increments, and what a message becomes under it.\<close>

definition nonce_at :: "cipher_t \<Rightarrow> nat \<Rightarrow> bytes" where
  "nonce_at c i = ((\<lambda>n. sodium_increment n (nonce_len c)) ^^ i) (replicate MAX_NONCE_LENGTH 0)"

definition sealed :: "cryptolib \<Rightarrow> cipher_t \<Rightarrow> bytes \<Rightarrow> nat \<Rightarrow> bytes \<Rightarrow> bytes" where
  "sealed lib c s i m = the (aead_seal lib c (nonce_at c i) (subkey c s) m)"

text \<open>A chunk uses two nonces, one for the length and one for the payload.\<close>

definition chunk_wire :: "cryptolib \<Rightarrow> cipher_t \<Rightarrow> bytes \<Rightarrow> nat \<Rightarrow> bytes \<Rightarrow> bytes" where
  "chunk_wire lib c s i m = sealed lib c s i (be16 (length m)) @ sealed lib c s (i + 1) m"

fun stream_wire :: "cryptolib \<Rightarrow> cipher_t \<Rightarrow> bytes \<Rightarrow> nat \<Rightarrow> bytes list \<Rightarrow> bytes" where
  "stream_wire lib c s i [] = []"
| "stream_wire lib c s i (m # ms) = chunk_wire lib c s i m @ stream_wire lib c s (i + 2) ms"

lemma nonce_at_Suc [simp]: "sodium_increment (nonce_at c i) (nonce_len c) = nonce_at c (Suc i)"
  by (simp add: nonce_at_def)

lemma nonce_at_0 [simp]: "nonce_at c 0 = replicate MAX_NONCE_LENGTH 0"
  by (simp add: nonce_at_def)

lemma length_nonce_at [simp]: "length (nonce_at c i) = MAX_NONCE_LENGTH"
  by (induction i) (simp_all flip: nonce_at_Suc)

lemma sealed_props:
  assumes "cipher_ok c" "lib_ok lib c" "length m \<le> 65535"
  shows "aead_seal lib c (nonce_at c i) (subkey c s) m = Some (sealed lib c s i m)"
    and "length (sealed lib c s i m) = length m + 16"
    and "aead_open lib c (nonce_at c i) (subkey c s) (sealed lib c s i m) = Some m"
proof -
  note prim = session_cipher [OF assms(1,2)]
  show e: "aead_seal lib c (nonce_at c i) (subkey c s) m = Some (sealed lib c s i m)"
    using aead_cipher.enc_Some [OF prim, of m "nonce_at c i" "subkey c s"] assms(3) by (auto simp: sealed_def AES_GCM_MAX_def)
  then have e': "aead_seal lib c (fit (nonce_at c i)) (subkey c s) m = Some (sealed lib c s i m)" by simp
  show "length (sealed lib c s i m) = length m + 16"
    using aead_cipher.enc_length [OF prim e'] .
  show "aead_open lib c (nonce_at c i) (subkey c s) (sealed lib c s i m) = Some m"
    using aead_cipher.dec_enc [OF prim e'] by simp
qed

lemma length_chunk_wire:
  assumes "cipher_ok c" "lib_ok lib c" "length m \<le> CHUNK_SIZE_MASK"
  shows "length (chunk_wire lib c s i m) = length m + 34"
  using assms by (simp add: chunk_wire_def sealed_props CHUNK_SIZE_MASK_def)

section \<open>The sender\<close>

lemma and_mask_small: "n \<le> CHUNK_SIZE_MASK \<Longrightarrow> n AND CHUNK_SIZE_MASK = n"
proof -
  assume "n \<le> CHUNK_SIZE_MASK"
  then have "take_bit 14 n = n"
    by (intro take_bit_nat_eq_self) (simp add: CHUNK_SIZE_MASK_def)
  then show ?thesis
    by (simp add: take_bit_eq_mask CHUNK_SIZE_MASK_def mask_eq_exp_minus_1)
qed

lemma keyed_update [simp]:
  "keyed lib c s (ctx\<lparr>nonce := n\<rparr>) = keyed lib c s ctx"
  "keyed lib c s (ctx\<lparr>init := i\<rparr>) = keyed lib c s ctx"
  "keyed lib c s (ctx\<lparr>chunk := b\<rparr>) = keyed lib c s ctx"
  by (simp_all add: keyed_def)

lemma chunk_encrypt_ok:
  assumes "cipher_ok c" "lib_ok lib c" "keyed lib c s ctx" "nonce ctx = nonce_at c i"
    and "plen \<le> CHUNK_SIZE_MASK" "plen \<le> length p" "ofs \<le> length d"
  shows "aead_chunk_encrypt lib ctx p d ofs plen =
     Inr (CRYPTO_OK, memcpy_at d ofs (chunk_wire lib c s i (take plen p)), ctx\<lparr>nonce := nonce_at c (i + 2)\<rparr>)"
proof -
  let ?c1 = "sealed lib c s i (be16 plen)" and ?c2 = "sealed lib c s (i + 1) (take plen p)"
  have cc: "cipher ctx = c" using assms(3) by (simp add: keyed_def)
  have pl: "plen \<le> 65535" using assms(5) by (simp add: CHUNK_SIZE_MASK_def)
  note s1 = sealed_props [OF assms(1,2), where m = "be16 plen" and i = i and s = s, simplified]
  note s2 = sealed_props [OF assms(1,2), where m = "take plen p" and i = "i + 1" and s = s]
  have e1: "aead_cipher_encrypt lib ctx (be16 plen) (nonce ctx) (skey ctx) = Inr (Some ?c1)"
    using cipher_encrypt_keyed [OF assms(1,3) s1(1)] assms(4) by simp
  let ?ctx = "ctx\<lparr>nonce := nonce_at c (Suc i)\<rparr>"
  have "keyed lib c s ?ctx" using assms(3) by simp
  then have e2: "aead_cipher_encrypt lib ?ctx (take plen p) (nonce_at c (Suc i)) (skey ctx) = Inr (Some ?c2)"
    using cipher_encrypt_keyed [OF assms(1), of lib s ?ctx "nonce_at c (Suc i)" "take plen p" ?c2] s2(1) pl assms(6)
    by simp
  have l: "length ?c1 = 18" "length ?c2 = plen + 16"
    using s1(2) s2(2) pl assms(6) by simp_all
  have m: "memcpy_at (memcpy_at d ofs ?c1) (ofs + 18) ?c2 = memcpy_at d ofs (?c1 @ ?c2)"
    using memcpy_at_append [OF assms(7), of ?c1 ?c2] l by simp
  show ?thesis
    using assms(4-6) e1 e2 l m cc cipher_sizes(1) [OF assms(1)]
    by (simp add: aead_chunk_encrypt_def Let_def and_mask_small chunk_wire_def CHUNK_SIZE_LEN_def
        min_absorb2 add.commute)
qed

text \<open>The state of a sender after \<open>i\<close> nonces: not started, or keyed with its salt.\<close>

definition sender :: "cryptolib \<Rightarrow> cipher_t \<Rightarrow> bytes \<Rightarrow> nat \<Rightarrow> cipher_ctx \<Rightarrow> bool" where
  "sender lib c s i ctx \<longleftrightarrow> take (key_len c) (salt ctx) = s \<and> cipher ctx = c \<and>
     (if init ctx = 0 then i = 0 \<and> keyable lib c ctx
      else keyed lib c s ctx \<and> nonce ctx = nonce_at c i)"

lemma encrypt_start_ok:
  assumes "cipher_ok c" "lib_ok lib c" "sender lib c s i ctx"
  obtains ctx' where "aead_encrypt_start lc ctx d st =
      Inr (if init ctx = 0 then memcpy_at d 0 s else d, ctx',
           if init ctx = 0 then remember lc s st else st)"
    "keyed lib c s ctx'" "nonce ctx' = nonce_at c i" "init ctx' \<noteq> 0" "salt ctx' = salt ctx"
proof (cases "init ctx = 0")
  case True
  then have k: "keyable lib c ctx" "take (key_len c) (salt ctx) = s" "i = 0" "cipher ctx = c"
    using assms(3) by (simp_all add: sender_def)
  obtain ctx' where "aead_cipher_ctx_set_key ctx True = Inr ctx'" "keyed lib c s ctx'"
    "keyable lib c ctx'" "salt ctx' = salt ctx"
    using set_key_keyed [OF assms(1) k(1,2), of True] by metis
  with True k show ?thesis
    by (intro that [of "ctx'\<lparr>init := 1\<rparr>"]) (auto simp: aead_encrypt_start_def Let_def keyable_def)
next
  case False
  with assms(3) show ?thesis
    by (intro that [of ctx]) (auto simp: aead_encrypt_start_def sender_def)
qed

text \<open>One call of \<open>aead_encrypt\<close> on at most \<^const>\<open>CHUNK_SIZE_MASK\<close> bytes.\<close>

lemma aead_encrypt_ok:
  assumes "cipher_ok c" "lib_ok lib c" "sender lib c s i ctx" "state_wf lc st" "buf_wf pt"
    and "len pt \<noteq> 0" "len pt \<le> CHUNK_SIZE_MASK"
  obtains pt' ctx' st' where
    "aead_encrypt lc lib pt (Some ctx) cap st = Inr (CRYPTO_OK, pt', Some ctx', st')"
    "buf_wf pt'" "contents pt' = (if init ctx = 0 then s else []) @ chunk_wire lib c s i (contents pt)"
    "sender lib c s (i + 2) ctx'" "init ctx' \<noteq> 0" "state_wf lc st'" "salt ctx' = salt ctx"
    "ppb st' = (if init ctx = 0 then pp_add lc (ppb st) s else ppb st)"
proof -
  let ?ofs = "if init ctx = 0 then key_len c else 0"
  let ?n = "?ofs + 32 + len pt + CHUNK_SIZE_LEN"
  let ?tmp = "brealloc_buf lc (tmps st AEAD_ENCRYPT) ?n cap"
  let ?pre = "if init ctx = 0 then s else []" and ?w = "chunk_wire lib c s i (contents pt)"
  have cs: "cipher ctx = c" "tag_len c = 16" "take (key_len c) (salt ctx) = s"
    using assms(3) cipher_sizes(1) [OF assms(1)] by (auto simp: sender_def)
  have sl: "init ctx = 0 \<Longrightarrow> length s = key_len c"
    using assms(3) cipher_sizes(2) [OF assms(1)]
    by (auto simp: sender_def keyable_def MAX_KEY_LENGTH_def)
  have tmp: "buf_wf ?tmp" "?n \<le> length (data ?tmp)"
    using brealloc_buf_props(1,4) [of "tmps st AEAD_ENCRYPT", where lc = lc and n = ?n and cap = cap] assms(4)
    by (auto simp: state_wf_def buf_wf_def)
  let ?d = "memcpy_at (data ?tmp) 0 ?pre"
  have d: "(if init ctx = 0 then memcpy_at (data ?tmp) 0 s else data ?tmp) = ?d" "?ofs = length ?pre"
    using sl by auto
  have m: "len pt mod 65536 = len pt" "take (len pt) (data pt) = contents pt" "len pt \<le> length (data pt)"
    using assms(5,7) by (auto simp: CHUNK_SIZE_MASK_def contents_def buf_wf_def)
  have wl: "length ?w = len pt + 34"
    using length_chunk_wire [OF assms(1,2), of "contents pt"] assms(5,7) by simp
  obtain ctx1 where st1: "aead_encrypt_start lc ctx (data ?tmp) st =
      Inr (?d, ctx1, if init ctx = 0 then remember lc s st else st)"
      "keyed lib c s ctx1" "nonce ctx1 = nonce_at c i" "init ctx1 \<noteq> 0" "salt ctx1 = salt ctx"
    using encrypt_start_ok [OF assms(1-3), of lc "data ?tmp" st, unfolded d(1)] by blast
  have "?ofs \<le> length ?d" using tmp(2) d(2) by (simp add: length_memcpy_at)
  note ce = chunk_encrypt_ok [OF assms(1,2) st1(2,3) assms(7) m(3) this, unfolded m(2)]
  have app: "memcpy_at ?d ?ofs ?w = memcpy_at (data ?tmp) 0 (?pre @ ?w)"
    unfolding d(2) by (rule memcpy_at_append_0)
  have n: "?n = length (?pre @ ?w)" using wl d(2) by (simp add: CHUNK_SIZE_LEN_def)
  let ?tmp' = "?tmp\<lparr>len := ?n, data := memcpy_at (data ?tmp) 0 (?pre @ ?w)\<rparr>"
  have t: "buf_wf ?tmp'" "contents ?tmp' = ?pre @ ?w"
    using tmp n take_memcpy_at_0 [of "?pre @ ?w" "data ?tmp"]
    by (auto simp: buf_wf_def contents_def length_memcpy_at simp del: take_append length_append)
  have e: "aead_encrypt lc lib pt (Some ctx) cap st =
      Inr (CRYPTO_OK, bstore lc pt (?pre @ ?w) cap, Some (ctx1\<lparr>nonce := nonce_at c (i + 2)\<rparr>),
           set_tmp AEAD_ENCRYPT ?tmp' (if init ctx = 0 then remember lc s st else st))"
    using assms(6) cs st1(1) ce app t(2) m(1)
    by (simp add: aead_encrypt_def Let_def)
  have "cipher ctx1 = c" using st1(2) by (simp add: keyed_def)
  then have "sender lib c s (i + 2) (ctx1\<lparr>nonce := nonce_at c (i + 2)\<rparr>)"
    using st1(2-5) cs by (simp add: sender_def)
  moreover have "state_wf lc (set_tmp AEAD_ENCRYPT ?tmp' (if init ctx = 0 then remember lc s st else st))"
    using assms(4) t(1) by (auto intro: wf_intros)
  ultimately show ?thesis
    using st1(4,5) by (intro that [OF e] bstore_props assms(5)) simp_all
qed

section \<open>The receiver\<close>

abbreviation payload_ok :: "bytes \<Rightarrow> bool" where
  "payload_ok m \<equiv> m \<noteq> [] \<and> length m \<le> CHUNK_SIZE_MASK"

lemma take_data_contents: "n \<le> len b \<Longrightarrow> take n (data b) = take n (contents b)"
  by (simp add: contents_def min_absorb1)

lemma take_prefix_eq:
  assumes "xs @ rest = ys @ zs" "length ys \<le> length xs"
  shows "take (length ys) xs = ys" and "drop (length ys) xs @ rest = zs"
  using assms by (auto simp: append_eq_append_conv2)

lemma chunk_decrypt_wire:
  assumes "cipher_ok c" "lib_ok lib c" "keyed lib c s ctx" "nonce ctx = nonce_at c i" "buf_wf b"
    and wire: "contents b @ rest = chunk_wire lib c s i m @ w" and m: "payload_ok m"
  shows "len b < length m + 34 \<Longrightarrow> \<exists>n. aead_chunk_decrypt lib ctx p ofs b = Inr (CRYPTO_NEED_MORE, p, b, ctx, n)"
    and "length m + 34 \<le> len b \<Longrightarrow> aead_chunk_decrypt lib ctx p ofs b =
      Inr (CRYPTO_OK, memcpy_at p ofs m, bconsume b (length m + 34), ctx\<lparr>nonce := nonce_at c (i + 2)\<rparr>, length m)"
proof -
  let ?c1 = "sealed lib c s i (be16 (length m))" and ?c2 = "sealed lib c s (i + 1) m"
  have cs: "cipher ctx = c" "tag_len c = 16"
    using assms(3) cipher_sizes(1) [OF assms(1)] by (auto simp: keyed_def)
  have m16: "length m \<le> 65535" "length m < 65536" using m by (auto simp: CHUNK_SIZE_MASK_def)
  note s1 = sealed_props [OF assms(1,2), where m = "be16 (length m)" and i = i and s = s, simplified]
  note s2 = sealed_props [OF assms(1,2) m16(1), where i = "i + 1" and s = s]
  have lc: "length (contents b) = len b" using assms(5) by simp
  have w1: "contents b @ rest = ?c1 @ (?c2 @ w)" using wire by (simp add: chunk_wire_def)
  have d1: "aead_cipher_decrypt lib ctx (take 18 (data b)) (nonce_at c i) (skey ctx) = Inr (Some (be16 (length m)))"
    if "34 < len b"
    using take_prefix_eq(1) [OF w1] s1(2,3) that lc take_data_contents [of 18 b]
    by (simp add: cipher_decrypt_keyed [OF assms(1,3)])
  have mlen: "from_be16 (be16 (length m) ! 0) (be16 (length m) ! Suc 0) AND CHUNK_SIZE_MASK = length m"
    using from_be16_be16 [OF m16(2)] and_mask_small m by simp
  show "\<exists>n. aead_chunk_decrypt lib ctx p ofs b = Inr (CRYPTO_NEED_MORE, p, b, ctx, n)"
    if "len b < length m + 34"
    using that cs assms(4) d1 mlen m
    by (cases "len b \<le> 34") (auto simp: aead_chunk_decrypt_def Let_def CHUNK_SIZE_LEN_def)
  show "aead_chunk_decrypt lib ctx p ofs b =
      Inr (CRYPTO_OK, memcpy_at p ofs m, bconsume b (length m + 34), ctx\<lparr>nonce := nonce_at c (i + 2)\<rparr>, length m)"
    if le: "length m + 34 \<le> len b"
  proof -
    have gt: "34 < len b" using le m by (cases m) auto
    have "drop 18 (contents b) @ rest = ?c2 @ w"
      using take_prefix_eq(2) [OF w1] s1(2) gt lc by simp
    then have "take (length m + 16) (drop 18 (contents b)) = ?c2"
      using take_prefix_eq(1) [of "drop 18 (contents b)" rest ?c2 w] s2(2) le lc by simp
    moreover have "take (length m + 16) (drop 18 (data b)) = take (length m + 16) (drop 18 (contents b))"
      using le by (simp add: contents_def drop_take min_absorb1)
    ultimately have d2: "aead_cipher_decrypt lib (ctx\<lparr>nonce := nonce_at c (Suc i)\<rparr>)
        (take (length m + 16) (drop 18 (data b))) (nonce_at c (Suc i)) (skey ctx) = Inr (Some m)"
      using cipher_decrypt_keyed [OF assms(1), of lib s "ctx\<lparr>nonce := nonce_at c (Suc i)\<rparr>"] assms(3) s2(2,3)
      by simp
    show ?thesis
      using le gt cs assms(4) d1 d2 mlen m
      by (simp add: aead_chunk_decrypt_def Let_def CHUNK_SIZE_LEN_def add.commute)
  qed
qed

lemma decrypt_loop_wire:
  assumes "cipher_ok c" "lib_ok lib c" "keyed lib c s ctx" "nonce ctx = nonce_at c i" "buf_wf b"
    and "contents b @ rest = stream_wire lib c s i ms" "\<forall>m \<in> set ms. payload_ok m" "plen \<le> length p"
  shows "\<exists>k b'. k \<le> length ms \<and> aead_decrypt_loop lib ctx b p plen =
       Inr (if k = 0 \<and> plen = 0 \<and> len b \<noteq> 0 then CRYPTO_NEED_MORE else CRYPTO_OK,
            ctx\<lparr>nonce := nonce_at c (i + 2 * k)\<rparr>, b', memcpy_at p plen (concat (take k ms)),
            plen + length (concat (take k ms)))
     \<and> buf_wf b' \<and> contents b' @ rest = stream_wire lib c s (i + 2 * k) (drop k ms)
     \<and> length (concat (take k ms)) + len b' \<le> len b
     \<and> (k < length ms \<longrightarrow> len b' < length (ms ! k) + 34)"
  using assms(3-8)
proof (induction ms arbitrary: ctx i b p plen)
  case Nil
  then have "len b = 0" using length_contents [of b] by simp
  with Nil show ?case by (intro exI [of _ 0] exI [of _ b]) (simp add: aead_decrypt_loop.simps)
next
  case (Cons m ms)
  have m: "payload_ok m" using Cons.prems(5) by simp
  have w: "contents b @ rest = chunk_wire lib c s i m @ stream_wire lib c s (i + 2) ms"
    using Cons.prems(4) by simp
  note step = chunk_decrypt_wire [OF assms(1,2) Cons.prems(1-3) w m, of p plen]
  show ?case
  proof (cases "len b < length m + 34")
    case True
    then obtain n where "aead_chunk_decrypt lib ctx p plen b = Inr (CRYPTO_NEED_MORE, p, b, ctx, n)"
      using step(1) by blast
    with True Cons.prems show ?thesis
      by (intro exI [of _ 0] exI [of _ b]) (simp add: aead_decrypt_loop.simps)
  next
    case False
    let ?b = "bconsume b (length m + 34)" and ?ctx = "ctx\<lparr>nonce := nonce_at c (i + 2)\<rparr>"
    note bc = bconsume_props [OF Cons.prems(3), of "length m + 34"]
    have bw: "buf_wf ?b" "contents ?b = drop (length m + 34) (contents b)" "len ?b = len b - (length m + 34)"
      using False bc by simp_all
    have lw: "length (chunk_wire lib c s i m) = length m + 34"
      using length_chunk_wire [OF assms(1,2)] m by simp
    have cb: "contents ?b @ rest = stream_wire lib c s (i + 2) ms"
      using take_prefix_eq(2) [OF w] False Cons.prems(3) by (simp add: bw(2) lw)
    have pl: "plen + length m \<le> length (memcpy_at p plen m)"
      using Cons.prems(6) by (simp add: memcpy_at_def)
    have lp: "aead_decrypt_loop lib ctx b p plen =
        aead_decrypt_loop lib ?ctx ?b (memcpy_at p plen m) (plen + length m)"
      using step(2) False by (subst aead_decrypt_loop.simps) simp
    have k: "keyed lib c s ?ctx" "nonce ?ctx = nonce_at c (i + 2)" "\<forall>m \<in> set ms. payload_ok m"
      using Cons.prems(1,5) by simp_all
    obtain k b' where IH: "k \<le> length ms"
      "aead_decrypt_loop lib ?ctx ?b (memcpy_at p plen m) (plen + length m) =
       Inr (if k = 0 \<and> plen + length m = 0 \<and> len ?b \<noteq> 0 then CRYPTO_NEED_MORE else CRYPTO_OK,
            ?ctx\<lparr>nonce := nonce_at c (i + 2 + 2 * k)\<rparr>, b',
            memcpy_at (memcpy_at p plen m) (plen + length m) (concat (take k ms)),
            plen + length m + length (concat (take k ms)))"
      "buf_wf b'" "contents b' @ rest = stream_wire lib c s (i + 2 + 2 * k) (drop k ms)"
      "length (concat (take k ms)) + len b' \<le> len ?b"
      "k < length ms \<longrightarrow> len b' < length (ms ! k) + 34"
      using Cons.IH [OF k(1,2) bw(1) cb k(3) pl] by blast
    show ?thesis
      using IH m lp memcpy_at_append [OF Cons.prems(6), of m] False bw(3)
      by (intro exI [of _ "Suc k"] exI [of _ b']) (simp add: add.assoc)
  qed
qed

text \<open>
  A receiver on a connection with salt \<open>s\<close>: \<open>ms\<close> are the payloads not delivered yet and \<open>rest\<close>
  the bytes still on the network.
\<close>

definition pending :: "cipher_ctx \<Rightarrow> bytes" where
  "pending ctx = (case chunk ctx of None \<Rightarrow> [] | Some b \<Rightarrow> contents b)"

definition receiver :: "cryptolib \<Rightarrow> cipher_t \<Rightarrow> bytes \<Rightarrow> cipher_ctx \<Rightarrow> bytes list \<Rightarrow> bytes \<Rightarrow> bool" where
  "receiver lib c s ctx ms rest \<longleftrightarrow> cipher ctx = c \<and> length s = key_len c
     \<and> (\<forall>m \<in> set ms. payload_ok m)
     \<and> (case chunk ctx of None \<Rightarrow> True | Some b \<Rightarrow> buf_wf b)
     \<and> (if init ctx = 0
        then keyable lib c ctx \<and> length (pending ctx) \<le> key_len c
          \<and> pending ctx @ rest = s @ stream_wire lib c s 0 ms
        else init ctx \<in> {1, 2} \<and> keyed lib c s ctx \<and> take (key_len c) (salt ctx) = s
          \<and> (\<exists>i. nonce ctx = nonce_at c i \<and> pending ctx @ rest = stream_wire lib c s i ms)
          \<and> (ms \<noteq> [] \<longrightarrow> length (pending ctx) < length (hd ms) + 34))"

lemma decrypt_start_wire:
  assumes "cipher_ok c" "lib_ok lib c" "receiver lib c s ctx ms (f @ rest)" "buf_wf b"
    and b: "contents b = pending ctx @ f" and new: "init ctx = 0 \<Longrightarrow> key_len c < len b"
    and filter: "init ctx \<noteq> 2 \<Longrightarrow> ppbloom_check (ppb st) s \<noteq> 1"
  obtains ctx' b' i where "aead_decrypt_start ctx b st = Inr (None, ctx', b')"
    "keyed lib c s ctx'" "nonce ctx' = nonce_at c i" "take (key_len c) (salt ctx') = s"
    "init ctx' = (if init ctx = 0 then 1 else init ctx)" "init ctx' \<in> {1, 2}" "buf_wf b'"
    "contents b' @ rest = stream_wire lib c s i ms" "len b' \<le> len b"
proof (cases "init ctx = 0")
  case True
  have r: "keyable lib c ctx" "cipher ctx = c" "length s = key_len c"
      "pending ctx @ f @ rest = s @ stream_wire lib c s 0 ms"
    using assms(3) True by (simp_all add: receiver_def)
  have le: "key_len c \<le> len b" using new [OF True] by simp
  have cb: "contents b @ rest = s @ stream_wire lib c s 0 ms" using r(4) b by simp
  have ts: "take (key_len c) (data b) = s"
    using take_prefix_eq(1) [OF cb] take_data_contents [OF le] r(3) le assms(4) by simp
  let ?ctx = "ctx\<lparr>salt := memcpy_at (salt ctx) 0 s\<rparr>"
  have "key_len c \<le> length (salt ctx)"
    using r(1) cipher_sizes(2) [OF assms(1)] by (auto simp: keyable_def MAX_KEY_LENGTH_def)
  then have "keyable lib c ?ctx" "take (key_len c) (salt ?ctx) = s"
    using r(1,3) take_memcpy_at_0 [of s "salt ctx"] by (auto simp: keyable_def length_memcpy_at)
  from set_key_keyed [OF assms(1) this, where enc = False] obtain ctx' where k: "aead_cipher_ctx_set_key ?ctx False = Inr ctx'"
      "keyed lib c s ctx'" "keyable lib c ctx'" "salt ctx' = salt ?ctx" "init ctx' = init ctx"
    by auto
  have ts': "take (key_len c) (memcpy_at (salt ctx) 0 s) = s"
    using r(3) take_memcpy_at_0 [of s "salt ctx"] by simp
  note bc = bconsume_props [OF assms(4) le]
  show ?thesis
  proof (rule that [of "ctx'\<lparr>init := 1\<rparr>" "bconsume b (key_len c)" 0])
    show "aead_decrypt_start ctx b st = Inr (None, ctx'\<lparr>init := 1\<rparr>, bconsume b (key_len c))"
      using True new r(2) ts ts' k(1,4) filter by (simp add: aead_decrypt_start_def Let_def)
    show "contents (bconsume b (key_len c)) @ rest = stream_wire lib c s 0 ms"
      using bc(2) take_prefix_eq(2) [OF cb] r(3) le assms(4) by simp
  qed (use True k ts' bc in \<open>simp_all add: keyable_def\<close>)
next
  case False
  then obtain i where "nonce ctx = nonce_at c i" "pending ctx @ f @ rest = stream_wire lib c s i ms"
    using assms(3) by (auto simp: receiver_def)
  with False assms(3,4) b show ?thesis
    by (intro that [of ctx b i]) (auto simp: aead_decrypt_start_def receiver_def)
qed

text \<open>
  The second half of \<open>aead_decrypt\<close>: the loop, the second look at the filter and the copy to
  the caller, once the connection has started.
\<close>

lemma decrypt_tail_wire:
  assumes "cipher_ok c" "lib_ok lib c" "cipher ctx = c" "length s = key_len c" "\<forall>m \<in> set ms. payload_ok m"
    and b: "b = bappend lc (case chunk ctx of None \<Rightarrow> snd (balloc lc cap) | Some b \<Rightarrow> b) (contents ct) cap"
    and tmp: "tmp = brealloc_buf lc (tmps st AEAD_DECRYPT) (len b) cap" "buf_wf tmp" "len b \<le> length (data tmp)"
    and st: "aead_decrypt_start ctx b st = Inr (None, ctx1, b1)"
      "keyed lib c s ctx1" "nonce ctx1 = nonce_at c i" "take (key_len c) (salt ctx1) = s" "init ctx1 \<in> {1, 2}"
      "buf_wf b1" "contents b1 @ rest = stream_wire lib c s i ms" "len b1 \<le> len b"
    and wf: "state_wf lc st" "buf_wf ct"
    and filter: "init ctx1 = 1 \<Longrightarrow> ppbloom_check (ppb st) s \<noteq> 1"
  obtains rc ct' ctx' st' k where
    "aead_decrypt lc lib ct ctx cap st = Inr (rc, ct', ctx', st')"
    "rc = CRYPTO_OK \<and> buf_wf ct' \<and> contents ct' = concat (take k ms) \<or> rc = CRYPTO_NEED_MORE \<and> k = 0 \<and> ct' = ct"
    "state_wf lc st'" "receiver lib c s ctx' (drop k ms) rest"
    "init ctx' \<noteq> 2 \<longrightarrow> ppbloom_check (ppb st') s \<noteq> 1"
proof -
  obtain k b2 where lp: "k \<le> length ms" "aead_decrypt_loop lib ctx1 b1 (data tmp) 0 =
     Inr (if k = 0 \<and> len b1 \<noteq> 0 then CRYPTO_NEED_MORE else CRYPTO_OK,
          ctx1\<lparr>nonce := nonce_at c (i + 2 * k)\<rparr>, b2, memcpy_at (data tmp) 0 (concat (take k ms)),
          length (concat (take k ms)))"
    "buf_wf b2" "contents b2 @ rest = stream_wire lib c s (i + 2 * k) (drop k ms)"
    "length (concat (take k ms)) + len b2 \<le> len b1" "k < length ms \<longrightarrow> len b2 < length (ms ! k) + 34"
    using decrypt_loop_wire [OF assms(1,2) st(2,3,6,7) assms(5), of 0 "data tmp"] by auto
  define out where "out = concat (take k ms)"
  let ?ctx2 = "ctx1\<lparr>nonce := nonce_at c (i + 2 * k), chunk := Some b2\<rparr>"
  let ?p = "memcpy_at (data tmp) 0 out"
  have rec: "receiver lib c s (?ctx2\<lparr>init := j\<rparr>) (drop k ms) rest" if "j \<in> {1, 2}" for j
    using that st(2,4) lp(1,3,4,6) assms(4,5) set_drop_subset [of k ms]
    by (auto simp: receiver_def keyed_def pending_def hd_drop_conv_nth)
  have "length ?p = length (data tmp)" "length out \<le> length (data tmp)"
    using lp(5) st(8) tmp(3) by (simp_all add: length_memcpy_at out_def)
  then have wf2: "buf_wf (tmp\<lparr>data := ?p\<rparr>)" "buf_wf (tmp\<lparr>data := ?p, len := length out\<rparr>)"
    using tmp(2) by (auto simp: buf_wf_def)
  show ?thesis
  proof (cases "k = 0 \<and> len b1 \<noteq> 0")
    case True
    then have "aead_decrypt lc lib ct ctx cap st =
        Inr (CRYPTO_NEED_MORE, ct, ?ctx2, set_tmp AEAD_DECRYPT (tmp\<lparr>data := ?p\<rparr>) st)"
      using st(1) lp(2) assms(3) by (simp add: aead_decrypt_def Let_def out_def flip: b tmp(1))
    then show ?thesis
      by (rule that) (use True rec [OF st(5)] wf wf2 filter st(5) in \<open>auto intro: wf_intros\<close>)
  next
    case False
    let ?st = "set_tmp AEAD_DECRYPT (tmp\<lparr>data := ?p, len := length out\<rparr>) st"
    have "aead_decrypt lc lib ct ctx cap st =
        Inr (CRYPTO_OK, bstore lc ct out cap, ?ctx2\<lparr>init := 2\<rparr>, if init ctx1 = 1 then remember lc s ?st else ?st)"
      using st(1,4,5) lp(2) assms(3) False filter take_memcpy_at_0 [of out "data tmp"]
      by (auto simp: aead_decrypt_def Let_def simp flip: b tmp(1) out_def)
    then show ?thesis
      by (rule that [where k = k])
         (use rec [of 2] bstore_props [OF wf(2)] wf(1) wf2(2) in \<open>auto simp: out_def intro: wf_intros\<close>)
  qed
qed

text \<open>One call of \<open>aead_decrypt\<close> on whatever part of the wire arrived.\<close>

lemma aead_decrypt_wire:
  assumes "cipher_ok c" "lib_ok lib c" "receiver lib c s ctx ms (contents ct @ rest)"
    and wf: "state_wf lc st" "buf_wf ct"
    and filter: "init ctx \<noteq> 2 \<Longrightarrow> ppbloom_check (ppb st) s \<noteq> 1"
  obtains rc ct' ctx' st' k where
    "aead_decrypt lc lib ct ctx cap st = Inr (rc, ct', ctx', st')"
    "rc = CRYPTO_OK \<and> buf_wf ct' \<and> contents ct' = concat (take k ms) \<or> rc = CRYPTO_NEED_MORE \<and> k = 0 \<and> ct' = ct"
    "state_wf lc st'" "receiver lib c s ctx' (drop k ms) rest"
    "init ctx' \<noteq> 2 \<longrightarrow> ppbloom_check (ppb st') s \<noteq> 1"
proof -
  let ?old = "case chunk ctx of None \<Rightarrow> snd (balloc lc cap) | Some b \<Rightarrow> b"
  define b where "b = bappend lc ?old (contents ct) cap"
  define tmp where "tmp = brealloc_buf lc (tmps st AEAD_DECRYPT) (len b) cap"
  have old: "buf_wf ?old" "contents ?old = pending ctx"
    using assms(3) balloc_wf [of lc cap] by (auto simp: receiver_def pending_def split: option.splits)
  have b: "buf_wf b" "contents b = pending ctx @ contents ct"
    using bappend_props [OF old(1)] old(2) by (simp_all add: b_def)
  have r: "cipher ctx = c" "length s = key_len c" "\<forall>m \<in> set ms. payload_ok m"
    using assms(3) by (simp_all add: receiver_def)
  have tmp: "buf_wf tmp" "len b \<le> length (data tmp)"
    using brealloc_buf_props(1,4) [of "tmps st AEAD_DECRYPT", where lc = lc and n = "len b" and cap = cap] wf(1)
    by (auto simp: state_wf_def buf_wf_def tmp_def)
  show ?thesis
  proof (cases "init ctx = 0 \<and> len b \<le> key_len c")
    case True
    then have e: "aead_decrypt lc lib ct ctx cap st =
        Inr (CRYPTO_NEED_MORE, ct, ctx\<lparr>chunk := Some b\<rparr>, set_tmp AEAD_DECRYPT tmp st)"
      using r(1) by (simp add: aead_decrypt_def aead_decrypt_start_def Let_def flip: b_def tmp_def)
    have "length (contents b) \<le> key_len c" using True b(1) by simp
    then have "receiver lib c s (ctx\<lparr>chunk := Some b\<rparr>) (drop 0 ms) rest"
      using True assms(3) b by (simp add: receiver_def keyable_def pending_def)
    then show ?thesis
      using tmp(1) wf(1) filter True by (intro that [OF e, of 0]) (auto intro: wf_intros)
  next
    case False
    then have new: "init ctx = 0 \<Longrightarrow> key_len c < len b" by auto
    obtain ctx1 b1 i where st: "aead_decrypt_start ctx b st = Inr (None, ctx1, b1)"
      "keyed lib c s ctx1" "nonce ctx1 = nonce_at c i" "take (key_len c) (salt ctx1) = s" "init ctx1 \<in> {1, 2}"
      "buf_wf b1" "contents b1 @ rest = stream_wire lib c s i ms" "len b1 \<le> len b"
      "init ctx1 = (if init ctx = 0 then 1 else init ctx)"
      by (rule decrypt_start_wire [OF assms(1-3) b new filter])
    have "ppbloom_check (ppb st) s \<noteq> 1" if "init ctx1 = 1"
      using that by (intro filter) (simp add: st(9) split: if_splits)
    note tail = decrypt_tail_wire [OF assms(1,2) r b_def tmp_def tmp st(1-8) wf this]
    show ?thesis
      by (rule tail, assumption) (rule that; assumption)
  qed
qed

section \<open>Whole connections\<close>

text \<open>
  The buffer a caller fills from a socket or from the application, and the two directions of
  a connection: a sequence of payloads through \<open>aead_encrypt\<close>, a sequence of network reads
  through \<open>aead_decrypt\<close> (a call that needs more input delivers nothing).
\<close>

definition filled :: "libc \<Rightarrow> nat \<Rightarrow> bytes \<Rightarrow> buffer" where
  "filled lc cap bs = bstore lc (snd (balloc lc cap)) bs cap"

fun encrypt_stream ::
  "libc \<Rightarrow> cryptolib \<Rightarrow> nat \<Rightarrow> cipher_ctx \<Rightarrow> crypto_state \<Rightarrow> bytes list
     \<Rightarrow> fault + crypto_rc \<times> bytes \<times> cipher_ctx \<times> crypto_state" where
  "encrypt_stream lc lib cap ctx st [] = Inr (CRYPTO_OK, [], ctx, st)"
| "encrypt_stream lc lib cap ctx st (m # ms) =
     (case aead_encrypt lc lib (filled lc cap m) (Some ctx) cap st of
        Inl f \<Rightarrow> Inl f
      | Inr (CRYPTO_OK, b, Some ctx', st') \<Rightarrow>
          (case encrypt_stream lc lib cap ctx' st' ms of
             Inl f \<Rightarrow> Inl f
           | Inr (rc, w, r) \<Rightarrow> Inr (rc, contents b @ w, r))
      | Inr (rc, b, _, st') \<Rightarrow> Inr (rc, [], ctx, st'))"

fun decrypt_stream ::
  "libc \<Rightarrow> cryptolib \<Rightarrow> nat \<Rightarrow> cipher_ctx \<Rightarrow> crypto_state \<Rightarrow> bytes list
     \<Rightarrow> fault + crypto_rc \<times> bytes \<times> cipher_ctx \<times> crypto_state" where
  "decrypt_stream lc lib cap ctx st [] = Inr (CRYPTO_OK, [], ctx, st)"
| "decrypt_stream lc lib cap ctx st (f # fs) =
     (case aead_decrypt lc lib (filled lc cap f) ctx cap st of
        Inl e \<Rightarrow> Inl e
      | Inr (CRYPTO_ERROR, b, ctx', st') \<Rightarrow> Inr (CRYPTO_ERROR, [], ctx', st')
      | Inr (rc, b, ctx', st') \<Rightarrow>
          (case decrypt_stream lc lib cap ctx' st' fs of
             Inl e \<Rightarrow> Inl e
           | Inr (rc', out, r) \<Rightarrow> Inr (rc', (if rc = CRYPTO_OK then contents b else []) @ out, r)))"

lemma filled_props: "buf_wf (filled lc cap bs)" "contents (filled lc cap bs) = bs" "len (filled lc cap bs) = length bs"
  using bstore_props [OF balloc_wf] by (simp_all add: filled_def)

lemma encrypt_stream_wire:
  assumes "cipher_ok c" "lib_ok lib c" "sender lib c s i ctx" "state_wf lc st" "\<forall>m \<in> set ms. payload_ok m"
  shows "\<exists>ctx' st'. encrypt_stream lc lib cap ctx st ms =
     Inr (CRYPTO_OK, (if init ctx = 0 \<and> ms \<noteq> [] then s else []) @ stream_wire lib c s i ms, ctx', st')
     \<and> state_wf lc st'"
  using assms(3-5)
proof (induction ms arbitrary: ctx st i)
  case (Cons m ms)
  let ?pt = "filled lc cap m"
  have pt: "buf_wf ?pt" "len ?pt \<noteq> 0" "len ?pt \<le> CHUNK_SIZE_MASK" "contents ?pt = m"
    using Cons.prems(3) filled_props [of lc cap m] by simp_all
  obtain pt' ctx' st' where e: "aead_encrypt lc lib ?pt (Some ctx) cap st = Inr (CRYPTO_OK, pt', Some ctx', st')"
    "contents pt' = (if init ctx = 0 then s else []) @ chunk_wire lib c s i m"
    "sender lib c s (i + 2) ctx'" "init ctx' \<noteq> 0" "state_wf lc st'"
    using aead_encrypt_ok [OF assms(1,2) Cons.prems(1,2) pt(1-3), of cap] pt(4) by metis
  from Cons.IH [OF e(3,5)] Cons.prems(3) e(4) obtain ctx'' st'' where
    "encrypt_stream lc lib cap ctx' st' ms = Inr (CRYPTO_OK, stream_wire lib c s (i + 2) ms, ctx'', st'')"
    "state_wf lc st''" by auto
  with e show ?case by simp
qed simp

lemma receiver_done:
  assumes "cipher_ok c" "lib_ok lib c" "receiver lib c s ctx ms []"
  shows "ms = []"
proof (rule ccontr)
  assume "ms \<noteq> []"
  then obtain m ms' where ms: "ms = m # ms'" by (cases ms) auto
  have long: "length (stream_wire lib c s i ms) \<ge> length m + 34" for i
    using assms(3) ms length_chunk_wire [OF assms(1,2), of m s i] by (simp add: receiver_def)
  show False
  proof (cases "init ctx = 0")
    case True
    then have "length (s @ stream_wire lib c s 0 ms) \<le> length s"
      using assms(3) unfolding receiver_def by (metis append_Nil2)
    with long [of 0] show False by simp
  next
    case False
    then obtain i where "pending ctx = stream_wire lib c s i ms" "length (pending ctx) < length m + 34"
      using assms(3) ms unfolding receiver_def by auto
    with long [of i] show False by simp
  qed
qed

lemma decrypt_stream_wire:
  assumes "cipher_ok c" "lib_ok lib c"
    and "receiver lib c s ctx ms (concat fs)" "state_wf lc st"
    and "init ctx \<noteq> 2 \<Longrightarrow> ppbloom_check (ppb st) s \<noteq> 1"
  shows "\<exists>ctx' st'. decrypt_stream lc lib cap ctx st fs = Inr (CRYPTO_OK, concat ms, ctx', st') \<and> state_wf lc st'"
  using assms(3-5)
proof (induction fs arbitrary: ctx st ms)
  case Nil
  then have "ms = []" using receiver_done [OF assms(1,2)] by simp
  with Nil show ?case by simp
next
  case (Cons f fs)
  let ?ct = "filled lc cap f"
  have r: "receiver lib c s ctx ms (contents ?ct @ concat fs)" "buf_wf ?ct"
    using Cons.prems(1) filled_props by simp_all
  obtain rc ct' ctx' st' k where d:
    "aead_decrypt lc lib ?ct ctx cap st = Inr (rc, ct', ctx', st')"
    "rc = CRYPTO_OK \<and> buf_wf ct' \<and> contents ct' = concat (take k ms) \<or> rc = CRYPTO_NEED_MORE \<and> k = 0 \<and> ct' = ?ct"
    "state_wf lc st'" "receiver lib c s ctx' (drop k ms) (concat fs)"
    "init ctx' \<noteq> 2 \<longrightarrow> ppbloom_check (ppb st') s \<noteq> 1"
    using aead_decrypt_wire [OF assms(1,2) r(1) Cons.prems(2) r(2) Cons.prems(3)] by metis
  obtain ctx'' st'' where "decrypt_stream lc lib cap ctx' st' fs = Inr (CRYPTO_OK, concat (drop k ms), ctx'', st'')"
    "state_wf lc st''"
    using Cons.IH [OF d(4,3)] d(5) by blast
  moreover have "concat (take k ms) @ concat (drop k ms) = concat ms"
    by (metis append_take_drop_id concat_append)
  ultimately show ?case using d(1,2) by auto
qed

section \<open>Arbitrary input\<close>

text \<open>
  A receiver's context between calls, whatever was received: every array has its size and the
  keys are in place once the connection has started.
\<close>

definition conn_wf :: "cryptolib \<Rightarrow> cipher_t \<Rightarrow> cipher_ctx \<Rightarrow> bool" where
  "conn_wf lib c ctx \<longleftrightarrow> cipher ctx = c \<and> length (salt ctx) = MAX_KEY_LENGTH
     \<and> (case chunk ctx of None \<Rightarrow> True | Some b \<Rightarrow> buf_wf b)
     \<and> (if init ctx = 0 then keyable lib c ctx else \<exists>s. keyed lib c s ctx)"

lemma keyable_salt_update [simp]:
  "length s = MAX_KEY_LENGTH \<Longrightarrow> keyable lib c ctx \<Longrightarrow> keyable lib c (ctx\<lparr>salt := s\<rparr>)"
  by (simp add: keyable_def)

text \<open>A chunk of arbitrary bytes: no failed assertion, and the payload stays inside the array.\<close>

lemma chunk_decrypt_safe:
  assumes "cipher_ok c" "lib_ok lib c" "keyed lib c s ctx" "buf_wf b" "ofs + len b \<le> length p"
  obtains rc p' b' n plen where
    "aead_chunk_decrypt lib ctx p ofs b = Inr (rc, p', b', ctx\<lparr>nonce := n\<rparr>, plen)"
    "length p' = length p" "buf_wf b'" "rc = CRYPTO_OK \<Longrightarrow> ofs + plen + len b' \<le> length p'"
    "rc = CRYPTO_OK \<Longrightarrow> plen + len b' \<le> len b"
proof -
  have cs: "cipher ctx = c" "tag_len c = 16" and self: "ctx\<lparr>nonce := nonce ctx\<rparr> = ctx"
    using assms(3) cipher_sizes(1) [OF assms(1)] by (auto simp: keyed_def)
  have bw: "len b \<le> length (data b)" using assms(4) by (simp add: buf_wf_def)
  show ?thesis
  proof (cases "len b \<le> 34")
    case True
    then have "aead_chunk_decrypt lib ctx p ofs b = Inr (CRYPTO_NEED_MORE, p, b, ctx\<lparr>nonce := nonce ctx\<rparr>, 0)"
      by (simp add: aead_chunk_decrypt_def Let_def cs CHUNK_SIZE_LEN_def)
    then show ?thesis by (rule that) (use assms(4) in simp_all)
  next
    case long: False
    define o1 where "o1 = aead_open lib c (nonce ctx) (subkey c s) (take 18 (data b))"
    have d1: "aead_cipher_decrypt lib ctx (take 18 (data b)) (nonce ctx) (skey ctx) = Inr o1"
      using cipher_decrypt_keyed [OF assms(1,3), of "take 18 (data b)"] long bw by (simp add: o1_def)
    show ?thesis
    proof (cases o1)
      case None
      then have "aead_chunk_decrypt lib ctx p ofs b = Inr (CRYPTO_ERROR, p, b, ctx\<lparr>nonce := nonce ctx\<rparr>, 0)"
        using long d1 by (simp add: aead_chunk_decrypt_def Let_def cs CHUNK_SIZE_LEN_def)
      then show ?thesis by (rule that) (use assms(4) in simp_all)
    next
      case (Some lb)
      have lb: "length lb = 2"
        using open_length [OF assms(2), of "nonce ctx" "subkey c s" "take 18 (data b)" lb] Some long bw
        by (simp add: o1_def)
      define k where "k = from_be16 (lb ! 0) (lb ! 1) AND CHUNK_SIZE_MASK"
      define n1 where "n1 = sodium_increment (nonce ctx) (nonce_len c)"
      define o2 where "o2 = aead_open lib c n1 (subkey c s) (take (k + 16) (drop 18 (data b)))"
      have d2: "aead_cipher_decrypt lib (ctx\<lparr>nonce := n1\<rparr>) (take (k + 16) (drop 18 (data b))) n1 (skey ctx) = Inr o2"
        using cipher_decrypt_keyed [OF assms(1), of lib s "ctx\<lparr>nonce := n1\<rparr>" "take (k + 16) (drop 18 (data b))"] assms(3) long bw
        by (simp add: o2_def)
      have step: "aead_chunk_decrypt lib ctx p ofs b =
          (if k = 0 then Inr (CRYPTO_ERROR, p, b, ctx\<lparr>nonce := nonce ctx\<rparr>, 2)
           else if len b < 34 + k then Inr (CRYPTO_NEED_MORE, p, b, ctx\<lparr>nonce := nonce ctx\<rparr>, 2)
           else case o2 of
               None \<Rightarrow> Inr (CRYPTO_ERROR, p, b, ctx\<lparr>nonce := n1\<rparr>, 2)
             | Some m \<Rightarrow> if length m \<noteq> k then Inl ASSERT
                 else Inr (CRYPTO_OK, memcpy_at p ofs m, bconsume b (34 + k),
                           ctx\<lparr>nonce := sodium_increment n1 (nonce_len c)\<rparr>, k))"
        using long d1 d2 Some lb
        by (simp add: aead_chunk_decrypt_def Let_def cs CHUNK_SIZE_LEN_def n1_def k_def split: option.splits)
      have m: "length m = k" if "o2 = Some m" "34 + k \<le> len b" for m
        using open_length [OF assms(2), of n1 "subkey c s" "take (k + 16) (drop 18 (data b))" m] that bw
        by (simp add: o2_def min_def split: if_splits)
      show ?thesis
      proof (cases "k = 0 \<or> len b < 34 + k \<or> o2 = None")
        case True
        define rc where "rc = (if k = 0 then CRYPTO_ERROR else if len b < 34 + k then CRYPTO_NEED_MORE else CRYPTO_ERROR)"
        define n where "n = (if k = 0 \<or> len b < 34 + k then nonce ctx else n1)"
        have e: "aead_chunk_decrypt lib ctx p ofs b = Inr (rc, p, b, ctx\<lparr>nonce := n\<rparr>, 2)"
          using True step by (cases o2) (auto simp: rc_def n_def)
        have "rc \<noteq> CRYPTO_OK" by (simp add: rc_def)
        then show ?thesis using assms(4) by (intro that [OF e]) simp_all
      next
        case False
        then obtain mm where mm: "o2 = Some mm" "length mm = k" using m by auto
        have bc: "buf_wf (bconsume b (34 + k))" "len (bconsume b (34 + k)) = len b - (34 + k)"
          using bconsume_props [OF assms(4)] False by simp_all
        have e: "aead_chunk_decrypt lib ctx p ofs b = Inr (CRYPTO_OK, memcpy_at p ofs mm, bconsume b (34 + k),
            ctx\<lparr>nonce := sodium_increment n1 (nonce_len c)\<rparr>, k)"
          using step False mm by simp
        show ?thesis
          by (rule that [OF e]) (use assms(5) mm bc False in \<open>simp_all add: length_memcpy_at\<close>)
      qed
    qed
  qed
qed

lemma decrypt_loop_safe:
  assumes "cipher_ok c" "lib_ok lib c" "keyed lib c s ctx" "buf_wf b" "plen + len b \<le> length p"
  shows "\<exists>rc n b' p' plen'. aead_decrypt_loop lib ctx b p plen = Inr (rc, ctx\<lparr>nonce := n\<rparr>, b', p', plen')
     \<and> buf_wf b' \<and> length p' = length p \<and> plen' \<le> length p"
  using assms(3-5)
proof (induction "len b" arbitrary: ctx b p plen rule: less_induct)
  case less
  obtain rc p' b' n k where ch:
    "aead_chunk_decrypt lib ctx p plen b = Inr (rc, p', b', ctx\<lparr>nonce := n\<rparr>, k)"
    "length p' = length p" "buf_wf b'" "rc = CRYPTO_OK \<Longrightarrow> plen + k + len b' \<le> length p'"
    using chunk_decrypt_safe [OF assms(1,2) less.prems] by metis
  show ?case
  proof (cases "len b = 0")
    case True
    have "ctx\<lparr>nonce := nonce ctx\<rparr> = ctx" by simp
    with True less.prems show ?thesis
      by (intro exI [of _ CRYPTO_OK] exI [of _ "nonce ctx"]) (simp add: aead_decrypt_loop.simps)
  next
    case False
    show ?thesis
    proof (cases "rc = CRYPTO_OK")
      case True
      then have "aead_decrypt_loop lib ctx b p plen = aead_decrypt_loop lib (ctx\<lparr>nonce := n\<rparr>) b' p' (plen + k)"
        using False ch(1) by (subst aead_decrypt_loop.simps) simp
      moreover have "len b' < len b"
        using ch(1) True aead_chunk_decrypt_consumes by blast
      then have "\<exists>rc n' b'' p'' plen'. aead_decrypt_loop lib (ctx\<lparr>nonce := n\<rparr>) b' p' (plen + k) =
          Inr (rc, ctx\<lparr>nonce := n, nonce := n'\<rparr>, b'', p'', plen') \<and> buf_wf b'' \<and> length p'' = length p' \<and> plen' \<le> length p'"
        using less.prems(1) ch(3) ch(4) [OF True] by (intro less.hyps) auto
      then obtain rc' n' b'' p'' plen' where "aead_decrypt_loop lib (ctx\<lparr>nonce := n\<rparr>) b' p' (plen + k) =
          Inr (rc', ctx\<lparr>nonce := n, nonce := n'\<rparr>, b'', p'', plen')" "buf_wf b''" "length p'' = length p'" "plen' \<le> length p'"
        by (elim exE conjE) (rule that)
      ultimately show ?thesis
        unfolding ch(2) by (intro exI [of _ rc'] exI [of _ n'] exI [of _ b''] exI [of _ p''] exI [of _ plen']) simp
    next
      case f: False
      let ?rc = "if rc = CRYPTO_NEED_MORE \<and> plen \<noteq> 0 then CRYPTO_OK else rc"
      have "aead_decrypt_loop lib ctx b p plen = Inr (?rc, ctx\<lparr>nonce := n\<rparr>, b', p', plen)"
        using f False ch(1) by (subst aead_decrypt_loop.simps) (cases rc; simp)
      with ch(2,3) less.prems(3) show ?thesis
        by (intro exI [of _ ?rc] exI [of _ n] exI [of _ b'] exI [of _ p'] exI [of _ plen]) simp
    qed
  qed
qed

lemma decrypt_start_safe:
  assumes "cipher_ok c" "lib_ok lib c" "conn_wf lib c ctx" "buf_wf b"
  obtains r ctx' b' where "aead_decrypt_start ctx b st = Inr (r, ctx', b')" "buf_wf b'" "len b' \<le> len b"
    "cipher ctx' = c" "length (salt ctx') = MAX_KEY_LENGTH"
    "if init ctx' = 0 then keyable lib c ctx' else \<exists>s. keyed lib c s ctx'" "r = None \<longrightarrow> init ctx' \<noteq> 0"
proof -
  have cw: "cipher ctx = c" "length (salt ctx) = MAX_KEY_LENGTH"
      "if init ctx = 0 then keyable lib c ctx else \<exists>s. keyed lib c s ctx"
    using assms(3) by (simp_all add: conn_wf_def)
  show ?thesis
  proof (cases "init ctx = 0 \<and> key_len c < len b")
    case True
    let ?s = "take (key_len c) (data b)"
    let ?ctx = "ctx\<lparr>salt := memcpy_at (salt ctx) 0 ?s\<rparr>"
    have sl: "length (memcpy_at (salt ctx) 0 ?s) = MAX_KEY_LENGTH"
      using cw(2) cipher_sizes(2) [OF assms(1)] by (intro trans [OF length_memcpy_at]) (auto simp: MAX_KEY_LENGTH_def)
    then have "keyable lib c ?ctx" using cw(3) True by simp
    then obtain ctx' where k0: "aead_cipher_ctx_set_key ?ctx False = Inr ctx'"
        "keyed lib c (take (key_len c) (salt ?ctx)) ctx'" "keyable lib c ctx'" "salt ctx' = salt ?ctx"
        "init ctx' = init ?ctx" "chunk ctx' = chunk ?ctx"
      by (rule set_key_keyed [OF assms(1) _ refl])
    then have k: "aead_cipher_ctx_set_key ?ctx False = Inr ctx'" "\<exists>s. keyed lib c s ctx'" "keyable lib c ctx'"
        "salt ctx' = salt ?ctx" "init ctx' = init ctx" by auto
    have bc: "buf_wf (bconsume b (key_len c))" "len (bconsume b (key_len c)) = len b - key_len c"
      using bconsume_props [OF assms(4)] True by simp_all
    have cc: "cipher ctx' = c" "length (salt ctx') = MAX_KEY_LENGTH" using k sl by (auto simp: keyed_def)
    show ?thesis
    proof (cases "ppbloom_check (ppb st) (take (key_len c) (salt ctx')) = 1")
      case f: True
      then have "aead_decrypt_start ctx b st = Inr (Some CRYPTO_ERROR, ctx', b)"
        using True cw(1) k(1,4) by (simp add: aead_decrypt_start_def Let_def)
      then show ?thesis by (rule that) (use True k cc assms(4) in auto)
    next
      case f: False
      then have "aead_decrypt_start ctx b st = Inr (None, ctx'\<lparr>init := 1\<rparr>, bconsume b (key_len c))"
        using True cw(1) k(1,4) by (simp add: aead_decrypt_start_def Let_def)
      then show ?thesis by (rule that) (use k cc bc in auto)
    qed
  next
    case False
    then show ?thesis
      using cw assms(4)
      by (intro that [of "if init ctx = 0 then Some CRYPTO_NEED_MORE else None" ctx b])
         (auto simp: aead_decrypt_start_def Let_def)
  qed
qed

lemma aead_decrypt_safe:
  assumes "cipher_ok c" "lib_ok lib c" "conn_wf lib c ctx" "state_wf lc st" "buf_wf ct"
  obtains rc ct' ctx' st' where "aead_decrypt lc lib ct ctx cap st = Inr (rc, ct', ctx', st')"
    "conn_wf lib c ctx'" "state_wf lc st'" "buf_wf ct'" "rc \<noteq> CRYPTO_OK \<longrightarrow> ct' = ct"
proof -
  let ?old = "case chunk ctx of None \<Rightarrow> snd (balloc lc cap) | Some b \<Rightarrow> b"
  define b where "b = bappend lc ?old (contents ct) cap"
  define tmp where "tmp = brealloc_buf lc (tmps st AEAD_DECRYPT) (len b) cap"
  have "buf_wf ?old"
    using assms(3) balloc_wf [of lc cap] by (auto simp: conn_wf_def split: option.splits)
  then have b: "buf_wf b" using bappend_props(1) by (simp add: b_def)
  have cc: "cipher ctx = c" using assms(3) by (simp add: conn_wf_def)
  have tmp: "buf_wf tmp" "len b \<le> length (data tmp)"
    using brealloc_buf_props(1,4) [of "tmps st AEAD_DECRYPT", where lc = lc and n = "len b" and cap = cap] assms(4)
    by (auto simp: state_wf_def buf_wf_def tmp_def)
  obtain r ctx1 b1 where s: "aead_decrypt_start ctx b st = Inr (r, ctx1, b1)" "buf_wf b1" "len b1 \<le> len b"
    "cipher ctx1 = c" "length (salt ctx1) = MAX_KEY_LENGTH"
    "if init ctx1 = 0 then keyable lib c ctx1 else \<exists>s. keyed lib c s ctx1" "r = None \<longrightarrow> init ctx1 \<noteq> 0"
    using decrypt_start_safe [OF assms(1-3) b, of st] by metis
  show ?thesis
  proof (cases r)
    case (Some err)
    then have e: "aead_decrypt lc lib ct ctx cap st =
        Inr (err, if err = CRYPTO_OK then ct else ct, ctx1\<lparr>chunk := Some b1\<rparr>, set_tmp AEAD_DECRYPT tmp st)"
      using s(1) by (simp add: aead_decrypt_def Let_def flip: b_def tmp_def)
    show ?thesis
      by (rule that [OF e]) (use s tmp assms(4,5) in \<open>auto simp: conn_wf_def keyable_def intro: wf_intros\<close>)
  next
    case None
    then obtain sa where k: "keyed lib c sa ctx1" "init ctx1 \<noteq> 0" using s(6,7) by auto
    have "0 + len b1 \<le> length (data tmp)" using s(3) tmp(2) by simp
    from decrypt_loop_safe [OF assms(1,2) k(1) s(2) this] obtain rc n b2 p plen where
      lp: "aead_decrypt_loop lib ctx1 b1 (data tmp) 0 = Inr (rc, ctx1\<lparr>nonce := n\<rparr>, b2, p, plen)"
        "buf_wf b2" "length p = length (data tmp)" "plen \<le> length (data tmp)" by blast
    have wf2: "buf_wf (tmp\<lparr>data := p\<rparr>)" "buf_wf (tmp\<lparr>data := p, len := plen\<rparr>)"
      using tmp(1) lp(3,4) by (auto simp: buf_wf_def)
    have cw: "conn_wf lib c (ctx1\<lparr>nonce := n, chunk := Some b2\<rparr>)"
        "conn_wf lib c (ctx1\<lparr>nonce := n, chunk := Some b2, init := 2\<rparr>)"
      using s(4,5) k lp(2) by (auto simp: conn_wf_def)
    show ?thesis
      using s(1) lp(1) None cc wf2 cw assms(4) bstore_props(1) [OF assms(5)] assms(5)
      by (intro that [of "fst (projr (aead_decrypt lc lib ct ctx cap st))"
            "fst (snd (projr (aead_decrypt lc lib ct ctx cap st)))"
            "fst (snd (snd (projr (aead_decrypt lc lib ct ctx cap st))))"
            "snd (snd (snd (projr (aead_decrypt lc lib ct ctx cap st))))"])
         (simp_all add: aead_decrypt_def Let_def wf_intros flip: b_def tmp_def)
  qed
qed

end
