(* ===== verification/SS_AeadUdp.thy ===== *)
theory SS_AeadUdp
  imports SS_AeadSession
begin

text \<open>
  UDP packets of \<^verbatim>\<open>src/aead.c\<close>: what \<open>aead_encrypt_all\<close> produces, that \<open>aead_decrypt_all\<close>
  recovers it, that it refuses short and replayed packets, and that no packet makes it leave
  its arrays or abort.
\<close>

definition packet_wire :: "cryptolib \<Rightarrow> cipher_t \<Rightarrow> bytes \<Rightarrow> bytes \<Rightarrow> bytes" where
  "packet_wire lib c s m = s @ sealed lib c s 0 m"

lemma keyed_nonce0: "keyable lib c ctx \<Longrightarrow> nonce ctx = nonce_at c 0"
  by (simp add: keyable_def)

lemma encrypt_all_ok:
  assumes "cipher_ok c" "lib_ok lib c" "state_wf lc st" "buf_wf pt" "len pt \<le> 65535"
  defines "s \<equiv> fst (rand_bytes lc st (key_len c))"
  obtains pt' st' where "aead_encrypt_all lc lib pt c cap st = Inr (CRYPTO_OK, pt', st')"
    "buf_wf pt'" "contents pt' = packet_wire lib c s (contents pt)" "state_wf lc st'"
    "ppb st' = pp_add lc (ppb st) s"
proof -
  obtain ctx where i: "aead_ctx_init lc lib c True st = Inr (ctx, snd (rand_bytes lc st (key_len c)))"
    "keyable lib c ctx" "take (key_len c) (salt ctx) = s"
    using ctx_init_keyable [OF assms(1), of lc lib True st] s_def by auto
  obtain ctx' where k: "aead_cipher_ctx_set_key ctx True = Inr ctx'" "keyed lib c s ctx'" "keyable lib c ctx'"
    using set_key_keyed [OF assms(1) i(2,3), of True] by metis
  have sl: "length s = key_len c" "tag_len c = 16" using cipher_sizes(1) [OF assms(1)] by (simp_all add: s_def)
  define ct where "ct = sealed lib c s 0 (contents pt)"
  have m: "length (contents pt) \<le> 65535" "length (contents pt) = len pt" using assms(4,5) by simp_all
  have e: "aead_cipher_encrypt lib ctx' (contents pt) (nonce ctx') (skey ctx') = Inr (Some ct)"
    unfolding keyed_nonce0 [OF k(3)] ct_def
    by (rule cipher_encrypt_keyed [OF assms(1) k(2) sealed_props(1) [OF assms(1,2) m(1)]])
  have cl: "length ct = len pt + 16" using sealed_props(2) [OF assms(1,2) m(1)] m(2) by (simp add: ct_def)
  let ?st = "snd (rand_bytes lc st (key_len c))"
  define tmp where "tmp = brealloc_buf lc (tmps st AEAD_ENCRYPT_ALL) (key_len c + 16 + len pt) cap"
  have tmp: "buf_wf tmp" "key_len c + 16 + len pt \<le> length (data tmp)"
    using brealloc_buf_props(1,4) [of "tmps st AEAD_ENCRYPT_ALL", where lc = lc
        and n = "key_len c + 16 + len pt" and cap = cap] assms(3)
    by (auto simp: state_wf_def buf_wf_def tmp_def)
  let ?d = "memcpy_at (data tmp) 0 (s @ ct)"
  have d: "memcpy_at (memcpy_at (data tmp) 0 s) (key_len c) ct = ?d"
      "take (key_len c + (16 + len pt)) ?d = s @ ct" "length ?d = length (data tmp)"
    using memcpy_at_append_0 [of "data tmp" s ct] take_memcpy_at_0 [of "s @ ct" "data tmp"] sl(1) cl tmp(2)
    by (simp_all add: length_memcpy_at add.commute)
  let ?tmp = "tmp\<lparr>len := 16 + len pt, data := ?d\<rparr>"
  have res: "aead_encrypt_all lc lib pt c cap st =
      Inr (CRYPTO_OK, bstore lc pt (s @ ct) cap, set_tmp AEAD_ENCRYPT_ALL ?tmp (remember lc s ?st))"
    using i k(1) e cl sl d by (simp add: aead_encrypt_all_def Let_def flip: tmp_def)
  have wf: "buf_wf ?tmp" using tmp d(3) cl by (simp add: buf_wf_def)
  show ?thesis
    by (rule that [OF res])
       (use wf assms(3) bstore_props [OF assms(4)] in \<open>auto simp: packet_wire_def ct_def intro: wf_intros\<close>)
qed

text \<open>The three ways \<open>aead_decrypt_all\<close> ends on any packet.\<close>

lemma decrypt_all_cases:
  assumes "cipher_ok c" "lib_ok lib c" "state_wf lc st" "buf_wf ct"
  defines "s \<equiv> take (key_len c) (contents ct)"
  obtains (short) "len ct \<le> key_len c + 16" "aead_decrypt_all lc lib ct c cap st = Inr (CRYPTO_ERROR, ct, st)"
  | (refused) st' where "key_len c + 16 < len ct"
      "ppbloom_check (ppb st) s = 1 \<or>
       aead_open lib c (nonce_at c 0) (subkey c s) (drop (key_len c) (contents ct)) = None"
      "aead_decrypt_all lc lib ct c cap st = Inr (CRYPTO_ERROR, ct, st')" "state_wf lc st'" "ppb st' = ppb st"
  | (opened) m ct' st' where "key_len c + 16 < len ct" "ppbloom_check (ppb st) s \<noteq> 1"
      "aead_open lib c (nonce_at c 0) (subkey c s) (drop (key_len c) (contents ct)) = Some m"
      "aead_decrypt_all lc lib ct c cap st = Inr (CRYPTO_OK, ct', st')" "contents ct' = m" "buf_wf ct'"
      "state_wf lc st'" "ppb st' = pp_add lc (ppb st) s"
proof (cases "len ct \<le> key_len c + 16")
  case True
  then show ?thesis
    using cipher_sizes(1) [OF assms(1)] by (intro short) (simp_all add: aead_decrypt_all_def Let_def)
next
  case long: False
  obtain ctx where i: "aead_ctx_init lc lib c False st = Inr (ctx, st)" "keyable lib c ctx"
    using ctx_init_keyable [OF assms(1), of lc lib False st] by auto
  have tl: "tag_len c = 16" using cipher_sizes(1) [OF assms(1)] .
  have s: "take (key_len c) (data ct) = s" "length s = key_len c"
    using long assms(4) take_data_contents [of "key_len c" ct] by (simp_all add: s_def)
  let ?ctx = "ctx\<lparr>salt := memcpy_at (salt ctx) 0 s\<rparr>"
  have ts: "take (key_len c) (salt ?ctx) = s" using take_memcpy_at_0 [of s "salt ctx"] s(2) by simp
  have "length (salt ?ctx) = MAX_KEY_LENGTH"
    using i(2) s(2) cipher_sizes(2) [OF assms(1)] by (auto simp: keyable_def length_memcpy_at MAX_KEY_LENGTH_def)
  then have "keyable lib c ?ctx" using i(2) by simp
  from set_key_keyed [OF assms(1) this ts, of False] obtain ctx' where
    k: "aead_cipher_ctx_set_key ?ctx False = Inr ctx'" "keyed lib c s ctx'" "keyable lib c ctx'" by metis
  define o1 where "o1 = aead_open lib c (nonce_at c 0) (subkey c s) (drop (key_len c) (contents ct))"
  have d: "aead_cipher_decrypt lib ctx' (drop (key_len c) (contents ct)) (nonce ctx') (skey ctx') = Inr o1"
    using cipher_decrypt_keyed [OF assms(1) k(2), of "drop (key_len c) (contents ct)"] keyed_nonce0 [OF k(3)] long assms(4)
    by (simp add: o1_def)
  define tmp where "tmp = (brealloc_buf lc (tmps st AEAD_DECRYPT_ALL) (len ct) cap)\<lparr>len := len ct - (key_len c + 16)\<rparr>"
  have tmp: "buf_wf tmp" "len tmp = len ct - key_len c - 16" "len ct \<le> length (data tmp)"
    using brealloc_buf_props(1,4) [of "tmps st AEAD_DECRYPT_ALL", where lc = lc and n = "len ct" and cap = cap] assms(3)
    by (auto simp: state_wf_def buf_wf_def tmp_def)
  have step: "aead_decrypt_all lc lib ct c cap st =
      (if ppbloom_check (ppb st) s = 1 then Inr (CRYPTO_ERROR, ct, set_tmp AEAD_DECRYPT_ALL tmp st)
       else case o1 of
           None \<Rightarrow> Inr (CRYPTO_ERROR, ct, set_tmp AEAD_DECRYPT_ALL tmp st)
         | Some m \<Rightarrow> Inr (CRYPTO_OK, bstore lc ct (contents (tmp\<lparr>data := memcpy_at (data tmp) 0 m\<rparr>)) cap,
             set_tmp AEAD_DECRYPT_ALL (tmp\<lparr>data := memcpy_at (data tmp) 0 m\<rparr>) (remember lc s st)))"
    using long i(1) s(1) ts k(1) d tl
    by (simp add: aead_decrypt_all_def Let_def split: option.splits flip: tmp_def)
  show ?thesis
  proof (cases "ppbloom_check (ppb st) s = 1 \<or> o1 = None")
    case True
    then have "aead_decrypt_all lc lib ct c cap st = Inr (CRYPTO_ERROR, ct, set_tmp AEAD_DECRYPT_ALL tmp st)"
      using step by auto
    then show ?thesis
      by (rule refused [rotated 2]) (use True long tmp(1) assms(3) in \<open>auto simp: o1_def intro: wf_intros\<close>)
  next
    case False
    then obtain m where m: "o1 = Some m" by auto
    have ml: "length m = len ct - key_len c - 16"
      using open_length [OF assms(2) m [unfolded o1_def]] assms(4) by simp
    let ?tmp = "tmp\<lparr>data := memcpy_at (data tmp) 0 m\<rparr>"
    have "contents ?tmp = m" "buf_wf ?tmp"
      using tmp ml take_memcpy_at_0 [of m "data tmp"] by (auto simp: contents_def buf_wf_def length_memcpy_at)
    then have "aead_decrypt_all lc lib ct c cap st =
        Inr (CRYPTO_OK, bstore lc ct m cap, set_tmp AEAD_DECRYPT_ALL ?tmp (remember lc s st))"
      using False step m by simp
    then show ?thesis
      by (rule opened [rotated 3])
         (use False m long bstore_props [OF assms(4)] assms(3) \<open>buf_wf ?tmp\<close> in
           \<open>auto simp: o1_def intro: wf_intros\<close>)
  qed
qed

lemma decrypt_all_ok:
  assumes "cipher_ok c" "lib_ok lib c" "state_wf lc st" "buf_wf ct"
    and "contents ct = packet_wire lib c s m" "length s = key_len c" "m \<noteq> []" "length m \<le> 65535"
    and "ppbloom_check (ppb st) s \<noteq> 1"
  obtains ct' st' where "aead_decrypt_all lc lib ct c cap st = Inr (CRYPTO_OK, ct', st')"
    "contents ct' = m" "buf_wf ct'" "state_wf lc st'" "ppb st' = pp_add lc (ppb st) s"
proof -
  note sp = sealed_props [OF assms(1,2,8), where i = 0 and s = s]
  have l: "take (key_len c) (contents ct) = s" "drop (key_len c) (contents ct) = sealed lib c s 0 m"
      "len ct = key_len c + length m + 16"
    using assms(5,6) sp(2) length_contents [OF assms(4)] by (simp_all add: packet_wire_def)
  from assms(1-4) show ?thesis
    by (cases rule: decrypt_all_cases [where cap = cap]) (use l sp(3) assms(7,9) that in auto)
qed

end
