(* ===== verification/SS_Example.thy ===== *)
theory SS_Example
  imports SS_AeadUdp
begin

text \<open>
  A concrete platform, cipher and state on which the properties with hypotheses are applied:
  a C library with exact arithmetic and enough memory, the cipher
  \<^verbatim>\<open>chacha20-ietf-poly1305\<close> with a fixed key, and a nonce filter fresh from \<open>ppbloom_init\<close>.
\<close>

definition lc_ex :: libc where
  "lc_ex = \<lparr>c_log = (\<lambda>_. - 4 * (480453013918201 / 10 ^ 15)), c_round = (\<lambda>r. r),
     c_calloc = (\<lambda>_. True), c_junk = (\<lambda>_. 0xAA), c_random = (\<lambda>i. of_nat (i + 1))\<rparr>"

text \<open>Hardware AES-256-GCM that computes what the code of mbed TLS does.\<close>

definition lib_ex :: cryptolib where
  "lib_ex = \<lparr>lib_aes256gcm_available = True,
     lib_aes256gcm_enc = (\<lambda>k n. gcm_seal (the (mbedtls_gcm_setkey mbedtls_gcm_init (padded k) 256)) (take 12 (fit n))),
     lib_aes256gcm_dec = (\<lambda>k n. gcm_open (the (mbedtls_gcm_setkey mbedtls_gcm_init (padded k) 256)) (take 12 (fit n)))\<rparr>"

definition cipher_ex :: cipher_t where
  "cipher_ex = \<lparr>cmethod = 3, nonce_len = 12, key_len = 32, tag_len = 16, key = replicate 64 7\<rparr>"

definition gcm_ex :: cipher_t where
  "gcm_ex = \<lparr>cmethod = 2, nonce_len = 12, key_len = 32, tag_len = 16, key = replicate 64 7\<rparr>"

definition blank_bloom :: bloom where
  "blank_bloom = \<lparr>bl_entries = 0, bl_error = 0, bl_bits = 0, bl_bytes = 0, bl_hashes = 0, bl_bpe = 0,
     bl_bf = [], bl_ready = False\<rparr>"

definition state_ex :: crypto_state where
  "state_ex = \<lparr>ppb = snd (ppbloom_init lc_ex
        \<lparr>pp_bloom = (\<lambda>_. blank_bloom), pp_count = (\<lambda>_. 0), pp_current = PING, pp_entries = 0, pp_error = 0\<rparr>
        100 (1 / 10 ^ 6)),
     rand_pos = 0, tmps = (\<lambda>_. \<lparr>idx = 0, len = 0, capacity = 0, data = []\<rparr>)\<rparr>"

lemma sizes_ex: "bloom_sizes lc_ex 50 (1 / 10 ^ 6) = (200, 3)"
  by code_simp

lemma params_ex: "bloom_params_ok lc_ex (c_div 100 2) (1 / 10 ^ 6)"
  using sizes_ex by (simp add: bloom_params_ok_def c_div_def lc_ex_def)

lemma state_ex_wf: "state_wf lc_ex state_ex"
  using ppbloom_init_wf(2) [OF params_ex] by (simp add: state_wf_def state_ex_def buf_wf_def)

lemma state_ex_entries: "pp_entries (ppb state_ex) = 50"
  using ppbloom_init_wf(3) [OF params_ex] by (simp add: state_ex_def c_div_def)

lemma state_ex_empty: "ppbloom_check (ppb state_ex) s = 0"
  using ppbloom_init_empty [OF params_ex] sizes_ex by (simp add: state_ex_def c_div_def)

lemma cipher_ex_ok: "cipher_ok cipher_ex"
  by (simp add: cipher_ok_def cipher_ex_def method_defs aead_tables MAX_KEY_LENGTH_def)

lemma gcm_ex_cipher_ok: "cipher_ok gcm_ex"
  by (simp add: cipher_ok_def gcm_ex_def method_defs aead_tables MAX_KEY_LENGTH_def)

lemma lib_ex_any: "lib_ok lib_ex c"
  unfolding lib_ok_def
proof
  have "aead_cipher (\<lambda>n k. gcm_seal (the (mbedtls_gcm_setkey mbedtls_gcm_init (padded k) 256)) (take 12 (fit n)))
      (\<lambda>n k. gcm_open (the (mbedtls_gcm_setkey mbedtls_gcm_init (padded k) 256)) (take 12 (fit n))) 16 AES_GCM_MAX"
    by (rule gcm_cipher) (simp add: fit_def MAX_NONCE_LENGTH_def)
  then show "aead_cipher (\<lambda>n k. lib_aes256gcm_enc lib_ex k n) (\<lambda>n k. lib_aes256gcm_dec lib_ex k n) 16 AES_GCM_MAX"
    by (simp add: lib_ex_def)
qed

lemmas lib_ex_ok = lib_ex_any [of cipher_ex]

lemmas lib_ex_gcm_ok = lib_ex_any [of gcm_ex]

end
