(* ===== verification/SS_AeadProps.thy ===== *)
theory SS_AeadProps
  imports SS_Example
begin

text \<open>
  The properties of the AEAD protocol code: delivery over TCP under any fragmentation, the
  wire format, nonce reuse, robustness against arbitrary input, and UDP packets with their
  replay protection.
\<close>

section \<open>TCP\<close>

lemma nonce_at_value:
  assumes "nonce_len c \<le> MAX_NONCE_LENGTH"
  shows "le_value (take (nonce_len c) (nonce_at c i)) = i mod 256 ^ nonce_len c"
proof (induction i)
  case 0
  have "le_value (replicate n 0) = 0" for n by (induction n) auto
  then show ?case by (simp add: take_replicate)
next
  case (Suc i)
  have "le_value (take (nonce_len c) (nonce_at c (Suc i))) =
      (le_value (take (nonce_len c) (nonce_at c i)) + 1) mod 256 ^ nonce_len c"
    using sodium_increment_value [of "nonce_len c" "nonce_at c i"] assms by simp
  with Suc show ?case by (simp add: mod_Suc_eq)
qed

lemma ctx_init_receiver:
  assumes "cipher_ok c" "lib_ok lib c" "aead_ctx_init lc lib c False st = Inr (ctx, st')"
    and "length s = key_len c" "\<forall>m \<in> set ms. payload_ok m"
  shows "receiver lib c s ctx ms (s @ stream_wire lib c s 0 ms)" "init ctx = 0" "st' = st"
proof -
  obtain ctx' where "aead_ctx_init lc lib c False st = Inr (ctx', st)"
    "keyable lib c ctx'" "init ctx' = 0" "chunk ctx' = None"
    using ctx_init_keyable [OF assms(1), of lc lib False st] by auto
  with assms(3-5) show "receiver lib c s ctx ms (s @ stream_wire lib c s 0 ms)" "init ctx = 0" "st' = st"
    by (auto simp: receiver_def pending_def keyable_def)
qed

lemma ctx_init_sender:
  assumes "cipher_ok c" "lib_ok lib c" "aead_ctx_init lc lib c True st = Inr (ctx, st')" "state_wf lc st"
  defines "s \<equiv> take (key_len c) (salt ctx)"
  shows "sender lib c s 0 ctx" "init ctx = 0" "state_wf lc st'" "length s = key_len c"
    "s = fst (rand_bytes lc st (key_len c))"
proof -
  obtain ctx' where "aead_ctx_init lc lib c True st = Inr (ctx', snd (rand_bytes lc st (key_len c)))"
    "keyable lib c ctx'" "init ctx' = 0" "take (key_len c) (salt ctx') = fst (rand_bytes lc st (key_len c))"
    using ctx_init_keyable [OF assms(1), of lc lib True st] by auto
  with assms(3,4) show "sender lib c s 0 ctx" "init ctx = 0" "state_wf lc st'" "length s = key_len c"
    "s = fst (rand_bytes lc st (key_len c))"
    by (auto simp: sender_def s_def keyable_def intro: wf_intros)
qed

text \<open>C1: TCP delivery. A sender that passes any non-empty sequence of payloads (each of 1 to
  0x3FFF bytes) through \<open>aead_encrypt\<close>, and a receiver that passes the resulting byte stream
  through \<open>aead_decrypt\<close> in any fragments, of whatever sizes: every call succeeds or asks for
  more, and what the receiver delivers is exactly the concatenation of the payloads. The
  receiver's nonce filter must not already hold the sender's salt.\<close>

theorem aead_tcp_delivery:
  assumes "cipher_ok c" "lib_ok lib c" "state_wf lc st1" "state_wf lc' st2"
    and "aead_ctx_init lc lib c True st1 = Inr (ectx, st1')"
    and "aead_ctx_init lc' lib c False st2 = Inr (dctx, st2')"
    and "ppbloom_check (ppb st2) (take (key_len c) (salt ectx)) \<noteq> 1"
    and "ms \<noteq> []" "\<forall>m \<in> set ms. payload_ok m"
  shows "\<exists>wire ectx' st1''. encrypt_stream lc lib cap ectx st1' ms = Inr (CRYPTO_OK, wire, ectx', st1'')
     \<and> (\<forall>fs. concat fs = wire \<longrightarrow>
          (\<exists>dctx' st2''. decrypt_stream lc' lib cap' dctx st2' fs = Inr (CRYPTO_OK, concat ms, dctx', st2'')))"
proof -
  let ?s = "take (key_len c) (salt ectx)"
  note snd = ctx_init_sender [OF assms(1,2,5,3)]
  note rcv = ctx_init_receiver [OF assms(1,2,6) snd(4) assms(9)]
  let ?w = "?s @ stream_wire lib c ?s 0 ms"
  obtain ectx' st1'' where "encrypt_stream lc lib cap ectx st1' ms = Inr (CRYPTO_OK, ?w, ectx', st1'')"
    using encrypt_stream_wire [OF assms(1,2) snd(1,3) assms(9), of cap] snd(2) assms(8) by auto
  moreover have "\<exists>dctx' st2''. decrypt_stream lc' lib cap' dctx st2' fs = Inr (CRYPTO_OK, concat ms, dctx', st2'')"
    if "concat fs = ?w" for fs
    using decrypt_stream_wire [OF assms(1,2), of ?s dctx ms fs lc' st2'] that rcv assms(4,7) by fastforce
  ultimately show ?thesis by blast
qed

theorem aead_tcp_delivery_witness:
  "\<exists>ectx st1' dctx st2' wire ectx' st1''.
     aead_ctx_init lc_ex lib_ex cipher_ex True state_ex = Inr (ectx, st1')
     \<and> aead_ctx_init lc_ex lib_ex cipher_ex False state_ex = Inr (dctx, st2')
     \<and> encrypt_stream lc_ex lib_ex 16383 ectx st1' [[1, 2, 3], [4]] = Inr (CRYPTO_OK, wire, ectx', st1'')
     \<and> (\<forall>fs. concat fs = wire \<longrightarrow>
          (\<exists>dctx' st2''. decrypt_stream lc_ex lib_ex 16383 dctx st2' fs = Inr (CRYPTO_OK, [1, 2, 3, 4], dctx', st2'')))"
proof -
  obtain ectx st1' where e: "aead_ctx_init lc_ex lib_ex cipher_ex True state_ex = Inr (ectx, st1')"
    using ctx_init_keyable [OF cipher_ex_ok, of lc_ex lib_ex True state_ex] by metis
  obtain dctx st2' where d: "aead_ctx_init lc_ex lib_ex cipher_ex False state_ex = Inr (dctx, st2')"
    using ctx_init_keyable [OF cipher_ex_ok, of lc_ex lib_ex False state_ex] by metis
  show ?thesis
    using e d aead_tcp_delivery [OF cipher_ex_ok lib_ex_ok state_ex_wf state_ex_wf e d,
        of "[[1, 2, 3], [4]]" 16383 16383] state_ex_empty
    by (auto simp: CHUNK_SIZE_MASK_def)
qed

text \<open>C12: the TCP wire format. The first call of \<open>aead_encrypt\<close> emits the connection's salt, and
  every call emits one chunk: the payload length in two big-endian bytes sealed under the
  even nonce \<open>2 i\<close>, then the payload sealed under the nonce \<open>2 i + 1\<close>, both with the subkey that
  HKDF-SHA1 derives from the salt. No call with 1 to 0x3FFF bytes fails or aborts.\<close>

theorem aead_encrypt_wire_format:
  assumes "cipher_ok c" "lib_ok lib c" "state_wf lc st"
    and "aead_ctx_init lc lib c True st = Inr (ctx, st')" "ms \<noteq> []" "\<forall>m \<in> set ms. payload_ok m"
  defines "s \<equiv> fst (rand_bytes lc st (key_len c))"
  shows "\<exists>ctx' st''. encrypt_stream lc lib cap ctx st' ms =
     Inr (CRYPTO_OK, s @ stream_wire lib c s 0 ms, ctx', st'')"
  using encrypt_stream_wire [OF assms(1,2) ctx_init_sender(1,3) [OF assms(1,2,4,3)] assms(6), of cap]
    ctx_init_sender(2,5) [OF assms(1,2,4,3)] assms(5) by (auto simp: s_def)

theorem aead_encrypt_wire_format_witness:
  "\<exists>ctx st' ctx' st''. aead_ctx_init lc_ex lib_ex gcm_ex True state_ex = Inr (ctx, st')
     \<and> encrypt_stream lc_ex lib_ex 16383 ctx st' [[1, 2, 3], [4]] =
       Inr (CRYPTO_OK, fst (rand_bytes lc_ex state_ex 32)
          @ stream_wire lib_ex gcm_ex (fst (rand_bytes lc_ex state_ex 32)) 0 [[1, 2, 3], [4]], ctx', st'')"
proof -
  obtain ctx st' where e: "aead_ctx_init lc_ex lib_ex gcm_ex True state_ex = Inr (ctx, st')"
    using ctx_init_keyable [OF gcm_ex_cipher_ok, of lc_ex lib_ex True state_ex] by metis
  moreover have "key_len gcm_ex = 32" by (simp add: gcm_ex_def)
  ultimately show ?thesis
    using aead_encrypt_wire_format [OF gcm_ex_cipher_ok lib_ex_gcm_ok state_ex_wf e, of "[[1, 2, 3], [4]]" 16383]
    by (auto simp: CHUNK_SIZE_MASK_def)
qed

text \<open>C24: no nonce is used twice. The nonces that repeated \<open>sodium_increment\<close> produces from zero
  are pairwise different for the first \<open>256 ^ nonce_len\<close> uses, so within one connection no two
  sealed messages share a nonce.\<close>

theorem nonces_distinct:
  assumes "cipher_ok c" "i < 256 ^ nonce_len c" "j < 256 ^ nonce_len c" "i \<noteq> j"
  defines "nonce_after \<equiv> \<lambda>k. ((\<lambda>n. sodium_increment n (nonce_len c)) ^^ k) (replicate MAX_NONCE_LENGTH 0)"
  shows "take (nonce_len c) (nonce_after i) \<noteq> take (nonce_len c) (nonce_after j)"
proof -
  have "nonce_len c \<le> MAX_NONCE_LENGTH" using cipher_sizes(3) [OF assms(1)] by (auto simp: MAX_NONCE_LENGTH_def)
  then show ?thesis
    using nonce_at_value [of c i] nonce_at_value [of c j] assms(2-4) unfolding nonce_after_def nonce_at_def
    by (metis mod_less)
qed

theorem nonces_distinct_witness:
  "take 12 (((\<lambda>n. sodium_increment n 12) ^^ 3) (replicate MAX_NONCE_LENGTH 0))
     \<noteq> take 12 (((\<lambda>n. sodium_increment n 12) ^^ 259) (replicate MAX_NONCE_LENGTH 0))"
  using nonces_distinct [OF cipher_ex_ok, of 3 259] by (simp add: cipher_ex_def)

text \<open>C4: robustness over TCP. Whatever bytes arrive on a connection, \<open>aead_decrypt\<close> returns: no
  assertion fails, no null pointer is used, no array is written outside its bounds (the
  invariants that fix every array's length hold again afterwards), and unless it succeeds the
  caller's buffer is untouched, so no unauthenticated plaintext is delivered.\<close>

theorem aead_decrypt_total:
  assumes "cipher_ok c" "lib_ok lib c" "conn_wf lib c ctx" "state_wf lc st" "buf_wf ct"
  shows "\<exists>rc ct' ctx' st'. aead_decrypt lc lib ct ctx cap st = Inr (rc, ct', ctx', st')
     \<and> conn_wf lib c ctx' \<and> state_wf lc st' \<and> buf_wf ct' \<and> (rc \<noteq> CRYPTO_OK \<longrightarrow> ct' = ct)"
  using aead_decrypt_safe [OF assms, of cap] by metis

theorem aead_decrypt_total_witness:
  "\<exists>ctx rc ct' ctx' st'. aead_ctx_init lc_ex lib_ex cipher_ex False state_ex = Inr (ctx, state_ex)
     \<and> aead_decrypt lc_ex lib_ex (filled lc_ex 100 (replicate 90 5)) ctx 100 state_ex = Inr (rc, ct', ctx', st')
     \<and> state_wf lc_ex st'"
proof -
  obtain ctx where d: "aead_ctx_init lc_ex lib_ex cipher_ex False state_ex = Inr (ctx, state_ex)"
      "keyable lib_ex cipher_ex ctx" "init ctx = 0" "chunk ctx = None"
    using ctx_init_keyable [OF cipher_ex_ok, of lc_ex lib_ex False state_ex] by auto
  then have "conn_wf lib_ex cipher_ex ctx" by (simp add: conn_wf_def keyable_def)
  then show ?thesis
    using d(1) aead_decrypt_total [OF cipher_ex_ok lib_ex_ok _ state_ex_wf filled_props(1)] by metis
qed

lemma packet_ex:
  obtains pkt st where
    "aead_encrypt_all lc_ex lib_ex (filled lc_ex 9 [1, 2, 3]) cipher_ex 9 state_ex = Inr (CRYPTO_OK, pkt, st)"
    "buf_wf pkt" "state_wf lc_ex st" "key_len cipher_ex < len pkt"
    "ppbloom_check (ppb st) (take (key_len cipher_ex) (contents pkt)) = 1"
proof -
  let ?pt = "filled lc_ex 9 [1, 2, 3]" and ?s = "fst (rand_bytes lc_ex state_ex (key_len cipher_ex))"
  have pt: "buf_wf ?pt" "len ?pt \<le> 65535" "contents ?pt = [1, 2, 3]"
    using filled_props [of lc_ex 9 "[1, 2, 3]"] by simp_all
  obtain pkt st where e: "aead_encrypt_all lc_ex lib_ex ?pt cipher_ex 9 state_ex = Inr (CRYPTO_OK, pkt, st)" "buf_wf pkt"
    "contents pkt = packet_wire lib_ex cipher_ex ?s [1, 2, 3]" "state_wf lc_ex st" "ppb st = pp_add lc_ex (ppb state_ex) ?s"
    using encrypt_all_ok [OF cipher_ex_ok lib_ex_ok state_ex_wf pt(1,2), of 9] pt(3) by metis
  have s: "take (key_len cipher_ex) (contents pkt) = ?s" by (simp add: e(3) packet_wire_def)
  have "length (sealed lib_ex cipher_ex ?s 0 [1, 2, 3]) = 19"
    using sealed_props(2) [OF cipher_ex_ok lib_ex_ok, of "[1, 2, 3]" ?s 0] by simp
  then have l: "key_len cipher_ex < len pkt"
    using length_contents [OF e(2)] by (simp add: e(3) packet_wire_def)
  have "pp_wf lc_ex (ppb state_ex)" using state_ex_wf by (simp add: state_wf_def)
  then have "pp_seen (ppb st) ?s"
    using pp_seen_within_window [of lc_ex "ppb state_ex" "[]" ?s] state_ex_entries e(5) by simp
  then show ?thesis using that e l s by (simp add: pp_seen_def)
qed

text \<open>C23: replay protection over TCP. A connection whose first bytes carry a salt that the nonce
  filter holds is refused with \<open>CRYPTO_ERROR\<close> as soon as more than the salt has arrived, the
  caller gets nothing and the connection stays unstarted; the filter is not changed.\<close>

theorem aead_decrypt_refuses_known_salt:
  assumes "cipher_ok c" "lib_ok lib c" "state_wf lc st" "buf_wf ct"
    and "aead_ctx_init lc' lib c False st0 = Inr (ctx, st1)" "key_len c < len ct"
    and "ppbloom_check (ppb st) (take (key_len c) (contents ct)) = 1"
  shows "\<exists>ctx' st'. aead_decrypt lc lib ct ctx cap st = Inr (CRYPTO_ERROR, ct, ctx', st')
     \<and> init ctx' = 0 \<and> ppb st' = ppb st"
proof -
  obtain ctx1 where i: "aead_ctx_init lc' lib c False st0 = Inr (ctx1, st0)" "keyable lib c ctx1"
      "init ctx1 = 0" "chunk ctx1 = None"
    using ctx_init_keyable [OF assms(1), of lc' lib False st0] by auto
  have ctx: "ctx1 = ctx" using i(1) assms(5) by simp
  note i = i [unfolded ctx]
  define b where "b = bappend lc (snd (balloc lc cap)) (contents ct) cap"
  have b: "buf_wf b" "contents b = contents ct" using bappend_props [OF balloc_wf] by (simp_all add: b_def)
  let ?s = "take (key_len c) (contents ct)"
  have lb: "len b = len ct" using length_contents [OF b(1)] b(2) assms(4) by simp
  have s: "take (key_len c) (data b) = ?s" "length ?s = key_len c"
    using take_data_contents [of "key_len c" b] assms(4,6) lb b(2) by simp_all
  let ?ctx = "ctx\<lparr>salt := memcpy_at (salt ctx) 0 ?s\<rparr>"
  have sl: "length (memcpy_at (salt ctx) 0 ?s) = MAX_KEY_LENGTH"
    using i(2) s(2) cipher_sizes(2) [OF assms(1)] by (auto simp: keyable_def length_memcpy_at MAX_KEY_LENGTH_def)
  have ts: "take (key_len c) (salt ?ctx) = ?s" using take_memcpy_at_0 [of ?s "salt ctx"] s(2) by simp
  have "keyable lib c ?ctx" using i(2) sl by simp
  from set_key_keyed [OF assms(1) this ts, of False] obtain ctx' where
    k: "aead_cipher_ctx_set_key ?ctx False = Inr ctx'" "salt ctx' = salt ?ctx" "init ctx' = init ?ctx" by metis
  have "aead_decrypt_start ctx b st = Inr (Some CRYPTO_ERROR, ctx', b)"
    using i(2,3) lb s(1) k ts assms(6,7) by (simp add: aead_decrypt_start_def Let_def keyable_def)
  then show ?thesis
    using i(3,4) k(3) by (simp add: aead_decrypt_def Let_def flip: b_def)
qed

theorem aead_decrypt_refuses_known_salt_witness:
  "\<exists>ctx pkt st2 ctx' st3. aead_ctx_init lc_ex lib_ex cipher_ex False state_ex = Inr (ctx, state_ex)
     \<and> aead_encrypt_all lc_ex lib_ex (filled lc_ex 9 [1, 2, 3]) cipher_ex 9 state_ex = Inr (CRYPTO_OK, pkt, st2)
     \<and> aead_decrypt lc_ex lib_ex pkt ctx 9 st2 = Inr (CRYPTO_ERROR, pkt, ctx', st3)"
proof -
  obtain pkt st2 where e: "aead_encrypt_all lc_ex lib_ex (filled lc_ex 9 [1, 2, 3]) cipher_ex 9 state_ex = Inr (CRYPTO_OK, pkt, st2)"
    "buf_wf pkt" "state_wf lc_ex st2" "key_len cipher_ex < len pkt"
    "ppbloom_check (ppb st2) (take (key_len cipher_ex) (contents pkt)) = 1"
    by (rule packet_ex)
  obtain ctx where i: "aead_ctx_init lc_ex lib_ex cipher_ex False state_ex = Inr (ctx, state_ex)"
    using ctx_init_keyable [OF cipher_ex_ok, of lc_ex lib_ex False state_ex] by auto
  show ?thesis
    using i e(1) aead_decrypt_refuses_known_salt [OF cipher_ex_ok lib_ex_ok e(3,2) i e(4,5), of 9] by blast
qed

section \<open>UDP\<close>

text \<open>C9: UDP round trip. A packet made by \<open>aead_encrypt_all\<close> from 1 to 65535 bytes is decrypted by
  \<open>aead_decrypt_all\<close> to the same bytes by a peer with the same key whose nonce filter does not
  hold the packet's salt; both sides remember the salt.\<close>

theorem aead_udp_roundtrip:
  assumes "cipher_ok c" "lib_ok lib c" "state_wf lc st1" "state_wf lc' st2" "buf_wf pt"
    and "0 < len pt" "len pt \<le> 65535"
    and "ppbloom_check (ppb st2) (fst (rand_bytes lc st1 (key_len c))) \<noteq> 1"
  shows "\<exists>pkt st1' out st2'. aead_encrypt_all lc lib pt c cap st1 = Inr (CRYPTO_OK, pkt, st1')
     \<and> aead_decrypt_all lc' lib pkt c cap' st2 = Inr (CRYPTO_OK, out, st2')
     \<and> contents out = contents pt \<and> len pkt = key_len c + len pt + 16
     \<and> ppb st1' = pp_add lc (ppb st1) (take (key_len c) (contents pkt))
     \<and> ppb st2' = pp_add lc' (ppb st2) (take (key_len c) (contents pkt))"
proof -
  let ?s = "fst (rand_bytes lc st1 (key_len c))"
  obtain pkt st1' where e: "aead_encrypt_all lc lib pt c cap st1 = Inr (CRYPTO_OK, pkt, st1')" "buf_wf pkt"
    "contents pkt = packet_wire lib c ?s (contents pt)" "ppb st1' = pp_add lc (ppb st1) ?s"
    using encrypt_all_ok [OF assms(1-3,5,7), of cap] by metis
  have m: "contents pt \<noteq> []" "length (contents pt) \<le> 65535"
    using assms(5-7) by (auto simp: contents_def buf_wf_def)
  obtain out st2' where d: "aead_decrypt_all lc' lib pkt c cap' st2 = Inr (CRYPTO_OK, out, st2')"
    "contents out = contents pt" "ppb st2' = pp_add lc' (ppb st2) ?s"
    using decrypt_all_ok [OF assms(1,2,4) e(2,3) length_rand_bytes m assms(8), of cap'] by metis
  have "len pkt = key_len c + len pt + 16" "take (key_len c) (contents pkt) = ?s"
    using length_contents [OF e(2)] e(3) sealed_props(2) [OF assms(1,2) m(2), where i = 0 and s = ?s] assms(5)
    by (simp_all add: packet_wire_def)
  then show ?thesis using e d by auto
qed

theorem aead_udp_roundtrip_witness:
  "\<exists>pkt st1' out st2'. aead_encrypt_all lc_ex lib_ex (filled lc_ex 9 [1, 2, 3]) cipher_ex 9 state_ex = Inr (CRYPTO_OK, pkt, st1')
     \<and> aead_decrypt_all lc_ex lib_ex pkt cipher_ex 9 state_ex = Inr (CRYPTO_OK, out, st2')
     \<and> contents out = [1, 2, 3] \<and> len pkt = 51"
proof -
  have k: "key_len cipher_ex = 32" by (simp add: cipher_ex_def)
  show ?thesis
    using aead_udp_roundtrip [OF cipher_ex_ok lib_ex_ok state_ex_wf state_ex_wf, of "filled lc_ex 9 [1, 2, 3]" 9 9]
      filled_props [of lc_ex 9 "[1, 2, 3]"] state_ex_empty k by auto
qed

text \<open>C6: replay protection over UDP. After \<open>aead_decrypt_all\<close> has accepted a packet, every packet
  with the same salt is refused with \<open>CRYPTO_ERROR\<close> while fewer than \<open>entries\<close> (half the
  capacity given to \<open>ppbloom_init\<close>) other salts have been remembered since.\<close>

theorem aead_udp_no_replay:
  assumes "cipher_ok c" "lib_ok lib c" "state_wf lc st" "buf_wf ct" "buf_wf ct2"
    and "aead_decrypt_all lc lib ct c cap st = Inr (CRYPTO_OK, ct', st')"
    and "int (length ys) < pp_entries (ppb st)" "ppb st2 = foldl (pp_add lc) (ppb st') ys" "state_wf lc st2"
    and "take (key_len c) (contents ct2) = take (key_len c) (contents ct)"
  shows "\<exists>st3. aead_decrypt_all lc lib ct2 c cap2 st2 = Inr (CRYPTO_ERROR, ct2, st3) \<and> ppb st3 = ppb st2"
proof -
  let ?s = "take (key_len c) (contents ct)"
  have st': "ppb st' = pp_add lc (ppb st) ?s"
    using assms(1-4) by (cases rule: decrypt_all_cases [where cap = cap]) (use assms(6) in auto)
  have wf: "pp_wf lc (ppb st)" using assms(3) by (simp add: state_wf_def)
  have "pp_seen (ppb st2) ?s"
    unfolding assms(8) st' by (rule pp_seen_within_window [OF wf]) (use assms(7) in simp)
  then have seen: "ppbloom_check (ppb st2) (take (key_len c) (contents ct2)) = 1"
    using assms(10) by (simp add: pp_seen_def)
  from assms(1,2,9,5) show ?thesis
    by (cases rule: decrypt_all_cases [where cap = cap2]) (use seen in auto)
qed

theorem aead_udp_no_replay_witness:
  "\<exists>pkt st1 out st2 st3. aead_encrypt_all lc_ex lib_ex (filled lc_ex 9 [1, 2, 3]) cipher_ex 9 state_ex = Inr (CRYPTO_OK, pkt, st1)
     \<and> aead_decrypt_all lc_ex lib_ex pkt cipher_ex 9 state_ex = Inr (CRYPTO_OK, out, st2)
     \<and> aead_decrypt_all lc_ex lib_ex pkt cipher_ex 9 st2 = Inr (CRYPTO_ERROR, pkt, st3)"
proof -
  let ?pt = "filled lc_ex 9 [1, 2, 3]" and ?s = "fst (rand_bytes lc_ex state_ex (key_len cipher_ex))"
  have pt: "buf_wf ?pt" "len ?pt \<le> 65535" "contents ?pt = [1, 2, 3]"
    using filled_props [of lc_ex 9 "[1, 2, 3]"] by simp_all
  obtain pkt st1 where e: "aead_encrypt_all lc_ex lib_ex ?pt cipher_ex 9 state_ex = Inr (CRYPTO_OK, pkt, st1)" "buf_wf pkt"
    "contents pkt = packet_wire lib_ex cipher_ex ?s [1, 2, 3]"
    using encrypt_all_ok [OF cipher_ex_ok lib_ex_ok state_ex_wf pt(1,2), of 9] pt(3) by metis
  have m: "[1, 2, 3 :: u8] \<noteq> []" "length [1, 2, 3 :: u8] \<le> 65535" "ppbloom_check (ppb state_ex) ?s \<noteq> 1"
    by (simp_all add: state_ex_empty)
  obtain out st2 where d: "aead_decrypt_all lc_ex lib_ex pkt cipher_ex 9 state_ex = Inr (CRYPTO_OK, out, st2)" "state_wf lc_ex st2"
    using decrypt_all_ok [OF cipher_ex_ok lib_ex_ok state_ex_wf e(2,3) length_rand_bytes m, of 9] by metis
  show ?thesis
    using e(1) d(1) state_ex_entries d(2)
      aead_udp_no_replay [OF cipher_ex_ok lib_ex_ok state_ex_wf e(2) e(2) d(1), of "[]" st2 9] by auto
qed

text \<open>C22: robustness over UDP. On every packet \<open>aead_decrypt_all\<close> returns with all arrays intact;
  it succeeds exactly when the packet is longer than salt and tag, its salt is not in the
  filter and the tag verifies under the subkey and the zero nonce, and otherwise leaves the
  caller's buffer and the filter alone.\<close>

theorem aead_decrypt_all_exact:
  assumes "cipher_ok c" "lib_ok lib c" "state_wf lc st" "buf_wf ct"
  defines "s \<equiv> take (key_len c) (contents ct)"
  shows "\<exists>rc ct' st'. aead_decrypt_all lc lib ct c cap st = Inr (rc, ct', st') \<and> state_wf lc st' \<and> buf_wf ct'
     \<and> (if len ct > key_len c + 16 \<and> ppbloom_check (ppb st) s \<noteq> 1
          \<and> aead_open lib c (replicate MAX_NONCE_LENGTH 0) (subkey c s) (drop (key_len c) (contents ct)) \<noteq> None
        then rc = CRYPTO_OK \<and> ppb st' = pp_add lc (ppb st) s
          \<and> Some (contents ct') = aead_open lib c (replicate MAX_NONCE_LENGTH 0) (subkey c s) (drop (key_len c) (contents ct))
        else rc = CRYPTO_ERROR \<and> ct' = ct \<and> ppb st' = ppb st)"
  using assms(1-4)
  by (cases rule: decrypt_all_cases [where cap = cap]) (use assms(3,4) in \<open>auto simp: s_def\<close>)

theorem aead_decrypt_all_exact_witness:
  "\<exists>rc ct' st'. aead_decrypt_all lc_ex lib_ex (filled lc_ex 9 [1, 2, 3]) cipher_ex 9 state_ex = Inr (rc, ct', st')
     \<and> rc = CRYPTO_ERROR"
  using aead_decrypt_all_exact [OF cipher_ex_ok lib_ex_ok state_ex_wf filled_props(1) [of lc_ex 9 "[1, 2, 3]"], of 9]
    filled_props(3) [of lc_ex 9 "[1, 2, 3]"] by (auto simp: cipher_ex_def)

end
