(* ===== verification/SS_Salsa.thy ===== *)
theory SS_Salsa
  imports SS_Crypto
begin

text \<open>
  The Salsa20 stream cipher of libsodium (\<^verbatim>\<open>crypto_core/salsa/ref/core_salsa_ref.c\<close>,
  \<^verbatim>\<open>crypto_stream/salsa20/ref/salsa20_ref.c\<close>), and the interface \<open>block_stream\<close> that the three stream
  ciphers of libsodium offer to \<^verbatim>\<open>stream.c\<close>: an XOR with a key stream made of numbered blocks,
  entered at any block. It is interpreted on Salsa20, ChaCha20 and ChaCha20-IETF.
\<close>

section \<open>The core\<close>

text \<open>\<open>x[a] ^= ROTL32(x[b] + x[c], n)\<close>, for the steps of a double round in order.\<close>

definition salsa_steps :: "(nat \<times> nat \<times> nat \<times> nat) list" where
  "salsa_steps =
     [(4, 0, 12, 7), (8, 4, 0, 9), (12, 8, 4, 13), (0, 12, 8, 18),
      (9, 5, 1, 7), (13, 9, 5, 9), (1, 13, 9, 13), (5, 1, 13, 18),
      (14, 10, 6, 7), (2, 14, 10, 9), (6, 2, 14, 13), (10, 6, 2, 18),
      (3, 15, 11, 7), (7, 3, 15, 9), (11, 7, 3, 13), (15, 11, 7, 18),
      (1, 0, 3, 7), (2, 1, 0, 9), (3, 2, 1, 13), (0, 3, 2, 18),
      (6, 5, 4, 7), (7, 6, 5, 9), (4, 7, 6, 13), (5, 4, 7, 18),
      (11, 10, 9, 7), (8, 11, 10, 9), (9, 8, 11, 13), (10, 9, 8, 18),
      (12, 15, 14, 7), (13, 12, 15, 9), (14, 13, 12, 13), (15, 14, 13, 18)]"

definition salsa_step :: "nat \<times> nat \<times> nat \<times> nat \<Rightarrow> u32 list \<Rightarrow> u32 list" where
  "salsa_step q x = (case q of (a, b, c, n) \<Rightarrow> x[a := x ! a XOR word_rotl n (x ! b + x ! c)])"

fun salsa_rounds :: "nat \<Rightarrow> u32 list \<Rightarrow> u32 list" where
  "salsa_rounds 0 x = x"
| "salsa_rounds (Suc i) x = salsa_rounds i (fold salsa_step salsa_steps x)"

definition salsa_input :: "bytes \<Rightarrow> bytes \<Rightarrow> bytes option \<Rightarrow> u32 list" where
  "salsa_input inp k c =
     (let C = (case c of
                 None \<Rightarrow> [0x61707865, 0x3320646e, 0x79622d32, 0x6b206574]
               | Some c \<Rightarrow> [load32_le c 0, load32_le c 4, load32_le c 8, load32_le c 12])
      in [C ! 0, load32_le k 0, load32_le k 4, load32_le k 8, load32_le k 12, C ! 1,
          load32_le inp 0, load32_le inp 4, load32_le inp 8, load32_le inp 12, C ! 2,
          load32_le k 16, load32_le k 20, load32_le k 24, load32_le k 28, C ! 3])"

definition crypto_core_salsa :: "bytes \<Rightarrow> bytes \<Rightarrow> bytes option \<Rightarrow> nat \<Rightarrow> bytes" where
  "crypto_core_salsa inp k c rounds =
     (let j = salsa_input inp k c
      in store32s (map2 (+) (salsa_rounds (rounds div 2) j) j))"

definition crypto_core_salsa20 :: "bytes \<Rightarrow> bytes \<Rightarrow> bytes option \<Rightarrow> bytes" where
  "crypto_core_salsa20 inp k c = crypto_core_salsa inp k c 20"

section \<open>The stream\<close>

text \<open>\<open>in[i] = ic & 0xff; ic >>= 8\<close> for \<open>n\<close> bytes.\<close>

fun store_ic :: "nat \<Rightarrow> u64 \<Rightarrow> bytes" where
  "store_ic 0 ic = []"
| "store_ic (Suc n) ic = ucast (ic AND 0xff) # store_ic n (drop_bit 8 ic)"

text \<open>The counter is the second half of the input; the carry \<^verbatim>\<open>u\<close> is an \<^verbatim>\<open>unsigned int\<close>.\<close>

definition salsa_next :: "bytes \<Rightarrow> bytes" where
  "salsa_next inp = take 8 inp @ increment_loop (1 :: u32) (take 8 (drop 8 inp)) @ drop 16 inp"

function salsa20_loop :: "bytes \<Rightarrow> bytes \<Rightarrow> bytes \<Rightarrow> bytes" where
  "salsa20_loop k inp m =
     (if length m \<ge> 64
      then map2 (XOR) (take 64 m) (crypto_core_salsa20 inp k None) @ salsa20_loop k (salsa_next inp) (drop 64 m)
      else if m \<noteq> [] then map2 (XOR) m (crypto_core_salsa20 inp k None)
      else [])"
  by pat_completeness auto
termination
  by (relation "measure (\<lambda>(k, inp, m). length m)") auto

declare salsa20_loop.simps [simp del]

text \<open>The first bytes of the nonce and of the key, copied one by one.\<close>

definition copy_bytes :: "bytes \<Rightarrow> nat \<Rightarrow> bytes" where
  "copy_bytes src n = map ((!) src) [0..<n]"

definition salsa20_xor_ic :: "bytes \<Rightarrow> bytes \<Rightarrow> u64 \<Rightarrow> bytes \<Rightarrow> bytes" where
  "salsa20_xor_ic m n ic k =
     (if m = [] then [] else salsa20_loop (copy_bytes k 32) (copy_bytes n 8 @ store_ic 8 ic) m)"

section \<open>Numbered blocks\<close>

text \<open>The bytes of a key stream from position \<open>p\<close> on.\<close>

definition ks_bytes :: "(nat \<Rightarrow> bytes) \<Rightarrow> nat \<Rightarrow> nat \<Rightarrow> bytes" where
  "ks_bytes B p n = map (\<lambda>i. B (i div 64) ! (i mod 64)) [p..<p + n]"

lemma length_ks_bytes [simp, len_simps]: "length (ks_bytes B p n) = n"
  by (simp add: ks_bytes_def)

lemma ks_bytes_add: "ks_bytes B p (a + b) = ks_bytes B p a @ ks_bytes B (p + a) b"
  using upt_add_eq_append [of p "p + a" b] by (simp add: ks_bytes_def add.assoc)

lemma take_ks_bytes: "n \<le> m \<Longrightarrow> take n (ks_bytes B p m) = ks_bytes B p n"
  using ks_bytes_add [of B p n "m - n"] by simp

lemma drop_ks_bytes: "drop a (ks_bytes B p (a + n)) = ks_bytes B (p + a) n"
  by (simp add: ks_bytes_add)

lemma ks_bytes_block: "length (B b) = 64 \<Longrightarrow> ks_bytes B (64 * b) 64 = B b"
  by (rule nth_equalityI) (simp_all add: ks_bytes_def nth_append)

text \<open>
  What \<^verbatim>\<open>stream.c\<close> computes for a message at byte \<open>cnt\<close> of the stream: the block that holds the byte
  is entered from its start, with padding in front of the message that is dropped afterwards.
\<close>

definition xor_at :: "(bytes \<Rightarrow> u64 \<Rightarrow> bytes) \<Rightarrow> u64 \<Rightarrow> bytes \<Rightarrow> bytes" where
  "xor_at f cnt m = drop (unat cnt mod 64) (f (replicate (unat cnt mod 64) 0 @ m) (cnt div 64))"

locale block_stream =
  fixes xor_ic :: "bytes \<Rightarrow> u64 \<Rightarrow> bytes"
    and block :: "nat \<Rightarrow> bytes"
    and limit :: nat
  assumes xor_ic_blocks: "unat ic + nblocks m \<le> limit \<Longrightarrow>
      xor_ic m ic = map2 (XOR) (concat (map block [unat ic..<unat ic + nblocks m])) m"
    and length_block: "length (block i) = 64"
    and length_xor_ic: "length (xor_ic m ic) = length m"
begin

lemma concat_blocks: "concat (map block [b..<b + n]) = ks_bytes block (64 * b) (64 * n)"
proof (induction n)
  case (Suc n)
  then show ?case
    using ks_bytes_add [of block "64 * b" "64 * n" 64] ks_bytes_block [of block "b + n", OF length_block]
    by (simp add: distrib_left add.commute)
qed (simp add: ks_bytes_def)

lemma xor_ic_at:
  assumes "unat ic + nblocks m \<le> limit"
  shows "xor_ic m ic = map2 (XOR) (ks_bytes block (64 * unat ic) (length m)) m"
proof -
  let ?K = "ks_bytes block (64 * unat ic) (64 * nblocks m)"
  have "xor_ic m ic = map2 (XOR) ?K m"
    using xor_ic_blocks [OF assms] concat_blocks [of "unat ic" "nblocks m"] by simp
  also have "\<dots> = map2 (XOR) (take (length m) ?K) m"
    by (simp add: map2_take_left)
  also have "take (length m) ?K = ks_bytes block (64 * unat ic) (length m)"
    by (rule take_ks_bytes [OF nblocks_enough])
  finally show ?thesis .
qed

lemma length_xor_at [simp]: "length (xor_at xor_ic cnt m) = length m"
  by (simp add: xor_at_def length_xor_ic)

text \<open>The message is combined with the key stream from byte \<open>cnt\<close> on.\<close>

lemma xor_at_ks:
  assumes "unat cnt + length m \<le> 64 * limit"
  shows "xor_at xor_ic cnt m = map2 (XOR) (ks_bytes block (unat cnt) (length m)) m"
proof -
  let ?p = "unat cnt mod 64"
  let ?z = "replicate ?p (0 :: u8)"
  have ic: "unat (cnt div 64) = unat cnt div 64" by (simp add: unat_div)
  have "64 * (unat cnt div 64) + ?p = unat cnt" by simp
  then have "unat cnt div 64 + (?p + length m + 63) div 64 \<le> limit"
    using assms by linarith
  then have "xor_ic (?z @ m) (cnt div 64) = map2 (XOR) (ks_bytes block (64 * (unat cnt div 64)) (?p + length m)) (?z @ m)"
    using xor_ic_at [of "cnt div 64" "?z @ m"] ic by (simp add: nblocks_def)
  then have "xor_at xor_ic cnt m = map2 (XOR) (ks_bytes block (64 * (unat cnt div 64) + ?p) (length m)) m"
    using drop_ks_bytes [of ?p block "64 * (unat cnt div 64)" "length m"]
    by (simp add: xor_at_def drop_map drop_zip)
  then show ?thesis by simp
qed

lemma xor_at_append:
  assumes "unat cnt + length a + length b \<le> 64 * limit" "unat cnt + length a < 2 ^ 64"
  shows "xor_at xor_ic cnt (a @ b) = xor_at xor_ic cnt a @ xor_at xor_ic (cnt + of_nat (length a)) b"
proof -
  have "unat (cnt + of_nat (length a)) = unat cnt + length a"
    using assms(2) by (simp add: unat_word_ariths unsigned_of_nat take_bit_nat_eq_self)
  then show ?thesis
    using assms by (simp add: xor_at_ks ks_bytes_add)
qed

lemma xor_at_undo:
  assumes "unat cnt + length m \<le> 64 * limit"
  shows "xor_at xor_ic cnt (xor_at xor_ic cnt m) = m"
  using assms by (simp add: xor_at_ks map2_xor_involution)

end

section \<open>Salsa20 is such a stream\<close>

lemma length_salsa_step: "length (salsa_step q x) = length x"
  by (simp add: salsa_step_def split: prod.splits)

lemma length_fold_step: "length (fold salsa_step qs x) = length x"
  by (induction qs arbitrary: x) (simp_all add: length_salsa_step)

lemma length_salsa_rounds: "length (salsa_rounds n x) = length x"
  by (induction n arbitrary: x) (simp_all add: length_fold_step)

lemma length_core_salsa20 [simp, len_simps]: "length (crypto_core_salsa20 inp k c) = 64"
  by (simp add: crypto_core_salsa20_def crypto_core_salsa_def salsa_input_def Let_def length_salsa_rounds)

lemma length_store_ic [simp, len_simps]: "length (store_ic n ic) = n"
  by (induction n arbitrary: ic) simp_all

lemma store_ic_value: "le_value (store_ic n ic) = unat ic mod 256 ^ n"
proof (induction n arbitrary: ic)
  case (Suc n)
  have "ic AND 0xff = take_bit 8 ic"
    by (simp add: take_bit_eq_mask mask_eq_exp_minus_1)
  then have "unat (ucast (ic AND 0xff) :: u8) = unat ic mod 256"
    by (simp add: unsigned_ucast_eq unsigned_take_bit_eq take_bit_eq_mod unat_mod)
  moreover have "unat (drop_bit 8 ic) = unat ic div 256"
    by (simp add: drop_bit_eq_div unat_div)
  ultimately show ?case
    using Suc by (simp add: mod_mult2_eq)
qed simp

definition salsa_block :: "bytes \<Rightarrow> bytes \<Rightarrow> nat \<Rightarrow> bytes" where
  "salsa_block n k i = crypto_core_salsa20 (copy_bytes n 8 @ store_ic 8 (of_nat i)) (copy_bytes k 32) None"

lemma length_copy_bytes [simp, len_simps]: "length (copy_bytes src n) = n"
  by (simp add: copy_bytes_def)

lemma salsa_next_counter:
  "salsa_next (copy_bytes n 8 @ store_ic 8 ic) = copy_bytes n 8 @ store_ic 8 (ic + 1)"
proof -
  have "increment_loop (1 :: u32) (store_ic 8 ic) = store_ic 8 (ic + 1)"
    by (rule le_value_inj) (simp_all add: increment_loop_value store_ic_value unat_word_ariths mod_Suc_eq)
  then show ?thesis
    by (simp add: salsa_next_def)
qed

lemma nblocks_less: "length m < 64 \<Longrightarrow> m \<noteq> [] \<Longrightarrow> nblocks m = 1"
  by (cases m) (auto simp: nblocks_def)

lemma nblocks_drop: "64 \<le> length m \<Longrightarrow> nblocks m = Suc (nblocks (drop 64 m))"
  by (simp add: nblocks_def)

lemma map2_xor_commute: "map2 (XOR) (xs :: bytes) ys = map2 (XOR) ys xs"
  by (induction xs ys rule: list_induct2') (simp_all add: xor.commute)

lemma map2_split64:
  assumes "length B = 64" "64 \<le> length m"
  shows "map2 f (B @ K) m = map2 f B (take 64 m) @ map2 f K (drop 64 m)"
  using assms by (simp add: zip_append1)

lemma salsa20_loop_blocks:
  "salsa20_loop (copy_bytes k 32) (copy_bytes n 8 @ store_ic 8 (of_nat b)) m =
    map2 (XOR) (concat (map (salsa_block n k) [b..<b + nblocks m])) m"
proof (induction "length m" arbitrary: b m rule: less_induct)
  case less
  let ?inp = "copy_bytes n 8 @ store_ic 8 (of_nat b)"
  show ?case
  proof (cases "64 \<le> length m")
    case True
    have "salsa20_loop (copy_bytes k 32) (salsa_next ?inp) (drop 64 m) =
        map2 (XOR) (concat (map (salsa_block n k) [Suc b..<Suc b + nblocks (drop 64 m)])) (drop 64 m)"
      using less [of "drop 64 m" "Suc b"] True salsa_next_counter [of n "of_nat b"] by (simp add: add.commute)
    then show ?thesis
      using True map2_xor_commute [of "salsa_block n k b" "take 64 m"]
      by (subst salsa20_loop.simps)
         (simp add: nblocks_drop upt_conv_Cons map2_split64 salsa_block_def map2_xor_commute [of "take 64 m"] del: upt_Suc)
  next
    case False
    then show ?thesis
      using nblocks_less [of m]
      by (subst salsa20_loop.simps) (auto simp: salsa_block_def map2_xor_commute [of m])
  qed
qed

interpretation salsa20: block_stream "\<lambda>m ic. salsa20_xor_ic m n ic k" "salsa_block n k" "2 ^ 64" for n k
proof
  fix m ic
  have l: "salsa20_loop (copy_bytes k 32) (copy_bytes n 8 @ store_ic 8 ic) m =
      map2 (XOR) (concat (map (salsa_block n k) [unat ic..<unat ic + nblocks m])) m"
    using salsa20_loop_blocks [of k n "unat ic" m] by simp
  then show "salsa20_xor_ic m n ic k = map2 (XOR) (concat (map (salsa_block n k) [unat ic..<unat ic + nblocks m])) m"
    by (simp add: salsa20_xor_ic_def)
  have "length (concat (map (salsa_block n k) is)) = 64 * length is" for "is"
    by (induction "is") (simp_all add: salsa_block_def)
  then show "length (salsa20_xor_ic m n ic k) = length m"
    using l nblocks_enough [of m] by (simp add: salsa20_xor_ic_def)
qed (simp add: salsa_block_def)

section \<open>ChaCha20 is such a stream\<close>

text \<open>The loop's own counter: 64 bits in the original cipher, 32 in the IETF variant.\<close>

definition chacha_counter :: "u64 \<Rightarrow> bytes" where
  "chacha_counter ic = le32 (ucast ic) @ le32 (ucast (drop_bit 32 ic))"

definition chacha_at :: "bytes \<Rightarrow> bytes \<Rightarrow> nat \<Rightarrow> chacha_state" where
  "chacha_at n k i = chacha_ivsetup (chacha_keysetup k) n (Some (chacha_counter (of_nat i)))"

definition ietf_at :: "bytes \<Rightarrow> bytes \<Rightarrow> nat \<Rightarrow> chacha_state" where
  "ietf_at n k i = chacha_ietf_ivsetup (chacha_keysetup k) n (Some (le32 (of_nat i)))"

lemma from_le32_le32: "from_le32 (ucast w) (ucast (drop_bit 8 w)) (ucast (drop_bit 16 w)) (ucast (drop_bit 24 w)) = w"
proof (rule bit_eqI)
  fix n assume "possible_bit TYPE(u32) n"
  then have "n < 32" by simp
  then consider "n < 8" | "8 \<le> n" "n < 16" | "16 \<le> n" "n < 24" | "24 \<le> n" "n < 32"
    by linarith
  then show "bit (from_le32 (ucast w) (ucast (drop_bit 8 w)) (ucast (drop_bit 16 w)) (ucast (drop_bit 24 w))) n = bit w n"
    by cases (auto simp: from_le32_def bit_simps)
qed

lemma load32_le32: "load32_le (le32 w @ xs) 0 = w" "load32_le (le32 w) 0 = w"
  "load32_le (le32 v @ le32 w) 4 = w"
  using from_le32_le32 by (simp_all add: load32_le_def le32_def)

lemma high_half: "0 < (w :: nat) \<Longrightarrow> (x + 1) mod (w * w) div w mod w = (x + 1) div w mod w"
  by (simp add: mod_mult2_eq)

lemma block_counter_carry:
  fixes ic :: u64
  shows "(ucast (ic + 1) :: u32) = ucast ic + 1"
    and "(ucast (drop_bit 32 (ic + 1)) :: u32) = ucast (drop_bit 32 ic) + (if (ucast ic + 1 :: u32) = 0 then 1 else 0)"
proof -
  have lo: "unat (ucast c :: u32) = unat c mod 2 ^ 32" for c :: u64
    by (simp add: unsigned_ucast_eq take_bit_eq_mod)
  have hi: "unat (ucast (drop_bit 32 c) :: u32) = unat c div 2 ^ 32 mod 2 ^ 32" for c :: u64
    by (simp add: unsigned_ucast_eq take_bit_eq_mod drop_bit_eq_div unat_div)
  have s1: "unat (ic + 1) = (unat ic + 1) mod 2 ^ 64"
    by (simp add: unat_word_ariths)
  show l: "(ucast (ic + 1) :: u32) = ucast ic + 1"
    unfolding word_unat_eq_iff lo s1 by (simp add: unat_word_ariths lo mod_mod_cancel mod_Suc_eq)
  have z: "(ucast ic + 1 :: u32) = 0 \<longleftrightarrow> (unat ic + 1) mod 2 ^ 32 = 0"
    using lo [of "ic + 1"] s1 by (simp add: word_unat_eq_iff mod_mod_cancel flip: l)
  have "(unat ic + 1) mod 2 ^ 64 div 2 ^ 32 mod 2 ^ 32 =
      (unat ic div 2 ^ 32 + (if (unat ic + 1) mod 2 ^ 32 = 0 then 1 else 0)) mod 2 ^ 32"
    using high_half [of "2 ^ 32" "unat ic"] by (simp add: div_Suc)
  then show "(ucast (drop_bit 32 (ic + 1)) :: u32) = ucast (drop_bit 32 ic) + (if (ucast ic + 1 :: u32) = 0 then 1 else 0)"
    unfolding z word_unat_eq_iff [of "ucast (drop_bit 32 (ic + 1))"] hi s1 by (simp add: unat_word_ariths hi mod_add_left_eq mod_Suc_eq)
qed

lemma chacha_next_at: "chacha_next (chacha_at n k i) = chacha_at n k (Suc i)"
  using block_counter_carry [of "of_nat i"]
  by (auto simp: chacha_next_def chacha_at_def chacha_ivsetup_def chacha_counter_def load32_le32 nth_append
      list_update_append Let_def add.commute)

lemma ietf_next_at:
  assumes "Suc i < 2 ^ 32"
  shows "chacha_next (ietf_at n k i) = ietf_at n k (Suc i)"
proof -
  have "unat (of_nat i + 1 :: u32) = Suc i"
    using assms by (simp add: unat_word_ariths unsigned_of_nat take_bit_nat_eq_self)
  then have "(of_nat i + 1 :: u32) \<noteq> 0" by auto
  then show ?thesis
    by (auto simp: chacha_next_def ietf_at_def chacha_ietf_ivsetup_def load32_le32 nth_append
        list_update_append Let_def add.commute)
qed

lemma keystream_blocks:
  assumes "\<And>i. b \<le> i \<Longrightarrow> Suc i < b + n \<Longrightarrow> chacha_next (st i) = st (Suc i)"
  shows "keystream n (st b) = concat (map (\<lambda>i. keyblock (st i)) [b..<b + n])"
  using assms
proof (induction n arbitrary: b)
  case (Suc n)
  show ?case
  proof (cases n)
    case 0
    then show ?thesis by simp
  next
    case (Suc n')
    have "keystream n (st (Suc b)) = concat (map (\<lambda>i. keyblock (st i)) [Suc b..<Suc b + n])"
      using Suc.IH [of "Suc b"] Suc.prems by simp
    then show ?thesis
      using Suc.prems [of b] Suc by (simp add: upt_conv_Cons del: upt_Suc)
  qed
qed simp

interpretation chacha20: block_stream "\<lambda>m ic. stream_ref_xor_ic m n ic k" "\<lambda>i. keyblock (chacha_at n k i)" "2 ^ 64" for n k
proof
  fix m and ic :: u64
  have st: "chacha_ivsetup (chacha_keysetup k) n (Some (le32 (ucast ic) @ le32 (ucast (drop_bit 32 ic)))) =
      chacha_at n k (unat ic)"
    by (simp add: chacha_at_def chacha_counter_def)
  show "stream_ref_xor_ic m n ic k =
      map2 (XOR) (concat (map (\<lambda>i. keyblock (chacha_at n k i)) [unat ic..<unat ic + nblocks m])) m"
    unfolding stream_ref_xor_ic_eq st using keystream_blocks [of "unat ic" "nblocks m" "chacha_at n k"] chacha_next_at by simp
qed (simp_all add: chacha_at_def)

interpretation chacha20_ietf: block_stream "\<lambda>m ic. stream_ietf_ext_ref_xor_ic m n (ucast ic) k" "\<lambda>i. keyblock (ietf_at n k i)" "2 ^ 32" for n k
proof
  fix m and ic :: u64
  assume lim: "unat ic + nblocks m \<le> 2 ^ 32"
  show "stream_ietf_ext_ref_xor_ic m n (ucast ic) k =
      map2 (XOR) (concat (map (\<lambda>i. keyblock (ietf_at n k i)) [unat ic..<unat ic + nblocks m])) m"
  proof (cases "m = []")
    case False
    then have "0 < nblocks m" by (simp add: nblocks_def div_greater_zero_iff Suc_le_eq)
    then have "(ucast ic :: u32) = of_nat (unat ic)"
      by simp
    then have st: "chacha_ietf_ivsetup (chacha_keysetup k) n (Some (le32 (ucast ic))) = ietf_at n k (unat ic)"
      by (simp add: ietf_at_def)
    show ?thesis
      unfolding stream_ietf_ext_ref_xor_ic_eq st
      using keystream_blocks [of "unat ic" "nblocks m" "ietf_at n k"] ietf_next_at lim by simp
  qed (simp add: stream_ietf_ext_ref_xor_ic_def nblocks_def)
qed (simp_all add: ietf_at_def)

end
