(* ===== verification/SS_ChachaSpec.thy ===== *)
theory SS_ChachaSpec
  imports SS_Salsa
begin

text \<open>
  ChaCha20 as RFC 8439 defines it, on a matrix of four rows and with numbered blocks, and the proof that
  the unrolled loop of libsodium computes it: the block function of the code is that of the RFC, and block \<open>i\<close>
  of a message is encrypted under the counter plus \<open>i\<close>.
\<close>

section \<open>The definition of the RFC\<close>

text \<open>Section 2.1: the quarter round on four words.\<close>

definition qround :: "u32 \<times> u32 \<times> u32 \<times> u32 \<Rightarrow> u32 \<times> u32 \<times> u32 \<times> u32" where
  "qround = (\<lambda>(a, b, c, d).
     let a1 = a + b; d1 = word_rotl 16 (d XOR a1); c1 = c + d1; b1 = word_rotl 12 (b XOR c1);
         a2 = a1 + b1; d2 = word_rotl 8 (d1 XOR a2); c2 = c1 + d2; b2 = word_rotl 7 (b1 XOR c2)
     in (a2, b2, c2, d2))"

text \<open>
  Section 2.3: a round on the columns of the matrix, then one on its diagonals, ten times. A
  diagonal is a column after row \<open>i\<close> was rotated by \<open>i\<close>.
\<close>

type_synonym matrix = "u32 list \<times> u32 list \<times> u32 list \<times> u32 list"

definition on_columns :: "matrix \<Rightarrow> matrix" where
  "on_columns = (\<lambda>(a, b, c, d).
     let qs = map qround (zip a (zip b (zip c d)))
     in (map fst qs, map (fst \<circ> snd) qs, map (fst \<circ> snd \<circ> snd) qs, map (snd \<circ> snd \<circ> snd) qs))"

definition shift_rows :: "nat \<Rightarrow> matrix \<Rightarrow> matrix" where
  "shift_rows k = (\<lambda>(a, b, c, d). (a, rotate k b, rotate (2 * k) c, rotate (3 * k) d))"

definition inner_block :: "matrix \<Rightarrow> matrix" where
  "inner_block m = shift_rows 3 (on_columns (shift_rows 1 (on_columns m)))"

fun words_le :: "bytes \<Rightarrow> u32 list" where
  "words_le (a # b # c # d # bs) = from_le32 a b c d # words_le bs"
| "words_le _ = []"

definition rfc_matrix :: "bytes \<Rightarrow> bytes \<Rightarrow> matrix" where
  "rfc_matrix k cn = ([0x61707865, 0x3320646e, 0x79622d32, 0x6b206574], words_le (take 16 k), words_le (drop 16 k), words_le cn)"

definition flat :: "matrix \<Rightarrow> u32 list" where
  "flat = (\<lambda>(a, b, c, d). a @ b @ c @ d)"

text \<open>The block for a key of 32 bytes and 16 bytes of counter and nonce.\<close>

definition rfc_block :: "bytes \<Rightarrow> bytes \<Rightarrow> bytes" where
  "rfc_block k cn =
     (let m = rfc_matrix k cn in concat (map le32 (map2 (+) (flat ((inner_block ^^ 10) m)) (flat m))))"

text \<open>Section 2.4: the blocks of \<open>n\<close> consecutive counter values.\<close>

definition rfc_keystream :: "bytes \<Rightarrow> (nat \<Rightarrow> bytes) \<Rightarrow> nat \<Rightarrow> bytes" where
  "rfc_keystream k cn n = concat (map (\<lambda>i. rfc_block k (cn i)) [0..<n])"

section \<open>The rounds of the code\<close>

lemma quarterround_qround:
  assumes "distinct [a, b, c, d]" "a < length x" "b < length x" "c < length x" "d < length x"
  shows "quarterround a b c d x = (case qround (x ! a, x ! b, x ! c, x ! d) of (a', b', c', d') \<Rightarrow> x[a := a', b := b', c := c', d := d'])"
  using assms by (auto simp: quarterround_def qround_def Let_def nth_list_update intro!: nth_equalityI)

lemma doubleround_matrix:
  assumes "length a = 4" "length b = 4" "length c = 4" "length d = 4"
  shows "doubleround (flat (a, b, c, d)) = flat (inner_block (a, b, c, d))"
proof -
  obtain a0 a1 a2 a3 where a: "a = [a0, a1, a2, a3]" using assms(1) by (auto simp: eval_nat_numeral length_Suc_conv)
  obtain b0 b1 b2 b3 where b: "b = [b0, b1, b2, b3]" using assms(2) by (auto simp: eval_nat_numeral length_Suc_conv)
  obtain c0 c1 c2 c3 where c: "c = [c0, c1, c2, c3]" using assms(3) by (auto simp: eval_nat_numeral length_Suc_conv)
  obtain d0 d1 d2 d3 where d: "d = [d0, d1, d2, d3]" using assms(4) by (auto simp: eval_nat_numeral length_Suc_conv)
  show ?thesis
    by (simp add: a b c d flat_def doubleround_def quarterround_qround inner_block_def on_columns_def shift_rows_def
        rotate_drop_take split_beta Let_def)
qed

definition square :: "matrix \<Rightarrow> bool" where
  "square = (\<lambda>(a, b, c, d). length a = 4 \<and> length b = 4 \<and> length c = 4 \<and> length d = 4)"

lemma square_inner_block: "square m \<Longrightarrow> square (inner_block m)"
  by (cases m) (simp add: square_def inner_block_def on_columns_def shift_rows_def Let_def)

lemma doublerounds_matrix: "square m \<Longrightarrow> doublerounds n (flat m) = flat ((inner_block ^^ n) m)"
proof (induction n arbitrary: m)
  case (Suc n)
  then have "doubleround (flat m) = flat (inner_block m)"
    using doubleround_matrix by (cases m) (simp add: square_def)
  with Suc show ?case by (simp add: square_inner_block funpow_swap1)
qed simp

section \<open>The set-up of the code\<close>

lemma words_le_load32s: "length bs = 4 * n \<Longrightarrow> words_le bs = load32s n bs"
proof (induction n arbitrary: bs)
  case (Suc n)
  then obtain a b c d rest where bs: "bs = a # b # c # d # rest" and l: "length rest = 4 * n"
    using four_bytesE [of bs "4 * n"] by auto
  have "load32s (Suc n) bs = from_le32 a b c d # load32s n rest"
    by (simp add: load32s_def load32_le_def bs upt_conv_Cons map_Suc_upt [symmetric] add.commute del: upt_Suc)
  then show ?case using Suc.IH [OF l] by (simp add: bs)
qed (simp add: load32s_def)

lemma words_le_append: "length xs = 4 * n \<Longrightarrow> words_le (xs @ ys) = words_le xs @ words_le ys"
proof (induction n arbitrary: xs)
  case (Suc n)
  then obtain a b c d rest where "xs = a # b # c # d # rest" "length rest = 4 * n"
    using four_bytesE [of xs "4 * n"] by auto
  then show ?case using Suc.IH [of rest] by simp
qed simp

lemma length_words_le: "length bs = 4 * n \<Longrightarrow> length (words_le bs) = n"
  by (simp add: words_le_load32s)

lemma words_le_le32: "words_le (le32 w @ bs) = w # words_le bs"
  using from_le32_le32 [of w] by (simp add: le32_def)

lemma square_rfc: "length k = 32 \<Longrightarrow> length cn = 16 \<Longrightarrow> square (rfc_matrix k cn)"
  by (simp add: square_def rfc_matrix_def length_words_le)

lemma rfc_block_keyblock:
  assumes "length k = 32" "length cn = 16"
  shows "rfc_block k cn = keyblock (flat (rfc_matrix k cn))"
  using doublerounds_matrix [OF square_rfc [OF assms], of 10]
  by (simp add: rfc_block_def keyblock_def store32s_def Let_def)

lemma keysetup_matrix:
  assumes "length k = 32"
  shows "chacha_keysetup k @ words_le cn = flat (rfc_matrix k cn)"
proof -
  have "words_le (take 16 k) @ words_le (drop 16 k) = words_le k"
    using words_le_append [of "take 16 k" 4 "drop 16 k"] assms by simp
  then show ?thesis
    using assms words_le_load32s [of k 8] by (simp add: chacha_keysetup_def flat_def rfc_matrix_def)
qed

lemma chacha_at_rfc:
  assumes "length k = 32" "length n = 8"
  shows "keyblock (chacha_at n k i) = rfc_block k (chacha_counter (of_nat i) @ n)"
proof -
  have "words_le n = [load32_le n 0, load32_le n 4]"
    using words_le_load32s [of n 2] assms(2) by (simp add: load32s_def eval_nat_numeral)
  then have "words_le (chacha_counter (of_nat i) @ n) = [ucast (of_nat i :: u64), ucast (drop_bit 32 (of_nat i :: u64)), load32_le n 0, load32_le n 4]"
    by (simp add: chacha_counter_def words_le_le32)
  then have "chacha_at n k i = chacha_keysetup k @ words_le (chacha_counter (of_nat i) @ n)"
    by (simp add: chacha_at_def chacha_ivsetup_def chacha_counter_def load32_le32)
  then show ?thesis
    using assms by (simp add: rfc_block_keyblock keysetup_matrix chacha_counter_def)
qed

lemma ietf_at_rfc:
  assumes "length k = 32" "length n = 12"
  shows "keyblock (ietf_at n k i) = rfc_block k (le32 (of_nat i) @ n)"
proof -
  have "words_le n = [load32_le n 0, load32_le n 4, load32_le n 8]"
    using words_le_load32s [of n 3] assms(2) by (simp add: load32s_def eval_nat_numeral)
  then have "ietf_at n k i = chacha_keysetup k @ words_le (le32 (of_nat i) @ n)"
    by (simp add: ietf_at_def chacha_ietf_ivsetup_def load32_le32 words_le_le32)
  then show ?thesis
    using assms by (simp add: rfc_block_keyblock keysetup_matrix)
qed

section \<open>The stream functions\<close>

lemma blocks_from: "concat (map f [b..<b + n]) = concat (map (\<lambda>i. f (b + i)) [0..<n])"
  using map_add_upt [of b n, symmetric] by (simp add: add.commute comp_def)

lemma stream_ref_is_rfc:
  assumes "length k = 32" "length n = 8"
  shows "stream_ref_xor_ic m n ic k = map2 (XOR) (rfc_keystream k (\<lambda>i. chacha_counter (ic + of_nat i) @ n) (nblocks m)) m"
proof -
  have "chacha_ivsetup (chacha_keysetup k) n (Some (le32 (ucast ic) @ le32 (ucast (drop_bit 32 ic)))) = chacha_at n k (unat ic)"
    by (simp add: chacha_at_def chacha_counter_def)
  then show ?thesis
    using keystream_blocks [of "unat ic" "nblocks m" "chacha_at n k"] blocks_from [of "\<lambda>i. keyblock (chacha_at n k i)" "unat ic" "nblocks m"]
    by (simp add: stream_ref_xor_ic_eq chacha_next_at rfc_keystream_def chacha_at_rfc [OF assms])
qed

lemma stream_ietf_is_rfc:
  assumes "length k = 32" "length n = 12" "unat ic + nblocks m \<le> 2 ^ 32"
  shows "stream_ietf_ext_ref_xor_ic m n ic k = map2 (XOR) (rfc_keystream k (\<lambda>i. le32 (ic + of_nat i) @ n) (nblocks m)) m"
proof -
  have wide: "unat (ucast ic :: u64) = unat ic" "ucast (ucast ic :: u64) = ic"
  proof -
    have "unat ic < 2 ^ LENGTH(32)" by (rule unsigned_less)
    then show "unat (ucast ic :: u64) = unat ic" by (simp add: unsigned_ucast_eq take_bit_nat_eq_self)
    show "ucast (ucast ic :: u64) = ic" by (rule bit_eqI) (auto simp: bit_simps)
  qed
  show ?thesis
    using chacha20_ietf.xor_ic_blocks [of "ucast ic" m n k] blocks_from [of "\<lambda>i. keyblock (ietf_at n k i)" "unat ic" "nblocks m"] assms(3)
    by (simp add: rfc_keystream_def ietf_at_rfc [OF assms(1,2)] wide)
qed

end
