(* ===== verification/SS_PrimProps.thy ===== *)
theory SS_PrimProps
  imports SS_Example SS_ChachaSpec
begin

text \<open>
  The properties of the building blocks below the protocol: the digests and key derivation
  against their definitions, the stream cipher and the authenticated modes, the nonce filter,
  and the growable buffers.
\<close>

section \<open>Digests and key derivation\<close>

text \<open>C28: SHA-1 and MD5 are independent of how a message is cut. Feeding any list of pieces through
  \<open>mbedtls_sha1_update_ret\<close> (each below 4 GiB, whose length the code's 32-bit carry test can
  handle) gives the Merkle-Damgard digest of their concatenation: padding with 0x80, zeros and
  the 64-bit big-endian bit count to whole 64-byte blocks, each compressed in turn; and likewise for
  \<open>mbedtls_md5_update_ret\<close>, with the bit count in little-endian order.\<close>

theorem digest_streaming:
  assumes "\<forall>x \<in> set xs. length x < 2 ^ 32"
  shows "mbedtls_sha1_finish_ret (foldl mbedtls_sha1_update_ret mbedtls_sha1_starts_ret xs) =
    concat (map be32 (fst (md_absorb mbedtls_internal_sha1_process sha1_iv
      (md_pad (\<lambda>high low. be32 high @ be32 low) (concat xs)))))
   \<and> mbedtls_md5_finish_ret (foldl mbedtls_md5_update_ret mbedtls_md5_starts_ret xs) =
    concat (map le32 (fst (md_absorb mbedtls_internal_md5_process md5_iv
      (md_pad (\<lambda>high low. le32 low @ le32 high) (concat xs)))))"
  using sha1_pieces [OF assms] md5_pieces [OF assms] by blast

theorem digest_streaming_witness:
  "mbedtls_sha1_finish_ret (foldl mbedtls_sha1_update_ret mbedtls_sha1_starts_ret [[1, 2], replicate 100 3]) =
    concat (map be32 (fst (md_absorb mbedtls_internal_sha1_process sha1_iv
      (md_pad (\<lambda>high low. be32 high @ be32 low) ([1, 2] @ replicate 100 3)))))"
  using digest_streaming [of "[[1, 2], replicate 100 3]"] by simp

text \<open>C26: \<open>crypto_hkdf\<close> is HKDF of RFC 5869: with SHA-1 it extracts with HMAC under the salt and
  expands to the first \<open>L\<close> bytes of T(1), T(2), ..., written to the output array, whenever at
  most 255 blocks are needed, and reports an error otherwise.\<close>

theorem hkdf_is_rfc5869:
  assumes "L \<le> length out"
  shows "crypto_hkdf mbedtls_sha1_info (Some s) (int (length s)) ikm (int (length ikm))
            (Some info) (int (length info)) (Some out) (int L) =
     (if ceil_div L 20 \<le> 255
      then (0, Some (memcpy_at out 0 (hkdf_okm mbedtls_sha1_info (mbedtls_md_hmac mbedtls_sha1_info s ikm) info L)))
      else (1, Some out))"
  using crypto_hkdf_eq [OF digest_infos_ok(1) _ assms, of s ikm info]
  by (simp add: mbedtls_sha1_info_def)

theorem hkdf_is_rfc5869_witness:
  "crypto_hkdf mbedtls_sha1_info (Some [1]) 1 [2] 1 (Some []) 0 (Some (replicate 64 0)) 32 =
     (0, Some (memcpy_at (replicate 64 0) 0
        (hkdf_okm mbedtls_sha1_info (mbedtls_md_hmac mbedtls_sha1_info [1] [2]) [] 32)))"
  using hkdf_is_rfc5869 [of 32 "replicate 64 0" "[1]" "[2]" "[]"] by (simp add: ceil_div_def)

text \<open>C29: the password-to-key function \<open>crypto_derive_key\<close> with MD5, for a key that fits into its array and is shorter than
  \<open>2 ^ 31\<close> bytes (the index of the loop and the result are of 32 bits). When the digest context can be allocated, it ends, returns the length,
  writes the first \<open>L\<close> bytes of D(0), D(1), ..., where D(0) is the digest of the password and
  each further D(i+1) the digest of D(i) followed by the password, and leaves the rest of the array as it was;
  otherwise it returns 0 and writes nothing.\<close>

theorem derive_key_is_bytes_to_key:
  assumes "L \<le> length k" "L < 2 ^ 31"
  shows "crypto_derive_key alloc mbedtls_md5_ret pass k L =
     Some (Inr (if alloc
       then (int L, take L (concat (map (evp_D mbedtls_md5_ret pass) [0..<ceil_div L md5_size])) @ drop L k)
       else (0, k)))"
proof -
  have "length (concat (map (evp_D mbedtls_md5_ret pass) [0..<ceil_div L md5_size])) = ceil_div L md5_size * md5_size"
    by (subst length_concat_map_const [where h = md5_size]) (simp_all add: length_evp_D md5_size_def)
  then have "L \<le> length (concat (map (evp_D mbedtls_md5_ret pass) [0..<ceil_div L md5_size]))"
    using ceil_div_bounds(2) [of md5_size L] by (simp add: md5_size_def)
  with crypto_derive_key_eq [of mbedtls_md5_ret L k pass] assms show ?thesis
    by (cases alloc) (simp_all add: md5_size_def memcpy_at_def crypto_derive_key_def)
qed

theorem derive_key_is_bytes_to_key_witness:
  "crypto_derive_key True mbedtls_md5_ret [112] (replicate 64 0) 32 =
     Some (Inr (32, take 32 (evp_D mbedtls_md5_ret [112] 0 @ evp_D mbedtls_md5_ret [112] 1) @ replicate 32 0))"
  using derive_key_is_bytes_to_key [of 32 "replicate 64 0" True "[112]"]
  by (simp add: ceil_div_def md5_size_def upt_rec)

section \<open>Ciphers\<close>

text \<open>C30: the unrolled ChaCha20 loop is ChaCha20 of RFC 8439. With a key of 32 bytes, block \<open>i\<close> of the message is XORed with the block
  function of the RFC (ten times a round on the columns and one on the diagonals of the matrix, then the
  feed-forward) at the initial counter plus \<open>i\<close>, the last block cut: with a counter of 64 bits and a nonce of 8 bytes in the original layout, and
  with 32 bits and 12 bytes in that of the RFC, as long as its counter does not wrap around. The result has the length of the message,
  and a second application with the same counter restores it.\<close>

theorem chacha20_is_keystream_xor:
  assumes "length k = 32" "length n = 8" "length n' = 12" "unat ic' + nblocks m \<le> 2 ^ 32"
  shows "stream_ref_xor_ic m n ic k =
     map2 (XOR) (concat (map (\<lambda>i. rfc_block k (chacha_counter (ic + of_nat i) @ n)) [0..<nblocks m])) m
   \<and> stream_ietf_ext_ref_xor_ic m n' ic' k =
     map2 (XOR) (concat (map (\<lambda>i. rfc_block k (le32 (ic' + of_nat i) @ n')) [0..<nblocks m])) m
   \<and> length (stream_ref_xor_ic m n ic k) = length m \<and> length (stream_ietf_ext_ref_xor_ic m n' ic' k) = length m
   \<and> stream_ref_xor_ic (stream_ref_xor_ic m n ic k) n ic k = m
   \<and> stream_ietf_ext_ref_xor_ic (stream_ietf_ext_ref_xor_ic m n' ic' k) n' ic' k = m"
proof (intro conjI)
  show "stream_ref_xor_ic m n ic k = map2 (XOR) (concat (map (\<lambda>i. rfc_block k (chacha_counter (ic + of_nat i) @ n)) [0..<nblocks m])) m"
    using stream_ref_is_rfc [OF assms(1,2)] by (simp add: rfc_keystream_def)
  show "stream_ietf_ext_ref_xor_ic m n' ic' k = map2 (XOR) (concat (map (\<lambda>i. rfc_block k (le32 (ic' + of_nat i) @ n')) [0..<nblocks m])) m"
    using stream_ietf_is_rfc [OF assms(1,3,4)] by (simp add: rfc_keystream_def)
qed (simp_all add: stream_xor_involution)

theorem chacha20_is_keystream_xor_witness:
  "stream_ietf_ext_ref_xor_ic (replicate 100 1) (replicate 12 2) 5 (replicate 32 3) =
     map2 (XOR) (rfc_block (replicate 32 3) (le32 5 @ replicate 12 2) @ rfc_block (replicate 32 3) (le32 6 @ replicate 12 2)) (replicate 100 1)"
proof -
  have "nblocks (replicate 100 1) = 2" "[0..<2] = [0, 1 :: nat]" by (simp_all add: nblocks_def upt_rec)
  then show ?thesis
    using chacha20_is_keystream_xor [of "replicate 32 3" "replicate 8 0" "replicate 12 2" 5 "replicate 100 1" 0] by simp
qed

text \<open>C27: ChaCha20-Poly1305 (IETF) and XChaCha20-Poly1305 (IETF): every message within the limit is
  sealed to its length plus 16 bytes, opening the result under the same key, nonce and
  additional data gives the message back, and nothing shorter than a tag is ever opened.\<close>

theorem aead_modes_roundtrip:
  "\<forall>m n k. length m \<le> ietf_MESSAGEBYTES_MAX \<longrightarrow>
     (\<exists>c. crypto_aead_chacha20poly1305_ietf_encrypt m [] n k = Some c \<and> length c = length m + 16
        \<and> crypto_aead_chacha20poly1305_ietf_decrypt c [] n k = Some m)
   \<and> (\<exists>c. crypto_aead_xchacha20poly1305_ietf_encrypt m [] n k = Some c \<and> length c = length m + 16
        \<and> crypto_aead_xchacha20poly1305_ietf_decrypt c [] n k = Some m)
   \<and> (\<forall>c. length c < 16 \<longrightarrow> crypto_aead_chacha20poly1305_ietf_decrypt c [] n k = None
        \<and> crypto_aead_xchacha20poly1305_ietf_decrypt c [] n k = None)"
proof (intro allI impI)
  fix m n k :: bytes
  assume m: "length m \<le> ietf_MESSAGEBYTES_MAX"
  then have x: "length m \<le> xchacha_MESSAGEBYTES_MAX"
    by (simp add: ietf_MESSAGEBYTES_MAX_def xchacha_MESSAGEBYTES_MAX_def)
  have t: "ABYTES = 16" by (simp add: ABYTES_def)
  show "(\<exists>c. crypto_aead_chacha20poly1305_ietf_encrypt m [] n k = Some c \<and> length c = length m + 16
        \<and> crypto_aead_chacha20poly1305_ietf_decrypt c [] n k = Some m)
   \<and> (\<exists>c. crypto_aead_xchacha20poly1305_ietf_encrypt m [] n k = Some c \<and> length c = length m + 16
        \<and> crypto_aead_xchacha20poly1305_ietf_decrypt c [] n k = Some m)
   \<and> (\<forall>c. length c < 16 \<longrightarrow> crypto_aead_chacha20poly1305_ietf_decrypt c [] n k = None
        \<and> crypto_aead_xchacha20poly1305_ietf_decrypt c [] n k = None)"
    using chacha.enc_Some [OF m, of n k] xchacha.enc_Some [OF x, of n k] chacha.enc_length [of m n k]
      xchacha.enc_length [of m n k] chacha.dec_enc [of m n k] xchacha.dec_enc [of m n k]
      chacha.dec_short xchacha.dec_short unfolding t by blast
qed

theorem aead_modes_roundtrip_witness:
  "\<exists>c. crypto_aead_chacha20poly1305_ietf_encrypt [1, 2] [] (replicate 12 0) (replicate 32 7) = Some c
     \<and> length c = 18 \<and> crypto_aead_chacha20poly1305_ietf_decrypt c [] (replicate 12 0) (replicate 32 7) = Some [1, 2]"
  using aead_modes_roundtrip [THEN spec, of "[1, 2]"]
  by (auto simp: ietf_MESSAGEBYTES_MAX_def ABYTES_def)

text \<open>Poly1305 is independent of how a message is cut, and the tag comparison is exact: the
  branch-free \<open>crypto_verify_16\<close> accepts only equal tags.\<close>

theorem poly1305_pieces_and_compare:
  assumes "length x = 16" "length y = 16"
  shows "foldl poly1305_update (poly1305_update (poly1305_init k) []) xs = poly1305_update (poly1305_init k) (concat xs)
   \<and> crypto_verify_16 x y = (if x = y then 0 else -1)"
proof -
  have b: "p_buffer (poly1305_init k) = []" by (simp add: poly1305_init_def)
  have "foldl poly1305_update (poly1305_update (poly1305_init k) m) xs = poly1305_update (poly1305_init k) (m @ concat xs)" for m
    by (induction xs arbitrary: m) (simp_all add: poly1305_update_append [OF b])
  then show ?thesis using crypto_verify_16_iff [OF assms] by simp
qed

theorem poly1305_pieces_and_compare_witness:
  "crypto_verify_16 (replicate 16 1) (replicate 15 1 @ [2]) = -1"
  using poly1305_pieces_and_compare [of "replicate 16 1" "replicate 15 1 @ [2]"] by (simp add: eval_nat_numeral)

section \<open>The nonce filter\<close>

text \<open>A Bloom filter has no false negatives: after an element was added, it is found whatever
  else is added later, and every operation keeps the bit array at its size.\<close>

theorem bloom_no_false_negatives:
  assumes "bloom_wf bl"
  defines "add \<equiv> \<lambda>b k. snd (bloom_add b k)"
  shows "bloom_check (foldl add (add bl x) ys) x = 1 \<and> bloom_wf (foldl add (add bl x) ys)"
proof -
  have "bloom_wf b \<Longrightarrow> bloom_has b x \<Longrightarrow> bloom_has (foldl add b ys) x \<and> bloom_wf (foldl add b ys)" for b
    by (induction ys arbitrary: b) (simp_all add: add_def bloom_add_props(2,4))
  then have "bloom_has (foldl add (add bl x) ys) x \<and> bloom_wf (foldl add (add bl x) ys)"
    using bloom_add_props(2,3) [OF assms(1)] by (simp add: add_def)
  then show ?thesis by (simp add: bloom_check_has)
qed

theorem bloom_no_false_negatives_witness:
  "bloom_check (foldl (\<lambda>b k. snd (bloom_add b k)) (snd (bloom_add (snd (bloom_init lc_ex blank_bloom 50 (1 / 10 ^ 6))) [7])) [[1], [2]]) [7] = 1"
  using bloom_no_false_negatives [OF bloom_init_wf(2) [OF params_ex], of blank_bloom "[7]" "[[1], [2]]"]
  by (simp add: c_div_def)

text \<open>C25: the ping-pong filter remembers a window: an element added to it is still found after any
  further additions numbering less than \<open>entries\<close>, half the capacity given to \<open>ppbloom_init\<close>,
  even though the older of the two filters is thrown away whenever the newer one is full.\<close>

theorem ppbloom_window:
  assumes "pp_wf lc pp" "int (length ys) < pp_entries pp"
  defines "add \<equiv> \<lambda>p k. snd (ppbloom_add lc p k)"
  shows "ppbloom_check (foldl add (add pp x) ys) x = 1"
proof -
  have "add = pp_add lc" by (simp add: add_def pp_add_def fun_eq_iff)
  then show ?thesis
    using pp_seen_within_window [OF assms(1), of ys x] assms(2) by (simp add: pp_seen_def)
qed

theorem ppbloom_window_witness:
  "ppbloom_check (foldl (\<lambda>p k. snd (ppbloom_add lc_ex p k)) (snd (ppbloom_add lc_ex (ppb state_ex) [7]))
     (map (\<lambda>i. [of_nat i]) [0..<49])) [7] = 1"
  using ppbloom_window [of lc_ex "ppb state_ex" "map (\<lambda>i. [of_nat i]) [0..<49]" "[7]"] state_ex_wf state_ex_entries
  by (simp add: state_wf_def)

section \<open>Buffers\<close>

text \<open>The growable buffers. \<open>bprepend\<close> puts one buffer's bytes in front of another's, \<open>brealloc\<close>
  grows without losing a byte and never shrinks, and both keep the array exactly as long as
  its recorded capacity, so neither writes outside it.\<close>

theorem buffer_operations:
  assumes "buf_wf dst" "buf_wf src"
  shows "buf_wf (snd (bprepend lc dst src cap))
     \<and> contents (snd (bprepend lc dst src cap)) = contents src @ contents dst
     \<and> fst (bprepend lc dst src cap) = len dst + len src
     \<and> (\<exists>b. brealloc lc (Some dst) n cap = (int (max n cap), Some b) \<and> buf_wf b \<and> contents b = contents dst
          \<and> n \<le> capacity b \<and> capacity dst \<le> capacity b)"
proof -
  have "fst (bprepend lc dst src cap) = len dst + len src"
    using brealloc_buf_props(2) [OF assms(1)] by (simp add: bprepend_def Let_def)
  then show ?thesis
    using bprepend_props [OF assms] brealloc_buf_props [OF assms(1), where lc = lc and n = n and cap = cap]
    by (simp add: brealloc_def)
qed

theorem buffer_operations_witness:
  "contents (snd (bprepend lc_ex (filled lc_ex 4 [3, 4]) (filled lc_ex 1 [1, 2]) 2)) = [1, 2, 3, 4]"
  using buffer_operations [OF filled_props(1) filled_props(1), of lc_ex lc_ex 4 "[3, 4]" lc_ex 1 "[1, 2]" 2]
  by (simp add: filled_props(2))

end
