(* ===== verification/SS_Uthash.thy ===== *)
theory SS_Uthash
  imports SS_Prelude "HOL-Library.Multiset"
begin

text \<open>
  The hash table of \<^verbatim>\<open>src/uthash.h\<close> that the connection cache and the block list use: the
  Jenkins hash, the buckets with their chains and counters, insertion with the doubling of the
  bucket array, lookup and deletion. The linked lists are lists: \<open>app_order\<close> is the list of
  the elements in insertion order (the \<^verbatim>\<open>prev\<close>/\<^verbatim>\<open>next\<close> links, whose last one is
  \<^verbatim>\<open>tail\<close>), \<open>hh_head\<close> the chain of a bucket (the \<^verbatim>\<open>hh_prev\<close>/\<^verbatim>\<open>hh_next\<close>
  links). An element is identified by its address; counters are 32-bit words. The table of a
  null head is \<open>None\<close>. The locale \<open>keyed_table\<close> is the contract a client of the table relies
  on; it is interpreted on the table at the end.
\<close>

section \<open>The Jenkins hash\<close>

definition HASH_JEN_MIX :: "u32 \<times> u32 \<times> u32 \<Rightarrow> u32 \<times> u32 \<times> u32" where
  "HASH_JEN_MIX abc =
     (case abc of (a, b, c) \<Rightarrow>
      let a = (a - b - c) XOR drop_bit 13 c;
          b = (b - c - a) XOR push_bit 8 a;
          c = (c - a - b) XOR drop_bit 13 b;
          a = (a - b - c) XOR drop_bit 12 c;
          b = (b - c - a) XOR push_bit 16 a;
          c = (c - a - b) XOR drop_bit 5 b;
          a = (a - b - c) XOR drop_bit 3 c;
          b = (b - c - a) XOR push_bit 10 a;
          c = (c - a - b) XOR drop_bit 15 b
      in (a, b, c))"

text \<open>Byte \<open>n\<close> of the key shifted into place, zero when the key is shorter.\<close>

definition key_byte :: "bytes \<Rightarrow> nat \<Rightarrow> nat \<Rightarrow> u32" where
  "key_byte k n s = (if n < length k then push_bit s (ucast (k ! n)) else 0)"

definition key_word :: "bytes \<Rightarrow> nat \<Rightarrow> u32" where
  "key_word k n = key_byte k n 0 + key_byte k (n + 1) 8 + key_byte k (n + 2) 16 + key_byte k (n + 3) 24"

fun jen_loop :: "u32 \<times> u32 \<times> u32 \<Rightarrow> bytes \<Rightarrow> (u32 \<times> u32 \<times> u32) \<times> bytes" where
  "jen_loop (i, j, h) k =
     (if 12 \<le> length k
      then jen_loop (HASH_JEN_MIX (i + key_word k 0, j + key_word k 4, h + key_word k 8)) (drop 12 k)
      else ((i, j, h), k))"

text \<open>
  The switch on the remaining bytes falls through from its first case, so every remaining byte
  is added; bytes 8 to 10 go into the upper three bytes of \<^verbatim>\<open>hashv\<close>.
\<close>

definition HASH_JEN :: "bytes \<Rightarrow> u32" where
  "HASH_JEN k =
     (case jen_loop (0x9e3779b9, 0x9e3779b9, 0xfeedbeef) k of ((i, j, h), r) \<Rightarrow>
        let h = h + of_nat (length k);
            h = h + key_byte r 10 24 + key_byte r 9 16 + key_byte r 8 8
        in snd (snd (HASH_JEN_MIX (i + key_word r 0, j + key_word r 4, h))))"

section \<open>Elements, buckets, tables\<close>

record 'a ut_elem =
  el_addr :: nat
  el_key :: bytes
  el_keylen :: u32
  el_hashv :: u32
  el_val :: 'a

record 'a ut_bucket =
  hh_head :: "'a ut_elem list"
  bk_count :: u32
  expand_mult :: u32

record 'a ut_table =
  buckets :: "'a ut_bucket list"
  num_buckets :: u32
  log2_num_buckets :: u32
  num_items :: u32
  app_order :: "'a ut_elem list"
  ideal_chain_maxlen :: u32
  nonideal_items :: u32
  ineff_expands :: u32
  noexpand :: u32

definition HASH_INITIAL_NUM_BUCKETS :: nat where
  "HASH_INITIAL_NUM_BUCKETS = 32"

definition HASH_BKT_CAPACITY_THRESH :: u32 where
  "HASH_BKT_CAPACITY_THRESH = 10"

definition HASH_TO_BKT :: "u32 \<Rightarrow> u32 \<Rightarrow> nat" where
  "HASH_TO_BKT hashv num_bkts = unat (hashv AND (num_bkts - 1))"

text \<open>The elements of a table in insertion order, which is the order \<^verbatim>\<open>HASH_ITER\<close> visits.\<close>

definition HASH_ITER :: "'a ut_table option \<Rightarrow> 'a ut_elem list" where
  "HASH_ITER head = (case head of None \<Rightarrow> [] | Some t \<Rightarrow> app_order t)"

definition HASH_COUNT :: "'a ut_table option \<Rightarrow> u32" where
  "HASH_COUNT head = (case head of None \<Rightarrow> 0 | Some t \<Rightarrow> num_items t)"

section \<open>Lookup\<close>

definition HASH_FIND_IN_BKT :: "'a ut_bucket \<Rightarrow> bytes \<Rightarrow> u32 \<Rightarrow> 'a ut_elem option" where
  "HASH_FIND_IN_BKT b k hashval =
     List.find (\<lambda>out. el_hashv out = hashval \<and> unat (el_keylen out) = length k
                    \<and> take (length k) (el_key out) = k) (hh_head b)"

definition HASH_FIND :: "'a ut_table option \<Rightarrow> bytes \<Rightarrow> 'a ut_elem option" where
  "HASH_FIND head k =
     (let hashv = HASH_JEN k
      in case head of
           None \<Rightarrow> None
         | Some t \<Rightarrow> HASH_FIND_IN_BKT (buckets t ! HASH_TO_BKT hashv (num_buckets t)) k hashv)"

section \<open>Insertion\<close>

text \<open>Sizes of the C structures on a 64-bit target.\<close>

definition sizeof_UT_hash_bucket :: nat where "sizeof_UT_hash_bucket = 16"

definition sizeof_UT_hash_table :: nat where "sizeof_UT_hash_table = 64"

definition empty_bucket :: "'a ut_bucket" where
  "empty_bucket = \<lparr>hh_head = [], bk_count = 0, expand_mult = 0\<rparr>"

definition HASH_MAKE_TABLE :: "libc \<Rightarrow> 'a ut_elem \<Rightarrow> fault + 'a ut_table" where
  "HASH_MAKE_TABLE lc head =
     (if \<not> c_calloc lc sizeof_UT_hash_table then Inl (FATAL ''out of memory'')
      else if \<not> c_calloc lc (HASH_INITIAL_NUM_BUCKETS * sizeof_UT_hash_bucket)
      then Inl (FATAL ''out of memory'')
      else Inr \<lparr>buckets = replicate HASH_INITIAL_NUM_BUCKETS empty_bucket, num_buckets = 32,
                log2_num_buckets = 5, num_items = 0, app_order = [head], ideal_chain_maxlen = 0,
                nonideal_items = 0, ineff_expands = 0, noexpand = 0\<rparr>)"

text \<open>One element moved to the doubled bucket array, and all of them, chain by chain.\<close>

definition expand_step ::
  "u32 \<Rightarrow> u32 \<Rightarrow> 'a ut_bucket list \<times> u32 \<Rightarrow> 'a ut_elem \<Rightarrow> 'a ut_bucket list \<times> u32" where
  "expand_step num2 ideal acc thh =
     (case acc of (bks, nonideal) \<Rightarrow>
        let i = HASH_TO_BKT (el_hashv thh) num2;
            newbkt = bks ! i;
            c = bk_count newbkt + 1;
            mult = (if ideal < c then c div ideal else expand_mult newbkt)
        in (bks[i := \<lparr>hh_head = thh # hh_head newbkt, bk_count = c, expand_mult = mult\<rparr>],
            if ideal < c then nonideal + 1 else nonideal))"

definition expand_chains ::
  "u32 \<Rightarrow> u32 \<Rightarrow> 'a ut_bucket list \<Rightarrow> 'a ut_bucket list \<times> u32 \<Rightarrow> 'a ut_bucket list \<times> u32" where
  "expand_chains num2 ideal bks acc =
     foldl (\<lambda>acc b. foldl (expand_step num2 ideal) acc (hh_head b)) acc bks"

definition ideal_len :: "'a ut_table \<Rightarrow> u32" where
  "ideal_len t = drop_bit (unat (log2_num_buckets t + 1)) (num_items t)
      + (if num_items t AND (num_buckets t * 2 - 1) \<noteq> 0 then 1 else 0)"

definition HASH_EXPAND_BUCKETS :: "libc \<Rightarrow> 'a ut_table \<Rightarrow> fault + 'a ut_table" where
  "HASH_EXPAND_BUCKETS lc t =
     (let n2 = 2 * unat (num_buckets t)
      in if \<not> c_calloc lc (n2 * sizeof_UT_hash_bucket) then Inl (FATAL ''out of memory'')
         else let ideal = ideal_len t;
                  (bks, nonideal) = expand_chains (num_buckets t * 2) ideal (buckets t)
                                      (replicate n2 empty_bucket, 0);
                  ineff = (if drop_bit 1 (num_items t) < nonideal then ineff_expands t + 1 else 0)
              in Inr (t\<lparr>buckets := bks, num_buckets := num_buckets t * 2,
                        log2_num_buckets := log2_num_buckets t + 1,
                        ideal_chain_maxlen := ideal, nonideal_items := nonideal,
                        ineff_expands := ineff,
                        noexpand := (if 1 < ineff then 1 else noexpand t)\<rparr>))"

definition HASH_ADD_TO_BKT :: "libc \<Rightarrow> 'a ut_table \<Rightarrow> nat \<Rightarrow> 'a ut_elem \<Rightarrow> fault + 'a ut_table" where
  "HASH_ADD_TO_BKT lc t i addhh =
     (let b = buckets t ! i;
          b' = b\<lparr>bk_count := bk_count b + 1, hh_head := addhh # hh_head b\<rparr>;
          t' = t\<lparr>buckets := (buckets t)[i := b']\<rparr>
      in if (expand_mult b' + 1) * HASH_BKT_CAPACITY_THRESH \<le> bk_count b' \<and> noexpand t' \<noteq> 1
         then HASH_EXPAND_BUCKETS lc t' else Inr t')"

definition HASH_APPEND_LIST :: "'a ut_table \<Rightarrow> 'a ut_elem \<Rightarrow> 'a ut_table" where
  "HASH_APPEND_LIST t add = t\<lparr>app_order := app_order t @ [add]\<rparr>"

text \<open>The handle's hash, key and key length are set from the arguments before the element is linked.\<close>

definition keyed_elem :: "nat \<Rightarrow> bytes \<Rightarrow> 'a \<Rightarrow> 'a ut_elem" where
  "keyed_elem p k v =
     \<lparr>el_addr = p, el_key = k, el_keylen = of_nat (length k), el_hashv = HASH_JEN k, el_val = v\<rparr>"

definition HASH_ADD_KEYPTR ::
  "libc \<Rightarrow> 'a ut_table option \<Rightarrow> bytes \<Rightarrow> nat \<Rightarrow> 'a \<Rightarrow> fault + 'a ut_table option" where
  "HASH_ADD_KEYPTR lc head k p v =
     (let add = keyed_elem p k v;
          linked = (case head of
             None \<Rightarrow> HASH_MAKE_TABLE lc add
           | Some t \<Rightarrow> Inr (HASH_APPEND_LIST t add))
      in case linked of
           Inl f \<Rightarrow> Inl f
         | Inr t \<Rightarrow>
             (let t = t\<lparr>num_items := num_items t + 1\<rparr>;
                  bkt = HASH_TO_BKT (el_hashv add) (num_buckets t)
              in map_sum id Some (HASH_ADD_TO_BKT lc t bkt add)))"

section \<open>Deletion\<close>

definition unlink :: "'a ut_elem \<Rightarrow> 'a ut_elem list \<Rightarrow> 'a ut_elem list" where
  "unlink e es = filter (\<lambda>x. el_addr x \<noteq> el_addr e) es"

definition HASH_DEL_IN_BKT :: "'a ut_bucket \<Rightarrow> 'a ut_elem \<Rightarrow> 'a ut_bucket" where
  "HASH_DEL_IN_BKT b hh_del = b\<lparr>bk_count := bk_count b - 1, hh_head := unlink hh_del (hh_head b)\<rparr>"

text \<open>An element without neighbours in the application order is the last one: the table is freed.\<close>

definition HASH_DELETE :: "'a ut_table option \<Rightarrow> 'a ut_elem \<Rightarrow> 'a ut_table option" where
  "HASH_DELETE head delptr =
     (case head of
        None \<Rightarrow> None
      | Some t \<Rightarrow>
          if length (app_order t) = 1 then None
          else let bkt = HASH_TO_BKT (el_hashv delptr) (num_buckets t)
               in Some (t\<lparr>app_order := unlink delptr (app_order t),
                          buckets := (buckets t)[bkt := HASH_DEL_IN_BKT (buckets t ! bkt) delptr],
                          num_items := num_items t - 1\<rparr>))"

definition HASH_CLEAR :: "'a ut_table option \<Rightarrow> 'a ut_table option" where
  "HASH_CLEAR head = None"

section \<open>Invariant\<close>

text \<open>
  The bucket array has a power of two of buckets, the chain of a bucket holds exactly the
  elements whose hash selects it, and the counters count.
\<close>

definition bkt_of :: "'a ut_table \<Rightarrow> 'a ut_elem \<Rightarrow> nat" where
  "bkt_of t e = HASH_TO_BKT (el_hashv e) (num_buckets t)"

definition chains_ok :: "u32 \<Rightarrow> 'a ut_bucket list \<Rightarrow> 'a ut_elem multiset \<Rightarrow> bool" where
  "chains_ok n bks es \<longleftrightarrow>
     (\<forall>i < length bks.
        mset (hh_head (bks ! i)) = filter_mset (\<lambda>e. HASH_TO_BKT (el_hashv e) n = i) es
        \<and> bk_count (bks ! i) = of_nat (length (hh_head (bks ! i))))"

definition pow2_ok :: "'a ut_table \<Rightarrow> bool" where
  "pow2_ok t \<longleftrightarrow> unat (log2_num_buckets t) < 32
     \<and> num_buckets t = 2 ^ unat (log2_num_buckets t)
     \<and> length (buckets t) = 2 ^ unat (log2_num_buckets t)"

definition elem_ok :: "'a ut_elem \<Rightarrow> bool" where
  "elem_ok e \<longleftrightarrow> length (el_key e) < 2 ^ 32 \<and> e = keyed_elem (el_addr e) (el_key e) (el_val e)"

definition table_ok :: "'a ut_table \<Rightarrow> bool" where
  "table_ok t \<longleftrightarrow> pow2_ok t \<and> chains_ok (num_buckets t) (buckets t) (mset (app_order t))
     \<and> length (app_order t) < 2 ^ 32 \<and> num_items t = of_nat (length (app_order t))
     \<and> distinct (map el_addr (app_order t)) \<and> (\<forall>e \<in> set (app_order t). elem_ok e)"

definition ut_wf :: "'a ut_table option \<Rightarrow> bool" where
  "ut_wf head = (case head of None \<Rightarrow> True | Some t \<Rightarrow> app_order t \<noteq> [] \<and> table_ok t)"

lemma HASH_TO_BKT_less:
  assumes "l < 32"
  shows "HASH_TO_BKT h (2 ^ l) < 2 ^ l"
proof -
  have "h AND (2 ^ l - 1) = take_bit l h"
    by (simp add: take_bit_eq_mask mask_eq_exp_minus_1)
  then have "HASH_TO_BKT h (2 ^ l) = take_bit l (unat h)"
    by (simp add: HASH_TO_BKT_def unsigned_take_bit_eq)
  then show ?thesis
    by simp
qed

lemma pow2_ok_bkt: "pow2_ok t \<Longrightarrow> HASH_TO_BKT h (num_buckets t) < length (buckets t)"
  by (simp add: pow2_ok_def HASH_TO_BKT_less)

lemma chains_okD:
  assumes "chains_ok n bks es" "i < length bks"
  shows "mset (hh_head (bks ! i)) = filter_mset (\<lambda>e. HASH_TO_BKT (el_hashv e) n = i) es"
    and "bk_count (bks ! i) = of_nat (length (hh_head (bks ! i)))"
  using assms by (auto simp: chains_ok_def)

text \<open>Linking an element into its chain, and the chains of an empty array.\<close>

lemma chains_ok_insert:
  assumes "chains_ok n bks es" and "i = HASH_TO_BKT (el_hashv e) n" and "i < length bks"
    and "hh_head b = e # hh_head (bks ! i)" and "bk_count b = bk_count (bks ! i) + 1"
  shows "chains_ok n (bks[i := b]) (add_mset e es)"
  using assms by (auto simp: chains_ok_def nth_list_update_cases)

lemma chains_ok_empty: "chains_ok n (replicate m empty_bucket) {#}"
  by (simp add: chains_ok_def empty_bucket_def)

section \<open>Doubling the buckets\<close>

lemma expand_step_chains:
  assumes "chains_ok n2 bks es" and "HASH_TO_BKT (el_hashv e) n2 < length bks"
  shows "chains_ok n2 (fst (expand_step n2 ideal (bks, x) e)) (add_mset e es)"
    and "length (fst (expand_step n2 ideal (bks, x) e)) = length bks"
  using assms by (auto simp: expand_step_def Let_def intro!: chains_ok_insert)

lemma expand_fold_chains:
  assumes "chains_ok n2 (fst acc) es" and "\<forall>h. HASH_TO_BKT h n2 < length (fst acc)"
  shows "chains_ok n2 (fst (foldl (expand_step n2 ideal) acc xs)) (es + mset xs)
       \<and> length (fst (foldl (expand_step n2 ideal) acc xs)) = length (fst acc)"
  using assms
proof (induction xs arbitrary: acc es)
  case (Cons x xs)
  obtain bks c where acc: "acc = (bks, c)"
    by fastforce
  note step = expand_step_chains [of n2 bks es x ideal c]
  show ?case
    using Cons.IH [of "expand_step n2 ideal acc x" "add_mset x es"] Cons.prems step
    by (simp add: acc)
qed simp

lemma expand_chains_ok:
  assumes "chains_ok n2 (fst acc) es" and "\<forall>h. HASH_TO_BKT h n2 < length (fst acc)"
  shows "chains_ok n2 (fst (expand_chains n2 ideal bks acc)) (es + (\<Sum>b\<leftarrow>bks. mset (hh_head b)))
       \<and> length (fst (expand_chains n2 ideal bks acc)) = length (fst acc)"
  using assms
proof (induction bks arbitrary: acc es)
  case Nil
  then show ?case
    by (simp add: expand_chains_def)
next
  case (Cons b bks)
  note head = expand_fold_chains [OF Cons.prems, of ideal "hh_head b"]
  show ?case
    using Cons.IH [of "foldl (expand_step n2 ideal) acc (hh_head b)" "es + mset (hh_head b)"]
      Cons.prems head
    by (simp add: expand_chains_def add.assoc)
qed

text \<open>The chains together hold every element once.\<close>

lemma sum_filter_mset_index:
  assumes "\<forall>e \<in># es. f e < n"
  shows "(\<Sum>i\<leftarrow>[0..<n]. filter_mset (\<lambda>e. f e = i) es) = es"
  using assms
proof (induction es)
  case (add x es)
  have "(\<Sum>i\<leftarrow>[0..<n]. filter_mset (\<lambda>e. f e = i) (add_mset x es))
      = (\<Sum>i\<leftarrow>[0..<n]. filter_mset (\<lambda>e. f e = i) es + (if i = f x then {#x#} else {#}))"
    by (rule arg_cong [where f = sum_list], rule map_cong) auto
  also have "\<dots> = (\<Sum>i\<leftarrow>[0..<n]. filter_mset (\<lambda>e. f e = i) es)
      + (\<Sum>i\<leftarrow>[0..<n]. if i = f x then {#x#} else {#})"
    by (rule sum_list_addf)
  also have "(\<Sum>i\<leftarrow>[0..<n]. if i = f x then {#x#} else {#}) = {#x#}"
    using add.prems by (simp add: sum_list_distinct_conv_sum_set)
  finally show ?case
    using add by simp
qed simp

lemma chains_sum:
  assumes "chains_ok n bks es" and "\<forall>h. HASH_TO_BKT h n < length bks"
  shows "(\<Sum>b\<leftarrow>bks. mset (hh_head b)) = es"
proof -
  have "map (\<lambda>b. mset (hh_head b)) bks
      = map (\<lambda>i. filter_mset (\<lambda>e. HASH_TO_BKT (el_hashv e) n = i) es) [0..<length bks]"
    using assms(1) by (intro nth_equalityI) (simp_all add: chains_ok_def)
  then show ?thesis
    using sum_filter_mset_index [of es "\<lambda>e. HASH_TO_BKT (el_hashv e) n" "length bks"] assms(2) by simp
qed

text \<open>No single allocation of more than four gigabytes succeeds.\<close>

definition mem_ok :: "libc \<Rightarrow> bool" where
  "mem_ok lc \<longleftrightarrow> (\<forall>n. c_calloc lc n \<longrightarrow> n \<le> 2 ^ 32)"

lemma unat_pow2: "l < 32 \<Longrightarrow> unat (2 ^ l :: u32) = 2 ^ l"
proof -
  assume "l < 32"
  then have "(2 :: nat) ^ l < 2 ^ 32"
    by (intro power_strict_increasing) simp_all
  then have "unat (of_nat (2 ^ l) :: u32) = 2 ^ l"
    by (simp only: unat_of_nat len_bit0 len_num1) simp
  then show ?thesis
    by simp
qed

lemma pow2_double:
  assumes "l < 31" and "unat (w :: u32) = l"
  shows "unat (w + 1) = Suc l"
  using assms by (simp add: unat_plus_if' unat_word_ariths)

lemma HASH_EXPAND_BUCKETS_ok:
  assumes "mem_ok lc" "table_ok t" "HASH_EXPAND_BUCKETS lc t = Inr t'"
  shows "table_ok t' \<and> app_order t' = app_order t"
proof -
  define l where "l = unat (log2_num_buckets t)"
  define n2 where "n2 = num_buckets t * 2"
  define acc :: "'a ut_bucket list \<times> u32" where "acc = (replicate (2 * unat (num_buckets t)) empty_bucket, 0)"
  have l: "l < 32" and n: "num_buckets t = 2 ^ l" and bks: "length (buckets t) = 2 ^ l"
    using assms(2) by (simp_all add: table_ok_def pow2_ok_def l_def)
  have un: "unat (num_buckets t) = 2 ^ l"
    by (simp only: n unat_pow2 [OF l])
  have "c_calloc lc (2 * 2 ^ l * 16)"
    using assms(3) un by (auto simp: HASH_EXPAND_BUCKETS_def sizeof_UT_hash_bucket_def Let_def split: if_splits)
  then have "2 * 2 ^ l * 16 \<le> (2 ^ 32 :: nat)"
    using assms(1) by (simp add: mem_ok_def)
  then have "2 ^ (l + 5) \<le> (2 ^ 32 :: nat)"
    by (simp add: power_add)
  then have l31: "l < 31"
    using power_le_imp_le_exp [of "2 :: nat" "l + 5" 32] by simp
  have n2: "n2 = 2 ^ Suc l"
    by (simp add: n2_def n)
  have bound: "\<forall>h. HASH_TO_BKT h n2 < length (fst acc)"
    using HASH_TO_BKT_less [of "Suc l"] l31 by (simp add: n2 acc_def un)
  have sum: "(\<Sum>b\<leftarrow>buckets t. mset (hh_head b)) = mset (app_order t)"
    using assms(2) by (intro chains_sum [of "num_buckets t"]) (auto simp: table_ok_def pow2_ok_bkt)
  have "chains_ok n2 (fst acc) {#}"
    unfolding acc_def fst_conv by (rule chains_ok_empty)
  note exp = expand_chains_ok [OF this bound, of "ideal_len t" "buckets t", unfolded sum]
  have lg: "unat (log2_num_buckets t + 1) = Suc l"
    using pow2_double [OF l31] by (simp add: l_def)
  have t': "buckets t' = fst (expand_chains n2 (ideal_len t) (buckets t) acc)"
      "num_buckets t' = n2" "log2_num_buckets t' = log2_num_buckets t + 1"
      "num_items t' = num_items t" "app_order t' = app_order t"
    using assms(3)
    by (auto simp: HASH_EXPAND_BUCKETS_def Let_def n2_def acc_def split: if_splits prod.splits)
  have len: "length (fst acc) = 2 ^ Suc l"
    by (simp add: acc_def un)
  have "pow2_ok t'"
    using exp l31 by (simp add: pow2_ok_def t' lg n2 len del: power_Suc)
  then show ?thesis
    using exp assms(2) by (simp add: table_ok_def t')
qed

text \<open>The division in the doubling is never by zero.\<close>

lemma ideal_len_nonzero:
  assumes "table_ok t" "app_order t \<noteq> []" "unat (log2_num_buckets t) < 31"
  shows "ideal_len t \<noteq> 0"
proof
  define l where "l = unat (log2_num_buckets t)"
  define c where "c = length (app_order t)"
  assume z: "ideal_len t = 0"
  have c: "0 < c" "c < 2 ^ 32" "unat (num_items t) = c"
    using assms(1,2) by (simp_all add: table_ok_def c_def unat_of_nat)
  have nb: "num_buckets t * 2 - 1 = mask (Suc l)"
    using assms(1) by (simp add: table_ok_def pow2_ok_def l_def mask_eq_exp_minus_1)
  have lg: "unat (log2_num_buckets t + 1) = Suc l"
    using pow2_double [OF assms(3)] by (simp add: l_def)
  have d: "unat (drop_bit (Suc l) (num_items t)) = c div 2 ^ Suc l"
    using unsigned_drop_bit_eq [of "Suc l" "num_items t", where ?'a = nat]
    by (simp only: c) (use c(2) in \<open>simp add: drop_bit_eq_div take_bit_nat_eq_self\<close>)
  have "c div 2 ^ Suc l \<le> c div 2"
    by (rule div_le_mono2) simp_all
  then have "unat (drop_bit (Suc l) (num_items t)) < 2 ^ 31"
    using c(2) unfolding d by simp
  then have "unat (drop_bit (Suc l) (num_items t) + 1) \<noteq> 0"
    by (simp add: unat_plus_if')
  then have "drop_bit (Suc l) (num_items t) + 1 \<noteq> 0"
    by (simp only: unat_eq_zero not_False_eq_True)
  then have "num_items t AND mask (Suc l) = 0" "drop_bit (Suc l) (num_items t) = 0"
    using z by (auto simp: ideal_len_def lg nb split: if_splits)
  then have "unat (take_bit (Suc l) (num_items t)) = 0" and z2: "c div 2 ^ Suc l = 0"
    using d by (simp_all add: take_bit_eq_mask)
  then have "take_bit (Suc l) c = 0"
    by (metis unsigned_take_bit_eq c(3))
  then have "c mod 2 ^ Suc l = 0"
    by (simp only: take_bit_eq_mod)
  with z2 have "c mod 2 ^ Suc l = 0" "c div 2 ^ Suc l = 0"
    by simp_all
  then have "c = 0"
    by (metis mod_div_trivial div_mult_mod_eq add_0 mult_zero_left)
  then show False
    using c by simp
qed

section \<open>Insertion and deletion keep the invariant\<close>

lemma HASH_ADD_TO_BKT_ok:
  assumes "mem_ok lc" and "pow2_ok t" and "chains_ok (num_buckets t) (buckets t) es"
    and "i = HASH_TO_BKT (el_hashv e) (num_buckets t)"
    and "mset (app_order t) = add_mset e es" and "length (app_order t) < 2 ^ 32"
    and "num_items t = of_nat (length (app_order t))"
    and "distinct (map el_addr (app_order t))" and "\<forall>e \<in> set (app_order t). elem_ok e"
    and "HASH_ADD_TO_BKT lc t i e = Inr t'"
  shows "table_ok t' \<and> app_order t' = app_order t"
proof -
  define b where "b = (buckets t ! i)\<lparr>bk_count := bk_count (buckets t ! i) + 1, hh_head := e # hh_head (buckets t ! i)\<rparr>"
  define t1 where "t1 = t\<lparr>buckets := (buckets t)[i := b]\<rparr>"
  have "i < length (buckets t)"
    using assms(2,4) by (simp add: pow2_ok_bkt)
  then have "chains_ok (num_buckets t) ((buckets t)[i := b]) (add_mset e es)"
    by (intro chains_ok_insert [OF assms(3,4)]) (simp_all add: b_def)
  then have "table_ok t1" "app_order t1 = app_order t"
    using assms by (simp_all add: table_ok_def t1_def pow2_ok_def)
  moreover have "HASH_EXPAND_BUCKETS lc t1 = Inr t' \<or> t' = t1"
    using assms(10) by (auto simp: HASH_ADD_TO_BKT_def Let_def t1_def b_def split: if_splits)
  ultimately show ?thesis
    using HASH_EXPAND_BUCKETS_ok [OF assms(1), of t1 t'] by auto
qed

lemma map_sum_eq_Inr: "map_sum f g x = Inr y \<longleftrightarrow> (\<exists>z. x = Inr z \<and> y = g z)"
  by (cases x) auto

lemma unat_of_nat_less: "n < 2 ^ 32 \<Longrightarrow> unat (of_nat n :: u32) = n"
  by (simp add: unat_of_nat)

lemma HASH_ADD_KEYPTR_ok:
  assumes "mem_ok lc" "ut_wf head" "length k < 2 ^ 32" "Suc (length (HASH_ITER head)) < 2 ^ 32"
    and "p \<notin> el_addr ` set (HASH_ITER head)" and "HASH_ADD_KEYPTR lc head k p v = Inr head'"
  shows "ut_wf head' \<and> HASH_ITER head' = HASH_ITER head @ [keyed_elem p k v]"
proof -
  define e where "e = keyed_elem p k v"
  have e: "elem_ok e" "el_addr e = p"
    using assms(3) by (simp_all add: e_def elem_ok_def keyed_elem_def)
  obtain t t' where t: "(case head of None \<Rightarrow> HASH_MAKE_TABLE lc e | Some t \<Rightarrow> Inr (HASH_APPEND_LIST t e)) = Inr t"
    and t': "HASH_ADD_TO_BKT lc (t\<lparr>num_items := num_items t + 1\<rparr>)
               (HASH_TO_BKT (el_hashv e) (num_buckets t)) e = Inr t'" and head': "head' = Some t'"
    using assms(6) unfolding HASH_ADD_KEYPTR_def e_def [symmetric] Let_def
    by (auto split: sum.splits simp: map_sum_eq_Inr)
  define t1 where "t1 = t\<lparr>num_items := num_items t + 1\<rparr>"
  have app: "app_order t1 = HASH_ITER head @ [e]"
    using t by (auto simp: t1_def HASH_ITER_def HASH_MAKE_TABLE_def HASH_APPEND_LIST_def
      split: option.splits if_splits)
  have "pow2_ok t1" "chains_ok (num_buckets t1) (buckets t1) (mset (HASH_ITER head))"
      "num_items t1 = of_nat (length (app_order t1))"
      "distinct (map el_addr (HASH_ITER head))" "\<forall>e \<in> set (HASH_ITER head). elem_ok e"
    using t assms(2)
    by (auto simp: t1_def ut_wf_def table_ok_def pow2_ok_def HASH_MAKE_TABLE_def HASH_APPEND_LIST_def
      HASH_ITER_def HASH_INITIAL_NUM_BUCKETS_def chains_ok_empty split: option.splits if_splits)
  then have "table_ok t' \<and> app_order t' = app_order t1"
    using assms(1,4,5) e t' unfolding t1_def [symmetric]
    by (intro HASH_ADD_TO_BKT_ok [of lc t1 "mset (HASH_ITER head)" _ e]) (auto simp: app, simp add: t1_def)
  then show ?thesis
    using app by (simp add: head' ut_wf_def HASH_ITER_def e_def)
qed

lemma unlink_remove1:
  "distinct (map el_addr es) \<Longrightarrow> e \<in> set es \<Longrightarrow> unlink e es = remove1 e es"
proof (induction es)
  case (Cons x es)
  show ?case
  proof (cases "x = e")
    case True
    have "unlink e es = es"
      using Cons.prems(1) True unfolding unlink_def filter_id_conv by (metis distinct.simps(2) image_eqI list.simps(9) set_map)
    then show ?thesis
      using True by (simp add: unlink_def)
  next
    case False
    then have "el_addr x \<noteq> el_addr e"
      using Cons.prems by auto
    then show ?thesis
      using Cons False by (simp add: unlink_def)
  qed
qed simp

lemma chains_ok_delete:
  assumes "chains_ok n bks (mset es)" "distinct (map el_addr es)" "e \<in> set es"
    and "i = HASH_TO_BKT (el_hashv e) n" "i < length bks"
  shows "chains_ok n (bks[i := HASH_DEL_IN_BKT (bks ! i) e]) (mset es - {#e#})"
proof -
  define ch where "ch = hh_head (bks ! i)"
  have ch: "mset ch = mset (filter (\<lambda>e. HASH_TO_BKT (el_hashv e) n = i) es)"
    using chains_okD(1) [OF assms(1,5)] by (simp add: ch_def)
  then have "mset (map el_addr ch) = mset (map el_addr (filter (\<lambda>e. HASH_TO_BKT (el_hashv e) n = i) es))"
    by (simp only: mset_map)
  then have "distinct (map el_addr ch)"
    using assms(2) mset_eq_imp_distinct_iff distinct_map_filter by blast
  moreover have "e \<in> set ch"
    using mset_eq_setD [OF ch] assms(3,4) by simp
  ultimately have un: "unlink e ch = remove1 e ch"
    by (rule unlink_remove1)
  have "length ch = Suc (length (remove1 e ch))"
    using \<open>e \<in> set ch\<close> by (simp add: length_remove1) (metis Suc_pred length_pos_if_in_set)
  then have "of_nat (length ch) - 1 = (of_nat (length (remove1 e ch)) :: u32)"
    by simp
  then show ?thesis
    using assms ch un
    by (auto simp: chains_ok_def nth_list_update_cases HASH_DEL_IN_BKT_def ch_def)
qed

lemma HASH_DELETE_ok:
  assumes "ut_wf head" "e \<in> set (HASH_ITER head)"
  shows "ut_wf (HASH_DELETE head e) \<and> HASH_ITER (HASH_DELETE head e) = remove1 e (HASH_ITER head)"
proof -
  obtain t where t: "head = Some t" "table_ok t" "e \<in> set (app_order t)"
    using assms by (auto simp: ut_wf_def HASH_ITER_def split: option.splits)
  show ?thesis
  proof (cases "length (app_order t) = 1")
    case True
    then have "app_order t = [e]"
      using t(3) by (auto simp: length_Suc_conv)
    then show ?thesis
      by (simp add: t(1) HASH_DELETE_def HASH_ITER_def ut_wf_def)
  next
    case False
    have d: "distinct (map el_addr (app_order t))"
      using t(2) by (simp add: table_ok_def)
    have un: "unlink e (app_order t) = remove1 e (app_order t)"
      by (rule unlink_remove1 [OF d t(3)])
    have len: "length (app_order t) = Suc (length (remove1 e (app_order t)))"
      using t(3) by (simp add: length_remove1) (metis Suc_pred length_pos_if_in_set)
    have "chains_ok (num_buckets t) ((buckets t)[bkt_of t e := HASH_DEL_IN_BKT (buckets t ! bkt_of t e) e])
            (mset (app_order t) - {#e#})"
      using t d by (intro chains_ok_delete) (auto simp: table_ok_def bkt_of_def pow2_ok_bkt)
    moreover have "distinct (map el_addr (remove1 e (app_order t)))"
      using d un by (metis distinct_map_filter unlink_def)
    moreover have "\<forall>x \<in> set (remove1 e (app_order t)). elem_ok x"
      using t(2) notin_set_remove1 by (fastforce simp: table_ok_def)
    moreover have "num_items t - 1 = of_nat (length (remove1 e (app_order t)))"
      using t(2) len by (simp add: table_ok_def)
    moreover have "length (remove1 e (app_order t)) < 2 ^ 32" "remove1 e (app_order t) \<noteq> []"
      using t(2) len False by (auto simp: table_ok_def)
    ultimately show ?thesis
      using t False un
      by (simp add: HASH_DELETE_def HASH_ITER_def ut_wf_def table_ok_def pow2_ok_def bkt_of_def Let_def)
  qed
qed

section \<open>Lookup\<close>

lemma HASH_FIND_iff:
  assumes "ut_wf head" "length k < 2 ^ 32"
  shows "HASH_FIND head k = None \<longleftrightarrow> k \<notin> el_key ` set (HASH_ITER head)"
    and "HASH_FIND head k = Some e \<Longrightarrow> e \<in> set (HASH_ITER head) \<and> el_key e = k"
proof -
  have hit: "(el_hashv x = HASH_JEN k \<and> unat (el_keylen x) = length k \<and> take (length k) (el_key x) = k)
      \<longleftrightarrow> el_key x = k" if "elem_ok x" for x :: "'a ut_elem"
  proof -
    have "el_hashv x = HASH_JEN (el_key x)" "unat (el_keylen x) = length (el_key x)"
      using that unfolding elem_ok_def keyed_elem_def
      by (metis ut_elem.select_convs(4), metis that elem_ok_def keyed_elem_def ut_elem.select_convs(3)
        unat_of_nat_less)
    then show ?thesis
      by auto
  qed
  have "(HASH_FIND head k = None \<longleftrightarrow> k \<notin> el_key ` set (HASH_ITER head))
      \<and> (HASH_FIND head k = Some e \<longrightarrow> e \<in> set (HASH_ITER head) \<and> el_key e = k)"
  proof (cases head)
    case (Some t)
    define i where "i = HASH_TO_BKT (HASH_JEN k) (num_buckets t)"
    have t: "table_ok t"
      using assms(1) Some by (simp add: ut_wf_def)
    then have "i < length (buckets t)"
      by (simp add: i_def table_ok_def pow2_ok_bkt)
    then have "mset (hh_head (buckets t ! i)) = {#e \<in># mset (app_order t). bkt_of t e = i#}"
      using t by (simp add: table_ok_def chains_ok_def bkt_of_def)
    then have set: "set (hh_head (buckets t ! i)) = {e \<in> set (app_order t). bkt_of t e = i}"
      by (metis mset_filter set_filter set_mset_mset)
    have ok: "\<forall>e \<in> set (app_order t). elem_ok e"
      using t by (simp add: table_ok_def)
    have home: "bkt_of t x = i" if "x \<in> set (app_order t)" "el_key x = k" for x
      using ok hit [of x] that by (auto simp: bkt_of_def i_def)
    have find: "HASH_FIND head k = List.find (\<lambda>x. el_key x = k) (hh_head (buckets t ! i))"
      using ok set hit unfolding HASH_FIND_def HASH_FIND_IN_BKT_def i_def [symmetric] Some Let_def
      by (auto intro!: find_cong simp: i_def)
    have "HASH_FIND head k = None \<longleftrightarrow> k \<notin> el_key ` set (app_order t)"
      using home set by (auto simp: find find_None_iff)
    moreover have "HASH_FIND head k = Some e \<longrightarrow> e \<in> set (app_order t) \<and> el_key e = k"
      using set by (auto simp: find find_Some_iff) (metis (mono_tags, lifting) mem_Collect_eq nth_mem)
    ultimately show ?thesis
      by (simp add: Some HASH_ITER_def)
  qed (simp add: HASH_FIND_def HASH_ITER_def)
  then show "HASH_FIND head k = None \<longleftrightarrow> k \<notin> el_key ` set (HASH_ITER head)"
    and "HASH_FIND head k = Some e \<Longrightarrow> e \<in> set (HASH_ITER head) \<and> el_key e = k"
    by simp_all
qed

lemma HASH_COUNT_items: "ut_wf head \<Longrightarrow> unat (HASH_COUNT head) = length (HASH_ITER head)"
  by (auto simp: ut_wf_def HASH_COUNT_def HASH_ITER_def table_ok_def unat_of_nat_less split: option.splits)

section \<open>The contract of the table\<close>

text \<open>
  What a client relies on: the elements form a list in insertion order; adding appends, deleting
  removes, and a lookup finds an element with the key if there is one. A client that never adds a
  key twice (\<open>uniq\<close>) gets the laws of a finite map.
\<close>

lemma find_remove1:
  "k \<noteq> el_key e \<Longrightarrow> List.find (\<lambda>x. el_key x = k) (remove1 e xs) = List.find (\<lambda>x. el_key x = k) xs"
  by (induction xs) auto

lemma find_snoc:
  "List.find P (xs @ [x])
     = (case List.find P xs of None \<Rightarrow> if P x then Some x else None | Some y \<Rightarrow> Some y)"
  by (induction xs) auto

locale keyed_table =
  fixes wf :: "'t \<Rightarrow> bool"
    and items :: "'t \<Rightarrow> 'a ut_elem list"
    and find :: "'t \<Rightarrow> bytes \<Rightarrow> 'a ut_elem option"
    and add :: "libc \<Rightarrow> 't \<Rightarrow> bytes \<Rightarrow> nat \<Rightarrow> 'a \<Rightarrow> fault + 't"
    and del :: "'t \<Rightarrow> 'a ut_elem \<Rightarrow> 't"
  assumes find_None: "wf t \<Longrightarrow> length k < 2 ^ 32 \<Longrightarrow> find t k = None \<longleftrightarrow> k \<notin> el_key ` set (items t)"
    and find_Some: "wf t \<Longrightarrow> length k < 2 ^ 32 \<Longrightarrow> find t k = Some e \<Longrightarrow> e \<in> set (items t) \<and> el_key e = k"
    and add_items: "mem_ok lc \<Longrightarrow> wf t \<Longrightarrow> length k < 2 ^ 32 \<Longrightarrow> Suc (length (items t)) < 2 ^ 32 \<Longrightarrow>
          p \<notin> el_addr ` set (items t) \<Longrightarrow> add lc t k p v = Inr t' \<Longrightarrow>
          wf t' \<and> items t' = items t @ [keyed_elem p k v]"
    and del_items: "wf t \<Longrightarrow> e \<in> set (items t) \<Longrightarrow>
          wf (del t e) \<and> items (del t e) = remove1 e (items t)"
begin

abbreviation uniq :: "'t \<Rightarrow> bool" where
  "uniq t \<equiv> distinct (map el_key (items t))"

lemma find_uniq:
  assumes "wf t" "uniq t" "length k < 2 ^ 32"
  shows "find t k = List.find (\<lambda>e. el_key e = k) (items t)"
proof (cases "find t k")
  case None
  then have "k \<notin> el_key ` set (items t)"
    using find_None [OF assms(1,3)] by simp
  then show ?thesis
    using None by (auto simp: find_None_iff eq_commute [of None])
next
  case (Some e)
  then have e: "e \<in> set (items t)" "el_key e = k"
    using find_Some [OF assms(1,3)] by auto
  then obtain e' where e': "List.find (\<lambda>e. el_key e = k) (items t) = Some e'"
    by (metis (mono_tags, lifting) find_None_iff option.exhaust)
  then have "e' \<in> set (items t)" "el_key e' = k"
    by (auto simp: find_Some_iff)
  then have "e' = e"
    using assms(2) e by (auto simp: distinct_map inj_on_def)
  then show ?thesis
    using Some e' by simp
qed

lemma uniq_del: "wf t \<Longrightarrow> uniq t \<Longrightarrow> e \<in> set (items t) \<Longrightarrow> uniq (del t e)"
  using del_items [of t e] by (simp add: distinct_map inj_on_def distinct_remove1 set_remove1_eq)

lemma keys_del: "wf t \<Longrightarrow> uniq t \<Longrightarrow> e \<in> set (items t) \<Longrightarrow>
    el_key ` set (items (del t e)) = el_key ` set (items t) - {el_key e}"
  using del_items [of t e] by (auto simp: distinct_map inj_on_def set_remove1_eq)

lemma find_del:
  assumes "wf t" "uniq t" "e \<in> set (items t)" "length k < 2 ^ 32"
  shows "find (del t e) k = (if k = el_key e then None else find t k)"
proof (cases "k = el_key e")
  case True
  then have "k \<notin> el_key ` set (items (del t e))"
    using keys_del [OF assms(1-3)] by simp
  then show ?thesis
    using True find_None [of "del t e" k] del_items [OF assms(1,3)] assms(4) by simp
next
  case False
  then show ?thesis
    using False find_remove1 [of k e "items t"] find_uniq [of "del t e" k] find_uniq [OF assms(1,2,4)] del_items [OF assms(1,3)]
      uniq_del [OF assms(1-3)] assms(4) by simp
qed

lemma find_add:
  assumes lc: "mem_ok lc" and "wf t" "uniq t" "length k < 2 ^ 32" "Suc (length (items t)) < 2 ^ 32"
    "p \<notin> el_addr ` set (items t)" "k \<notin> el_key ` set (items t)" "add lc t k p v = Inr t'" "length j < 2 ^ 32"
  shows "uniq t' \<and> find t' j = (if j = k then Some (keyed_elem p k v) else find t j)"
proof -
  have t': "wf t'" "items t' = items t @ [keyed_elem p k v]"
    using add_items [OF assms(1) assms(2,4,5,6,8)] by auto
  moreover from t' have u: "uniq t'"
    using assms(3,7) by (auto simp: keyed_elem_def)
  moreover have "List.find (\<lambda>e. el_key e = k) (items t) = None"
    using assms(7) by (auto simp: find_None_iff)
  ultimately show ?thesis
    using find_uniq [OF t'(1) u assms(9)] find_uniq [OF assms(2,3,9)]
    by (auto simp: keyed_elem_def find_snoc split: option.splits)
qed

end

interpretation ut: keyed_table ut_wf HASH_ITER HASH_FIND HASH_ADD_KEYPTR HASH_DELETE
  by unfold_locales (fact HASH_FIND_iff HASH_ADD_KEYPTR_ok HASH_DELETE_ok)+

end
