(* ===== verification/SS_Cache.thy ===== *)
theory SS_Cache
  imports SS_Uthash
begin

text \<open>
  The least-recently-used cache of \<^verbatim>\<open>src/cache.c\<close>, built on the hash table of
  \<^verbatim>\<open>src/uthash.h\<close>: the table's insertion order is the order of use, because a lookup takes the
  element out and adds it again. An entry's value is its data pointer (\<open>None\<close> is a null pointer)
  and its time stamp. The operations return what they hand to \<^verbatim>\<open>free_cb\<close> or \<^verbatim>\<open>free\<close>. The
  abstract specification is a list of bindings, least recently used first; every sequence of
  operations simulates it.
\<close>

section \<open>The cache\<close>

type_synonym 'd entry = "'d option \<times> rat"

record 'd cache =
  max_entries :: nat
  entries :: "'d entry ut_table option"

definition EINVAL :: int where "EINVAL = 22"

definition ENOMEM :: int where "ENOMEM = 12"

text \<open>\<open>dst\<close> says whether the pointer to the result is not null; \<^verbatim>\<open>struct cache\<close> has 24 bytes.\<close>

definition cache_create :: "libc \<Rightarrow> bool \<Rightarrow> nat \<Rightarrow> int \<times> 'd cache option" where
  "cache_create lc dst cap =
     (if \<not> dst then (EINVAL, None)
      else if \<not> c_calloc lc 24 then (ENOMEM, None)
      else (0, Some \<lparr>max_entries = cap, entries = None\<rparr>))"

text \<open>What is freed for an entry: its key and data, unless the data pointer is null.\<close>

definition released :: "'d entry ut_elem \<Rightarrow> (bytes \<times> 'd) list" where
  "released e = (case fst (el_val e) of None \<Rightarrow> [] | Some d \<Rightarrow> [(el_key e, d)])"

text \<open>
  \<^verbatim>\<open>HASH_ITER\<close> with a body that may delete the element it visits: the macro has read the
  next element before the body runs.
\<close>

fun iter_delete ::
  "('d entry ut_elem \<Rightarrow> bool) \<Rightarrow> 'd entry ut_elem list \<Rightarrow> 'd entry ut_table option
     \<Rightarrow> 'd entry ut_table option \<times> (bytes \<times> 'd) list" where
  "iter_delete P [] head = (head, [])"
| "iter_delete P (el # els) head =
     (if P el
      then (case iter_delete P els (HASH_DELETE head el) of (head', fs) \<Rightarrow> (head', released el @ fs))
      else iter_delete P els head)"

definition cache_delete :: "'d cache option \<Rightarrow> bool \<Rightarrow> int \<times> (bytes \<times> 'd) list" where
  "cache_delete cache keep_data =
     (case cache of
        None \<Rightarrow> (EINVAL, [])
      | Some c \<Rightarrow>
          if keep_data then (0, [])
          else (0, snd (iter_delete (\<lambda>_. True) (HASH_ITER (entries c)) (entries c))))"

definition cache_clear ::
  "libc \<Rightarrow> rat \<Rightarrow> 'd cache option \<Rightarrow> rat \<Rightarrow> int \<times> (bytes \<times> 'd) list \<times> 'd cache option" where
  "cache_clear lc now cache age =
     (case cache of
        None \<Rightarrow> (EINVAL, [], None)
      | Some c \<Rightarrow>
          (case iter_delete (\<lambda>e. age < c_round lc (now - snd (el_val e)))
                  (HASH_ITER (entries c)) (entries c) of
             (head, fs) \<Rightarrow> (0, fs, Some (c\<lparr>entries := head\<rparr>))))"

definition cache_remove ::
  "'d cache option \<Rightarrow> bytes option \<Rightarrow> int \<times> (bytes \<times> 'd) list \<times> 'd cache option" where
  "cache_remove cache k =
     (case (cache, k) of
        (Some c, Some k) \<Rightarrow>
          (case HASH_FIND (entries c) k of
             None \<Rightarrow> (0, [], Some c)
           | Some e \<Rightarrow> (0, released e, Some (c\<lparr>entries := HASH_DELETE (entries c) e\<rparr>)))
      | _ \<Rightarrow> (EINVAL, [], cache))"

text \<open>The move of a found entry to the end of the order, with a new time stamp.\<close>

definition cache_touch ::
  "libc \<Rightarrow> rat \<Rightarrow> 'd entry ut_table option \<Rightarrow> 'd entry ut_elem \<Rightarrow> bytes \<Rightarrow> fault + 'd entry ut_table option" where
  "cache_touch lc now head e k =
     HASH_ADD_KEYPTR lc (HASH_DELETE head e) k (el_addr e) (fst (el_val e), now)"

text \<open>\<open>Inr (rc, result, cache)\<close>; the result pointer's target is set to null when nothing is found.\<close>

definition cache_lookup ::
  "libc \<Rightarrow> rat \<Rightarrow> 'd cache option \<Rightarrow> bytes option \<Rightarrow> bool
     \<Rightarrow> fault + int \<times> 'd option \<times> 'd cache option" where
  "cache_lookup lc now cache k result =
     (case (cache, k, result) of
        (Some c, Some k, True) \<Rightarrow>
          (case HASH_FIND (entries c) k of
             None \<Rightarrow> Inr (0, None, Some c)
           | Some e \<Rightarrow>
               map_sum id (\<lambda>head. (0, fst (el_val e), Some (c\<lparr>entries := head\<rparr>)))
                 (cache_touch lc now (entries c) e k))
      | _ \<Rightarrow> Inr (EINVAL, None, cache))"

definition cache_key_exist ::
  "libc \<Rightarrow> rat \<Rightarrow> 'd cache option \<Rightarrow> bytes option \<Rightarrow> fault + int \<times> 'd cache option" where
  "cache_key_exist lc now cache k =
     (case (cache, k) of
        (Some c, Some k) \<Rightarrow>
          (case HASH_FIND (entries c) k of
             None \<Rightarrow> Inr (0, Some c)
           | Some e \<Rightarrow>
               map_sum id (\<lambda>head. (1, Some (c\<lparr>entries := head\<rparr>)))
                 (cache_touch lc now (entries c) e k))
      | _ \<Rightarrow> Inr (0, cache))"

text \<open>
  \<open>p\<close> is the address \<^verbatim>\<open>malloc\<close> returns for the 80 bytes of \<^verbatim>\<open>struct cache_entry\<close>. When the
  table is full the loop deletes the first entry and stops.
\<close>

definition cache_insert ::
  "libc \<Rightarrow> rat \<Rightarrow> nat \<Rightarrow> 'd cache option \<Rightarrow> bytes \<Rightarrow> 'd option
     \<Rightarrow> fault + int \<times> (bytes \<times> 'd) list \<times> 'd cache option" where
  "cache_insert lc now p cache k d =
     (case cache of
        None \<Rightarrow> Inr (EINVAL, [], None)
      | Some c \<Rightarrow>
          if \<not> c_calloc lc 80 then Inr (ENOMEM, [], Some c)
          else (case HASH_ADD_KEYPTR lc (entries c) k p (d, now) of
             Inl f \<Rightarrow> Inl f
           | Inr head \<Rightarrow>
               if max_entries c \<le> unat (HASH_COUNT head)
               then (case HASH_ITER head of
                       [] \<Rightarrow> Inr (0, [], Some (c\<lparr>entries := head\<rparr>))
                     | e # _ \<Rightarrow> Inr (0, released e, Some (c\<lparr>entries := HASH_DELETE head e\<rparr>)))
               else Inr (0, [], Some (c\<lparr>entries := head\<rparr>))))"

section \<open>The specification\<close>

text \<open>Bindings with their time stamps, least recently used first.\<close>

type_synonym 'd lru = "(bytes \<times> 'd entry) list"

definition lru_of :: "'d cache \<Rightarrow> 'd lru" where
  "lru_of c = map (\<lambda>e. (el_key e, el_val e)) (HASH_ITER (entries c))"

definition lru_data :: "'d lru \<Rightarrow> (bytes \<times> 'd) list" where
  "lru_data l = List.map_filter (\<lambda>(k, d, ts). map_option (Pair k) d) l"

definition lru_remove :: "bytes \<Rightarrow> 'd lru \<Rightarrow> 'd lru" where
  "lru_remove k l = filter (\<lambda>b. fst b \<noteq> k) l"

definition lru_touch :: "rat \<Rightarrow> bytes \<Rightarrow> 'd lru \<Rightarrow> 'd lru" where
  "lru_touch now k l =
     (case map_of l k of None \<Rightarrow> l | Some (d, ts) \<Rightarrow> lru_remove k l @ [(k, d, now)])"

definition lru_evict :: "nat \<Rightarrow> 'd lru \<Rightarrow> 'd lru \<times> 'd lru" where
  "lru_evict cap l = (if cap \<le> length l then (take 1 l, drop 1 l) else ([], l))"

section \<open>Invariant\<close>

definition cache_wf :: "'d cache \<Rightarrow> bool" where
  "cache_wf c \<longleftrightarrow> ut_wf (entries c) \<and> distinct (map fst (lru_of c))
     \<and> max_entries c < 2 ^ 32 \<and> length (lru_of c) \<le> max_entries c - 1"

lemma keys_lru_of: "map fst (lru_of c) = map el_key (HASH_ITER (entries c))"
  by (simp add: lru_of_def)

lemma cache_wfD:
  assumes "cache_wf c"
  shows "ut_wf (entries c)" "distinct (map el_key (HASH_ITER (entries c)))"
    "Suc (length (HASH_ITER (entries c))) < 2 ^ 32"
  using assms by (auto simp: cache_wf_def keys_lru_of [symmetric]) (simp add: lru_of_def)

lemma cache_create_wf:
  "c_calloc lc 24 \<Longrightarrow> cap < 2 ^ 32 \<Longrightarrow>
     \<exists>c. cache_create lc True cap = (0, Some c) \<and> cache_wf c \<and> lru_of c = [] \<and> max_entries c = cap"
  by (simp add: cache_create_def cache_wf_def ut_wf_def lru_of_def HASH_ITER_def)

section \<open>The operations on the specification\<close>

lemma find_map_of:
  "map_of (map (\<lambda>e. (el_key e, el_val e)) es) k
     = map_option el_val (List.find (\<lambda>e. el_key e = k) es)"
  by (induction es) auto

lemma HASH_FIND_lru:
  assumes "cache_wf c" "length k < 2 ^ 32"
  shows "map_of (lru_of c) k = map_option el_val (HASH_FIND (entries c) k)"
  using ut.find_uniq [OF cache_wfD(1,2) [OF assms(1)] assms(2)]
  by (simp add: lru_of_def find_map_of)

lemma HASH_DELETE_lru:
  assumes "cache_wf c" "e \<in> set (HASH_ITER (entries c))"
  shows "cache_wf (c\<lparr>entries := HASH_DELETE (entries c) e\<rparr>)
       \<and> lru_of (c\<lparr>entries := HASH_DELETE (entries c) e\<rparr>) = lru_remove (el_key e) (lru_of c)"
proof -
  have del: "ut_wf (HASH_DELETE (entries c) e)" "HASH_ITER (HASH_DELETE (entries c) e) = remove1 e (HASH_ITER (entries c))"
    using ut.del_items [OF cache_wfD(1) [OF assms(1)] assms(2)] by auto
  have d: "distinct (map el_key es) \<Longrightarrow> e \<in> set es \<Longrightarrow>
      map (\<lambda>e. (el_key e, el_val e)) (remove1 e es)
        = filter (\<lambda>b. fst b \<noteq> el_key e) (map (\<lambda>e. (el_key e, el_val e)) es)" for es
    by (induction es) (auto simp: filter_id_conv image_iff eq_commute [of "map _ _" "filter _ _"])
  have lru: "lru_of (c\<lparr>entries := HASH_DELETE (entries c) e\<rparr>) = lru_remove (el_key e) (lru_of c)"
    using d [OF cache_wfD(2) [OF assms(1)] assms(2)] by (simp add: lru_of_def del lru_remove_def)
  then show ?thesis
    using assms(1) del(1) order_trans [OF length_filter_le [of "\<lambda>b. fst b \<noteq> el_key e" "lru_of c"]]
    by (auto simp: cache_wf_def lru_remove_def distinct_map_filter)
qed
lemma HASH_ADD_lru:
  assumes "mem_ok lc" "cache_wf c" "length k < 2 ^ 32" "p \<notin> el_addr ` set (HASH_ITER (entries c))"
    and "HASH_ADD_KEYPTR lc (entries c) k p v = Inr head"
  shows "ut_wf head \<and> HASH_ITER head = HASH_ITER (entries c) @ [keyed_elem p k v]
       \<and> lru_of (c\<lparr>entries := head\<rparr>) = lru_of c @ [(k, v)]
       \<and> unat (HASH_COUNT head) = Suc (length (lru_of c))"
proof -
  have "ut_wf head \<and> HASH_ITER head = HASH_ITER (entries c) @ [keyed_elem p k v]"
    using ut.add_items [OF assms(1) cache_wfD(1) [OF assms(2)] assms(3) cache_wfD(3) [OF assms(2)] assms(4,5)] .
  then show ?thesis
    by (simp add: lru_of_def keyed_elem_def HASH_COUNT_items)
qed

text \<open>Moving a found entry to the end.\<close>

lemma cache_touch_lru:
  assumes "mem_ok lc" "cache_wf c" "length k < 2 ^ 32" "HASH_FIND (entries c) k = Some e"
    and "cache_touch lc now (entries c) e k = Inr head"
  shows "cache_wf (c\<lparr>entries := head\<rparr>) \<and> lru_of (c\<lparr>entries := head\<rparr>) = lru_touch now k (lru_of c)"
proof -
  define c1 where "c1 = c\<lparr>entries := HASH_DELETE (entries c) e\<rparr>"
  have e: "e \<in> set (HASH_ITER (entries c))" "el_key e = k"
    using ut.find_Some [OF cache_wfD(1) [OF assms(2)] assms(3,4)] by auto
  have c1: "cache_wf c1" "lru_of c1 = lru_remove k (lru_of c)"
    using HASH_DELETE_lru [OF assms(2) e(1)] e(2) by (simp_all add: c1_def)
  have "distinct (map el_addr (HASH_ITER (entries c)))"
    using assms(2) by (auto simp: cache_wf_def ut_wf_def table_ok_def HASH_ITER_def split: option.splits)
  then have "el_addr e \<notin> el_addr ` set (HASH_ITER (entries c1))"
    using e(1) HASH_DELETE_ok [OF cache_wfD(1) [OF assms(2)] e(1)]
    by (auto simp: c1_def distinct_map inj_on_def)
  moreover have "HASH_ADD_KEYPTR lc (entries c1) k (el_addr e) (fst (el_val e), now) = Inr head"
    using assms(5) by (simp add: cache_touch_def c1_def)
  ultimately have add: "ut_wf head" "lru_of (c1\<lparr>entries := head\<rparr>) = lru_of c1 @ [(k, fst (el_val e), now)]"
    using HASH_ADD_lru [OF assms(1) c1(1) assms(3)] by blast+
  have "map_of (lru_of c) k = Some (el_val e)"
    using HASH_FIND_lru [OF assms(2,3)] assms(4) by simp
  then have lru: "lru_of (c\<lparr>entries := head\<rparr>) = lru_touch now k (lru_of c)"
    using add(2) c1(2) by (simp add: lru_touch_def c1_def split: prod.splits)
  have k: "(k, el_val e) \<in> set (lru_of c)"
    using e by (force simp: lru_of_def)
  have "length (lru_remove k (lru_of c)) < length (lru_of c)"
    using length_filter_less [OF k, of "\<lambda>b. fst b \<noteq> k"] by (simp add: lru_remove_def)
  moreover have "distinct (map fst (lru_touch now k (lru_of c)))"
    using c1(1) assms(2) by (auto simp: cache_wf_def lru_remove_def lru_touch_def c1(2) split: option.splits prod.splits)
  ultimately show ?thesis
    using assms(2) add lru by (auto simp: cache_wf_def lru_touch_def split: option.splits prod.splits)
qed

section \<open>Sequences of operations\<close>

datatype 'd cache_op =
    Lookup rat bytes
  | KeyExist rat bytes
  | Insert rat nat bytes "'d option"
  | Remove bytes
  | Clear rat rat

text \<open>What an operation answers: a data pointer and what it frees.\<close>

datatype 'd cache_out = Found int "'d option" | Freed int "(bytes \<times> 'd) list"

fun cache_step :: "libc \<Rightarrow> 'd cache \<Rightarrow> 'd cache_op \<Rightarrow> fault + 'd cache_out \<times> 'd cache option" where
  "cache_step lc c (Lookup now k) =
     map_sum id (\<lambda>(rc, d, c'). (Found rc d, c')) (cache_lookup lc now (Some c) (Some k) True)"
| "cache_step lc c (KeyExist now k) =
     map_sum id (\<lambda>(rc, c'). (Found rc None, c')) (cache_key_exist lc now (Some c) (Some k))"
| "cache_step lc c (Insert now p k d) =
     map_sum id (\<lambda>(rc, fs, c'). (Freed rc fs, c')) (cache_insert lc now p (Some c) k d)"
| "cache_step lc c (Remove k) =
     Inr (case cache_remove (Some c) (Some k) of (rc, fs, c') \<Rightarrow> (Freed rc fs, c'))"
| "cache_step lc c (Clear now age) =
     Inr (case cache_clear lc now (Some c) age of (rc, fs, c') \<Rightarrow> (Freed rc fs, c'))"

fun cache_run :: "libc \<Rightarrow> 'd cache \<Rightarrow> 'd cache_op list \<Rightarrow> fault + 'd cache_out list \<times> 'd cache" where
  "cache_run lc c [] = Inr ([], c)"
| "cache_run lc c (op # ops) =
     (case cache_step lc c op of
        Inr (out, Some c') \<Rightarrow> map_sum id (\<lambda>(outs, c''). (out # outs, c'')) (cache_run lc c' ops)
      | Inr (out, None) \<Rightarrow> Inl SEGV
      | Inl f \<Rightarrow> Inl f)"

text \<open>The same on the specification.\<close>

fun lru_step :: "libc \<Rightarrow> nat \<Rightarrow> 'd lru \<Rightarrow> 'd cache_op \<Rightarrow> 'd cache_out \<times> 'd lru" where
  "lru_step lc cap l (Lookup now k) = (Found 0 (Option.bind (map_of l k) fst), lru_touch now k l)"
| "lru_step lc cap l (KeyExist now k) = (Found (if map_of l k = None then 0 else 1) None, lru_touch now k l)"
| "lru_step lc cap l (Insert now p k d) =
     (if c_calloc lc 80
      then (case lru_evict cap (l @ [(k, d, now)]) of (old, l') \<Rightarrow> (Freed 0 (lru_data old), l'))
      else (Freed ENOMEM [], l))"
| "lru_step lc cap l (Remove k) =
     (Freed 0 (lru_data (filter (\<lambda>b. fst b = k) l)), lru_remove k l)"
| "lru_step lc cap l (Clear now age) =
     (Freed 0 (lru_data (filter (\<lambda>b. age < c_round lc (now - snd (snd b))) l)),
      filter (\<lambda>b. \<not> age < c_round lc (now - snd (snd b))) l)"

fun lru_run :: "libc \<Rightarrow> nat \<Rightarrow> 'd lru \<Rightarrow> 'd cache_op list \<Rightarrow> 'd cache_out list \<times> 'd lru" where
  "lru_run lc cap l [] = ([], l)"
| "lru_run lc cap l (op # ops) =
     (case lru_step lc cap l op of (out, l') \<Rightarrow>
        case lru_run lc cap l' ops of (outs, l'') \<Rightarrow> (out # outs, l''))"

text \<open>
  Keys are shorter than four gigabytes; \<^verbatim>\<open>malloc\<close> returns an address that is not in use; the
  callers insert a key only after a lookup has missed, as \<^verbatim>\<open>udprelay.c\<close> does. \<open>cache_insert\<close> itself
  does not check this.
\<close>

definition op_ok :: "'d cache \<Rightarrow> 'd cache_op \<Rightarrow> bool" where
  "op_ok c op =
     (case op of
        Lookup now k \<Rightarrow> length k < 2 ^ 32
      | KeyExist now k \<Rightarrow> length k < 2 ^ 32
      | Insert now p k d \<Rightarrow> length k < 2 ^ 32 \<and> p \<notin> el_addr ` set (HASH_ITER (entries c))
          \<and> map_of (lru_of c) k = None
      | Remove k \<Rightarrow> length k < 2 ^ 32
      | Clear now age \<Rightarrow> True)"

fun ops_ok :: "libc \<Rightarrow> 'd cache \<Rightarrow> 'd cache_op list \<Rightarrow> bool" where
  "ops_ok lc c [] = True"
| "ops_ok lc c (op # ops) \<longleftrightarrow> op_ok c op \<and>
     (case cache_step lc c op of Inr (out, Some c') \<Rightarrow> ops_ok lc c' ops | _ \<Rightarrow> True)"

text \<open>The only fault is running out of memory; otherwise the cache moves as the specification does.\<close>

definition simulates :: "libc \<Rightarrow> 'd cache \<Rightarrow> 'd cache_op \<Rightarrow> bool" where
  "simulates lc c op =
     (case cache_step lc c op of
        Inl f \<Rightarrow> f = FATAL ''out of memory''
      | Inr (out, c'') \<Rightarrow>
          (case c'' of None \<Rightarrow> False | Some c' \<Rightarrow>
             cache_wf c' \<and> max_entries c' = max_entries c \<and>
             lru_step lc (max_entries c) (lru_of c) op = (out, lru_of c')))"

lemma HASH_ADD_KEYPTR_fault: "HASH_ADD_KEYPTR lc head k p v = Inl f \<Longrightarrow> f = FATAL ''out of memory''"
  by (auto simp: HASH_ADD_KEYPTR_def HASH_MAKE_TABLE_def HASH_ADD_TO_BKT_def HASH_EXPAND_BUCKETS_def
    map_sum_def Let_def split: sum.splits option.splits if_splits prod.splits)

lemma lookup_simulates:
  assumes "mem_ok lc" "cache_wf c" "length k < 2 ^ 32"
  shows "simulates lc c (Lookup now k) \<and> simulates lc c (KeyExist now k)"
proof (cases "HASH_FIND (entries c) k")
  case None
  then show ?thesis
    using assms(2) HASH_FIND_lru [OF assms(2,3)]
    by (simp add: simulates_def cache_lookup_def cache_key_exist_def lru_touch_def)
next
  case (Some e)
  then have val: "map_of (lru_of c) k = Some (el_val e)"
    using HASH_FIND_lru [OF assms(2,3)] by simp
  show ?thesis
  proof (cases "cache_touch lc now (entries c) e k")
    case (Inl f)
    then have "f = FATAL ''out of memory''"
      by (auto simp: cache_touch_def dest: HASH_ADD_KEYPTR_fault)
    then show ?thesis
      by (simp add: simulates_def cache_lookup_def cache_key_exist_def Some Inl)
  next
    case (Inr head)
    then show ?thesis
      using cache_touch_lru [OF assms Some Inr] val
      by (simp add: simulates_def cache_lookup_def cache_key_exist_def Some)
  qed
qed

lemma find_filter_key:
  assumes "distinct (map el_key es)" "List.find (\<lambda>e. el_key e = k) es = Some e"
  shows "filter (\<lambda>b. fst b = k) (map (\<lambda>e. (el_key e, el_val e)) es) = [(k, el_val e)]"
  using assms by (induction es) (auto simp: filter_empty_conv image_iff split: if_splits)

lemma lru_data_released: "lru_data [(el_key e, el_val e)] = released e"
  by (cases "el_val e") (simp add: lru_data_def released_def List.map_filter_def split: option.splits)

lemma remove_simulates:
  assumes "cache_wf c" "length k < 2 ^ 32"
  shows "simulates lc c (Remove k)"
proof (cases "HASH_FIND (entries c) k")
  case None
  then have "k \<notin> fst ` set (lru_of c)"
    using HASH_FIND_lru [OF assms] by (simp add: map_of_eq_None_iff)
  then have "filter (\<lambda>b. fst b = k) (lru_of c) = []" "lru_remove k (lru_of c) = lru_of c"
    by (auto simp: filter_empty_conv lru_remove_def filter_id_conv image_iff)
  then show ?thesis
    using None assms(1) by (simp add: simulates_def cache_remove_def lru_data_def List.map_filter_def)
next
  case (Some e)
  then have e: "e \<in> set (HASH_ITER (entries c))" "el_key e = k"
    using ut.find_Some [OF cache_wfD(1) [OF assms(1)] assms(2)] by auto
  have "filter (\<lambda>b. fst b = k) (lru_of c) = [(k, el_val e)]"
    using Some ut.find_uniq [OF cache_wfD(1,2) [OF assms(1)] assms(2)] cache_wfD(2) [OF assms(1)]
    by (simp add: lru_of_def find_filter_key)
  then show ?thesis
    using Some HASH_DELETE_lru [OF assms(1) e(1)] e(2) lru_data_released [of e]
    by (simp add: simulates_def cache_remove_def)
qed

lemma iter_delete_items:
  assumes "cache_wf c" "distinct els" "set els \<subseteq> set (HASH_ITER (entries c))"
    and "iter_delete P els (entries c) = (head, fs)"
  shows "cache_wf (c\<lparr>entries := head\<rparr>)
       \<and> HASH_ITER head = filter (\<lambda>e. \<not> (P e \<and> e \<in> set els)) (HASH_ITER (entries c))
       \<and> fs = concat (map released (filter P els))"
  using assms
proof (induction els arbitrary: c fs)
  case (Cons el els)
  show ?case
  proof (cases "P el")
    case True
    define c1 where "c1 = c\<lparr>entries := HASH_DELETE (entries c) el\<rparr>"
    obtain fs' where fs': "iter_delete P els (entries c1) = (head, fs')" "fs = released el @ fs'"
      using Cons.prems(4) True by (auto simp: c1_def split: prod.splits)
    have el: "el \<in> set (HASH_ITER (entries c))"
      using Cons.prems(3) by simp
    have c1: "cache_wf c1"
      using HASH_DELETE_lru [OF Cons.prems(1) el] by (simp add: c1_def)
    have "HASH_ITER (entries c1) = remove1 el (HASH_ITER (entries c))"
      using ut.del_items [OF cache_wfD(1) [OF Cons.prems(1)] el] by (simp add: c1_def)
    then have items: "HASH_ITER (entries c1) = filter (\<lambda>e. e \<noteq> el) (HASH_ITER (entries c))"
      using cache_wfD(2) [OF Cons.prems(1)]
      by (simp add: distinct_map distinct_remove1_removeAll removeAll_filter_not_eq eq_commute)
    then have "set els \<subseteq> set (HASH_ITER (entries c1))"
      using Cons.prems(2,3) by auto
    then show ?thesis
      using Cons.IH [OF c1 _ _ fs'(1)] Cons.prems(2) True fs'(2) items
      by (auto simp: c1_def intro: filter_cong)
  next
    case False
    then show ?thesis
      using Cons.IH [OF Cons.prems(1), of fs] Cons.prems by (auto intro: filter_cong)
  qed
qed (auto simp: cache_wf_def lru_of_def)

lemma lru_data_concat: "lru_data (map (\<lambda>e. (el_key e, el_val e)) es) = concat (map released es)"
  by (induction es) (auto simp: lru_data_def released_def List.map_filter_def split: option.splits prod.splits)

lemma clear_simulates:
  assumes "cache_wf c"
  shows "simulates lc c (Clear now age)"
proof -
  define P :: "'a entry ut_elem \<Rightarrow> bool" where "P e \<longleftrightarrow> age < c_round lc (now - snd (el_val e))" for e
  obtain head fs where it: "iter_delete P (HASH_ITER (entries c)) (entries c) = (head, fs)"
    by fastforce
  have "distinct (HASH_ITER (entries c))"
    using cache_wfD(2) [OF assms] by (simp add: distinct_map)
  then have *: "cache_wf (c\<lparr>entries := head\<rparr>)" "HASH_ITER head = filter (\<lambda>e. \<not> P e) (HASH_ITER (entries c))"
      "fs = concat (map released (filter P (HASH_ITER (entries c))))"
    using iter_delete_items [OF assms _ _ it] by (auto intro: filter_cong)
  show ?thesis
    using * it unfolding P_def
    by (simp add: simulates_def cache_clear_def lru_of_def filter_map o_def lru_data_concat)
qed

lemma insert_simulates:
  assumes "mem_ok lc" "cache_wf c" "length k < 2 ^ 32"
    and "p \<notin> el_addr ` set (HASH_ITER (entries c))" "map_of (lru_of c) k = None"
  shows "simulates lc c (Insert now p k d)"
proof (cases "HASH_ADD_KEYPTR lc (entries c) k p (d, now)")
  case (Inl f)
  then show ?thesis
    using HASH_ADD_KEYPTR_fault [OF Inl] assms(2) by (simp add: simulates_def cache_insert_def ENOMEM_def)
next
  case (Inr head)
  note add = HASH_ADD_lru [OF assms(1-4) Inr]
  have k: "k \<notin> fst ` set (lru_of c)"
    using assms(5) by (simp add: map_of_eq_None_iff)
  define c1 where "c1 = c\<lparr>entries := head\<rparr>"
  show ?thesis
  proof (cases "max_entries c \<le> Suc (length (lru_of c))")
    case True
    obtain e es where es: "HASH_ITER head = e # es"
      using add by (metis append_is_Nil_conv list.exhaust not_Cons_self2)
    have ok: "ut_wf (HASH_DELETE head e)" "HASH_ITER (HASH_DELETE head e) = es"
      using ut.del_items [of head e] conjunct1 [OF add] es by simp_all
    have bind: "map (\<lambda>e. (el_key e, el_val e)) (e # es) = lru_of c @ [(k, d, now)]"
      using add es by (simp add: lru_of_def keyed_elem_def)
    have lru: "lru_of (c\<lparr>entries := HASH_DELETE head e\<rparr>) = drop 1 (lru_of c @ [(k, d, now)])"
      by (simp only: bind [symmetric]) (simp add: lru_of_def ok(2))
    have "distinct (map fst (lru_of c @ [(k, d, now)]))"
      using assms(2) k by (auto simp: cache_wf_def)
    then have dis: "distinct (map fst (drop 1 (lru_of c @ [(k, d, now)])))"
      by (metis distinct_drop drop_map)
    have "cache_wf (c\<lparr>entries := HASH_DELETE head e\<rparr>)"
      using assms(2) k ok(1) dis unfolding cache_wf_def lru by auto
    moreover have "lru_data (take 1 (lru_of c @ [(k, d, now)])) = released e"
      using lru_data_released [of e] by (simp only: bind [symmetric]) simp
    ultimately show ?thesis
      using True Inr add [THEN conjunct2, THEN conjunct2, THEN conjunct2] es lru assms(2)
      by (auto simp: simulates_def cache_insert_def lru_evict_def)
  next
    case False
    then have "cache_wf c1"
      using assms(2) add k by (auto simp: cache_wf_def c1_def)
    then show ?thesis
      using False Inr add assms(2)
      by (auto simp: simulates_def cache_insert_def lru_evict_def c1_def lru_data_def List.map_filter_def)
  qed
qed

lemma cache_step_simulates:
  assumes "mem_ok lc" "cache_wf c" "op_ok c op"
  shows "simulates lc c op"
  using assms lookup_simulates remove_simulates clear_simulates insert_simulates
  by (cases op) (auto simp: op_ok_def)

lemma cache_run_simulates:
  assumes "mem_ok lc" "cache_wf c" "ops_ok lc c ops"
  shows "case cache_run lc c ops of
      Inl f \<Rightarrow> f = FATAL ''out of memory''
    | Inr (outs, c') \<Rightarrow> cache_wf c' \<and> max_entries c' = max_entries c
        \<and> lru_run lc (max_entries c) (lru_of c) ops = (outs, lru_of c')"
  using assms(2,3)
proof (induction ops arbitrary: c)
  case (Cons op ops)
  have sim: "simulates lc c op"
    using cache_step_simulates [OF assms(1) Cons.prems(1)] Cons.prems(2) by simp
  show ?case
  proof (cases "cache_step lc c op")
    case (Inl f)
    then show ?thesis
      using sim by (simp add: simulates_def)
  next
    case (Inr r)
    obtain out c' where r: "r = (out, Some c')"
      using sim Inr by (auto simp: simulates_def split: option.splits)
    have c': "cache_wf c'" "max_entries c' = max_entries c"
        "lru_step lc (max_entries c) (lru_of c) op = (out, lru_of c')"
      using sim by (simp_all add: simulates_def Inr r)
    have "ops_ok lc c' ops"
      using Cons.prems(2) by (simp add: Inr r)
    then show ?thesis
      using Cons.IH [OF c'(1)] c'(2,3)
      by (cases "cache_run lc c' ops") (auto simp: Inr r)
  qed
qed simp

end
