(* ===== verification/SS_Http.thy ===== *)
theory SS_Http
  imports SS_Prelude
begin

text \<open>
  The Host-header parser of \<^verbatim>\<open>src/http.c\<close>. The moving \<^verbatim>\<open>data\<close> pointer is a position \<open>p\<close> in the
  received bytes and \<^verbatim>\<open>len\<close> an integer that may become negative, as in the code. Every array
  access is a checked read. The result is the return code with the host buffer (without its
  final zero) when one was stored.
\<close>

abbreviation CR :: u8 where "CR \<equiv> 13"

abbreviation LF :: u8 where "LF \<equiv> 10"

definition isblank :: "u8 \<Rightarrow> bool" where "isblank b \<longleftrightarrow> b = 32 \<or> b = 9"

definition isdigit :: "u8 \<Rightarrow> bool" where "isdigit b \<longleftrightarrow> 48 \<le> b \<and> b \<le> 57"

definition tolower :: "u8 \<Rightarrow> u8" where "tolower b = (if 65 \<le> b \<and> b \<le> 90 then b + 32 else b)"

section \<open>The parser\<close>

text \<open>The scans for the end of a line: the second byte is read only when the first is not CR.\<close>

definition at_eol :: "bytes \<Rightarrow> nat \<Rightarrow> (bool \<Rightarrow> fault + 'b) \<Rightarrow> fault + 'b" where
  "at_eol d i k = rd d i (\<lambda>a. if a = CR then k True else rd d (i + 1) (\<lambda>b. k (b = LF)))"

lemma at_eol_cong [fundef_cong]:
  "d = d' \<Longrightarrow> i = i' \<Longrightarrow> (\<And>b. k b = k' b) \<Longrightarrow> at_eol d i k = at_eol d' i' k'"
  by (simp add: at_eol_def rd_def)

function skip_line :: "bytes \<Rightarrow> nat \<Rightarrow> int \<Rightarrow> fault + nat \<times> int" where
  "skip_line d p n =
     (if n > 2 then at_eol d p (\<lambda>e. if e then Inr (p, n) else skip_line d (p + 1) (n - 1))
      else Inr (p, n))"
  by pat_completeness auto
termination
  by (relation "measure (\<lambda>(d, p, n). nat n)") auto

function header_length :: "bytes \<Rightarrow> nat \<Rightarrow> int \<Rightarrow> nat \<Rightarrow> fault + nat" where
  "header_length d p n h =
     (if n > int h + 1
      then at_eol d (p + h) (\<lambda>e. if e then Inr h else header_length d p n (h + 1))
      else Inr h)"
  by pat_completeness auto
termination
  by (relation "measure (\<lambda>(d, p, n, h). nat (n - int h))") auto

declare skip_line.simps [simp del] header_length.simps [simp del]

definition next_header :: "bytes \<Rightarrow> nat \<Rightarrow> int \<Rightarrow> fault + nat \<times> nat \<times> int" where
  "next_header d p n =
     (case skip_line d p n of
        Inl f \<Rightarrow> Inl f
      | Inr (p, n) \<Rightarrow>
          map_sum id (\<lambda>h. (h, p + 2, n - 2)) (header_length d (p + 2) (n - 2) 0))"

text \<open>\<^verbatim>\<open>strncasecmp(header, data, header_len) == 0\<close> for a header without zero bytes.\<close>

definition header_matches :: "bytes \<Rightarrow> bytes \<Rightarrow> nat \<Rightarrow> bool" where
  "header_matches header d p \<longleftrightarrow>
     map tolower (take (length header) (drop p d)) = map tolower header"

function eat_blanks :: "bytes \<Rightarrow> nat \<Rightarrow> nat \<Rightarrow> nat \<Rightarrow> fault + nat" where
  "eat_blanks d p h header_len =
     (if header_len < h
      then rd d (p + header_len) (\<lambda>b.
        if isblank b then eat_blanks d p h (header_len + 1) else Inr header_len)
      else Inr header_len)"
  by pat_completeness auto
termination
  by (relation "measure (\<lambda>(d, p, h, header_len). h - header_len)") auto

declare eat_blanks.simps [simp del]

definition header_value :: "libc \<Rightarrow> bytes \<Rightarrow> bytes \<Rightarrow> nat \<Rightarrow> nat \<Rightarrow> fault + int \<times> bytes option" where
  "header_value lc header d p h =
     (case eat_blanks d p h (length header) of
        Inl f \<Rightarrow> Inl f
      | Inr header_len \<Rightarrow>
          if \<not> c_calloc lc (h - header_len + 1) then Inr (-4, None)
          else if p + h \<le> length d
          then Inr (int (h - header_len), Some (strncpy (drop (p + header_len) d) (h - header_len)))
          else Inl OOB)"

lemma skip_line_decreases: "skip_line d p n = Inr (p', n') \<Longrightarrow> n' \<le> n"
proof (induction d p n rule: skip_line.induct)
  case (1 d p n)
  show ?case
    using 1(2) by (subst (asm) skip_line.simps)
      (auto simp: at_eol_def rd_def split: if_splits dest: 1(1))
qed

lemma next_header_decreases: "next_header d p n = Inr (h, p', n') \<Longrightarrow> h \<noteq> 0 \<Longrightarrow> 0 < n' \<and> n' < n"
  using skip_line_decreases [of d p n]
  by (auto simp: next_header_def map_sum_def header_length.simps [of d _ _ 0]
    split: sum.splits if_splits prod.splits)

function get_header :: "libc \<Rightarrow> bytes \<Rightarrow> bytes \<Rightarrow> nat \<Rightarrow> int \<Rightarrow> fault + int \<times> bytes option" where
  "get_header lc header d p n =
     (case next_header d p n of
        Inl f \<Rightarrow> Inl f
      | Inr (h, p', n') \<Rightarrow>
          if h \<noteq> 0
          then (if length header < h \<and> header_matches header d p'
                then header_value lc header d p' h
                else get_header lc header d p' n')
          else if n' = 0 then Inr (-1, None)
          else Inr (-2, None))"
  by pat_completeness auto
termination
  by (relation "measure (\<lambda>(lc, header, d, p, n). nat n)") (auto dest!: next_header_decreases)

declare get_header.simps [simp del]

text \<open>The loop that looks for a port, from the end: the place of the colon before the digits.\<close>

fun port_colon :: "bytes \<Rightarrow> nat \<Rightarrow> nat option" where
  "port_colon h 0 = None"
| "port_colon h (Suc i) =
     (if h ! i = 58 then Some i else if isdigit (h ! i) then port_colon h i else None)"

definition parse_http_header :: "libc \<Rightarrow> bytes \<Rightarrow> bool \<Rightarrow> fault + int \<times> bytes option" where
  "parse_http_header lc d hostname =
     (if \<not> hostname then Inr (-3, None)
      else if length d = 0 then Inr (-1, None)
      else case get_header lc (str ''Host:'') d 0 (c_int (length d)) of
        Inr (rc, Some h) \<Rightarrow>
          (case port_colon h (length h) of
             None \<Rightarrow> Inr (rc, Some h)
           | Some i \<Rightarrow> Inr (int i, Some (h[i := 0])))
      | r \<Rightarrow> r)"

section \<open>No read outside the bytes received\<close>

text \<open>The position and the remaining length always add up to the length of the buffer.\<close>

lemma at_eol_in: "i + 1 < length d \<Longrightarrow> at_eol d i k = k (d ! i = CR \<or> d ! (i + 1) = LF)"
  by (simp add: at_eol_def)

lemma skip_line_safe:
  "int p + n = int (length d) \<Longrightarrow>
     \<exists>p' n'. skip_line d p n = Inr (p', n') \<and> int p' + n' = int (length d)"
proof (induction d p n rule: skip_line.induct)
  case (1 d p n)
  show ?case
  proof (cases "n > 2")
    case True
    then show ?thesis
      using 1 by (subst skip_line.simps) (auto simp: at_eol_in)
  qed (use 1(2) in \<open>simp add: skip_line.simps\<close>)
qed

lemma header_length_safe:
  "int p + n = int (length d) \<Longrightarrow>
     \<exists>h'. header_length d p n h = Inr h' \<and> (h' = h \<or> int h' + 1 \<le> n)"
proof (induction d p n h rule: header_length.induct)
  case (1 d p n h)
  show ?case
  proof (cases "n > int h + 1")
    case True
    then have in_range: "p + h + 1 < length d"
      using 1(2) by linarith
    show ?thesis
    proof (cases "d ! (p + h) = CR \<or> d ! (p + h + 1) = LF")
      case False
      obtain h' where "header_length d p n (h + 1) = Inr h'" "h' = h + 1 \<or> int h' + 1 \<le> n"
        using 1(1) [OF True, of False] 1(2) by auto
      then show ?thesis
        using True False in_range by (subst header_length.simps) (auto simp: at_eol_in)
    qed (use True in_range in \<open>simp add: header_length.simps at_eol_in\<close>)
  qed (simp add: header_length.simps)
qed

lemma next_header_safe:
  assumes "int p + n = int (length d)"
  shows "\<exists>h p' n'. next_header d p n = Inr (h, p', n') \<and> int p' + n' = int (length d)
       \<and> (h \<noteq> 0 \<longrightarrow> p' + h < length d)"
proof -
  obtain p1 n1 where skip: "skip_line d p n = Inr (p1, n1)" "int p1 + n1 = int (length d)"
    using skip_line_safe [OF assms] by blast
  then have "int (p1 + 2) + (n1 - 2) = int (length d)"
    by simp
  from header_length_safe [OF this, of 0]
  show ?thesis
    using skip by (auto simp: next_header_def)
qed

lemma eat_blanks_safe:
  "p + h \<le> length d \<Longrightarrow> g \<le> h \<Longrightarrow> \<exists>g'. eat_blanks d p h g = Inr g' \<and> g \<le> g' \<and> g' \<le> h"
proof (induction d p h g rule: eat_blanks.induct)
  case (1 d p h g)
  show ?case
  proof (cases "g < h")
    case True
    then show ?thesis
      using 1 by (subst eat_blanks.simps) (auto simp: Suc_le_eq dest: Suc_leD)
  qed (use 1 in \<open>simp add: eat_blanks.simps\<close>)
qed

definition host_ok :: "fault + int \<times> bytes option \<Rightarrow> bool" where
  "host_ok r = (case r of
      Inl f \<Rightarrow> False
    | Inr (rc, None) \<Rightarrow> rc \<in> {-1, -2, -3, -4}
    | Inr (rc, Some h) \<Rightarrow> rc = int (length h))"

lemma header_value_ok:
  assumes "p + h \<le> length d" "length header < h"
  shows "host_ok (header_value lc header d p h)"
  using eat_blanks_safe [OF assms(1), of "length header"] assms
  by (auto simp: header_value_def host_ok_def)

lemma get_header_ok: "int p + n = int (length d) \<Longrightarrow> host_ok (get_header lc header d p n)"
proof (induction lc header d p n rule: get_header.induct)
  case (1 lc header d p n)
  obtain h p' n' where nx: "next_header d p n = Inr (h, p', n')" "int p' + n' = int (length d)"
      "h \<noteq> 0 \<longrightarrow> p' + h < length d"
    using next_header_safe [OF 1(2)] by blast
  then have "host_ok (get_header lc header d p' n')" if "h \<noteq> 0" "\<not> (length header < h \<and> header_matches header d p')"
    using 1(1) [OF nx(1) refl refl that] by simp
  moreover have "host_ok (header_value lc header d p' h)" if "length header < h"
    using nx(3) that by (intro header_value_ok) auto
  ultimately show ?case
    by (subst get_header.simps) (auto simp: nx(1), auto simp: host_ok_def)
qed

lemma port_colon_less: "port_colon h n = Some i \<Longrightarrow> i < n"
  by (induction n) (auto split: if_splits simp: less_Suc_eq)

section \<open>The host of a request\<close>

text \<open>A line holds neither CR nor LF.\<close>

definition line_ok :: "bytes \<Rightarrow> bool" where
  "line_ok l \<longleftrightarrow> CR \<notin> set l \<and> LF \<notin> set l"

lemma line_next:
  assumes "line_ok (x # l)"
  shows "x \<noteq> CR" "(x # l @ CR # r) ! 1 \<noteq> LF"
  using assms by (cases l; simp add: line_ok_def)+

lemma skip_line_line:
  "line_ok l \<Longrightarrow> d = a @ l @ [CR, LF] @ r \<Longrightarrow> n = int (length d - length a) \<Longrightarrow>
     skip_line d (length a) n = Inr (length (a @ l), n - int (length l))"
proof (induction l arbitrary: a n)
  case Nil
  then show ?case
    by (subst skip_line.simps) (auto simp: at_eol_in nth_append)
next
  case (Cons x l)
  have d: "d ! length a = x" "d ! (length a + 1) = (x # l @ CR # LF # r) ! 1" "length a + 1 < length d"
    using Cons.prems(2) by (auto simp: nth_append)
  have "skip_line d (length (a @ [x])) (n - 1) = Inr (length ((a @ [x]) @ l), n - 1 - int (length l))"
    using Cons.prems by (intro Cons.IH) (auto simp: line_ok_def)
  then show ?case
    using line_next(1) [OF Cons.prems(1)] line_next(2) [OF Cons.prems(1), of "LF # r"] d Cons.prems(2,3)
    by (subst skip_line.simps) (simp add: at_eol_in)
qed

lemma header_length_line:
  "line_ok l \<Longrightarrow> d = a @ g @ l @ [CR, LF] @ r \<Longrightarrow> n = int (length d - length a) \<Longrightarrow>
     header_length d (length a) n (length g) = Inr (length (g @ l))"
proof (induction l arbitrary: g)
  case Nil
  then show ?case
    by (subst header_length.simps) (auto simp: at_eol_in nth_append)
next
  case (Cons x l)
  have d: "d ! (length a + length g) = x" "d ! (length a + length g + 1) = (x # l @ CR # LF # r) ! 1"
      "length a + length g + 1 < length d"
    using Cons.prems(2) by (auto simp: nth_append)
  have "header_length d (length a) n (length (g @ [x])) = Inr (length ((g @ [x]) @ l))"
    using Cons.prems by (intro Cons.IH) (auto simp: line_ok_def)
  then show ?case
    using line_next(1) [OF Cons.prems(1)] line_next(2) [OF Cons.prems(1), of "LF # r"] d Cons.prems(2,3)
    by (subst header_length.simps) (simp add: at_eol_in)
qed

lemma next_header_line:
  assumes "line_ok l" "line_ok l'" "d = a @ l @ [CR, LF] @ l' @ [CR, LF] @ r" "n = int (length d - length a)"
  shows "next_header d (length a) n
       = Inr (length l', length (a @ l @ [CR, LF]), int (length d - length (a @ l @ [CR, LF])))"
proof -
  have skip: "skip_line d (length a) n = Inr (length (a @ l), n - int (length l))"
    by (rule skip_line_line [OF assms(1) assms(3,4)])
  have n: "n - int (length l) - 2 = int (length d - length (a @ l @ [CR, LF]))"
    using assms(3,4) by simp
  have p: "length (a @ l) + 2 = length (a @ l @ [CR, LF])"
    by simp
  have "header_length d (length (a @ l @ [CR, LF])) (n - int (length l) - 2) (length ([] :: bytes)) = Inr (length ([] @ l'))"
    using assms by (intro header_length_line [where r = r]) (auto simp: n)
  then show ?thesis
    by (simp only: next_header_def skip sum.case prod.case p n) simp
qed

definition is_header :: "bytes \<Rightarrow> bytes \<Rightarrow> bool" where
  "is_header header l \<longleftrightarrow>
     length header < length l \<and> map tolower (take (length header) l) = map tolower header"

definition header_lines :: "bytes list \<Rightarrow> bytes" where
  "header_lines ls = concat (map (\<lambda>l. l @ [CR, LF]) ls)"

lemma header_matches_line:
  assumes "d = a @ l @ r" "length header < length l"
  shows "header_matches header d (length a) \<longleftrightarrow> is_header header l"
  using assms by (simp add: header_matches_def is_header_def)

text \<open>Lines that are not the header are skipped up to the first one that is.\<close>

lemma get_header_lines:
  assumes "line_ok l" "\<forall>x \<in> set ls. line_ok x \<and> x \<noteq> [] \<and> \<not> is_header header x"
    and "line_ok hl" "is_header header hl"
    and "d = a @ l @ [CR, LF] @ header_lines ls @ hl @ [CR, LF] @ r"
  shows "get_header lc header d (length a) (int (length d - length a))
       = header_value lc header d (length (a @ l @ [CR, LF] @ header_lines ls)) (length hl)"
  using assms
proof (induction ls arbitrary: a l)
  case Nil
  let ?a = "a @ l @ [CR, LF]"
  have nx: "next_header d (length a) (int (length d - length a)) = Inr (length hl, length ?a, int (length d - length ?a))"
    using Nil by (intro next_header_line [where r = r]) (auto simp: header_lines_def)
  have "length header < length hl" "hl \<noteq> []" "header_matches header d (length ?a)"
    using Nil.prems(4,5) header_matches_line [of d ?a hl "[CR, LF] @ r" header]
    by (auto simp: is_header_def header_lines_def)
  then show ?case
    by (subst get_header.simps) (simp only: nx sum.case prod.case, simp add: header_lines_def)
next
  case (Cons x ls)
  let ?a = "a @ l @ [CR, LF]"
  have nx: "next_header d (length a) (int (length d - length a)) = Inr (length x, length ?a, int (length d - length ?a))"
    using Cons.prems by (intro next_header_line [where r = "header_lines ls @ hl @ [CR, LF] @ r"])
      (auto simp: header_lines_def)
  have no: "\<not> (length header < length x \<and> header_matches header d (length ?a))"
    using Cons.prems(2,5) header_matches_line [of d ?a x "[CR, LF] @ header_lines ls @ hl @ [CR, LF] @ r" header]
    by (auto simp: header_lines_def)
  have "get_header lc header d (length ?a) (int (length d - length ?a))
      = header_value lc header d (length (?a @ x @ [CR, LF] @ header_lines ls)) (length hl)"
    using Cons.prems by (intro Cons.IH) (auto simp: header_lines_def)
  then show ?case
    using no Cons.prems(2)
    by (subst get_header.simps) (simp only: nx sum.case prod.case, simp add: header_lines_def)
qed

lemma eat_blanks_line:
  "\<forall>b \<in> set bl. isblank b \<Longrightarrow> v \<noteq> [] \<Longrightarrow> \<not> isblank (hd v) \<Longrightarrow> d = a @ g @ bl @ v @ r \<Longrightarrow>
     h = length (g @ bl @ v) \<Longrightarrow> eat_blanks d (length a) h (length g) = Inr (length (g @ bl))"
proof (induction bl arbitrary: g)
  case Nil
  then show ?case
    by (subst eat_blanks.simps) (auto simp: nth_append rd_def hd_conv_nth)
next
  case (Cons b bl)
  have "eat_blanks d (length a) h (length (g @ [b])) = Inr (length ((g @ [b]) @ bl))"
    using Cons.prems by (intro Cons.IH) auto
  moreover have "d ! (length a + length g) = b" "length a + length g < length d"
    using Cons.prems(4) by (auto simp: nth_append)
  ultimately show ?case
    using Cons.prems(1,5) by (subst eat_blanks.simps) auto
qed

lemma header_value_line:
  assumes "length nm = length header" "\<forall>b \<in> set bl. isblank b" "v \<noteq> []" "\<not> isblank (hd v)" "0 \<notin> set v"
    and "c_calloc lc (length v + 1)" "d = a @ (nm @ bl @ v) @ r"
  shows "header_value lc header d (length a) (length (nm @ bl @ v)) = Inr (int (length v), Some v)"
proof -
  have "eat_blanks d (length a) (length (nm @ bl @ v)) (length nm) = Inr (length (nm @ bl))"
    using assms by (intro eat_blanks_line) auto
  moreover have "strncpy (drop (length a + length (nm @ bl)) d) (length v) = v"
    using strncpy_nonzero [of "length v" "v @ r"] assms(5,7) by simp
  ultimately show ?thesis
    using assms(1,6,7) by (simp add: header_value_def)
qed

text \<open>
  The port: a colon followed by digits up to the end. Without one, the host has no colon, or
  ends neither in one nor in a digit, as an IPv6 address in brackets does.
\<close>

definition port_ok :: "bytes \<Rightarrow> bytes \<Rightarrow> bool" where
  "port_ok host port \<longleftrightarrow>
     (port = [] \<and> (58 \<notin> set host \<or> host \<noteq> [] \<and> last host \<noteq> 58 \<and> \<not> isdigit (last host)))
     \<or> (\<exists>ds. port = 58 # ds \<and> (\<forall>b \<in> set ds. isdigit b))"

lemma port_colon_found:
  "\<forall>b \<in> set ds. isdigit b \<Longrightarrow>
     port_colon (host @ 58 # ds @ r) (length (host @ 58 # ds)) = Some (length host)"
proof (induction ds arbitrary: r rule: rev_induct)
  case (snoc x ds)
  have "(host @ 58 # ds @ [x] @ r) ! (length host + Suc (length ds)) = x"
    by (simp add: nth_append)
  moreover have "x \<noteq> 58" "isdigit x"
    using snoc.prems by (auto simp: isdigit_def)
  ultimately show ?case
    using snoc.IH [of "x # r"] snoc.prems by simp
qed simp

lemma port_colon_host:
  assumes "port_ok host port"
  shows "port_colon (host @ port) (length (host @ port)) = (if port = [] then None else Some (length host))"
proof (cases "port = []")
  case True
  have "port_colon h n = None" if "n \<le> length h" "58 \<notin> set h" for h n
    using that by (induction n) (auto simp: Suc_le_eq dest: nth_mem)
  moreover have "port_colon host (length host) = None" if "host \<noteq> []" "last host \<noteq> 58" "\<not> isdigit (last host)"
    using that by (cases host rule: rev_cases) simp_all
  ultimately show ?thesis
    using True assms by (auto simp: port_ok_def)
next
  case False
  then show ?thesis
    using assms port_colon_found [where r = "[]"] by (auto simp: port_ok_def)
qed

text \<open>
  The whole parser on a request: the request line, header lines other than Host, the Host line
  with its value, and anything behind it.
\<close>

definition request :: "bytes \<Rightarrow> bytes list \<Rightarrow> bytes \<Rightarrow> bytes \<Rightarrow> bytes \<Rightarrow> bytes" where
  "request rl ls nm v r = rl @ [CR, LF] @ header_lines ls @ (nm @ v) @ [CR, LF] @ r"

definition request_ok :: "bytes \<Rightarrow> bytes list \<Rightarrow> bytes \<Rightarrow> bytes \<Rightarrow> bytes \<Rightarrow> bytes \<Rightarrow> bool" where
  "request_ok rl ls nm bl host port \<longleftrightarrow>
     line_ok rl \<and> (\<forall>x \<in> set ls. line_ok x \<and> x \<noteq> [] \<and> \<not> is_header (str ''Host:'') x)
     \<and> map tolower nm = str ''host:'' \<and> (\<forall>b \<in> set bl. isblank b)
     \<and> host \<noteq> [] \<and> \<not> isblank (hd host) \<and> line_ok (host @ port) \<and> 0 \<notin> set (host @ port)
     \<and> port_ok host port"

lemma tolower_Host: "map tolower (str ''Host:'') = str ''host:''"
  by (simp add: str_def tolower_def)

lemma line_ok_name: "map tolower nm = str ''host:'' \<Longrightarrow> line_ok nm"
  by (auto simp: line_ok_def str_def tolower_def)

lemma parse_http_header_host:
  assumes "request_ok rl ls nm bl host port" and "c_calloc lc (length (host @ port) + 1)"
    and "length (request rl ls nm (bl @ host @ port) r) < 2 ^ 31"
  shows "\<exists>b. parse_http_header lc (request rl ls nm (bl @ host @ port) r) True = Inr (int (length host), Some b)
       \<and> take (length host) b = host \<and> length b = length (host @ port)"
proof -
  define d where "d = request rl ls nm (bl @ host @ port) r"
  define hl where "hl = nm @ bl @ host @ port"
  note ok = assms(1) [unfolded request_ok_def]
  have low: "map tolower nm = str ''host:''"
    using ok by simp
  then have five: "length nm = 5"
    using arg_cong [OF low, of length] unfolding length_map length_str by simp
  then have nm: "length nm = length (str ''Host:'')" "map tolower (take 5 hl) = map tolower (str ''Host:'')"
    using low by (simp_all add: hl_def tolower_Host)
  have hl: "line_ok hl" "is_header (str ''Host:'') hl"
    using ok nm line_ok_name [of nm]
    by (auto simp: hl_def is_header_def line_ok_def isblank_def)
  have d: "d = [] @ rl @ [CR, LF] @ header_lines ls @ hl @ [CR, LF] @ r"
    by (simp add: d_def request_def hl_def)
  have "get_header lc (str ''Host:'') d 0 (int (length d))
      = header_value lc (str ''Host:'') d (length (rl @ [CR, LF] @ header_lines ls)) (length hl)"
    using get_header_lines [of rl ls "str ''Host:''" hl d "[]" r lc] ok hl d by simp
  also have "\<dots> = Inr (int (length (host @ port)), Some (host @ port))"
    unfolding hl_def using ok nm assms(2) d
    by (intro header_value_line [where r = "[CR, LF] @ r"]) (auto simp: hl_def)
  finally have "get_header lc (str ''Host:'') d 0 (c_int (length d)) = Inr (int (length (host @ port)), Some (host @ port))"
    using assms(3) by (simp add: c_int_small d_def)
  moreover have "d \<noteq> []"
    by (simp add: d)
  ultimately show ?thesis
    using port_colon_host [of host port] ok
    by (auto simp: parse_http_header_def d_def [symmetric])
qed

lemma parse_http_header_safe:
  assumes "length d < 2 ^ 31"
  shows "\<exists>rc b. parse_http_header lc d hostname = Inr (rc, b)
       \<and> (case b of None \<Rightarrow> rc \<in> {-1, -2, -3, -4} | Some h \<Rightarrow> 0 \<le> rc \<and> rc \<le> int (length h))"
proof -
  have "host_ok (get_header lc (str ''Host:'') d 0 (c_int (length d)))"
    using assms by (intro get_header_ok) (simp add: c_int_small)
  then show ?thesis
    by (auto simp: parse_http_header_def host_ok_def split: sum.splits option.splits dest: port_colon_less)
qed

end
