(* ===== verification/SS_Tls.thy ===== *)
theory SS_Tls
  imports SS_Prelude
begin

text \<open>
  The server-name parser of \<^verbatim>\<open>src/tls.c\<close>, which reads the host name out of the first bytes of a
  TLS connection. Every array access is a checked read (\<^const>\<open>rd\<close>), and a callee gets exactly
  the slice its length argument describes, so a read outside the bytes the caller vouches for is
  the fault \<open>OOB\<close>. The result is the return code with the host name when one was stored.
\<close>

type_synonym name_result = "fault + int \<times> bytes option"

definition TLS_HEADER_LEN :: nat where "TLS_HEADER_LEN = 5"

definition TLS_HANDSHAKE_CONTENT_TYPE :: int where "TLS_HANDSHAKE_CONTENT_TYPE = 0x16"

definition TLS_HANDSHAKE_TYPE_CLIENT_HELLO :: int where "TLS_HANDSHAKE_TYPE_CLIENT_HELLO = 1"

section \<open>The parser\<close>

text \<open>A two-byte length at \<open>i\<close>, most significant byte first.\<close>

definition rd_len16 :: "bytes \<Rightarrow> nat \<Rightarrow> (nat \<Rightarrow> fault + 'b) \<Rightarrow> fault + 'b" where
  "rd_len16 d i k = rd d i (\<lambda>hi. rd d (i + 1) (\<lambda>lo. k (from_be16 hi lo)))"

lemma rd_len16_cong [fundef_cong]:
  "d = d' \<Longrightarrow> i = i' \<Longrightarrow> (\<And>n. k n = k' n) \<Longrightarrow> rd_len16 d i k = rd_len16 d' i' k'"
  by (simp add: rd_len16_def)

text \<open>The list of server names; \<open>pos\<close> starts behind the length of the list.\<close>

function parse_server_name_from :: "libc \<Rightarrow> bool \<Rightarrow> bytes \<Rightarrow> nat \<Rightarrow> name_result" where
  "parse_server_name_from lc sc d pos =
     (if pos + 3 < length d
      then rd_len16 d (pos + 1) (\<lambda>n.
        if length d < pos + 3 + n then Inr (-5, None)
        else rd d pos (\<lambda>ty.
          if c_char sc ty = 0
          then (if c_calloc lc (n + 1) then Inr (int n, Some (strncpy (drop (pos + 3) d) n))
                else Inr (-4, None))
          else parse_server_name_from lc sc d (pos + (3 + n))))
      else if pos \<noteq> length d then Inr (-5, None)
      else Inr (-2, None))"
  by pat_completeness auto
termination
  by (relation "measure (\<lambda>(lc, sc, d, pos). length d - pos)") auto

definition parse_server_name_extension :: "libc \<Rightarrow> bool \<Rightarrow> bytes \<Rightarrow> name_result" where
  "parse_server_name_extension lc sc d = parse_server_name_from lc sc d 2"

text \<open>The extensions.\<close>

function parse_extensions_from :: "libc \<Rightarrow> bool \<Rightarrow> bytes \<Rightarrow> nat \<Rightarrow> name_result" where
  "parse_extensions_from lc sc d pos =
     (if pos + 4 \<le> length d
      then rd_len16 d (pos + 2) (\<lambda>n.
        rd d pos (\<lambda>b0. rd d (pos + 1) (\<lambda>b1.
          if c_char sc b0 = 0 \<and> c_char sc b1 = 0
          then (if length d < pos + 4 + n then Inr (-5, None)
                else parse_server_name_extension lc sc (take n (drop (pos + 4) d)))
          else parse_extensions_from lc sc d (pos + (4 + n)))))
      else if pos \<noteq> length d then Inr (-5, None)
      else Inr (-2, None))"
  by pat_completeness auto
termination
  by (relation "measure (\<lambda>(lc, sc, d, pos). length d - pos)") auto

definition parse_extensions :: "libc \<Rightarrow> bool \<Rightarrow> bytes \<Rightarrow> name_result" where
  "parse_extensions lc sc d = parse_extensions_from lc sc d 0"

declare parse_server_name_from.simps [simp del] parse_extensions_from.simps [simp del]

text \<open>
  The client hello behind the record header: \<open>d\<close> is cut to the length of the record. The
  fields are skipped one after the other.
\<close>

definition parse_client_hello :: "libc \<Rightarrow> bool \<Rightarrow> bytes \<Rightarrow> int \<Rightarrow> int \<Rightarrow> name_result" where
  "parse_client_hello lc sc d major minor =
     (let pos = TLS_HEADER_LEN
      in if length d < pos + 1 then Inr (-5, None)
         else rd d pos (\<lambda>ty.
           if c_char sc ty \<noteq> TLS_HANDSHAKE_TYPE_CLIENT_HELLO then Inr (-5, None)
           else let pos = pos + 38
                in if length d < pos + 1 then Inr (-5, None)
                   else rd d pos (\<lambda>sid.
                     let pos = pos + (1 + unat sid)
                     in if length d < pos + 2 then Inr (-5, None)
                        else rd_len16 d pos (\<lambda>suites.
                          let pos = pos + (2 + suites)
                          in if length d < pos + 1 then Inr (-5, None)
                             else rd d pos (\<lambda>comp.
                               let pos = pos + (1 + unat comp)
                               in if pos = length d \<and> major = 3 \<and> minor = 0 then Inr (-2, None)
                                  else if length d < pos + 2 then Inr (-5, None)
                                  else rd_len16 d pos (\<lambda>n.
                                    let pos = pos + 2
                                    in if length d < pos + n then Inr (-5, None)
                                       else parse_extensions lc sc (take n (drop pos d))))))))"

definition parse_tls_header :: "libc \<Rightarrow> bool \<Rightarrow> bytes \<Rightarrow> bool \<Rightarrow> name_result" where
  "parse_tls_header lc sc d hostname =
     (if \<not> hostname then Inr (-3, None)
      else if length d < TLS_HEADER_LEN then Inr (-1, None)
      else rd d 0 (\<lambda>b0. rd d 1 (\<lambda>b1. rd d 2 (\<lambda>b2.
        if b0 AND 0x80 \<noteq> 0 \<and> c_char sc b2 = 1 then Inr (-2, None)
        else if c_char sc b0 \<noteq> TLS_HANDSHAKE_CONTENT_TYPE then Inr (-5, None)
        else if c_char sc b1 < 3 then Inr (-2, None)
        else rd_len16 d 3 (\<lambda>n.
          let n = n + TLS_HEADER_LEN;
              d' = take n d
          in if length d' < n then Inr (-1, None)
             else parse_client_hello lc sc d' (c_char sc b1) (c_char sc b2))))))"

section \<open>No read outside the bytes received\<close>

text \<open>A good result is no fault, an error code comes without a name, a length with a name of it.\<close>

definition name_ok :: "name_result \<Rightarrow> bool" where
  "name_ok r = (case r of
      Inl f \<Rightarrow> False
    | Inr (rc, None) \<Rightarrow> rc \<in> {-1, -2, -3, -4, -5}
    | Inr (rc, Some h) \<Rightarrow> rc = int (length h))"

lemma rd_len16_in: "i + 1 < length d \<Longrightarrow> rd_len16 d i k = k (from_be16 (d ! i) (d ! (i + 1)))"
  by (simp add: rd_len16_def)

lemma parse_server_name_ok: "name_ok (parse_server_name_from lc sc d pos)"
proof (induction lc sc d pos rule: parse_server_name_from.induct)
  case (1 lc sc d pos)
  then show ?case
    by (subst parse_server_name_from.simps) (auto simp: rd_len16_in name_ok_def)
qed

lemma parse_extensions_ok: "name_ok (parse_extensions_from lc sc d pos)"
proof (induction lc sc d pos rule: parse_extensions_from.induct)
  case (1 lc sc d pos)
  then show ?case
    by (subst parse_extensions_from.simps)
      (auto simp: rd_len16_in parse_server_name_extension_def parse_server_name_ok, auto simp: name_ok_def)
qed

lemma parse_client_hello_ok: "name_ok (parse_client_hello lc sc d major minor)"
  by (auto simp: parse_client_hello_def Let_def TLS_HEADER_LEN_def rd_len16_in parse_extensions_def
    parse_extensions_ok) (auto simp: name_ok_def)

lemma name_ok_code: "rc \<in> {-1, -2, -3, -4, -5} \<Longrightarrow> name_ok (Inr (rc, None))"
  by (simp add: name_ok_def)

lemma parse_tls_header_ok: "name_ok (parse_tls_header lc sc d hostname)"
proof (cases "length d < 5")
  case False
  then have "0 < length d" "1 < length d" "2 < length d" "3 + 1 < length d"
    by linarith+
  then show ?thesis
    unfolding parse_tls_header_def Let_def TLS_HEADER_LEN_def
    by (simp only: rd_in rd_len16_in) (simp add: name_ok_code parse_client_hello_ok)
qed (auto simp: parse_tls_header_def TLS_HEADER_LEN_def name_ok_code)

section \<open>A client hello and its name\<close>

text \<open>The layout of RFC 5246 and RFC 6066, as the parser reads it.\<close>

definition tls_ext :: "nat \<Rightarrow> bytes \<Rightarrow> bytes" where
  "tls_ext ty body = be16 ty @ be16 (length body) @ body"

definition sni_ext :: "bytes \<Rightarrow> bytes" where
  "sni_ext h = tls_ext 0 (be16 (3 + length h) @ [0] @ be16 (length h) @ h)"

record hello =
  hello_fixed :: bytes
  session_id :: bytes
  suites :: bytes
  compression :: bytes
  before :: "(nat \<times> bytes) list"
  behind :: bytes

definition hello_exts :: "hello \<Rightarrow> bytes \<Rightarrow> bytes" where
  "hello_exts x h = concat (map (\<lambda>(ty, b). tls_ext ty b) (before x)) @ sni_ext h @ behind x"

definition hello_body :: "hello \<Rightarrow> bytes \<Rightarrow> bytes" where
  "hello_body x h = [1] @ hello_fixed x @ [of_nat (length (session_id x))] @ session_id x
     @ be16 (length (suites x)) @ suites x
     @ [of_nat (length (compression x))] @ compression x
     @ be16 (length (hello_exts x h)) @ hello_exts x h"

definition tls_record :: "u8 \<Rightarrow> bytes \<Rightarrow> bytes" where
  "tls_record minor body = [0x16, 3, minor] @ be16 (length body) @ body"

definition hello_ok :: "hello \<Rightarrow> bytes \<Rightarrow> bool" where
  "hello_ok x h \<longleftrightarrow> length (hello_fixed x) = 37 \<and> length (session_id x) < 256
     \<and> length (compression x) < 256 \<and> length (hello_body x h) < 65536
     \<and> (\<forall>(ty, b) \<in> set (before x). 0 < ty \<and> ty < 65536)
     \<and> h \<noteq> [] \<and> 0 \<notin> set h"

lemma rd_len16_be16:
  "n < 65536 \<Longrightarrow> i = length a \<Longrightarrow> rd_len16 (a @ be16 n @ b) i k = k n"
  by (simp add: rd_len16_in nth_append from_be16_be16 [of n, unfolded One_nat_def] be16_def)
    (simp add: from_be16_def unat_of_nat)

lemma parse_sni_ext:
  assumes "h \<noteq> []" "0 \<notin> set h" "length h < 65536" "c_calloc lc (length h + 1)"
  shows "parse_server_name_extension lc sc (be16 (3 + length h) @ [0] @ be16 (length h) @ h)
       = Inr (int (length h), Some h)"
proof -
  define d where "d = be16 (3 + length h) @ [0] @ be16 (length h) @ h"
  have len: "length d = 5 + length h"
    by (simp add: d_def)
  have split: "d = (be16 (3 + length h) @ [0]) @ be16 (length h) @ h"
    by (simp add: d_def)
  have n: "rd_len16 d (2 + 1) k = k (length h)" for k :: "nat \<Rightarrow> name_result"
    unfolding split by (rule rd_len16_be16 [OF assms(3)]) simp
  have "d ! 2 = 0" "drop 5 d = h"
    by (simp_all add: d_def nth_append)
  moreover have "strncpy h (length h) = h"
    using strncpy_nonzero [of "length h" h] assms(2) by simp
  ultimately have "parse_server_name_from lc sc d 2 = Inr (int (length h), Some h)"
    using assms(1,4) n len by (subst parse_server_name_from.simps) (simp add: c_char_def)
  then show ?thesis
    by (simp add: parse_server_name_extension_def d_def)
qed

lemma c_char_zero: "c_char sc b = 0 \<longleftrightarrow> b = 0"
  by (simp add: c_char_def) (metis signed_0 signed_word_eqI unsigned_0 unsigned_word_eqI)

lemma be16_zero: "n < 65536 \<Longrightarrow> be16 n ! 0 = 0 \<and> be16 n ! 1 = 0 \<longleftrightarrow> n = 0"
  using from_be16_be16 [of n] by (auto simp: from_be16_def be16_def)

text \<open>Skipping one extension.\<close>

lemma parse_extensions_skip:
  assumes "0 < ty" "ty < 65536" "length b < 65536"
  shows "parse_extensions_from lc sc (a @ tls_ext ty b @ c) (length a)
       = parse_extensions_from lc sc (a @ tls_ext ty b @ c) (length (a @ tls_ext ty b))"
proof -
  define d where "d = a @ tls_ext ty b @ c"
  have "d = (a @ be16 ty) @ be16 (length b) @ (b @ c)"
    by (simp add: d_def tls_ext_def)
  then have n: "rd_len16 d (length a + 2) k = k (length b)" for k :: "nat \<Rightarrow> name_result"
    using rd_len16_be16 [OF assms(3), of "length a + 2" "a @ be16 ty" "b @ c" k] by simp
  have "d ! length a = be16 ty ! 0" "d ! (length a + 1) = be16 ty ! 1"
    by (simp_all add: d_def tls_ext_def nth_append)
  then have "\<not> (d ! length a = 0 \<and> d ! (length a + 1) = 0)"
    using be16_zero [OF assms(2)] assms(1) by simp
  moreover have "length a + 4 \<le> length d"
    by (simp add: d_def tls_ext_def)
  moreover have "length a + (4 + length b) = length (a @ tls_ext ty b)"
    by (simp add: tls_ext_def)
  ultimately show ?thesis
    unfolding d_def [symmetric]
    by (subst parse_extensions_from.simps) (auto simp add: n c_char_zero rd_def simp del: One_nat_def add_2_eq_Suc')
qed

lemma parse_extensions_skip_all:
  assumes "\<forall>(ty, b) \<in> set xs. 0 < ty \<and> ty < 65536 \<and> length b < 65536"
  shows "parse_extensions_from lc sc (a @ concat (map (\<lambda>(ty, b). tls_ext ty b) xs) @ c) (length a)
       = parse_extensions_from lc sc (a @ concat (map (\<lambda>(ty, b). tls_ext ty b) xs) @ c)
           (length (a @ concat (map (\<lambda>(ty, b). tls_ext ty b) xs)))"
  using assms
proof (induction xs arbitrary: a)
  case (Cons x xs)
  obtain ty b where x: "x = (ty, b)"
    by fastforce
  show ?case
    using parse_extensions_skip [of ty b lc sc a "concat (map (\<lambda>(ty, b). tls_ext ty b) xs) @ c"]
      Cons.IH [of "a @ tls_ext ty b"] Cons.prems by (simp add: x add.assoc)
qed simp

lemma length_ext_le:
  "(ty, b) \<in> set xs \<Longrightarrow> length b \<le> length (concat (map (\<lambda>(ty, b). tls_ext ty b) xs))"
  by (induction xs) (auto simp: tls_ext_def)

text \<open>The extensions of a hello yield its server name.\<close>

lemma parse_hello_exts:
  assumes "hello_ok x h" "c_calloc lc (length h + 1)"
  shows "parse_extensions lc sc (hello_exts x h) = Inr (int (length h), Some h)"
proof -
  define a where "a = concat (map (\<lambda>(ty, b). tls_ext ty b) (before x))"
  define sni where "sni = be16 (3 + length h) @ [0] @ be16 (length h) @ h"
  define d where "d = hello_exts x h"
  have len: "length d < 65536"
    using assms(1) by (simp add: hello_ok_def hello_body_def d_def)
  have d: "d = a @ tls_ext 0 sni @ behind x"
    by (simp add: d_def hello_exts_def a_def sni_ext_def sni_def)
  have "length b \<le> length a" if "(ty, b) \<in> set (before x)" for ty b
    unfolding a_def by (rule length_ext_le [OF that])
  then have "\<forall>(ty, b) \<in> set (before x). 0 < ty \<and> ty < 65536 \<and> length b < 65536"
    using assms(1) len by (fastforce simp: hello_ok_def d)
  then have skip: "parse_extensions lc sc d = parse_extensions_from lc sc d (length a)"
    using parse_extensions_skip_all [of "before x" lc sc "[]" "tls_ext 0 sni @ behind x"]
    by (simp add: parse_extensions_def d a_def)
  have sni: "length sni < 65536" "length a + 4 + length sni \<le> length d"
    using len by (simp_all add: d tls_ext_def)
  have n: "rd_len16 d (length a + 2) k = k (length sni)" for k :: "nat \<Rightarrow> name_result"
    using rd_len16_be16 [OF sni(1), of "length a + 2" "a @ be16 0" "sni @ behind x" k]
    by (simp add: d tls_ext_def)
  have "d ! length a = 0" "d ! (length a + 1) = 0"
    by (simp_all add: d tls_ext_def be16_def nth_append)
  moreover have "take (length sni) (drop (length a + 4) d) = sni"
    by (simp add: d tls_ext_def)
  moreover have "parse_server_name_extension lc sc sni = Inr (int (length h), Some h)"
    unfolding sni_def using assms sni(1) by (intro parse_sni_ext) (auto simp: hello_ok_def sni_def)
  ultimately have "parse_extensions_from lc sc d (length a) = Inr (int (length h), Some h)"
    using sni(2) by (subst parse_extensions_from.simps) (simp add: n c_char_zero rd_def del: One_nat_def add_2_eq_Suc')
  then show ?thesis
    using skip by (simp add: d_def)
qed

lemma rd_at: "i = length a \<Longrightarrow> rd (a @ [b] @ c) i k = k b"
  by (simp add: rd_def nth_append)

text \<open>The parse of the client hello, field by field: the record header is five bytes.\<close>

lemma parse_client_hello_name:
  assumes "hello_ok x h" "c_calloc lc (length h + 1)" "length hdr = 5"
  shows "parse_client_hello lc sc (hdr @ hello_body x h) major minor = Inr (int (length h), Some h)"
proof -
  define e where "e = hello_exts x h"
  define d where "d = hdr @ hello_body x h"
  define p1 where "p1 = hdr @ [1] @ hello_fixed x"
  define p2 where "p2 = p1 @ [of_nat (length (session_id x))] @ session_id x"
  define p3 where "p3 = p2 @ be16 (length (suites x)) @ suites x"
  define p4 where "p4 = p3 @ [of_nat (length (compression x))] @ compression x"
  note ok = assms(1) [unfolded hello_ok_def hello_body_def]
  define q4 where "q4 = compression x @ be16 (length e) @ e"
  define q3 where "q3 = suites x @ [of_nat (length (compression x))] @ q4"
  define q2 where "q2 = session_id x @ be16 (length (suites x)) @ q3"
  define q1 where "q1 = hello_fixed x @ [of_nat (length (session_id x))] @ q2"
  have d: "d = hdr @ [1] @ q1"
      "d = p1 @ [of_nat (length (session_id x))] @ q2"
      "d = p2 @ be16 (length (suites x)) @ q3"
      "d = p3 @ [of_nat (length (compression x))] @ q4"
      "d = p4 @ be16 (length e) @ e"
    by (simp_all add: d_def hello_body_def p1_def p2_def p3_def p4_def e_def q1_def q2_def q3_def q4_def)
  have len: "length p1 = 43" "length p2 = length p1 + (1 + length (session_id x))"
      "length p3 = length p2 + (2 + length (suites x))"
      "length p4 = length p3 + (1 + length (compression x))" "length d = length p4 + 2 + length e"
    using ok assms(3) arg_cong [OF d(5), of length] by (simp_all add: p1_def p2_def p3_def p4_def)
  have small: "length (suites x) < 65536" "length e < 65536"
    using ok by (simp_all add: e_def)
  have bytes: "unat (of_nat (length (session_id x)) :: u8) = length (session_id x)"
      "unat (of_nat (length (compression x)) :: u8) = length (compression x)"
    using ok by (simp_all add: unat_of_nat)
  have r1: "rd d 5 k = k 1" for k :: "u8 \<Rightarrow> name_result"
    using assms(3) by (subst d(1)) (rule rd_at, simp)
  have r2: "rd d 43 k = k (of_nat (length (session_id x)))" for k :: "u8 \<Rightarrow> name_result"
    by (subst d(2)) (rule rd_at, simp add: len(1))
  have r3: "rd_len16 d (length p2) k = k (length (suites x))" for k :: "nat \<Rightarrow> name_result"
    by (subst d(3)) (rule rd_len16_be16 [OF small(1)], simp)
  have r4: "rd d (length p3) k = k (of_nat (length (compression x)))" for k :: "u8 \<Rightarrow> name_result"
    by (subst d(4)) (rule rd_at, simp)
  have r5: "rd_len16 d (length p4) k = k (length e)" for k :: "nat \<Rightarrow> name_result"
    by (subst d(5)) (rule rd_len16_be16 [OF small(2)], simp)
  have exts: "parse_extensions lc sc (take (length e) (drop (length p4 + 2) d)) = Inr (int (length h), Some h)"
    using parse_hello_exts [OF assms(1,2), of sc] by (subst d(5)) (simp add: e_def)
  have pos: "(5 :: nat) + 38 = 43" "43 + (1 + length (session_id x)) = length p2"
    using len by simp_all
  show ?thesis
    unfolding d_def [symmetric] parse_client_hello_def Let_def TLS_HEADER_LEN_def pos(1) r1 r2 bytes pos(2) r3
      len(3) [symmetric] r4 len(4) [symmetric] r5 exts
    using len by (simp add: c_char_def TLS_HANDSHAKE_TYPE_CLIENT_HELLO_def)
qed

lemma parse_tls_header_name:
  assumes "hello_ok x h" "c_calloc lc (length h + 1)"
  shows "parse_tls_header lc sc (tls_record minor (hello_body x h) @ rest) True
       = Inr (int (length h), Some h)"
proof -
  define hdr where "hdr = [0x16, 3, minor] @ be16 (length (hello_body x h))"
  define d where "d = tls_record minor (hello_body x h) @ rest"
  have d: "d = hdr @ hello_body x h @ rest" "length hdr = 5"
    by (simp_all add: d_def tls_record_def hdr_def)
  have n: "rd_len16 d 3 k = k (length (hello_body x h))" for k :: "nat \<Rightarrow> name_result"
    using assms(1) rd_len16_be16 [of "length (hello_body x h)" 3 "[0x16, 3, minor]" "hello_body x h @ rest" k]
    by (simp add: d hdr_def hello_ok_def)
  have "d ! 0 = 0x16" "d ! 1 = 3" "d ! 2 = minor" "5 \<le> length d"
    by (simp_all add: d hdr_def)
  moreover have "take (length (hello_body x h) + 5) d = hdr @ hello_body x h"
    by (simp add: d)
  moreover have "length (hello_body x h) + 5 \<le> length d" "d \<noteq> []"
    using d(2) by (auto simp: d(1))
  ultimately have "parse_tls_header lc sc d True = parse_client_hello lc sc (hdr @ hello_body x h) 3 (c_char sc minor)"
    by (simp add: parse_tls_header_def Let_def n rd_def TLS_HEADER_LEN_def TLS_HANDSHAKE_CONTENT_TYPE_def c_char_def)
  then show ?thesis
    using parse_client_hello_name [OF assms d(2)] by (simp add: d_def)
qed

end
