(* ===== verification/SS_NetProps.thy ===== *)
theory SS_NetProps
  imports SS_Cache SS_Http SS_Tls SS_Example
begin

text \<open>
  The properties of the hash table, of the connection cache built on it, and of the two parsers
  that look for a host name in the first bytes of a connection.
\<close>

section \<open>The hash table\<close>

text \<open>A C library that refuses single allocations beyond four gigabytes.\<close>

definition lc_mem :: libc where
  "lc_mem = lc_ex\<lparr>c_calloc := (\<lambda>n. n \<le> 2 ^ 32)\<rparr>"

lemma lc_mem_ok: "mem_ok lc_mem" "c_calloc lc_mem n \<longleftrightarrow> n \<le> 2 ^ 32"
  by (simp_all add: mem_ok_def lc_mem_def)

text \<open>The first element of a table: no chain is long enough for an expansion.\<close>

lemma HASH_ADD_first: "\<exists>t. HASH_ADD_KEYPTR lc_mem None k p v = Inr t"
proof -
  have "HASH_TO_BKT h 32 < 32" for h
    using HASH_TO_BKT_less [of 5 h] by simp
  moreover have "\<not> (10 :: u32) \<le> 1"
    by (simp add: word_le_nat_alt)
  ultimately show ?thesis
    by (simp add: HASH_ADD_KEYPTR_def HASH_MAKE_TABLE_def HASH_ADD_TO_BKT_def lc_mem_def Let_def keyed_elem_def
        HASH_INITIAL_NUM_BUCKETS_def HASH_BKT_CAPACITY_THRESH_def sizeof_UT_hash_bucket_def sizeof_UT_hash_table_def empty_bucket_def)
qed

text \<open>C17: lookup after insert. \<^verbatim>\<open>HASH_ADD_KEYPTR\<close> of a key that is not in the table keeps the table well formed, through
  the expansion of its buckets too; afterwards \<^verbatim>\<open>HASH_FIND\<close> returns the new element
  for its key and what it returned before for every other key, and an iteration visits the old
  elements in their order and then the new one.\<close>

theorem uthash_find_add:
  assumes "mem_ok lc" "ut_wf head" "distinct (map el_key (HASH_ITER head))" "length k < 2 ^ 32"
    and "Suc (length (HASH_ITER head)) < 2 ^ 32" "p \<notin> el_addr ` set (HASH_ITER head)"
    and "k \<notin> el_key ` set (HASH_ITER head)" "HASH_ADD_KEYPTR lc head k p v = Inr head'" "length j < 2 ^ 32"
  shows "HASH_FIND head' j = (if j = k then Some (keyed_elem p k v) else HASH_FIND head j)
     \<and> ut_wf head' \<and> HASH_ITER head' = HASH_ITER head @ [keyed_elem p k v]"
  using ut.find_add [OF assms(1-7) assms(8,9)] ut.add_items [OF assms(1,2,4-6,8)] by blast

theorem uthash_find_add_witness:
  "\<exists>t. HASH_ADD_KEYPTR lc_mem None [1, 2] 8 True = Inr t
     \<and> HASH_FIND t [1, 2] = Some (keyed_elem 8 [1, 2] True) \<and> HASH_FIND t [3] = None"
proof -
  obtain t where t: "HASH_ADD_KEYPTR lc_mem None [1, 2] 8 True = Inr t"
    using HASH_ADD_first [of "[1, 2]" 8 True] by blast
  show ?thesis
    using t uthash_find_add [OF lc_mem_ok(1) _ _ _ _ _ _ t, of "[1, 2]"] uthash_find_add [OF lc_mem_ok(1) _ _ _ _ _ _ t, of "[3]"]
    by (simp add: ut_wf_def HASH_ITER_def HASH_FIND_def)
qed

text \<open>C18: lookup after delete. \<^verbatim>\<open>HASH_DELETE\<close> of an element keeps the table well formed, and afterwards its key is not
  found and every other lookup and the order of iteration are unchanged.\<close>

theorem uthash_find_delete:
  assumes "ut_wf head" "distinct (map el_key (HASH_ITER head))" "e \<in> set (HASH_ITER head)" "length j < 2 ^ 32"
  shows "HASH_FIND (HASH_DELETE head e) j = (if j = el_key e then None else HASH_FIND head j)
     \<and> ut_wf (HASH_DELETE head e) \<and> HASH_ITER (HASH_DELETE head e) = remove1 e (HASH_ITER head)"
  using ut.find_del [OF assms] ut.del_items [OF assms(1,3)] by blast

definition table_ex :: "bool ut_table option" where
  "table_ex = (case HASH_ADD_KEYPTR lc_mem None [1, 2] 8 True of Inr t \<Rightarrow> t | Inl _ \<Rightarrow> None)"

theorem uthash_find_delete_witness:
  "HASH_FIND table_ex [1, 2] = Some (keyed_elem 8 [1, 2] True)
     \<and> HASH_FIND (HASH_DELETE table_ex (keyed_elem 8 [1, 2] True)) [1, 2] = None"
proof -
  have t: "HASH_ADD_KEYPTR lc_mem None [1, 2] 8 True = Inr table_ex"
    using HASH_ADD_first [of "[1, 2]" 8 True] by (auto simp: table_ex_def)
  have "ut_wf (None :: bool ut_table option)" "HASH_ITER (None :: bool ut_table option) = []"
    by (simp_all add: ut_wf_def HASH_ITER_def)
  then have a: "ut_wf table_ex" "HASH_ITER table_ex = [keyed_elem 8 [1, 2] True]"
    using ut.add_items [OF lc_mem_ok(1) _ _ _ _ t] by simp_all
  then show ?thesis
    using uthash_find_delete [of table_ex "keyed_elem 8 [1, 2] True" "[1, 2]"] ut.find_uniq [OF a(1), of "[1, 2]"]
    by (simp add: keyed_elem_def)
qed

section \<open>The cache\<close>

text \<open>C5: the cache is a least-recently-used cache. For any sequence of lookups, existence tests, insertions (of keys that are not
  present), removals and clearings of old entries, on a cache fresh from \<^verbatim>\<open>cache_create\<close>, the operations return the same codes and data,
  and free the same entries, as those of the specification: a list of key, data and time of use in the
  order of use, where a lookup moves its entry to the end and an insertion drops the first one when the limit is reached. The only
  fault is the exit of the hash table when it runs out of memory.\<close>

theorem cache_refines_lru:
  assumes "mem_ok lc" "cap < 2 ^ 32" "cache_create lc True cap = (0, Some c)" "ops_ok lc c ops"
  shows "case cache_run lc c ops of
      Inl f \<Rightarrow> f = FATAL ''out of memory''
    | Inr (outs, c') \<Rightarrow> lru_run lc cap [] ops = (outs, lru_of c')"
proof -
  have "c_calloc lc 24"
    using assms(3) by (simp add: cache_create_def ENOMEM_def split: if_splits)
  then have "cache_wf c" "lru_of c = []" "max_entries c = cap"
    using cache_create_wf [OF _ assms(2), of lc, where 'a = 'a] assms(3) by auto
  then show ?thesis
    using cache_run_simulates [OF assms(1) _ assms(4)] by (auto split: sum.splits)
qed

definition cache_ops_ex :: "nat cache_op list" where
  "cache_ops_ex = [Insert 1 100 [97] (Some 1), Lookup 3 [97], Remove [97]]"

definition cache_ex :: "nat cache" where
  "cache_ex = \<lparr>max_entries = 3, entries = None\<rparr>"

lemma cache_ex_ok: "cache_create lc_mem True 3 = (0, Some cache_ex)" "ops_ok lc_mem cache_ex cache_ops_ex"
  by (simp_all add: cache_create_def cache_ex_def lc_mem_ok cache_ops_ex_def op_ok_def HASH_ITER_def lru_of_def
      split: sum.splits option.splits prod.splits)

lemma cache_run_ex: "\<exists>outs c. cache_run lc_mem cache_ex cache_ops_ex = Inr (outs, c)"
proof -
  obtain h where h: "HASH_ADD_KEYPTR lc_mem None [97] 100 (Some (1 :: nat), 1 :: rat) = Inr h"
    using HASH_ADD_first [of "[97]" 100 "(Some 1, 1)"] by blast
  define e where "e = keyed_elem 100 [97] (Some (1 :: nat), 1 :: rat)"
  have e: "ut_wf h" "HASH_ITER h = [e]"
    using HASH_ADD_KEYPTR_ok [OF lc_mem_ok(1) _ _ _ _ h] by (simp_all add: ut_wf_def HASH_ITER_def e_def)
  then have f: "HASH_FIND h [97] = Some e" and cnt: "unat (HASH_COUNT h) = 1"
    using ut.find_uniq [of h "[97]"] HASH_COUNT_items [of h] by (simp_all add: e_def keyed_elem_def)
  have "ut_wf (HASH_DELETE h e)" "HASH_ITER (HASH_DELETE h e) = []"
    using HASH_DELETE_ok [of h e] e by simp_all
  then have "HASH_DELETE h e = None"
    by (auto simp: ut_wf_def HASH_ITER_def split: option.splits)
  moreover obtain h' where "HASH_ADD_KEYPTR lc_mem None [97] (el_addr e) (fst (el_val e), 3 :: rat) = Inr h'"
    using HASH_ADD_first [of "[97]" "el_addr e" "(fst (el_val e), 3 :: rat)"] by blast
  ultimately show ?thesis
    using h f cnt
    by (simp add: cache_ops_ex_def cache_ex_def cache_insert_def cache_lookup_def cache_touch_def cache_remove_def lc_mem_ok
        split: option.split)
qed

theorem cache_refines_lru_witness:
  "\<exists>c'. cache_run lc_mem cache_ex cache_ops_ex = Inr ([Freed 0 [], Found 0 (Some 1), Freed 0 [([97], 1)]], c')
     \<and> lru_of c' = []"
proof -
  have "lru_run lc_mem 3 [] cache_ops_ex = ([Freed 0 [], Found 0 (Some 1), Freed 0 [([97], 1)]], [])"
    by (simp add: cache_ops_ex_def lru_evict_def lru_touch_def lru_remove_def lru_data_def List.map_filter_def lc_mem_ok)
  then show ?thesis
    using cache_run_ex cache_refines_lru [OF lc_mem_ok(1) _ cache_ex_ok] by auto
qed

text \<open>C19: the limit, for clients that insert a key only after a lookup did not find it, as the UDP relay does (\<^const>\<open>ops_ok\<close>): \<open>cache_insert\<close>
  itself does not look for the key, and one inserted twice would be there twice. Whatever else is done with a cache of a given capacity, it then
  holds fewer entries than that, and their keys are pairwise different: the eviction compares with \<^verbatim>\<open>>=\<close> after the insertion, so a cache created
  for \<open>cap\<close> elements never keeps more than \<open>cap - 1\<close>, one less than \<^verbatim>\<open>cache.h\<close> says that it can hold.\<close>

theorem cache_bound:
  assumes "mem_ok lc" "0 < cap" "cap < 2 ^ 32" "cache_create lc True cap = (0, Some c)" "ops_ok lc c ops"
    and "cache_run lc c ops = Inr (outs, c')"
  shows "length (lru_of c') < cap \<and> unat (HASH_COUNT (entries c')) < cap \<and> distinct (map fst (lru_of c'))"
proof -
  have "c_calloc lc 24"
    using assms(4) by (simp add: cache_create_def ENOMEM_def split: if_splits)
  then have "cache_wf c" "max_entries c = cap"
    using cache_create_wf [OF _ assms(3), of lc, where 'a = 'a] assms(4) by auto
  then have "cache_wf c'" "max_entries c' = cap"
    using cache_run_simulates [OF assms(1) _ assms(5)] assms(6) by auto
  moreover have "length (lru_of c') = length (HASH_ITER (entries c'))"
    by (simp add: lru_of_def)
  ultimately show ?thesis
    using assms(2) HASH_COUNT_items [of "entries c'"] by (auto simp: cache_wf_def)
qed

theorem cache_bound_witness:
  "\<exists>outs c'. cache_run lc_mem cache_ex cache_ops_ex = Inr (outs, c') \<and> length (lru_of c') < 3"
proof -
  obtain outs c' where r: "cache_run lc_mem cache_ex cache_ops_ex = Inr (outs, c')"
    using cache_run_ex by blast
  show ?thesis
    using r cache_bound [OF lc_mem_ok(1) _ _ cache_ex_ok r] by simp
qed

section \<open>The host name in the first bytes\<close>

text \<open>C14: the TLS parser is total. On every byte sequence \<^verbatim>\<open>parse_tls_header\<close> reads only inside it and ends; it returns the name it copied with the
  name's length, or one of the error codes -1 to -5 without a name.\<close>

theorem tls_parser_total:
  "\<exists>rc name. parse_tls_header lc sc d hostname = Inr (rc, name)
     \<and> (case name of None \<Rightarrow> rc \<in> {-1, -2, -3, -4, -5} | Some h \<Rightarrow> rc = int (length h))"
  using parse_tls_header_ok [of lc sc d hostname] by (auto simp: name_ok_def split: sum.splits option.splits)

text \<open>C13: the TLS parser finds the name. From every well-formed ClientHello record whose server_name extension carries a host
  name, with any session id, cipher suites, compression methods and other extensions before and
  behind it, \<^verbatim>\<open>parse_tls_header\<close> returns exactly that name.\<close>

theorem tls_parser_finds_name:
  assumes "hello_ok x h" "c_calloc lc (length h + 1)"
  shows "parse_tls_header lc sc (tls_record minor (hello_body x h) @ rest) True = Inr (int (length h), Some h)"
  using assms by (rule parse_tls_header_name)

definition hello_ex :: hello where
  "hello_ex = \<lparr>hello_fixed = replicate 37 0, session_id = [1, 2, 3], suites = [0, 0x2f], compression = [0],
     before = [(23, [])], behind = [0, 10, 0, 0]\<rparr>"

theorem tls_parser_finds_name_witness:
  "parse_tls_header lc_ex True (tls_record 1 (hello_body hello_ex (str ''a.b''))) True = Inr (3, Some (str ''a.b''))"
proof -
  have "hello_ok hello_ex (str ''a.b'')"
    by (simp add: hello_ok_def hello_ex_def hello_body_def hello_exts_def sni_ext_def tls_ext_def str_def be16_def)
  moreover have "c_calloc lc_ex (length (str ''a.b'') + 1)"
    by (simp add: lc_ex_def)
  ultimately show ?thesis
    using tls_parser_finds_name [of hello_ex "str ''a.b''" lc_ex True 1 "[]"] by (simp add: str_def)
qed

text \<open>C16: the HTTP parser is total. On every input shorter than two gigabytes \<^verbatim>\<open>parse_http_header\<close> reads only inside the input and ends; it
  returns a name with a length inside what it copied, or one of the error codes -1 to -4 without a name.\<close>

theorem http_parser_total:
  assumes "length d < 2 ^ 31"
  shows "\<exists>rc name. parse_http_header lc d hostname = Inr (rc, name)
     \<and> (case name of None \<Rightarrow> rc \<in> {-1, -2, -3, -4} | Some h \<Rightarrow> 0 \<le> rc \<and> rc \<le> int (length h))"
  using assms by (rule parse_http_header_safe)

theorem http_parser_total_witness:
  "\<exists>rc name. parse_http_header lc_ex (str ''GET'') True = Inr (rc, name)
     \<and> (case name of None \<Rightarrow> rc \<in> {-1, -2, -3, -4} | Some h \<Rightarrow> 0 \<le> rc \<and> rc \<le> int (length h))"
  using http_parser_total [of "str ''GET''" lc_ex True] by (simp add: str_def)

text \<open>C15: the HTTP parser finds the host. From every request whose header lines before it are complete, with a Host line spelled in
  any case, blanks before the value and an optional port, the parser returns the host name, without the port.\<close>

theorem http_parser_finds_host:
  assumes "request_ok rl ls nm bl host port" "c_calloc lc (length (host @ port) + 1)"
    and "length (request rl ls nm (bl @ host @ port) r) < 2 ^ 31"
  shows "\<exists>b. parse_http_header lc (request rl ls nm (bl @ host @ port) r) True = Inr (int (length host), Some b)
     \<and> take (length host) b = host \<and> length b = length (host @ port)"
  using assms by (rule parse_http_header_host)

theorem http_parser_finds_host_witness:
  "\<exists>b. parse_http_header lc_ex (request (str ''GET / HTTP/1.1'') [str ''Accept: x''] (str ''HOST:'') (str '' a.b4:80'') [13, 10]) True
       = Inr (4, Some b) \<and> take 4 b = str ''a.b4''"
proof -
  have "request_ok (str ''GET / HTTP/1.1'') [str ''Accept: x''] (str ''HOST:'') (str '' '') (str ''a.b4'') (str '':80'')"
    by (simp add: request_ok_def line_ok_def is_header_def port_ok_def isblank_def isdigit_def tolower_def str_def)
  moreover have "c_calloc lc_ex (length (str ''a.b4'' @ str '':80'') + 1)"
    by (simp add: lc_ex_def)
  moreover have "length (request (str ''GET / HTTP/1.1'') [str ''Accept: x''] (str ''HOST:'') (str '' '' @ str ''a.b4'' @ str '':80'') [13, 10]) < 2 ^ 31"
    by (simp add: request_def header_lines_def str_def)
  ultimately obtain b where b: "parse_http_header lc_ex (request (str ''GET / HTTP/1.1'') [str ''Accept: x''] (str ''HOST:'')
        (str '' '' @ str ''a.b4'' @ str '':80'') [13, 10]) True = Inr (int (length (str ''a.b4'')), Some b)"
      "take (length (str ''a.b4'')) b = str ''a.b4''"
    using http_parser_finds_host by blast
  have "str '' '' @ str ''a.b4'' @ str '':80'' = str '' a.b4:80''" "length (str ''a.b4'') = 4"
    by (simp_all add: str_def)
  then show ?thesis
    using b by (intro exI [of _ b]) (simp only: of_nat_numeral simp_thms)
qed

text \<open>
  What \<^verbatim>\<open>get_header\<close> does with a request that is cut inside the Host line: it returns the part that
  is there as if it were the host, where the comment at its end asks for -1.
\<close>

theorem http_truncated_host:
  "parse_http_header lc_ex ([71, 13, 10] @ str ''Host: exam'') True = Inr (3, Some (str ''exa''))"
  by code_simp

end
