(* ===== verification/SS_CryptoApi.thy ===== *)
theory SS_CryptoApi
  imports SS_AeadSession
begin

text \<open>
  The interface between the relays and the ciphers (\<^verbatim>\<open>crypto_t\<close> of \<^verbatim>\<open>src/crypto.h\<close>): a table of
  function pointers. The locale \<open>tcp_crypto\<close> is the contract a TCP relay relies on: the sending
  side turns a sequence of payloads into one byte stream, the receiving side returns on every
  input, and neither shrinks a buffer. It is interpreted on the AEAD ciphers.
\<close>

type_synonym crypto_call =
  "buffer \<Rightarrow> cipher_ctx \<Rightarrow> nat \<Rightarrow> crypto_state \<Rightarrow> fault + crypto_rc \<times> buffer \<times> cipher_ctx \<times> crypto_state"

type_synonym crypto_all_call =
  "buffer \<Rightarrow> cipher_t \<Rightarrow> nat \<Rightarrow> crypto_state \<Rightarrow> fault + crypto_rc \<times> buffer \<times> crypto_state"

record crypto_t =
  cr_cipher :: cipher_t
  cr_encrypt_all :: crypto_all_call
  cr_decrypt_all :: crypto_all_call
  cr_encrypt :: crypto_call
  cr_decrypt :: crypto_call
  cr_ctx_init :: "cipher_t \<Rightarrow> bool \<Rightarrow> crypto_state \<Rightarrow> fault + cipher_ctx \<times> crypto_state"
  cr_ctx_release :: "cipher_ctx \<Rightarrow> cipher_ctx"

definition aead_encrypt_call :: "libc \<Rightarrow> cryptolib \<Rightarrow> crypto_call" where
  "aead_encrypt_call lc lib b ctx cap st =
     (case aead_encrypt lc lib b (Some ctx) cap st of
        Inl f \<Rightarrow> Inl f
      | Inr (rc, b', Some ctx', st') \<Rightarrow> Inr (rc, b', ctx', st')
      | Inr (rc, b', None, st') \<Rightarrow> Inl SEGV)"

text \<open>The table that \<^verbatim>\<open>crypto_init\<close> fills in for an AEAD method.\<close>

definition aead_crypto :: "libc \<Rightarrow> cryptolib \<Rightarrow> cipher_t \<Rightarrow> crypto_t" where
  "aead_crypto lc lib c =
     \<lparr>cr_cipher = c,
      cr_encrypt_all = aead_encrypt_all lc lib, cr_decrypt_all = aead_decrypt_all lc lib,
      cr_encrypt = aead_encrypt_call lc lib, cr_decrypt = aead_decrypt lc lib,
      cr_ctx_init = aead_ctx_init lc lib, cr_ctx_release = aead_ctx_release\<rparr>"

section \<open>The contract of a TCP relay\<close>

locale tcp_crypto =
  fixes cr :: crypto_t
    and stwf :: "crypto_state \<Rightarrow> bool"
    and sent :: "bytes \<Rightarrow> bytes list \<Rightarrow> cipher_ctx \<Rightarrow> bool"
    and wire :: "bytes \<Rightarrow> bytes list \<Rightarrow> bytes"
    and dwf :: "cipher_ctx \<Rightarrow> bool"
  assumes wire_Nil: "wire s [] = []"
    and init_sender: "stwf st \<Longrightarrow> \<exists>ctx st' s. cr_ctx_init cr (cr_cipher cr) True st = Inr (ctx, st')
          \<and> stwf st' \<and> sent s [] ctx"
    and init_receiver: "stwf st \<Longrightarrow> \<exists>ctx st'. cr_ctx_init cr (cr_cipher cr) False st = Inr (ctx, st')
          \<and> stwf st' \<and> dwf ctx"
    and encrypt_payload: "stwf st \<Longrightarrow> sent s ms ctx \<Longrightarrow> buf_wf b \<Longrightarrow> payload_ok (contents b) \<Longrightarrow>
          \<exists>b' ctx' st'. cr_encrypt cr b ctx cap st = Inr (CRYPTO_OK, b', ctx', st')
            \<and> buf_wf b' \<and> capacity b \<le> capacity b' \<and> stwf st' \<and> sent s (ms @ [contents b]) ctx'
            \<and> wire s (ms @ [contents b]) = wire s ms @ contents b'"
    and encrypt_empty: "stwf st \<Longrightarrow> sent s ms ctx \<Longrightarrow> ms \<noteq> [] \<Longrightarrow> buf_wf b \<Longrightarrow> len b = 0 \<Longrightarrow>
          \<exists>b' ctx' st'. cr_encrypt cr b ctx cap st = Inr (CRYPTO_OK, b', ctx', st')
            \<and> buf_wf b' \<and> capacity b \<le> capacity b' \<and> stwf st' \<and> sent s ms ctx' \<and> contents b' = []"
    and decrypt_returns: "stwf st \<Longrightarrow> dwf ctx \<Longrightarrow> buf_wf b \<Longrightarrow>
          \<exists>rc b' ctx' st'. cr_decrypt cr b ctx cap st = Inr (rc, b', ctx', st')
            \<and> buf_wf b' \<and> capacity b \<le> capacity b' \<and> idx b' = idx b \<and> stwf st' \<and> dwf ctx'"

section \<open>Delivery\<close>

text \<open>
  The two directions of a connection through the table: payloads through the encryption, network
  reads through the decryption (a call that needs more input delivers nothing).
\<close>

fun crypto_send ::
  "libc \<Rightarrow> crypto_t \<Rightarrow> nat \<Rightarrow> cipher_ctx \<Rightarrow> crypto_state \<Rightarrow> bytes list
     \<Rightarrow> fault + crypto_rc \<times> bytes \<times> cipher_ctx \<times> crypto_state" where
  "crypto_send lc cr cap ctx st [] = Inr (CRYPTO_OK, [], ctx, st)"
| "crypto_send lc cr cap ctx st (m # ms) =
     (case cr_encrypt cr (filled lc cap m) ctx cap st of
        Inl f \<Rightarrow> Inl f
      | Inr (CRYPTO_OK, b, ctx, st) \<Rightarrow>
          (case crypto_send lc cr cap ctx st ms of
             Inl f \<Rightarrow> Inl f
           | Inr (rc, w, r) \<Rightarrow> Inr (rc, contents b @ w, r))
      | Inr (rc, b, r) \<Rightarrow> Inr (rc, [], r))"

fun crypto_recv ::
  "libc \<Rightarrow> crypto_t \<Rightarrow> nat \<Rightarrow> cipher_ctx \<Rightarrow> crypto_state \<Rightarrow> bytes list
     \<Rightarrow> fault + crypto_rc \<times> bytes \<times> cipher_ctx \<times> crypto_state" where
  "crypto_recv lc cr cap ctx st [] = Inr (CRYPTO_OK, [], ctx, st)"
| "crypto_recv lc cr cap ctx st (f # fs) =
     (case cr_decrypt cr (filled lc cap f) ctx cap st of
        Inl e \<Rightarrow> Inl e
      | Inr (CRYPTO_ERROR, b, r) \<Rightarrow> Inr (CRYPTO_ERROR, [], r)
      | Inr (rc, b, ctx, st) \<Rightarrow>
          (case crypto_recv lc cr cap ctx st fs of
             Inl e \<Rightarrow> Inl e
           | Inr (rc', out, r) \<Rightarrow> Inr (rc', (if rc = CRYPTO_OK then contents b else []) @ out, r)))"

text \<open>
  What makes a contract a channel: \<open>rcv s p w ctx st\<close> says that the receiver still has to deliver
  \<open>p\<close> and \<open>w\<close> is what is left of the stream with identifier \<open>s\<close> (its salt or IV); \<open>unseen\<close> that
  the nonce filter does not refuse the identifier, and \<open>fits\<close> that the stream is not too long.
\<close>

locale tcp_delivery = tcp_crypto cr stwf sent wire dwf
  for cr :: crypto_t and stwf :: "crypto_state \<Rightarrow> bool" and sent :: "bytes \<Rightarrow> bytes list \<Rightarrow> cipher_ctx \<Rightarrow> bool"
    and wire :: "bytes \<Rightarrow> bytes list \<Rightarrow> bytes" and dwf :: "cipher_ctx \<Rightarrow> bool" +
  fixes rcv :: "bytes \<Rightarrow> bytes \<Rightarrow> bytes \<Rightarrow> cipher_ctx \<Rightarrow> crypto_state \<Rightarrow> bool"
    and unseen :: "bytes \<Rightarrow> crypto_state \<Rightarrow> bool"
    and fits :: "bytes list \<Rightarrow> bool"
  assumes rcv_start: "stwf st \<Longrightarrow> sent s ms sctx \<Longrightarrow> ms \<noteq> [] \<Longrightarrow> fits ms \<Longrightarrow> unseen s st \<Longrightarrow>
          cr_ctx_init cr (cr_cipher cr) False st = Inr (ctx, st') \<Longrightarrow> rcv s (concat ms) (wire s ms) ctx st'"
    and rcv_piece: "stwf st \<Longrightarrow> rcv s p (contents b @ w) ctx st \<Longrightarrow> buf_wf b \<Longrightarrow>
          \<exists>rc b' ctx' st' p'. cr_decrypt cr b ctx cap st = Inr (rc, b', ctx', st') \<and> stwf st' \<and> rc \<noteq> CRYPTO_ERROR
            \<and> p = (if rc = CRYPTO_OK then contents b' else []) @ p' \<and> rcv s p' w ctx' st'"
    and rcv_end: "rcv s p [] ctx st \<Longrightarrow> p = []"
begin

lemma send_wire:
  assumes "stwf st" "sent s done_ms ctx" "\<forall>m \<in> set ms. payload_ok m"
  shows "\<exists>w ctx' st'. crypto_send lc cr cap ctx st ms = Inr (CRYPTO_OK, w, ctx', st') \<and> stwf st'
     \<and> sent s (done_ms @ ms) ctx' \<and> wire s (done_ms @ ms) = wire s done_ms @ w"
  using assms
proof (induction ms arbitrary: ctx st done_ms)
  case (Cons m ms)
  note f = filled_props [of lc cap m]
  obtain b ctx1 st1 where e: "cr_encrypt cr (filled lc cap m) ctx cap st = Inr (CRYPTO_OK, b, ctx1, st1)"
      "stwf st1" "sent s (done_ms @ [m]) ctx1" "wire s (done_ms @ [m]) = wire s done_ms @ contents b"
    using encrypt_payload [OF Cons.prems(1,2) f(1), of cap] Cons.prems(3) f(2) by auto
  from Cons.IH [OF e(2,3)] Cons.prems(3) obtain w ctx2 st2 where
      "crypto_send lc cr cap ctx1 st1 ms = Inr (CRYPTO_OK, w, ctx2, st2)" "stwf st2"
      "sent s ((done_ms @ [m]) @ ms) ctx2" "wire s ((done_ms @ [m]) @ ms) = wire s (done_ms @ [m]) @ w"
    by auto
  with e show ?case by simp
qed simp

lemma recv_all:
  assumes "stwf st" "rcv s p (concat fs) ctx st"
  shows "\<exists>ctx' st'. crypto_recv lc cr cap ctx st fs = Inr (CRYPTO_OK, p, ctx', st') \<and> stwf st'"
  using assms
proof (induction fs arbitrary: ctx st p)
  case Nil
  then have "p = []" using rcv_end [of s p ctx st] by simp
  with Nil show ?case by simp
next
  case (Cons f fs)
  note fl = filled_props [of lc cap f]
  obtain rc b ctx1 st1 p' where d: "cr_decrypt cr (filled lc cap f) ctx cap st = Inr (rc, b, ctx1, st1)" "stwf st1"
      "rc \<noteq> CRYPTO_ERROR" "p = (if rc = CRYPTO_OK then contents b else []) @ p'" "rcv s p' (concat fs) ctx1 st1"
    using rcv_piece [OF Cons.prems(1) _ fl(1), of s p "concat fs" ctx cap] Cons.prems(2) fl(2) by auto
  from Cons.IH [OF d(2,5)] obtain ctx2 st2 where
    "crypto_recv lc cr cap ctx1 st1 fs = Inr (CRYPTO_OK, p', ctx2, st2)" "stwf st2" by blast
  with d show ?case by (cases rc) auto
qed

end

text \<open>
  Whatever the network cuts the stream into, the payloads arrive: for two ends with tables of their own
  that keep the same contract.
\<close>

lemma two_sided_delivery:
  assumes snd_law: "tcp_delivery cr stwf sent wire dwf rcv unseen fits"
    and rcv_law: "tcp_delivery cr' stwf' sent wire dwf' rcv unseen fits"
    and "stwf st1" "stwf' st2" "sent s [] ectx" "ms \<noteq> []" "\<forall>m \<in> set ms. payload_ok m" "fits ms" "unseen s st2"
    and "cr_ctx_init cr' (cr_cipher cr') False st2 = Inr (dctx, st2')"
  shows "\<exists>w ectx' st1'. crypto_send lc cr cap ectx st1 ms = Inr (CRYPTO_OK, w, ectx', st1')
     \<and> (\<forall>fs. concat fs = w \<longrightarrow>
          (\<exists>dctx' st2''. crypto_recv lc' cr' cap' dctx st2' fs = Inr (CRYPTO_OK, concat ms, dctx', st2'')))"
proof -
  have w0: "wire s [] = []" by (rule tcp_crypto.wire_Nil [OF tcp_delivery.axioms(1) [OF snd_law]])
  obtain w ectx' st1' where e: "crypto_send lc cr cap ectx st1 ms = Inr (CRYPTO_OK, w, ectx', st1')"
      "sent s ms ectx'" "wire s ms = w"
    using tcp_delivery.send_wire [OF snd_law assms(3,5,7), of lc cap] w0 by auto
  have r: "rcv s (concat ms) w dctx st2'"
    using tcp_delivery.rcv_start [OF rcv_law assms(4) e(2) assms(6,8-10)] e(3) by simp
  have d: "stwf' st2'"
    using tcp_crypto.init_receiver [OF tcp_delivery.axioms(1) [OF rcv_law] assms(4)] assms(10) by auto
  have "\<exists>dctx' st2''. crypto_recv lc' cr' cap' dctx st2' fs = Inr (CRYPTO_OK, concat ms, dctx', st2'')" if "concat fs = w" for fs
    using tcp_delivery.recv_all [OF rcv_law d, of s "concat ms" fs dctx lc' cap'] r that by blast
  with e(1) show ?thesis by blast
qed

section \<open>The AEAD ciphers meet it\<close>

text \<open>The stream of a sender with salt \<open>s\<close>: the salt once, then the sealed chunks.\<close>

definition aead_wire :: "cryptolib \<Rightarrow> cipher_t \<Rightarrow> bytes \<Rightarrow> bytes list \<Rightarrow> bytes" where
  "aead_wire lib c s ms = (if ms = [] then [] else s @ stream_wire lib c s 0 ms)"

definition aead_sent :: "cryptolib \<Rightarrow> cipher_t \<Rightarrow> bytes \<Rightarrow> bytes list \<Rightarrow> cipher_ctx \<Rightarrow> bool" where
  "aead_sent lib c s ms ctx \<longleftrightarrow> length s = key_len c \<and> (\<forall>m \<in> set ms. payload_ok m)
     \<and> sender lib c s (2 * length ms) ctx \<and> (init ctx = 0 \<longleftrightarrow> ms = [])"

lemma stream_wire_snoc:
  "stream_wire lib c s i (ms @ [m]) = stream_wire lib c s i ms @ chunk_wire lib c s (i + 2 * length ms) m"
  by (induction ms arbitrary: i) simp_all

lemma aead_encrypt_capacity:
  assumes "aead_encrypt lc lib b octx cap st = Inr (rc, b', r)" "buf_wf b"
  shows "capacity b \<le> capacity b'"
  using assms bstore_props(4)
  by (auto simp: aead_encrypt_def Let_def split: option.splits if_splits sum.splits prod.splits)

lemma aead_decrypt_capacity:
  assumes "aead_decrypt lc lib b ctx cap st = Inr (rc, b', r)" "buf_wf b"
  shows "capacity b \<le> capacity b' \<and> idx b' = idx b"
proof -
  have i: "idx (bstore lc b bs cap) = idx b" "capacity b \<le> capacity (bstore lc b bs cap)" for bs
    using bstore_props(4) [OF assms(2)] by (simp_all add: bstore_def brealloc_buf_def Let_def)
  define b0 where "b0 = bappend lc (case chunk ctx of None \<Rightarrow> snd (balloc lc cap) | Some b \<Rightarrow> b) (contents b) cap"
  define tmp where "tmp = brealloc_buf lc (tmps st AEAD_DECRYPT) (len b0) cap"
  note d = assms(1) [unfolded aead_decrypt_def Let_def b0_def [symmetric] tmp_def [symmetric]]
  obtain r0 ctx1 b1 where s: "aead_decrypt_start ctx b0 st = Inr (r0, ctx1, b1)"
    using d by (cases "aead_decrypt_start ctx b0 st") auto
  show ?thesis
  proof (cases r0)
    case None
    obtain err ctx2 b2 p plen where l: "aead_decrypt_loop lib ctx1 b1 (data tmp) 0 = Inr (err, ctx2, b2, p, plen)"
      using d s None by (cases "aead_decrypt_loop lib ctx1 b1 (data tmp) 0") auto
    have "b' = b \<or> b' = bstore lc b (take plen p) cap"
      using d unfolding s None l sum.case prod.case option.case by (simp split: if_splits)
    with i show ?thesis by auto
  qed (use d s in simp)
qed

lemma aead_encrypt_payload:
  assumes "cipher_ok c" "lib_ok lib c" "state_wf lc st" "aead_sent lib c s ms ctx" "buf_wf b" "payload_ok (contents b)"
  shows "\<exists>b' ctx' st'. aead_encrypt_call lc lib b ctx cap st = Inr (CRYPTO_OK, b', ctx', st')
     \<and> buf_wf b' \<and> capacity b \<le> capacity b' \<and> state_wf lc st' \<and> aead_sent lib c s (ms @ [contents b]) ctx'
     \<and> aead_wire lib c s (ms @ [contents b]) = aead_wire lib c s ms @ contents b'"
proof -
  have sd: "sender lib c s (2 * length ms) ctx" and n: "len b \<noteq> 0" "len b \<le> CHUNK_SIZE_MASK"
    using assms(4-6) length_contents [OF assms(5)] by (auto simp: aead_sent_def contents_def)
  obtain b' ctx' st' where e: "aead_encrypt lc lib b (Some ctx) cap st = Inr (CRYPTO_OK, b', Some ctx', st')"
    "buf_wf b'" "contents b' = (if init ctx = 0 then s else []) @ chunk_wire lib c s (2 * length ms) (contents b)"
    "sender lib c s (2 * length ms + 2) ctx'" "init ctx' \<noteq> 0" "state_wf lc st'"
    using aead_encrypt_ok [OF assms(1,2) sd assms(3,5) n, of cap] by metis
  have "aead_sent lib c s (ms @ [contents b]) ctx'"
    using assms(4,6) e(4,5) by (auto simp: aead_sent_def)
  moreover have "aead_wire lib c s (ms @ [contents b]) = aead_wire lib c s ms @ contents b'"
    using assms(4) e(3) by (auto simp: aead_wire_def aead_sent_def stream_wire_snoc)
  moreover have "capacity b \<le> capacity b'"
    using aead_encrypt_capacity [OF e(1) assms(5)] .
  ultimately show ?thesis
    using e by (simp add: aead_encrypt_call_def)
qed

lemma aead_tcp_crypto:
  assumes "cipher_ok c" "lib_ok lib c"
  shows "tcp_crypto (aead_crypto lc lib c) (state_wf lc) (aead_sent lib c) (aead_wire lib c) (conn_wf lib c)"
proof
  fix st assume st: "state_wf lc st"
  obtain ctx where e: "aead_ctx_init lc lib c True st = Inr (ctx, snd (rand_bytes lc st (key_len c)))"
      "keyable lib c ctx" "init ctx = 0" "take (key_len c) (salt ctx) = fst (rand_bytes lc st (key_len c))"
    using ctx_init_keyable [OF assms(1), of lc lib True st] by auto
  have "cipher ctx = c"
    using e(2) by (simp add: keyable_def)
  then have "aead_sent lib c (fst (rand_bytes lc st (key_len c))) [] ctx"
    using e by (simp add: aead_sent_def sender_def)
  moreover have "state_wf lc (snd (rand_bytes lc st (key_len c)))"
    using st by (intro wf_intros)
  ultimately show "\<exists>ctx st' s. cr_ctx_init (aead_crypto lc lib c) (cr_cipher (aead_crypto lc lib c)) True st = Inr (ctx, st')
      \<and> state_wf lc st' \<and> aead_sent lib c s [] ctx"
    using e(1) by (auto simp: aead_crypto_def)
  obtain ctx where "aead_ctx_init lc lib c False st = Inr (ctx, st)" "keyable lib c ctx" "init ctx = 0" "chunk ctx = None"
    using ctx_init_keyable [OF assms(1), of lc lib False st] by auto
  then show "\<exists>ctx st'. cr_ctx_init (aead_crypto lc lib c) (cr_cipher (aead_crypto lc lib c)) False st = Inr (ctx, st')
      \<and> state_wf lc st' \<and> conn_wf lib c ctx"
    using st by (auto simp: aead_crypto_def conn_wf_def keyable_def)
next
  fix st s ms ctx b cap
  assume "state_wf lc st" "aead_sent lib c s ms ctx" "buf_wf b" "payload_ok (contents b)"
  from aead_encrypt_payload [OF assms this, of cap]
  show "\<exists>b' ctx' st'. cr_encrypt (aead_crypto lc lib c) b ctx cap st = Inr (CRYPTO_OK, b', ctx', st')
     \<and> buf_wf b' \<and> capacity b \<le> capacity b' \<and> state_wf lc st' \<and> aead_sent lib c s (ms @ [contents b]) ctx'
     \<and> aead_wire lib c s (ms @ [contents b]) = aead_wire lib c s ms @ contents b'"
    by (simp add: aead_crypto_def)
next
  fix st ctx b cap
  assume w: "state_wf lc st" "conn_wf lib c ctx" "buf_wf b"
  show "\<exists>rc b' ctx' st'. cr_decrypt (aead_crypto lc lib c) b ctx cap st = Inr (rc, b', ctx', st')
      \<and> buf_wf b' \<and> capacity b \<le> capacity b' \<and> idx b' = idx b \<and> state_wf lc st' \<and> conn_wf lib c ctx'"
    using aead_decrypt_safe [OF assms w(2,1,3), of cap] aead_decrypt_capacity [OF _ w(3)]
    by (simp add: aead_crypto_def) metis
qed (auto simp: aead_wire_def aead_crypto_def aead_encrypt_call_def aead_encrypt_def contents_def)

text \<open>The receiver of \<open>SS_AeadSession\<close>, with the payloads it still has to deliver joined.\<close>

definition aead_rcv :: "cryptolib \<Rightarrow> cipher_t \<Rightarrow> bytes \<Rightarrow> bytes \<Rightarrow> bytes \<Rightarrow> cipher_ctx \<Rightarrow> crypto_state \<Rightarrow> bool" where
  "aead_rcv lib c s p w ctx st \<longleftrightarrow> (\<exists>ms. p = concat ms \<and> receiver lib c s ctx ms w)
     \<and> (init ctx \<noteq> 2 \<longrightarrow> ppbloom_check (ppb st) s \<noteq> 1)"

lemma aead_tcp_delivery_law:
  assumes "cipher_ok c" "lib_ok lib c"
  shows "tcp_delivery (aead_crypto lc lib c) (state_wf lc) (aead_sent lib c) (aead_wire lib c) (conn_wf lib c)
    (aead_rcv lib c) (\<lambda>s st. ppbloom_check (ppb st) s \<noteq> 1) (\<lambda>_. True)"
proof (intro tcp_delivery.intro aead_tcp_crypto [OF assms] tcp_delivery_axioms.intro)
  fix st s ms sctx ctx st'
  assume a: "aead_sent lib c s ms sctx" "ms \<noteq> []" "ppbloom_check (ppb st) s \<noteq> 1"
    "cr_ctx_init (aead_crypto lc lib c) (cr_cipher (aead_crypto lc lib c)) False st = Inr (ctx, st')"
  obtain ctx0 where "aead_ctx_init lc lib c False st = Inr (ctx0, st)" "keyable lib c ctx0" "init ctx0 = 0" "chunk ctx0 = None"
    using ctx_init_keyable [OF assms(1), of lc lib False st] by auto
  with a have "receiver lib c s ctx ms (aead_wire lib c s ms)" "st' = st"
    by (auto simp: aead_crypto_def aead_sent_def receiver_def pending_def aead_wire_def keyable_def)
  with a(3) show "aead_rcv lib c s (concat ms) (aead_wire lib c s ms) ctx st'"
    by (auto simp: aead_rcv_def)
next
  fix st s p b w ctx cap
  assume a: "state_wf lc st" "aead_rcv lib c s p (contents b @ w) ctx st" "buf_wf b"
  then obtain ms where ms: "p = concat ms" "receiver lib c s ctx ms (contents b @ w)"
      and f: "init ctx \<noteq> 2 \<Longrightarrow> ppbloom_check (ppb st) s \<noteq> 1"
    by (auto simp: aead_rcv_def)
  obtain rc b' ctx' st' k where d: "aead_decrypt lc lib b ctx cap st = Inr (rc, b', ctx', st')"
      "rc = CRYPTO_OK \<and> buf_wf b' \<and> contents b' = concat (take k ms) \<or> rc = CRYPTO_NEED_MORE \<and> k = 0 \<and> b' = b"
      "state_wf lc st'" "receiver lib c s ctx' (drop k ms) w" "init ctx' \<noteq> 2 \<longrightarrow> ppbloom_check (ppb st') s \<noteq> 1"
    by (rule aead_decrypt_wire [OF assms ms(2) a(1,3) f, where cap = cap])
  have "p = concat (take k ms) @ concat (drop k ms)"
    unfolding ms(1) by (metis append_take_drop_id concat_append)
  with d(2) have "rc \<noteq> CRYPTO_ERROR" "p = (if rc = CRYPTO_OK then contents b' else []) @ concat (drop k ms)" by auto
  moreover have "aead_rcv lib c s (concat (drop k ms)) w ctx' st'"
    using d(4,5) by (auto simp: aead_rcv_def)
  ultimately show "\<exists>rc b' ctx' st' p'. cr_decrypt (aead_crypto lc lib c) b ctx cap st = Inr (rc, b', ctx', st')
      \<and> state_wf lc st' \<and> rc \<noteq> CRYPTO_ERROR \<and> p = (if rc = CRYPTO_OK then contents b' else []) @ p'
      \<and> aead_rcv lib c s p' w ctx' st'"
    using d(1,3) by (auto simp: aead_crypto_def)
next
  fix s p ctx st
  assume "aead_rcv lib c s p [] ctx st"
  then obtain ms where "p = concat ms" "receiver lib c s ctx ms []" by (auto simp: aead_rcv_def)
  then show "p = []" using receiver_done [OF assms, of s ctx ms] by simp
qed

text \<open>Two of the methods need no library primitive: the contract holds for every key.\<close>

definition chacha_cipher :: "bytes \<Rightarrow> cipher_t" where
  "chacha_cipher k = \<lparr>cmethod = CHACHA20POLY1305IETF, nonce_len = 12, key_len = 32, tag_len = 16,
     key = take MAX_KEY_LENGTH (k @ replicate MAX_KEY_LENGTH 0)\<rparr>"

definition xchacha_cipher :: "bytes \<Rightarrow> cipher_t" where
  "xchacha_cipher k = \<lparr>cmethod = XCHACHA20POLY1305IETF, nonce_len = 24, key_len = 32, tag_len = 16,
     key = take MAX_KEY_LENGTH (k @ replicate MAX_KEY_LENGTH 0)\<rparr>"

lemma chacha_cipher_ok: "cipher_ok (chacha_cipher k)" "lib_ok lib (chacha_cipher k)"
  by (simp_all add: cipher_ok_def chacha_cipher_def lib_ok_def method_defs aead_tables MAX_KEY_LENGTH_def)

lemma xchacha_cipher_ok: "cipher_ok (xchacha_cipher k)" "lib_ok lib (xchacha_cipher k)"
  by (simp_all add: cipher_ok_def xchacha_cipher_def lib_ok_def method_defs aead_tables MAX_KEY_LENGTH_def)

interpretation chacha_tcp: tcp_delivery "aead_crypto lc lib (chacha_cipher k)" "state_wf lc"
  "aead_sent lib (chacha_cipher k)" "aead_wire lib (chacha_cipher k)" "conn_wf lib (chacha_cipher k)"
  "aead_rcv lib (chacha_cipher k)" "\<lambda>s st. ppbloom_check (ppb st) s \<noteq> 1" "\<lambda>_. True" for lc lib k
  by (rule aead_tcp_delivery_law [OF chacha_cipher_ok])

interpretation xchacha_tcp: tcp_delivery "aead_crypto lc lib (xchacha_cipher k)" "state_wf lc"
  "aead_sent lib (xchacha_cipher k)" "aead_wire lib (xchacha_cipher k)" "conn_wf lib (xchacha_cipher k)"
  "aead_rcv lib (xchacha_cipher k)" "\<lambda>s st. ppbloom_check (ppb st) s \<noteq> 1" "\<lambda>_. True" for lc lib k
  by (rule aead_tcp_delivery_law [OF xchacha_cipher_ok])

end
