(* ===== verification/SS_Local.thy ===== *)
theory SS_Local
  imports SS_CryptoApi SS_Http SS_Tls
begin

text \<open>
  The TCP relay of the client, \<^verbatim>\<open>src/local.c\<close>: the SOCKS5 server towards the applications and
  the encrypted connection towards the shadowsocks server. One connection is a \<open>server\<close> (the
  application's side) with an optional \<open>remote\<close>; the libev watchers are flags that say whether
  they are started. A callback takes the results of the system calls it makes (\<open>env\<close>) and
  returns the new state of the connection with the log of the bytes that passed the kernel; a
  connection whose structures were freed is \<open>None\<close>. Messages for the log are left out, and with
  them the branches on \<^verbatim>\<open>verbose\<close>.
\<close>

section \<open>State\<close>

definition SOCKET_BUF_SIZE :: nat where "SOCKET_BUF_SIZE = 16 * 1024 - 1"

definition MAX_HOSTNAME_LEN :: nat where "MAX_HOSTNAME_LEN = 256"

datatype stage = STAGE_INIT | STAGE_HANDSHAKE | STAGE_SNI | STAGE_STREAM

text \<open>A socket address as \<^verbatim>\<open>sockaddr_storage\<close> holds it; \<open>AF_UNSPEC\<close> when no family was stored.\<close>

datatype sockaddr = AF_INET bytes nat | AF_INET6 bytes nat | AF_UNSPEC

record remote_t =
  r_direct :: bool
  r_addr :: sockaddr
  r_buf :: buffer
  r_recv_connected :: bool
  r_send_connected :: bool
  r_recv_io :: bool
  r_send_io :: bool
  r_watcher :: bool

record server_t =
  s_stage :: stage
  s_buf :: buffer
  s_abuf :: "buffer option"
  s_e_ctx :: cipher_ctx
  s_d_ctx :: cipher_ctx
  s_recv_io :: bool
  s_send_io :: bool
  s_delayed :: bool
  s_remote :: "remote_t option"

text \<open>
  What the kernel handed over and accepted, from and for the application and the other side, and the moment at
  which the remote's socket was opened.
\<close>

datatype io = FromClient bytes | FromRemote bytes | ToClient bytes | ToRemote bytes | Socket

record conn =
  c_server :: "server_t option"
  c_state :: crypto_state
  c_fast_open :: bool
  c_tx :: u64
  c_rx :: u64
  c_log :: "io list"

text \<open>
  What the relay takes from the rest of the program and from the system: the configuration, the
  access control list (\<^verbatim>\<open>acl_match_host\<close>, \<^verbatim>\<open>get_acl_mode\<close>), the conversion of addresses
  (\<^verbatim>\<open>cork_ip_init\<close> with \<^verbatim>\<open>inet_pton\<close>, \<^verbatim>\<open>inet_ntop\<close>) and the resolver (\<^verbatim>\<open>getaddrinfo\<close>).
\<close>

datatype acl_mode = BLACK_LIST | WHITE_LIST

record config =
  cfg_acl :: bool
  cfg_vpn :: bool
  cfg_remote_dns :: bool
  cfg_ipv6first :: bool
  cfg_signed_char :: bool
  cfg_acl_mode :: acl_mode
  cfg_match_host :: "bytes \<Rightarrow> int"
  cfg_pton :: "bytes \<Rightarrow> (nat \<Rightarrow> sockaddr) option"
  cfg_ntop :: "bytes \<Rightarrow> bytes option"
  cfg_getaddrinfo :: "bytes \<Rightarrow> nat \<Rightarrow> sockaddr list option"
  cfg_remote_addr :: "sockaddr list"

text \<open>The result of a system call, and those that one callback can make.\<close>

datatype 'a sys = Ret 'a | EAGAIN | CONNECT_IN_PROGRESS | EOPNOTSUPP | EOTHER

record env =
  e_timer :: bool
  e_recv :: "bytes sys"
  e_send_method :: "nat sys"
  e_send_reply :: "nat sys"
  e_send :: "nat sys"
  e_connect :: "unit sys"
  e_sockname :: "(bytes \<times> bytes) sys"
  e_socket_direct :: bool
  e_socket :: bool
  e_rand :: nat
  e_protect :: bool
  e_peername :: bool

text \<open>
  \<^verbatim>\<open>send\<close> never takes more than it is given, and \<^verbatim>\<open>recv\<close> never returns more than it is
  given room for. The room is a \<^verbatim>\<open>size_t\<close>, so the subtraction wraps around.
\<close>

definition sys_send :: "bytes \<Rightarrow> nat sys \<Rightarrow> nat sys" where
  "sys_send bs r = (case r of Ret n \<Rightarrow> Ret (min n (length bs)) | _ \<Rightarrow> r)"

definition accepted :: "bytes \<Rightarrow> nat sys \<Rightarrow> bytes" where
  "accepted bs r = (case r of Ret n \<Rightarrow> take n bs | _ \<Rightarrow> [])"

definition recv_room :: "nat \<Rightarrow> nat" where
  "recv_room n = unat (of_nat SOCKET_BUF_SIZE - of_nat n :: u64)"

definition sys_recv :: "nat \<Rightarrow> bytes sys \<Rightarrow> bytes sys" where
  "sys_recv room r = (case r of Ret bs \<Rightarrow> Ret (take room bs) | _ \<Rightarrow> r)"

definition emit :: "io \<Rightarrow> conn \<Rightarrow> conn" where
  "emit x c = c\<lparr>c_log := c_log c @ [x]\<rparr>"

section \<open>Creation and release\<close>

definition new_remote :: "libc \<Rightarrow> remote_t" where
  "new_remote lc =
     \<lparr>r_direct = False, r_addr = AF_UNSPEC, r_buf = snd (balloc lc SOCKET_BUF_SIZE),
      r_recv_connected = False, r_send_connected = False,
      r_recv_io = False, r_send_io = False, r_watcher = False\<rparr>"

definition create_remote ::
  "libc \<Rightarrow> config \<Rightarrow> bool \<Rightarrow> nat \<Rightarrow> sockaddr option \<Rightarrow> bool \<Rightarrow> fault + remote_t option" where
  "create_remote lc cfg sock rnd addr direct =
     rd (cfg_remote_addr cfg) (rnd mod length (cfg_remote_addr cfg)) (\<lambda>listed.
       let remote_addr = (case addr of None \<Rightarrow> listed | Some a \<Rightarrow> a)
       in Inr (if sock then Some ((new_remote lc)\<lparr>r_addr := remote_addr, r_direct := direct\<rparr>) else None))"

definition new_server :: "libc \<Rightarrow> crypto_t \<Rightarrow> crypto_state \<Rightarrow> fault + server_t \<times> crypto_state" where
  "new_server lc cr st =
     (case cr_ctx_init cr (cr_cipher cr) True st of
        Inl f \<Rightarrow> Inl f
      | Inr (e_ctx, st) \<Rightarrow>
          (case cr_ctx_init cr (cr_cipher cr) False st of
             Inl f \<Rightarrow> Inl f
           | Inr (d_ctx, st) \<Rightarrow>
               Inr (\<lparr>s_stage = STAGE_INIT, s_buf = snd (balloc lc SOCKET_BUF_SIZE),
                     s_abuf = Some (snd (balloc lc SOCKET_BUF_SIZE)),
                     s_e_ctx = e_ctx, s_d_ctx = d_ctx,
                     s_recv_io = False, s_send_io = False, s_delayed = False,
                     s_remote = None\<rparr>, st)))"

text \<open>A new connection: \<^verbatim>\<open>accept_cb\<close> starts the reading watcher.\<close>

definition accept_cb :: "libc \<Rightarrow> crypto_t \<Rightarrow> bool \<Rightarrow> crypto_state \<Rightarrow> fault + conn" where
  "accept_cb lc cr fast_open st =
     map_sum id (\<lambda>(s, st). \<lparr>c_server = Some (s\<lparr>s_recv_io := True\<rparr>), c_state = st,
        c_fast_open = fast_open, c_tx = 0, c_rx = 0, c_log = []\<rparr>) (new_server lc cr st)"

text \<open>\<^verbatim>\<open>close_and_free_remote\<close> followed by \<^verbatim>\<open>close_and_free_server\<close>: all watchers are stopped.\<close>

definition close_and_free :: "conn \<Rightarrow> conn" where
  "close_and_free c = c\<lparr>c_server := None\<rparr>"

definition put_server :: "server_t \<Rightarrow> conn \<Rightarrow> conn" where
  "put_server s c = c\<lparr>c_server := Some s\<rparr>"

text \<open>The buffer that \<^verbatim>\<open>server_recv_cb\<close> reads into.\<close>

definition recv_buf :: "server_t \<Rightarrow> buffer" where
  "recv_buf s = (case s_remote s of None \<Rightarrow> s_buf s | Some r \<Rightarrow> r_buf r)"

definition put_recv_buf :: "buffer \<Rightarrow> server_t \<Rightarrow> server_t" where
  "put_recv_buf b s =
     (case s_remote s of None \<Rightarrow> s\<lparr>s_buf := b\<rparr> | Some r \<Rightarrow> s\<lparr>s_remote := Some (r\<lparr>r_buf := b\<rparr>)\<rparr>)"

section \<open>Addresses\<close>

text \<open>
  \<^verbatim>\<open>get_sockaddr\<close> of \<^verbatim>\<open>src/netutils.c\<close>: a literal address is stored with the port; a name goes to
  the resolver (never in VPN mode), which prefers one family and otherwise takes the first.
\<close>

definition is_af :: "bool \<Rightarrow> sockaddr \<Rightarrow> bool" where
  "is_af v6 a = (case a of AF_INET _ _ \<Rightarrow> \<not> v6 | AF_INET6 _ _ \<Rightarrow> v6 | AF_UNSPEC \<Rightarrow> False)"

definition get_sockaddr :: "config \<Rightarrow> bytes \<Rightarrow> nat \<Rightarrow> fault + sockaddr option" where
  "get_sockaddr cfg host port =
     (case cfg_pton cfg host of
        Some mk \<Rightarrow> Inr (Some (mk port))
      | None \<Rightarrow>
          if cfg_vpn cfg then Inl ASSERT
          else case cfg_getaddrinfo cfg host port of
                 None \<Rightarrow> Inr None
               | Some rs \<Rightarrow>
                   (case List.find (is_af (cfg_ipv6first cfg)) rs of
                      Some a \<Rightarrow> Inr (Some a)
                    | None \<Rightarrow> (case rs of [] \<Rightarrow> Inr None | a # _ \<Rightarrow> Inr (Some a))))"

definition cstr :: "bytes \<Rightarrow> bytes" where
  "cstr bs = takeWhile (\<lambda>b. b \<noteq> 0) bs"

text \<open>
  The decision of \<^verbatim>\<open>server_handshake\<close> under an access control list: the address to connect to
  directly, or \<open>None\<close> for the way through the server. \<open>host\<close> and \<open>ip\<close> are the C strings of the
  same names.
\<close>

definition resolve_ip :: "config \<Rightarrow> bytes \<Rightarrow> nat \<Rightarrow> fault + bytes option" where
  "resolve_ip cfg host port =
     map_sum id (\<lambda>sa. case sa of
          Some (AF_INET a _) \<Rightarrow> cfg_ntop cfg a
        | Some (AF_INET6 a _) \<Rightarrow> cfg_ntop cfg a
        | _ \<Rightarrow> None) (get_sockaddr cfg host port)"

definition mode_bypass :: "config \<Rightarrow> int \<Rightarrow> bool" where
  "mode_bypass cfg ip_match =
     (case cfg_acl_mode cfg of BLACK_LIST \<Rightarrow> ip_match > 0 | WHITE_LIST \<Rightarrow> \<not> ip_match < 0)"

definition bypass_addr :: "config \<Rightarrow> bool \<Rightarrow> bytes \<Rightarrow> bytes \<Rightarrow> nat \<Rightarrow> fault + sockaddr option" where
  "bypass_addr cfg by_name host ip port =
     (if by_name then (if cfg_vpn cfg then Inr None else get_sockaddr cfg host port)
      else get_sockaddr cfg ip port)"

definition acl_route ::
  "config \<Rightarrow> u8 \<Rightarrow> bool \<Rightarrow> bytes \<Rightarrow> bytes \<Rightarrow> nat \<Rightarrow> fault + sockaddr option" where
  "acl_route cfg atyp sni host ip port =
     (if \<not> cfg_acl cfg \<or> (cfg_vpn cfg \<and> port = 53) then Inr None
      else let domain = (atyp = 3);
               host_match = (if sni \<or> domain then cfg_match_host cfg host else 0)
           in if host_match > 0 then bypass_addr cfg domain host ip port
              else if host_match < 0 then Inr None
              else if domain \<and> \<not> cfg_vpn cfg
              then (case resolve_ip cfg host port of
                      Inl f \<Rightarrow> Inl f
                    | Inr None \<Rightarrow> Inr None
                    | Inr (Some ip) \<Rightarrow>
                        if mode_bypass cfg (cfg_match_host cfg ip)
                        then bypass_addr cfg False host ip port else Inr None)
              else if mode_bypass cfg (if domain then 0 else cfg_match_host cfg ip)
              then bypass_addr cfg domain host ip port else Inr None)"

section \<open>The SOCKS5 handshake\<close>

text \<open>The results of \<^verbatim>\<open>int\<close>-returning handshake steps: \<open>True\<close> is 0, \<open>False\<close> is -1.\<close>

definition server_handshake_reply ::
  "env \<Rightarrow> bool \<Rightarrow> server_t \<Rightarrow> conn \<Rightarrow> bool \<times> conn" where
  "server_handshake_reply env udp_assc s c =
     (if s_stage s \<noteq> STAGE_HANDSHAKE then (True, c)
      else case (if udp_assc then e_sockname env else Ret ([0, 0, 0, 0], [0, 0])) of
        Ret (sin_addr, sin_port) \<Rightarrow>
          let resp = [5, 0, 0, 1] @ sin_addr @ sin_port;
              c = emit (ToClient (accepted resp (e_send_reply env))) c
          in (case sys_send resp (e_send_reply env) of
                Ret n \<Rightarrow> if n < 10 then (False, close_and_free c) else (\<not> udp_assc, c)
              | _ \<Rightarrow> (False, close_and_free c))
      | _ \<Rightarrow> (False, close_and_free (emit (ToClient (accepted [5, 5, 0, 1] (e_send_reply env))) c)))"

text \<open>The request's address copied into \<^verbatim>\<open>abuf\<close>; \<open>None\<close> when the request is not complete.\<close>

definition copy_addr :: "buffer \<Rightarrow> buffer \<Rightarrow> u8 \<Rightarrow> nat \<Rightarrow> fault + buffer option" where
  "copy_addr buf abuf atyp n =
     (if len buf < 4 + n then Inr None
      else Inr (Some (abuf\<lparr>data := memcpy_at (data abuf) 0 ([atyp] @ take n (drop 4 (data buf))),
                           len := 1 + n\<rparr>)))"

definition read_addr :: "buffer \<Rightarrow> buffer \<Rightarrow> u8 \<Rightarrow> fault + buffer option" where
  "read_addr buf abuf atyp =
     (if atyp = 1 then copy_addr buf abuf atyp (4 + 2)
      else if atyp = 3 then rd (data buf) 4 (\<lambda>name_len. copy_addr buf abuf atyp (1 + unat name_len + 2))
      else copy_addr buf abuf atyp (16 + 2))"

text \<open>The host name in the first payload bytes, for the default ports of HTTP and TLS.\<close>

definition sniff :: "libc \<Rightarrow> config \<Rightarrow> u8 \<Rightarrow> nat \<Rightarrow> bytes \<Rightarrow> fault + int \<times> bytes option" where
  "sniff lc cfg atyp dst_port d =
     (if atyp = 1 \<or> atyp = 4
      then (if dst_port = 80 then parse_http_header lc d True
            else if dst_port = 443 then parse_tls_header lc (cfg_signed_char cfg) d True
            else Inr (0, None))
      else Inr (0, None))"

text \<open>The C strings \<^verbatim>\<open>host\<close> and \<^verbatim>\<open>ip\<close> and the length that goes with a detected name.\<close>

definition sniffed_host :: "int \<Rightarrow> bytes option \<Rightarrow> bytes" where
  "sniffed_host rc name =
     (case name of None \<Rightarrow> [] | Some h \<Rightarrow> if rc > 0 then take (min (nat rc) MAX_HOSTNAME_LEN) h else [])"

definition request_host :: "u8 \<Rightarrow> bytes \<Rightarrow> bytes \<Rightarrow> bytes" where
  "request_host atyp abytes sniffed =
     (if atyp = 3 then take (length abytes - 4) (drop 2 abytes) else sniffed)"

definition request_ip :: "config \<Rightarrow> u8 \<Rightarrow> bytes \<Rightarrow> bytes" where
  "request_ip cfg atyp abytes =
     (if atyp = 3 then []
      else case cfg_ntop cfg (take (length abytes - 3) (drop 1 abytes)) of None \<Rightarrow> [] | Some t \<Rightarrow> t)"

text \<open>The remote to use: direct when the list says so and its socket could be made.\<close>

definition choose_remote ::
  "libc \<Rightarrow> config \<Rightarrow> env \<Rightarrow> server_t \<Rightarrow> sockaddr option \<Rightarrow> fault + bool \<times> remote_t option" where
  "choose_remote lc cfg env s route =
     (case (case route of
              None \<Rightarrow> Inr (s_remote s)
            | Some a \<Rightarrow> create_remote lc cfg (e_socket_direct env) (e_rand env) (Some a) True) of
        Inl f \<Rightarrow> Inl f
      | Inr (Some r) \<Rightarrow> Inr (False, Some r)
      | Inr None \<Rightarrow> map_sum id (Pair True) (create_remote lc cfg (e_socket env) (e_rand env) None False))"

text \<open>The address rewritten with the detected name; the length byte keeps the low eight bits.\<close>

definition rewrite_abuf :: "buffer \<Rightarrow> bytes \<Rightarrow> bytes \<Rightarrow> buffer" where
  "rewrite_abuf abuf host port =
     abuf\<lparr>data := memcpy_at (data abuf) 0 ([3, of_nat (length host)] @ host @ port),
          len := 1 + 1 + length host + 2\<rparr>"

definition start_remote ::
  "server_t \<Rightarrow> remote_t \<Rightarrow> bool \<Rightarrow> conn \<Rightarrow> bool \<times> conn" where
  "start_remote s r sni c =
     (let buf = recv_buf s;
          r = (if len buf > 0
               then r\<lparr>r_buf := (r_buf r)\<lparr>data := memcpy_at (data (r_buf r)) 0 (take (len buf) (data buf)),
                                         len := len buf\<rparr>\<rparr>
               else r);
          s = s\<lparr>s_remote := Some r\<rparr>
      in if len buf > 0 \<or> sni then (True, put_server s c)
         else (False, put_server (s\<lparr>s_delayed := True\<rparr>) c))"

text \<open>
  The part of \<^verbatim>\<open>server_handshake\<close> behind the reply: route, remote, encryption of the address.
\<close>

definition handshake_connect ::
  "libc \<Rightarrow> crypto_t \<Rightarrow> config \<Rightarrow> env \<Rightarrow> u8 \<Rightarrow> buffer \<Rightarrow> bool \<Rightarrow> bytes \<Rightarrow> server_t \<Rightarrow> conn
     \<Rightarrow> fault + bool \<times> conn" where
  "handshake_connect lc cr cfg env atyp abuf sni sniffed s c =
     (let abytes = contents abuf;
          port_bytes = drop (length abytes - 2) abytes;
          port = from_be16 (port_bytes ! 0) (port_bytes ! 1);
          host = request_host atyp abytes sniffed;
          ip = request_ip cfg atyp abytes
      in case acl_route cfg atyp sni (cstr host) (cstr ip) port of
           Inl f \<Rightarrow> Inl f
         | Inr route \<Rightarrow>
             (case choose_remote lc cfg env s route of
                Inl f \<Rightarrow> Inl f
              | Inr (proxied, remote) \<Rightarrow>
                  let abuf = (if proxied \<and> sni \<and> cfg_acl cfg \<and> cfg_remote_dns cfg
                              then rewrite_abuf abuf host port_bytes else abuf)
                  in case remote of
                       None \<Rightarrow> Inr (False, close_and_free c)
                     | Some r \<Rightarrow>
                         let c = emit Socket c
                         in if r_direct r then Inr (start_remote (s\<lparr>s_abuf := Some abuf\<rparr>) r sni c)
                         else (case cr_encrypt cr abuf (s_e_ctx s) SOCKET_BUF_SIZE (c_state c) of
                                 Inl f \<Rightarrow> Inl f
                               | Inr (rc, abuf, e_ctx, st) \<Rightarrow>
                                   let c = c\<lparr>c_state := st\<rparr>
                                   in if rc \<noteq> CRYPTO_OK then Inr (False, close_and_free c)
                                      else Inr (start_remote (s\<lparr>s_abuf := Some abuf, s_e_ctx := e_ctx\<rparr>) r sni c))))"

definition server_handshake ::
  "libc \<Rightarrow> crypto_t \<Rightarrow> config \<Rightarrow> env \<Rightarrow> server_t \<Rightarrow> conn \<Rightarrow> fault + bool \<times> conn" where
  "server_handshake lc cr cfg env s c =
     (let buf = recv_buf s
      in if len buf < 4 then Inr (False, put_server s c)
         else rd (data buf) 1 (\<lambda>cmd. rd (data buf) 3 (\<lambda>atyp.
           if cmd = 3 then Inr (server_handshake_reply env True s (put_server s c))
           else if cmd \<noteq> 1
           then Inr (False, close_and_free (emit (ToClient (accepted [5, 7, 0, 1] (e_send_reply env))) c))
           else case s_abuf s of
             None \<Rightarrow> Inl SEGV
           | Some abuf \<Rightarrow>
               if atyp \<notin> {1, 3, 4}
               then Inr (False, close_and_free (emit (ToClient (accepted [5, 8, 0, 1] (e_send_reply env))) c))
               else case read_addr buf (abuf\<lparr>idx := 0\<rparr>) atyp of
                 Inl f \<Rightarrow> Inl f
               | Inr None \<Rightarrow>
                   Inr (False, put_server (s\<lparr>s_abuf := Some (abuf\<lparr>idx := 0, len := 1,
                     data := memcpy_at (data abuf) 0 [atyp]\<rparr>)\<rparr>) c)
               | Inr (Some abuf) \<Rightarrow>
                   let n = 3 + len abuf;
                       port = drop (len abuf - 2) (contents abuf);
                       s = s\<lparr>s_abuf := Some abuf\<rparr>
                   in case sniff lc cfg atyp (from_be16 (port ! 0) (port ! 1)) (drop n (contents buf)) of
                        Inl f \<Rightarrow> Inl f
                      | Inr (rc, name) \<Rightarrow>
                          let (ok, c) = server_handshake_reply env False s (put_server s c)
                          in if \<not> ok then Inr (False, c)
                             else if rc = -1 \<and> len buf < SOCKET_BUF_SIZE \<and> s_stage s \<noteq> STAGE_SNI
                             then Inr (False, put_server (s\<lparr>s_stage := STAGE_SNI, s_delayed := True\<rparr>) c)
                             else handshake_connect lc cr cfg env atyp abuf (rc > 0) (sniffed_host rc name)
                                    (put_recv_buf (bconsume buf n) (s\<lparr>s_stage := STAGE_STREAM\<rparr>)) c)))"

section \<open>Relaying from the application\<close>

text \<open>Encryption of what the application sent; the encrypted address goes in front once.\<close>

definition stream_encrypt_buf ::
  "libc \<Rightarrow> crypto_t \<Rightarrow> server_t \<Rightarrow> remote_t \<Rightarrow> conn \<Rightarrow> fault + (server_t \<times> remote_t) option \<times> conn" where
  "stream_encrypt_buf lc cr s r c =
     (if r_direct r then Inr (Some (s, r), c)
      else let c = c\<lparr>c_tx := c_tx c + of_nat (len (r_buf r))\<rparr>
           in case cr_encrypt cr (r_buf r) (s_e_ctx s) SOCKET_BUF_SIZE (c_state c) of
                Inl f \<Rightarrow> Inl f
              | Inr (rc, b, e_ctx, st) \<Rightarrow>
                  let c = c\<lparr>c_state := st\<rparr>; s = s\<lparr>s_e_ctx := e_ctx\<rparr>
                  in if rc \<noteq> CRYPTO_OK then Inr (None, c)
                     else (case s_abuf s of
                             None \<Rightarrow> Inr (Some (s, r\<lparr>r_buf := b\<rparr>), c)
                           | Some abuf \<Rightarrow>
                               Inr (Some (s\<lparr>s_abuf := None\<rparr>,
                                          r\<lparr>r_buf := snd (bprepend lc b abuf SOCKET_BUF_SIZE)\<rparr>), c)))"

text \<open>The watchers swapped while something waits to be sent.\<close>

definition wait_send :: "server_t \<Rightarrow> remote_t \<Rightarrow> bool \<Rightarrow> conn \<Rightarrow> conn" where
  "wait_send s r timer c =
     put_server (s\<lparr>s_recv_io := False,
                  s_remote := Some (r\<lparr>r_send_io := True, r_watcher := r_watcher r \<or> timer\<rparr>)\<rparr>) c"

text \<open>In VPN mode the socket is excluded from the tunnel unless it goes to the loopback address.\<close>

definition must_protect :: "config \<Rightarrow> remote_t \<Rightarrow> bool" where
  "must_protect cfg r \<longleftrightarrow> cfg_vpn cfg \<and>
     (case r_addr r of AF_INET a _ \<Rightarrow> a \<noteq> [127, 0, 0, 1] | _ \<Rightarrow> True)"

definition stream_connect :: "config \<Rightarrow> env \<Rightarrow> server_t \<Rightarrow> remote_t \<Rightarrow> conn \<Rightarrow> conn" where
  "stream_connect cfg env s r c =
     (if must_protect cfg r \<and> \<not> e_protect env then close_and_free c
      else let r = r\<lparr>r_buf := (r_buf r)\<lparr>idx := 0\<rparr>\<rparr>
           in if \<not> c_fast_open c \<or> r_direct r
              then (case e_connect env of
                      Ret _ \<Rightarrow> wait_send s r True c
                    | CONNECT_IN_PROGRESS \<Rightarrow> wait_send s r True c
                    | _ \<Rightarrow> close_and_free c)
              else let b = r_buf r;
                       c = emit (ToRemote (accepted (contents b) (e_send env))) c
                   in (case sys_send (contents b) (e_send env) of
                         Ret n \<Rightarrow> wait_send s (r\<lparr>r_buf := b\<lparr>len := len b - n, idx := n\<rparr>\<rparr>) True c
                       | CONNECT_IN_PROGRESS \<Rightarrow> wait_send s (r\<lparr>r_buf := b\<lparr>idx := 0\<rparr>\<rparr>) False c
                       | EOPNOTSUPP \<Rightarrow> close_and_free (c\<lparr>c_fast_open := False\<rparr>)
                       | _ \<Rightarrow> close_and_free c))"

definition stream_send :: "env \<Rightarrow> server_t \<Rightarrow> remote_t \<Rightarrow> conn \<Rightarrow> conn" where
  "stream_send env s r c =
     (let b = r_buf r;
          c = emit (ToRemote (accepted (contents b) (e_send env))) c
      in case sys_send (contents b) (e_send env) of
           Ret n \<Rightarrow>
             if n < len b then wait_send s (r\<lparr>r_buf := b\<lparr>len := len b - n, idx := n\<rparr>\<rparr>) False c
             else put_server (s\<lparr>s_remote := Some (r\<lparr>r_buf := b\<lparr>idx := 0, len := 0\<rparr>\<rparr>)\<rparr>) c
         | EAGAIN \<Rightarrow> wait_send s (r\<lparr>r_buf := b\<lparr>idx := 0\<rparr>\<rparr>) False c
         | _ \<Rightarrow> close_and_free c)"

definition server_stream ::
  "libc \<Rightarrow> crypto_t \<Rightarrow> config \<Rightarrow> env \<Rightarrow> server_t \<Rightarrow> conn \<Rightarrow> fault + conn" where
  "server_stream lc cr cfg env s c =
     (case s_remote s of
        None \<Rightarrow> Inr (close_and_free c)
      | Some r \<Rightarrow>
          (case stream_encrypt_buf lc cr s r c of
             Inl f \<Rightarrow> Inl f
           | Inr (None, c) \<Rightarrow> Inr (close_and_free c)
           | Inr (Some (s, r), c) \<Rightarrow>
               Inr (if r_send_connected r then stream_send env s r c else stream_connect cfg env s r c)))"

text \<open>The method selection: \<open>Inr (continue, c)\<close>.\<close>

definition method_select :: "env \<Rightarrow> server_t \<Rightarrow> conn \<Rightarrow> fault + bool \<times> conn" where
  "method_select env s c =
     (let buf = recv_buf s
      in if len buf < 1 then Inr (False, put_server s c)
         else rd (data buf) 0 (\<lambda>ver.
           if ver \<noteq> 5 then Inr (False, close_and_free c)
           else if len buf < 2 then Inr (False, put_server s c)
           else rd (data buf) 1 (\<lambda>nmethods.
             let method_len = unat nmethods + 2
             in if len buf < method_len then Inr (False, put_server s c)
                else let noauth = (0 \<in> set (take (unat nmethods) (drop 2 (data buf))));
                         c = emit (ToClient (accepted [5, if noauth then 0 else 0xff] (e_send_method env))) c
                     in if \<not> noauth then Inr (False, close_and_free c)
                        else let s = s\<lparr>s_stage := STAGE_HANDSHAKE\<rparr>
                             in if method_len < len buf
                                then Inr (True, put_server (put_recv_buf (bconsume buf method_len) s) c)
                                else Inr (False, put_server (put_recv_buf (buf\<lparr>len := 0\<rparr>) s) c))))"

text \<open>The endless loop of \<^verbatim>\<open>server_recv_cb\<close>: \<open>None\<close> is a loop that does not end.\<close>

partial_function (option) recv_loop ::
  "libc \<Rightarrow> crypto_t \<Rightarrow> config \<Rightarrow> env \<Rightarrow> conn \<Rightarrow> (fault + conn) option" where
  "recv_loop lc cr cfg env c =
     (case c_server c of
        None \<Rightarrow> Some (Inl SEGV)
      | Some s \<Rightarrow>
          (if s_stage s = STAGE_STREAM then Some (server_stream lc cr cfg env s c)
           else case (if s_stage s = STAGE_INIT then method_select env s c
                      else server_handshake lc cr cfg env s c) of
                  Inl f \<Rightarrow> Some (Inl f)
                | Inr (again, c') \<Rightarrow> if again then recv_loop lc cr cfg env c' else Some (Inr c')))"

text \<open>\<^verbatim>\<open>recv\<close> writes behind the bytes that are there; the room it is given is the rest of the buffer.\<close>

definition recv_into :: "buffer \<Rightarrow> bytes \<Rightarrow> fault + buffer" where
  "recv_into b bs =
     (if len b + length bs \<le> length (data b)
      then Inr (b\<lparr>data := memcpy_at (data b) (len b) bs, len := len b + length bs\<rparr>) else Inl OOB)"

definition server_recv_cb ::
  "libc \<Rightarrow> crypto_t \<Rightarrow> config \<Rightarrow> env \<Rightarrow> conn \<Rightarrow> (fault + conn) option" where
  "server_recv_cb lc cr cfg env c =
     (case c_server c of
        None \<Rightarrow> Some (Inl SEGV)
      | Some s \<Rightarrow>
          let s = s\<lparr>s_delayed := False\<rparr>
          in if e_timer env then recv_loop lc cr cfg env (put_server s c)
             else (case sys_recv (recv_room (len (recv_buf s))) (e_recv env) of
                     Ret bs \<Rightarrow>
                       if bs = [] then Some (Inr (close_and_free c))
                       else (case recv_into (recv_buf s) bs of
                               Inl f \<Rightarrow> Some (Inl f)
                             | Inr b \<Rightarrow> recv_loop lc cr cfg env (emit (FromClient bs) (put_server (put_recv_buf b s) c)))
                   | EAGAIN \<Rightarrow> Some (Inr (put_server s c))
                   | _ \<Rightarrow> Some (Inr (close_and_free c))))"

section \<open>The other callbacks\<close>

text \<open>Sending what remains of a buffer: the buffer afterwards, \<open>None\<close> when the connection is closed.\<close>

definition send_rest :: "buffer \<Rightarrow> nat sys \<Rightarrow> (bool \<times> buffer) option" where
  "send_rest b r =
     (case r of
        Ret n \<Rightarrow> if n < len b then Some (False, b\<lparr>len := len b - n, idx := idx b + n\<rparr>)
                 else Some (True, b\<lparr>len := 0, idx := 0\<rparr>)
      | EAGAIN \<Rightarrow> Some (False, b)
      | _ \<Rightarrow> None)"

definition unsent :: "buffer \<Rightarrow> bytes" where
  "unsent b = take (len b) (drop (idx b) (data b))"

definition server_send_cb :: "env \<Rightarrow> conn \<Rightarrow> fault + conn" where
  "server_send_cb env c =
     (case c_server c of
        None \<Rightarrow> Inl SEGV
      | Some s \<Rightarrow>
          let b = s_buf s
          in if len b = 0 then Inr (close_and_free c)
             else let c = emit (ToClient (accepted (unsent b) (e_send env))) c
                  in case send_rest b (sys_send (unsent b) (e_send env)) of
                       None \<Rightarrow> Inr (close_and_free c)
                     | Some (False, b) \<Rightarrow> Inr (put_server (s\<lparr>s_buf := b\<rparr>) c)
                     | Some (True, b) \<Rightarrow>
                         (case s_remote s of
                            None \<Rightarrow> Inl SEGV
                          | Some r \<Rightarrow> Inr (put_server (s\<lparr>s_buf := b, s_send_io := False,
                                           s_remote := Some (r\<lparr>r_recv_io := True\<rparr>)\<rparr>) c)))"

definition remote_timeout_cb :: "conn \<Rightarrow> conn" where
  "remote_timeout_cb c = close_and_free c"

text \<open>\<^verbatim>\<open>remote_recv_cb\<close>: what it delivers of the decrypted bytes, and the watchers for the rest.\<close>

definition deliver :: "env \<Rightarrow> server_t \<Rightarrow> remote_t \<Rightarrow> conn \<Rightarrow> conn" where
  "deliver env s r c =
     (let b = s_buf s;
          c = emit (ToClient (accepted (contents b) (e_send env))) c;
          r' = r\<lparr>r_recv_connected := True\<rparr>;
          blocked = s\<lparr>s_send_io := True, s_remote := Some (r'\<lparr>r_recv_io := False\<rparr>)\<rparr>
      in case sys_send (contents b) (e_send env) of
           Ret n \<Rightarrow>
             if n < len b then put_server (blocked\<lparr>s_buf := b\<lparr>len := len b - n, idx := n\<rparr>\<rparr>) c
             else put_server (s\<lparr>s_remote := Some r'\<rparr>) c
         | EAGAIN \<Rightarrow> put_server (blocked\<lparr>s_buf := b\<lparr>idx := 0\<rparr>\<rparr>) c
         | _ \<Rightarrow> close_and_free c)"

definition remote_recv_cb :: "crypto_t \<Rightarrow> env \<Rightarrow> conn \<Rightarrow> fault + conn" where
  "remote_recv_cb cr env c =
     (case c_server c of
        None \<Rightarrow> Inl SEGV
      | Some s \<Rightarrow>
          (case s_remote s of
             None \<Rightarrow> Inl SEGV
           | Some r \<Rightarrow>
               (case sys_recv SOCKET_BUF_SIZE (e_recv env) of
                  Ret bs \<Rightarrow>
                    if bs = [] then Inr (close_and_free c)
                    else (case recv_into ((s_buf s)\<lparr>len := 0\<rparr>) bs of
                            Inl f \<Rightarrow> Inl f
                          | Inr b \<Rightarrow>
                              let c = emit (FromRemote bs) c
                              in if r_direct r then Inr (deliver env (s\<lparr>s_buf := b\<rparr>) r c)
                              else let c = c\<lparr>c_rx := c_rx c + of_nat (len b)\<rparr>
                                   in (case cr_decrypt cr b (s_d_ctx s) SOCKET_BUF_SIZE (c_state c) of
                                         Inl f \<Rightarrow> Inl f
                                       | Inr (rc, b, d_ctx, st) \<Rightarrow>
                                           let c = c\<lparr>c_state := st\<rparr>; s = s\<lparr>s_buf := b, s_d_ctx := d_ctx\<rparr>
                                           in (case rc of
                                                 CRYPTO_ERROR \<Rightarrow> Inr (close_and_free c)
                                               | CRYPTO_NEED_MORE \<Rightarrow> Inr (put_server s c)
                                               | CRYPTO_OK \<Rightarrow> Inr (deliver env s r c))))
                | EAGAIN \<Rightarrow> Inr (put_server s c)
                | _ \<Rightarrow> Inr (close_and_free c))))"

definition remote_flush :: "env \<Rightarrow> server_t \<Rightarrow> remote_t \<Rightarrow> conn \<Rightarrow> conn" where
  "remote_flush env s r c =
     (let b = r_buf r
      in if len b = 0 then close_and_free c
         else let c = emit (ToRemote (accepted (unsent b) (e_send env))) c
              in case send_rest b (sys_send (unsent b) (e_send env)) of
                   None \<Rightarrow> close_and_free c
                 | Some (False, b) \<Rightarrow> put_server (s\<lparr>s_remote := Some (r\<lparr>r_buf := b\<rparr>)\<rparr>) c
                 | Some (True, b) \<Rightarrow>
                     put_server (s\<lparr>s_recv_io := True, s_remote := Some (r\<lparr>r_buf := b, r_send_io := False\<rparr>)\<rparr>) c)"

definition remote_send_cb :: "env \<Rightarrow> conn \<Rightarrow> fault + conn" where
  "remote_send_cb env c =
     (case c_server c of
        None \<Rightarrow> Inl SEGV
      | Some s \<Rightarrow>
          (case s_remote s of
             None \<Rightarrow> Inl SEGV
           | Some r \<Rightarrow>
               if r_send_connected r then Inr (remote_flush env s r c)
               else if \<not> e_peername env then Inr (close_and_free c)
               else let r = r\<lparr>r_send_connected := True, r_watcher := False, r_recv_io := True\<rparr>
                    in if len (r_buf r) = 0
                       then Inr (put_server (s\<lparr>s_recv_io := True, s_remote := Some (r\<lparr>r_send_io := False\<rparr>)\<rparr>) c)
                       else Inr (remote_flush env s r c)))"

end
