(* ===== verification/SS_LocalInv.thy ===== *)
theory SS_LocalInv
  imports SS_Local
begin

text \<open>
  The invariant of a client connection (\<^verbatim>\<open>src/local.c\<close>) and its step relation: a callback runs only
  while its watcher is started, as libev guarantees, and the system calls may return anything.
  The lemmas are proved in the context of the cipher contract \<^const>\<open>tcp_crypto\<close>: every enabled
  callback returns, keeps the invariant, and forwards the application's bytes unchanged and in
  order.
\<close>

section \<open>The traffic of a connection\<close>

definition client_in :: "conn \<Rightarrow> bytes" where
  "client_in c = concat (List.map_filter (\<lambda>x. case x of FromClient bs \<Rightarrow> Some bs | _ \<Rightarrow> None) (c_log c))"

definition remote_out :: "conn \<Rightarrow> bytes" where
  "remote_out c = concat (List.map_filter (\<lambda>x. case x of ToRemote bs \<Rightarrow> Some bs | _ \<Rightarrow> None) (c_log c))"

text \<open>What the application had sent when the remote's socket was opened.\<close>

definition seen :: "conn \<Rightarrow> bytes option" where
  "seen c = (if Socket \<in> set (c_log c)
     then Some (concat (List.map_filter (\<lambda>x. case x of FromClient bs \<Rightarrow> Some bs | _ \<Rightarrow> None)
                  (takeWhile (\<lambda>x. x \<noteq> Socket) (c_log c))))
     else None)"

lemma traffic_simps [simp]:
  "client_in (emit (FromClient bs) c) = client_in c @ bs"
  "client_in (emit (FromRemote bs) c) = client_in c"
  "client_in (emit (ToClient bs) c) = client_in c"
  "client_in (emit (ToRemote bs) c) = client_in c"
  "remote_out (emit (FromClient bs) c) = remote_out c"
  "remote_out (emit (FromRemote bs) c) = remote_out c"
  "remote_out (emit (ToClient bs) c) = remote_out c"
  "remote_out (emit (ToRemote bs) c) = remote_out c @ bs"
  "client_in (emit Socket c) = client_in c" "remote_out (emit Socket c) = remote_out c"
  by (simp_all add: client_in_def remote_out_def emit_def List.map_filter_def)

lemma seen_simps [simp]:
  "x \<noteq> Socket \<Longrightarrow> seen (emit x c) = seen c" "seen (put_server s c) = seen c"
  "seen (c\<lparr>c_state := st\<rparr>) = seen c" "seen (c\<lparr>c_tx := n\<rparr>) = seen c" "seen (c\<lparr>c_rx := n\<rparr>) = seen c"
  "seen (c\<lparr>c_fast_open := f\<rparr>) = seen c"
  "seen (c\<lparr>c_server := sv\<rparr>) = seen c"
  by (simp_all add: seen_def emit_def put_server_def)

lemma seen_emit: "seen c = None \<Longrightarrow> seen (emit Socket c) = Some (client_in c)"
proof -
  assume "seen c = None"
  then have "Socket \<notin> set (c_log c)" by (simp add: seen_def split: if_splits)
  then have "takeWhile (\<lambda>x. x \<noteq> Socket) (c_log c @ [Socket]) = c_log c" by (subst takeWhile_append2) auto
  then show ?thesis by (simp add: seen_def emit_def client_in_def)
qed

lemma traffic_put [simp]:
  "client_in (put_server s c) = client_in c" "remote_out (put_server s c) = remote_out c"
  "client_in (c\<lparr>c_state := st\<rparr>) = client_in c" "remote_out (c\<lparr>c_state := st\<rparr>) = remote_out c"
  "client_in (c\<lparr>c_tx := n\<rparr>) = client_in c" "remote_out (c\<lparr>c_tx := n\<rparr>) = remote_out c"
  "client_in (c\<lparr>c_rx := n\<rparr>) = client_in c" "remote_out (c\<lparr>c_rx := n\<rparr>) = remote_out c"
  "client_in (c\<lparr>c_fast_open := f\<rparr>) = client_in c" "remote_out (c\<lparr>c_fast_open := f\<rparr>) = remote_out c"
  by (simp_all add: client_in_def remote_out_def put_server_def)

text \<open>It is a prefix of everything that the application has sent.\<close>

lemma seen_prefix: "seen c = Some x \<Longrightarrow> \<exists>y. client_in c = x @ y"
proof -
  define f where "f = (\<lambda>x. case x of FromClient bs \<Rightarrow> Some bs | _ \<Rightarrow> None)"
  let ?before = "takeWhile (\<lambda>x. x \<noteq> Socket) (c_log c)" and ?after = "dropWhile (\<lambda>x. x \<noteq> Socket) (c_log c)"
  assume "seen c = Some x"
  then have "x = concat (List.map_filter f ?before)" by (simp add: seen_def f_def split: if_splits)
  moreover have "List.map_filter f (?before @ ?after) = List.map_filter f ?before @ List.map_filter f ?after"
    unfolding List.map_filter_def filter_append map_append ..
  then have "client_in c = concat (List.map_filter f ?before) @ concat (List.map_filter f ?after)"
    by (simp add: client_in_def f_def)
  ultimately show ?thesis by blast
qed

lemma conn_put [simp]:
  "c_server (put_server s c) = Some s" "c_state (put_server s c) = c_state c"
  "c_server (close_and_free c) = None" "c_state (close_and_free c) = c_state c"
  "c_server (emit x c) = c_server c" "c_state (emit x c) = c_state c"
  "c_fast_open (emit x c) = c_fast_open c" "c_fast_open (put_server s c) = c_fast_open c"
  by (simp_all add: put_server_def close_and_free_def emit_def)

section \<open>The invariant\<close>

text \<open>A buffer of a connection: it never gets smaller than \<^const>\<open>SOCKET_BUF_SIZE\<close>.\<close>

definition buf_ok :: "buffer \<Rightarrow> bool" where
  "buf_ok b \<longleftrightarrow> length (data b) = capacity b \<and> idx b + len b \<le> capacity b \<and> SOCKET_BUF_SIZE \<le> capacity b"

text \<open>The SOCKS5 messages of the application: the methods it offers, and its request.\<close>

definition greeting_ok :: "bytes \<Rightarrow> bool" where
  "greeting_ok g \<longleftrightarrow> (\<exists>ms. g = [5, of_nat (length ms)] @ ms \<and> length ms < 256 \<and> 0 \<in> set ms)"

definition addr_ok :: "bytes \<Rightarrow> bool" where
  "addr_ok a \<longleftrightarrow> a \<noteq> [] \<and> (a ! 0 = 1 \<and> length a = 7 \<or> a ! 0 = 4 \<and> length a = 19
     \<or> a ! 0 = 3 \<and> length a = 4 + unat (a ! 1))"

definition socks_request :: "bytes \<Rightarrow> bytes \<Rightarrow> bool" where
  "socks_request q a \<longleftrightarrow> addr_ok a \<and> (\<exists>ver rsv. q = [ver, 1, rsv] @ a)"

text \<open>
  The host name that the first bytes \<open>d\<close> behind a request for the address \<open>a\<close> name, at most
  \<^const>\<open>MAX_HOSTNAME_LEN\<close> bytes of it: in an HTTP request for port 80, or in a TLS ClientHello for port 443, when
  the request itself is for an IP address.
\<close>

definition found_name :: "libc \<Rightarrow> config \<Rightarrow> bytes \<Rightarrow> bytes \<Rightarrow> bytes option" where
  "found_name lc cfg a d =
     (let port = from_be16 (a ! (length a - 2)) (a ! (length a - 1));
          found = (if a ! 0 = 3 then Inr (0, None)
                   else if port = 80 then parse_http_header lc d True
                   else if port = 443 then parse_tls_header lc (cfg_signed_char cfg) d True
                   else Inr (0, None))
      in case found of
           Inr (n, Some name) \<Rightarrow> if n > 0 then Some (take (min (nat n) MAX_HOSTNAME_LEN) name) else None
         | _ \<Rightarrow> None)"

text \<open>
  The address sent to the server: the requested one, or, with an access control list and remote name resolution, the
  name found in \<open>d\<close> with the requested port.
\<close>

definition header_for :: "libc \<Rightarrow> config \<Rightarrow> bytes \<Rightarrow> bytes \<Rightarrow> bytes" where
  "header_for lc cfg a d =
     (case found_name lc cfg a d of
        Some host \<Rightarrow>
          if cfg_acl cfg \<and> cfg_remote_dns cfg
          then [3, of_nat (length host)] @ host @ drop (length a - 2) a else a
      | None \<Rightarrow> a)"

text \<open>
  The bytes from the application split into greeting, request, the payload already processed and
  the \<open>unread\<close> bytes; what was sent and what is \<open>pend\<close>ing is the payload itself on a direct
  connection, and otherwise the encryption of the address and of the payload, cut into chunks.
\<close>

definition up_inv ::
  "libc \<Rightarrow> config \<Rightarrow> (bytes \<Rightarrow> bytes list \<Rightarrow> cipher_ctx \<Rightarrow> bool) \<Rightarrow> (bytes \<Rightarrow> bytes list \<Rightarrow> bytes)
     \<Rightarrow> server_t \<Rightarrow> remote_t \<Rightarrow> conn \<Rightarrow> bytes \<Rightarrow> bytes \<Rightarrow> bool" where
  "up_inv lc cfg sent wire s r c unread pend \<longleftrightarrow>
     (\<exists>g q a d payload. greeting_ok g \<and> socks_request q a \<and> client_in c = g @ q @ payload @ unread \<and>
        seen c = Some (g @ q @ d) \<and>
        (if r_direct r then remote_out c @ pend = payload
         else \<exists>sl hdr chunks. hdr = header_for lc cfg a d \<and> sent sl (hdr # chunks) (s_e_ctx s) \<and> concat chunks = payload \<and>
           (case s_abuf s of
              Some ab \<Rightarrow> buf_wf ab \<and> chunks = [] \<and> remote_out c @ pend = [] \<and> contents ab = wire sl [hdr]
            | None \<Rightarrow> remote_out c @ pend = wire sl (hdr # chunks))))"

text \<open>Before the remote exists.\<close>

definition early_inv :: "(bytes \<Rightarrow> bytes list \<Rightarrow> cipher_ctx \<Rightarrow> bool) \<Rightarrow> server_t \<Rightarrow> conn \<Rightarrow> bool" where
  "early_inv sent s c \<longleftrightarrow> idx (s_buf s) = 0 \<and> len (s_buf s) \<le> SOCKET_BUF_SIZE \<and> \<not> s_send_io s
     \<and> (\<exists>ab. s_abuf s = Some ab \<and> buf_ok ab) \<and> (\<exists>sl. sent sl [] (s_e_ctx s)) \<and> remote_out c = [] \<and> seen c = None
     \<and> (case s_stage s of
          STAGE_INIT \<Rightarrow> client_in c = contents (s_buf s)
        | STAGE_HANDSHAKE \<Rightarrow> (\<exists>g. greeting_ok g \<and> client_in c = g @ contents (s_buf s))
        | STAGE_SNI \<Rightarrow> (\<exists>g. greeting_ok g \<and> client_in c = g @ contents (s_buf s))
            \<and> 4 \<le> len (s_buf s) \<and> data (s_buf s) ! 1 = 1
        | STAGE_STREAM \<Rightarrow> False)"

text \<open>
  With a remote: the watchers exclude that a buffer is written while it holds unsent bytes. The
  part about the bytes from the server, and the watchers.
\<close>

definition down_inv :: "server_t \<Rightarrow> remote_t \<Rightarrow> bool" where
  "down_inv s r \<longleftrightarrow> s_stage s = STAGE_STREAM \<and> buf_ok (s_buf s) \<and> buf_ok (r_buf r)
     \<and> (s_send_io s \<or> idx (s_buf s) = 0) \<and> (s_send_io s \<longrightarrow> \<not> r_recv_io r)
     \<and> (s_send_io s \<or> r_recv_io r \<longrightarrow> r_send_connected r)
     \<and> (r_recv_io r \<or> r_send_io r \<or> s_send_io s \<longrightarrow> \<not> s_delayed s)"

definition late_inv ::
  "libc \<Rightarrow> config \<Rightarrow> (bytes \<Rightarrow> bytes list \<Rightarrow> cipher_ctx \<Rightarrow> bool) \<Rightarrow> (bytes \<Rightarrow> bytes list \<Rightarrow> bytes) \<Rightarrow> server_t \<Rightarrow> remote_t \<Rightarrow> conn \<Rightarrow> bool" where
  "late_inv lc cfg sent wire s r c \<longleftrightarrow> down_inv s r
     \<and> (s_recv_io s \<or> s_delayed s \<longrightarrow> len (r_buf r) = 0 \<and> \<not> r_send_io r)
     \<and> up_inv lc cfg sent wire s r c [] (unsent (r_buf r))"

definition conn_inv ::
  "libc \<Rightarrow> config \<Rightarrow> (crypto_state \<Rightarrow> bool) \<Rightarrow> (bytes \<Rightarrow> bytes list \<Rightarrow> cipher_ctx \<Rightarrow> bool) \<Rightarrow> (bytes \<Rightarrow> bytes list \<Rightarrow> bytes)
     \<Rightarrow> (cipher_ctx \<Rightarrow> bool) \<Rightarrow> conn \<Rightarrow> bool" where
  "conn_inv lc cfg stwf sent wire dwf c \<longleftrightarrow> stwf (c_state c) \<and>
     (case c_server c of
        None \<Rightarrow> True
      | Some s \<Rightarrow> dwf (s_d_ctx s) \<and> buf_ok (s_buf s) \<and>
          (case s_remote s of None \<Rightarrow> early_inv sent s c | Some r \<Rightarrow> late_inv lc cfg sent wire s r c))"

text \<open>
  What the relay relies on of its configuration and of the C library: at least one server, and
  \<^verbatim>\<open>inet_ntop\<close> turns an address into text that the parser of addresses accepts.
\<close>

definition cfg_ok :: "config \<Rightarrow> bool" where
  "cfg_ok cfg \<longleftrightarrow> cfg_remote_addr cfg \<noteq> []
     \<and> (\<forall>a. length a = 4 \<or> length a = 16 \<longrightarrow>
          (\<exists>t. cfg_ntop cfg a = Some t \<and> 0 \<notin> set t \<and> cfg_pton cfg t \<noteq> None))"

section \<open>Buffers\<close>

lemma buf_ok_wf: "buf_ok b \<Longrightarrow> buf_wf b"
  by (simp add: buf_ok_def buf_wf_def)

lemma buf_ok_capacity: "buf_ok b \<Longrightarrow> SOCKET_BUF_SIZE \<le> capacity b"
  by (simp add: buf_ok_def)

lemma unsent_contents: "idx b = 0 \<Longrightarrow> unsent b = contents b"
  by (simp add: unsent_def contents_def)

lemma buf_ok_grow: "buf_ok b \<Longrightarrow> buf_wf b' \<Longrightarrow> capacity b \<le> capacity b' \<Longrightarrow> idx b' = 0 \<Longrightarrow> buf_ok b'"
  by (simp add: buf_ok_def buf_wf_def)

lemma recv_into_wf:
  assumes "length (data b) = capacity b" "len b + length bs \<le> SOCKET_BUF_SIZE" "SOCKET_BUF_SIZE \<le> capacity b"
  shows "\<exists>b'. recv_into b bs = Inr b' \<and> buf_wf b' \<and> SOCKET_BUF_SIZE \<le> capacity b' \<and> idx b' = idx b
       \<and> len b' = len b + length bs \<and> contents b' = contents b @ bs"
  using assms
  by (auto simp: recv_into_def buf_wf_def contents_def length_memcpy_at take_memcpy_at_end)

lemma recv_into_ok:
  assumes "length (data b) = capacity b" "len b + length bs \<le> SOCKET_BUF_SIZE" "SOCKET_BUF_SIZE \<le> capacity b" "idx b = 0"
  shows "\<exists>b'. recv_into b bs = Inr b' \<and> buf_ok b' \<and> idx b' = 0 \<and> len b' = len b + length bs
       \<and> contents b' = contents b @ bs"
  using recv_into_wf [OF assms(1-3)] assms(4) by (auto simp: buf_ok_def buf_wf_def)

lemma recv_room_le: "n \<le> SOCKET_BUF_SIZE \<Longrightarrow> recv_room n = SOCKET_BUF_SIZE - n"
proof -
  assume n: "n \<le> SOCKET_BUF_SIZE"
  then have "(of_nat n :: u64) \<le> of_nat SOCKET_BUF_SIZE"
    by (simp add: word_le_nat_alt unat_of_nat SOCKET_BUF_SIZE_def)
  then show ?thesis
    using n by (simp add: recv_room_def unat_sub unat_of_nat SOCKET_BUF_SIZE_def)
qed

lemma accepted_sys_send: "sys_send bs r = Ret n \<Longrightarrow> accepted bs r = take n bs \<and> n \<le> length bs"
  by (cases r) (auto simp: sys_send_def accepted_def min_def)

lemma accepted_fail: "(\<And>n. sys_send bs r \<noteq> Ret n) \<Longrightarrow> accepted bs r = []"
  by (cases r) (auto simp: sys_send_def accepted_def)

text \<open>What \<^const>\<open>up_inv\<close> looks at.\<close>

lemma up_inv_cong:
  "s_e_ctx s' = s_e_ctx s \<Longrightarrow> s_abuf s' = s_abuf s \<Longrightarrow> r_direct r' = r_direct r \<Longrightarrow>
     client_in c' = client_in c \<Longrightarrow> remote_out c' = remote_out c \<Longrightarrow> seen c' = seen c \<Longrightarrow>
     up_inv lc cfg sent wire s' r' c' u p \<longleftrightarrow> up_inv lc cfg sent wire s r c u p"
  by (simp add: up_inv_def cong: option.case_cong)

lemma up_inv_sent:
  assumes "up_inv lc cfg sent wire s r c u (p @ p')"
  shows "up_inv lc cfg sent wire s r (emit (ToRemote p) c) u p'"
  using assms unfolding up_inv_def traffic_simps append_assoc by simp

lemma up_inv_read:
  assumes "up_inv lc cfg sent wire s r c u p" "client_in c' = client_in c @ x" "remote_out c' = remote_out c" "seen c' = seen c"
  shows "up_inv lc cfg sent wire s r c' (u @ x) p"
  using assms(1) unfolding up_inv_def assms(2-4) append_assoc [symmetric] append_same_eq .

lemma up_invI:
  assumes "greeting_ok g" "socks_request q a" "client_in c = g @ q @ concat chunks @ u" "seen c = Some (g @ q @ d)"
    and "sent sl (header_for lc cfg a d # chunks) (s_e_ctx s)" "\<not> r_direct r"
    and "case s_abuf s of
        Some ab \<Rightarrow> buf_wf ab \<and> chunks = [] \<and> remote_out c @ p = [] \<and> contents ab = wire sl [header_for lc cfg a d]
      | None \<Rightarrow> remote_out c @ p = wire sl (header_for lc cfg a d # chunks)"
  shows "up_inv lc cfg sent wire s r c u p"
proof -
  have "\<exists>sl hdr chunks'. hdr = header_for lc cfg a d \<and> sent sl (hdr # chunks') (s_e_ctx s) \<and> concat chunks' = concat chunks \<and>
      (case s_abuf s of
         Some ab \<Rightarrow> buf_wf ab \<and> chunks' = [] \<and> remote_out c @ p = [] \<and> contents ab = wire sl [hdr]
       | None \<Rightarrow> remote_out c @ p = wire sl (hdr # chunks'))"
    using assms(5,7) by blast
  then show ?thesis
    unfolding up_inv_def using assms(1-4,6) by (metis (no_types, lifting))
qed

section \<open>Sending to the server\<close>

context tcp_crypto
begin

lemma stream_encrypt_ok:
  assumes st: "stwf (c_state c)" and b: "buf_wf (r_buf r)" "SOCKET_BUF_SIZE \<le> capacity (r_buf r)" "len (r_buf r) \<le> SOCKET_BUF_SIZE"
    and up: "up_inv lc cfg sent wire s r c (contents (r_buf r)) []"
  shows "\<exists>s' r' c'. stream_encrypt_buf lc cr s r c = Inr (Some (s', r'), c')
     \<and> up_inv lc cfg sent wire s' r' c' [] (contents (r_buf r')) \<and> stwf (c_state c')
     \<and> buf_wf (r_buf r') \<and> SOCKET_BUF_SIZE \<le> capacity (r_buf r')
     \<and> s' = s\<lparr>s_abuf := s_abuf s', s_e_ctx := s_e_ctx s'\<rparr> \<and> r' = r\<lparr>r_buf := r_buf r'\<rparr>"
proof (cases "r_direct r")
  case True
  then show ?thesis
    using assms by (auto simp: stream_encrypt_buf_def up_inv_def)
next
  case False
  define m where "m = contents (r_buf r)"
  define c1 where "c1 = c\<lparr>c_tx := c_tx c + of_nat (len (r_buf r))\<rparr>"
  obtain g q a d payload sl hdr chunks where i: "greeting_ok g" "socks_request q a"
      "client_in c = g @ q @ payload @ m" "hdr = header_for lc cfg a d \<and> seen c = Some (g @ q @ d)" "sent sl (hdr # chunks) (s_e_ctx s)"
      "concat chunks = payload"
    and ab: "case s_abuf s of
        Some ab \<Rightarrow> buf_wf ab \<and> chunks = [] \<and> remote_out c = [] \<and> contents ab = wire sl [hdr]
      | None \<Rightarrow> remote_out c = wire sl (hdr # chunks)"
    using up False unfolding up_inv_def append_Nil2 m_def [symmetric] by auto
  have lm: "length m = len (r_buf r)"
    using b(1) by (simp add: m_def)
  obtain b' ctx' st' ms where e: "cr_encrypt cr (r_buf r) (s_e_ctx s) SOCKET_BUF_SIZE (c_state c) = Inr (CRYPTO_OK, b', ctx', st')"
      "buf_wf b'" "capacity (r_buf r) \<le> capacity b'" "stwf st'"
      "sent sl (hdr # ms) ctx'" "concat ms = payload @ m" "wire sl (hdr # ms) = wire sl (hdr # chunks) @ contents b'"
  proof (cases "len (r_buf r) = 0")
    case True
    then have "m = []"
      using lm by simp
    then show ?thesis
      using encrypt_empty [OF st i(5) _ b(1) True, of SOCKET_BUF_SIZE] that [where ms = chunks] i(6) by auto
  next
    case False
    have "payload_ok (contents (r_buf r))"
      using False lm b(3) by (auto simp: m_def CHUNK_SIZE_MASK_def SOCKET_BUF_SIZE_def)
    then show ?thesis
      using encrypt_payload [OF st i(5) b(1), of SOCKET_BUF_SIZE] that [where ms = "chunks @ [m]"] i(6)
      by (auto simp: m_def)
  qed
  show ?thesis
  proof (cases "s_abuf s")
    case None
    then have "up_inv lc cfg sent wire (s\<lparr>s_e_ctx := ctx'\<rparr>) (r\<lparr>r_buf := b'\<rparr>) (c1\<lparr>c_state := st'\<rparr>) [] (contents b')"
      using i e ab False by (intro up_invI [of g q a _ ms _ d]) (auto simp: c1_def)
    then show ?thesis
      using e b(2) False None by (auto simp: stream_encrypt_buf_def c1_def)
  next
    case (Some ab')
    define pb where "pb = snd (bprepend lc b' ab' SOCKET_BUF_SIZE)"
    have pb: "buf_wf pb" "contents pb = contents ab' @ contents b'" "capacity b' \<le> capacity pb"
      using bprepend_props [OF e(2), of ab' lc SOCKET_BUF_SIZE] brealloc_buf_props(5) [OF e(2)] ab Some
      by (auto simp: pb_def bprepend_def Let_def)
    have "up_inv lc cfg sent wire (s\<lparr>s_e_ctx := ctx', s_abuf := None\<rparr>) (r\<lparr>r_buf := pb\<rparr>) (c1\<lparr>c_state := st'\<rparr>) [] (contents pb)"
      using i e ab False Some pb by (intro up_invI [of g q a _ ms _ d]) (auto simp: c1_def)
    then show ?thesis
      using e b(2) False Some pb by (auto simp: stream_encrypt_buf_def c1_def pb_def)
  qed
qed

lemma sent_tail:
  assumes "buf_wf b" "n \<le> len b"
  shows "contents b = take n (contents b) @ take (len b - n) (drop n (data b))"
proof -
  have "take (len b - n) (drop n (data b)) = drop n (contents b)"
    using assms by (simp add: contents_def drop_take)
  then show ?thesis
    by simp
qed

text \<open>The state while the rest waits for the remote's socket.\<close>

lemma wait_send_inv:
  assumes "stwf (c_state c)" "dwf (s_d_ctx s)" "down_inv s (r\<lparr>r_buf := b\<rparr>)" "\<not> s_delayed s" "buf_ok b"
    and "up_inv lc cfg sent wire s r c [] (unsent b)"
  shows "conn_inv lc cfg stwf sent wire dwf (wait_send s (r\<lparr>r_buf := b\<rparr>) timer c)"
proof -
  have "up_inv lc cfg sent wire (s\<lparr>s_recv_io := False, s_remote := Some r'\<rparr>) r' (put_server s' c) [] (unsent b)"
    if "r_direct r' = r_direct r" for s' r'
    using assms(6) that by (subst up_inv_cong) auto
  then show ?thesis
    using assms(1-5) by (auto simp: wait_send_def conn_inv_def late_inv_def down_inv_def)
qed

lemma close_inv: "stwf (c_state c) \<Longrightarrow> conn_inv lc cfg stwf sent wire dwf (close_and_free c)"
  by (simp add: conn_inv_def)

text \<open>Both ways of sending what was just encrypted.\<close>

definition ready :: "libc \<Rightarrow> config \<Rightarrow> server_t \<Rightarrow> remote_t \<Rightarrow> conn \<Rightarrow> bool" where
  "ready lc cfg s r c \<longleftrightarrow> stwf (c_state c) \<and> dwf (s_d_ctx s) \<and> \<not> s_delayed s \<and> \<not> r_send_io r
     \<and> s_stage s = STAGE_STREAM \<and> buf_ok (s_buf s) \<and> (s_send_io s \<or> idx (s_buf s) = 0)
     \<and> (s_send_io s \<longrightarrow> \<not> r_recv_io r) \<and> (s_send_io s \<or> r_recv_io r \<longrightarrow> r_send_connected r)
     \<and> buf_wf (r_buf r) \<and> SOCKET_BUF_SIZE \<le> capacity (r_buf r) \<and> up_inv lc cfg sent wire s r c [] (contents (r_buf r))"

lemma ready_wait:
  assumes "ready lc cfg s r c" "n \<le> len (r_buf r)"
  shows "conn_inv lc cfg stwf sent wire dwf
     (wait_send s (r\<lparr>r_buf := (r_buf r)\<lparr>len := len (r_buf r) - n, idx := n\<rparr>\<rparr>) timer
        (emit (ToRemote (take n (contents (r_buf r)))) c))"
proof -
  define b where "b = (r_buf r)\<lparr>len := len (r_buf r) - n, idx := n\<rparr>"
  have un: "unsent b = take (len (r_buf r) - n) (drop n (data (r_buf r)))"
    by (simp add: b_def unsent_def)
  have "contents (r_buf r) = take n (contents (r_buf r)) @ unsent b"
    using assms sent_tail [of "r_buf r" n] by (simp add: un ready_def)
  then have "up_inv lc cfg sent wire s r (emit (ToRemote (take n (contents (r_buf r)))) c) [] (unsent b)"
    using assms(1) by (intro up_inv_sent) (simp add: ready_def)
  moreover have "buf_ok b"
    using assms by (simp add: b_def buf_ok_def ready_def buf_wf_def)
  ultimately show ?thesis
    using assms(1) unfolding b_def [symmetric] by (intro wait_send_inv) (auto simp: ready_def down_inv_def)
qed

lemma ready_wait_0:
  assumes "ready lc cfg s r c"
  shows "conn_inv lc cfg stwf sent wire dwf (wait_send s (r\<lparr>r_buf := (r_buf r)\<lparr>idx := 0\<rparr>\<rparr>) timer c)"
  using assms
  by (intro wait_send_inv) (auto simp: ready_def down_inv_def unsent_contents buf_ok_def buf_wf_def contents_def)

lemma emit_nothing: "ready lc cfg s r c \<Longrightarrow> ready lc cfg s r (emit (ToRemote []) c)"
  using up_inv_sent [of lc cfg sent wire s r c "[]" "[]" "contents (r_buf r)"] by (auto simp: ready_def)

lemma stream_send_ok:
  assumes "ready lc cfg s r c"
  shows "conn_inv lc cfg stwf sent wire dwf (stream_send env s r c)"
proof (cases "sys_send (contents (r_buf r)) (e_send env)")
  case (Ret n)
  let ?b = "r_buf r"
  have wf: "buf_wf ?b"
    using assms by (simp add: ready_def)
  have n: "accepted (contents ?b) (e_send env) = take n (contents ?b)" "n \<le> len ?b"
    using accepted_sys_send [OF Ret] wf by auto
  show ?thesis
  proof (cases "n < len ?b")
    case True
    then show ?thesis
      using ready_wait [OF assms n(2), of False] n by (simp add: stream_send_def Ret Let_def)
  next
    case False
    then have "take n (contents ?b) = contents ?b"
      using wf by simp
    moreover have "up_inv lc cfg sent wire s r (emit (ToRemote (contents ?b)) c) [] []"
      using assms by (intro up_inv_sent) (simp add: ready_def)
    then have "up_inv lc cfg sent wire (s\<lparr>s_remote := Some (r\<lparr>r_buf := ?b\<lparr>idx := 0, len := 0\<rparr>\<rparr>)\<rparr>)
        (r\<lparr>r_buf := ?b\<lparr>idx := 0, len := 0\<rparr>\<rparr>) (put_server s' (emit (ToRemote (contents ?b)) c)) [] []" for s'
      by (subst up_inv_cong) auto
    ultimately show ?thesis
      using assms False n
      by (auto simp: stream_send_def Ret Let_def conn_inv_def late_inv_def down_inv_def ready_def unsent_def buf_ok_def buf_wf_def)
  qed
next
  case EAGAIN
  then have "accepted (contents (r_buf r)) (e_send env) = []"
    by (intro accepted_fail) simp
  then show ?thesis
    using ready_wait_0 [OF emit_nothing [OF assms], of False] EAGAIN by (simp add: stream_send_def Let_def)
qed (use assms in \<open>auto simp: stream_send_def Let_def ready_def intro!: close_inv\<close>)

lemma stream_connect_ok:
  assumes "ready lc cfg s r c"
  shows "conn_inv lc cfg stwf sent wire dwf (stream_connect cfg env s r c)"
proof (cases "\<not> c_fast_open c \<or> r_direct r")
  case True
  then show ?thesis
    using ready_wait_0 [OF assms] assms
    by (auto simp: stream_connect_def ready_def Let_def intro!: close_inv split: sys.splits)
next
  case False
  define b where "b = (r_buf r)\<lparr>idx := 0\<rparr>"
  have b: "contents b = contents (r_buf r)" "len b = len (r_buf r)"
    by (simp_all add: b_def contents_def)
  have wf: "buf_wf (r_buf r)" and st: "stwf (c_state c)"
    using assms by (simp_all add: ready_def)
  have fast: "stream_connect cfg env s r c =
     (if must_protect cfg r \<and> \<not> e_protect env then close_and_free c
      else let c = emit (ToRemote (accepted (contents b) (e_send env))) c
           in case sys_send (contents b) (e_send env) of
                Ret n \<Rightarrow> wait_send s (r\<lparr>r_buf := (r_buf r)\<lparr>len := len (r_buf r) - n, idx := n\<rparr>\<rparr>) True c
              | CONNECT_IN_PROGRESS \<Rightarrow> wait_send s (r\<lparr>r_buf := (r_buf r)\<lparr>idx := 0\<rparr>\<rparr>) False c
              | EOPNOTSUPP \<Rightarrow> close_and_free (c\<lparr>c_fast_open := False\<rparr>)
              | _ \<Rightarrow> close_and_free c)"
    using False by (simp add: stream_connect_def Let_def b_def cong: sys.case_cong)
  show ?thesis
  proof (cases "sys_send (contents b) (e_send env)")
    case (Ret n)
    then have "accepted (contents b) (e_send env) = take n (contents (r_buf r))" "n \<le> len (r_buf r)"
      using accepted_sys_send [OF Ret] wf by (auto simp: b)
    then show ?thesis
      using ready_wait [OF assms, of n True] st by (auto simp: fast Ret Let_def intro: close_inv)
  next
    case CONNECT_IN_PROGRESS
    then have "accepted (contents b) (e_send env) = []"
      by (intro accepted_fail) simp
    then show ?thesis
      using ready_wait_0 [OF emit_nothing [OF assms], of False] CONNECT_IN_PROGRESS st by (auto simp: fast Let_def intro: close_inv)
  qed (use st in \<open>auto simp: fast Let_def intro!: close_inv\<close>)
qed

text \<open>A relayed connection with new bytes of the application in its buffer.\<close>

definition stream_pre :: "libc \<Rightarrow> config \<Rightarrow> server_t \<Rightarrow> remote_t \<Rightarrow> conn \<Rightarrow> bool" where
  "stream_pre lc cfg s r c \<longleftrightarrow> stwf (c_state c) \<and> dwf (s_d_ctx s) \<and> \<not> s_delayed s \<and> \<not> r_send_io r
     \<and> s_stage s = STAGE_STREAM \<and> buf_ok (s_buf s) \<and> (s_send_io s \<or> idx (s_buf s) = 0)
     \<and> (s_send_io s \<longrightarrow> \<not> r_recv_io r) \<and> (s_send_io s \<or> r_recv_io r \<longrightarrow> r_send_connected r)
     \<and> buf_wf (r_buf r) \<and> SOCKET_BUF_SIZE \<le> capacity (r_buf r) \<and> len (r_buf r) \<le> SOCKET_BUF_SIZE
     \<and> up_inv lc cfg sent wire s r c (contents (r_buf r)) []"

lemma server_stream_ok:
  assumes "s_remote s = Some r" "stream_pre lc cfg s r c"
  shows "\<exists>c'. server_stream lc cr cfg env s c = Inr c' \<and> conn_inv lc cfg stwf sent wire dwf c'"
proof -
  obtain s' r' c' where e: "stream_encrypt_buf lc cr s r c = Inr (Some (s', r'), c')"
      "up_inv lc cfg sent wire s' r' c' [] (contents (r_buf r'))" "stwf (c_state c')" "buf_wf (r_buf r')"
      "SOCKET_BUF_SIZE \<le> capacity (r_buf r')"
      "s' = s\<lparr>s_abuf := s_abuf s', s_e_ctx := s_e_ctx s'\<rparr>" "r' = r\<lparr>r_buf := r_buf r'\<rparr>"
    using stream_encrypt_ok [of c r lc cfg s] assms(2) by (auto simp: stream_pre_def)
  have eqs: "s_d_ctx s' = s_d_ctx s" "s_delayed s' = s_delayed s" "s_stage s' = s_stage s" "s_buf s' = s_buf s"
      "s_send_io s' = s_send_io s" "r_send_io r' = r_send_io r" "r_recv_io r' = r_recv_io r" "r_send_connected r' = r_send_connected r"
    by (subst e(6), simp)+ (subst e(7), simp)+
  have "ready lc cfg s' r' c'"
    using e assms(2) by (simp add: ready_def stream_pre_def eqs)
  then show ?thesis
    using e(1) assms(1) stream_send_ok stream_connect_ok by (simp add: server_stream_def)
qed

section \<open>The handshake\<close>

text \<open>What the loop of \<^const>\<open>recv_loop\<close> finds in each round.\<close>

definition loop_inv :: "libc \<Rightarrow> config \<Rightarrow> conn \<Rightarrow> bool" where
  "loop_inv lc cfg c \<longleftrightarrow> stwf (c_state c) \<and> (\<exists>s. c_server c = Some s \<and> \<not> s_delayed s \<and>
     dwf (s_d_ctx s) \<and> buf_ok (s_buf s) \<and>
     (case s_remote s of None \<Rightarrow> early_inv sent s c | Some r \<Rightarrow> stream_pre lc cfg s r c))"

lemma bconsume_ok:
  assumes "buf_ok b" "idx b = 0" "n \<le> len b"
  shows "buf_ok (bconsume b n)" "idx (bconsume b n) = 0" "contents (bconsume b n) = drop n (contents b)"
    "len (bconsume b n) = len b - n"
proof -
  have "capacity (bconsume b n) = capacity b" "idx (bconsume b n) = idx b"
    by (simp_all add: bconsume_def)
  then show "buf_ok (bconsume b n)" "idx (bconsume b n) = 0" "contents (bconsume b n) = drop n (contents b)"
    "len (bconsume b n) = len b - n"
    using bconsume_props [OF buf_ok_wf [OF assms(1)] assms(3)] assms
    by (auto simp: buf_ok_def buf_wf_def)
qed

lemma contents_nth: "buf_wf b \<Longrightarrow> i < len b \<Longrightarrow> contents b ! i = data b ! i"
  by (simp add: contents_def)

lemma take_two: "2 \<le> length xs \<Longrightarrow> take (k + 2) xs = [xs ! 0, xs ! 1] @ take k (drop 2 xs)"
  by (cases xs; cases "tl xs") (auto simp: numeral_2_eq_2)

lemma method_select_ok:
  assumes "stwf (c_state c)" "c_server c = Some s" "s_remote s = None" "s_stage s = STAGE_INIT"
    and "early_inv sent s c" "dwf (s_d_ctx s)" "buf_ok (s_buf s)" "\<not> s_delayed s"
  shows "\<exists>again c'. method_select env s c = Inr (again, c')
     \<and> (if again then loop_inv lc cfg c' \<and> (\<exists>s'. c_server c' = Some s' \<and> s_stage s' = STAGE_HANDSHAKE)
        else conn_inv lc cfg stwf sent wire dwf c')"
proof -
  define b where "b = s_buf s"
  define k where "k = unat (data b ! 1)"
  define g where "g = take (k + 2) (contents b)"
  define ms where "ms = take k (drop 2 (data b))"
  have b: "buf_ok b" "idx b = 0" "buf_wf b" "recv_buf s = b" "length (data b) \<ge> SOCKET_BUF_SIZE"
    using assms(3,5,7) by (auto simp: b_def early_inv_def recv_buf_def buf_ok_def buf_wf_def)
  have put: "put_recv_buf x s = s\<lparr>s_buf := x\<rparr>" for x
    by (simp add: put_recv_buf_def assms(3))
  have keep: "conn_inv lc cfg stwf sent wire dwf (put_server s c)"
    using assms by (auto simp: conn_inv_def early_inv_def)
  have greeting: "greeting_ok g" if "data b ! 0 = 5" "k + 2 \<le> len b" "0 \<in> set ms"
  proof -
    have "g = take (k + 2) (data b)"
      using that(2) by (simp add: g_def contents_def)
    then have "g = [data b ! 0, data b ! 1] @ ms" "length ms = k"
      using take_two [of "data b" k] that(2) b(3) by (auto simp: ms_def buf_wf_def)
    moreover have "of_nat k = data b ! 1" "k < 256"
      by (simp_all add: k_def)
    ultimately show ?thesis
      using that by (auto simp: greeting_ok_def intro!: exI [of _ ms])
  qed
  have inp: "client_in c = contents b"
    using assms(4,5) by (simp add: early_inv_def b_def)
  show ?thesis
  proof (cases "1 \<le> len b \<and> data b ! 0 = 5 \<and> 2 \<le> len b \<and> k + 2 \<le> len b \<and> 0 \<in> set ms")
    case True
    define c1 where "c1 = emit (ToClient (accepted [5, 0] (e_send_method env))) c"
    define b' where "b' = (if k + 2 < len b then bconsume b (k + 2) else b\<lparr>len := 0\<rparr>)"
    have run: "method_select env s c = Inr (k + 2 < len b, put_server (s\<lparr>s_stage := STAGE_HANDSHAKE, s_buf := b'\<rparr>) c1)"
      using True b by (auto simp: method_select_def rd_def Let_def put k_def ms_def c1_def b'_def buf_wf_def put_recv_buf_def assms(3))
    have "contents b' = drop (k + 2) (contents b)"
      using True bconsume_ok(3) [OF b(1,2), of "k + 2"] b(3) by (auto simp: b'_def) (simp add: contents_def)
    then have "g @ contents b' = contents b"
      by (simp add: g_def)
    moreover have "buf_ok b'" "idx b' = 0" "len b' \<le> len b"
      using True bconsume_ok [OF b(1,2), of "k + 2"] b(1-3) by (auto simp: b'_def buf_ok_def)
    ultimately have b': "buf_ok b'" "idx b' = 0" "len b' \<le> len b" "g @ contents b' = contents b"
      by simp_all
    have early: "early_inv sent (s\<lparr>s_stage := STAGE_HANDSHAKE, s_buf := b'\<rparr>) (put_server s' c1)" for s'
      using assms(5) b' greeting True inp by (auto simp: early_inv_def b_def c1_def)
    show ?thesis
      using run early b' assms by (simp add: conn_inv_def loop_inv_def c1_def)
  next
    case False
    then have "method_select env s c = Inr (False, put_server s c)
        \<or> (\<exists>c'. method_select env s c = Inr (False, close_and_free c') \<and> stwf (c_state c'))"
      using b assms(1) unfolding method_select_def b(4) k_def ms_def
      by (auto simp: rd_def Let_def buf_wf_def)
    then show ?thesis
      using keep close_inv by (metis (full_types))
  qed
qed

end

text \<open>The address of a complete request.\<close>

lemma copy_addr_ok:
  assumes "buf_ok b" "buf_ok ab" "4 + n \<le> len b" "n < 300" "atyp = data b ! 3"
  shows "\<exists>ab'. copy_addr b (ab\<lparr>idx := 0\<rparr>) atyp n = Inr (Some ab') \<and> buf_ok ab' \<and> len ab' = 1 + n
     \<and> contents ab' = take (1 + n) (drop 3 (contents b))"
proof -
  have "drop 3 (data b) = data b ! 3 # drop 4 (data b)"
    using assms(1,3) Cons_nth_drop_Suc [of 3 "data b"] by (simp add: buf_ok_def)
  then have "[atyp] @ take n (drop 4 (data b)) = take (1 + n) (drop 3 (contents b))"
    using assms(3,5) by (simp add: contents_def drop_take)
  moreover have "length ([atyp] @ take n (drop 4 (data b))) = 1 + n"
    using assms(1,3) by (auto simp: buf_ok_def)
  ultimately show ?thesis
    using assms(2-4) length_memcpy_at [of 0 "[atyp] @ take n (drop 4 (data b))" "data ab"]
      take_memcpy_at_0 [of "[atyp] @ take n (drop 4 (data b))" "data ab"]
    by (auto simp: copy_addr_def buf_ok_def contents_def [of "_\<lparr>idx := _, data := _, len := _\<rparr>"]
      contents_def [of "_\<lparr>idx := _, len := _, data := _\<rparr>"] SOCKET_BUF_SIZE_def contents_def)
qed

lemma read_addr_ok:
  assumes "buf_ok b" "buf_ok ab" "4 \<le> len b" "atyp = data b ! 3" "atyp \<in> {1, 3, 4}"
  shows "read_addr b (ab\<lparr>idx := 0\<rparr>) atyp = Inr None
     \<or> (\<exists>ab'. read_addr b (ab\<lparr>idx := 0\<rparr>) atyp = Inr (Some ab') \<and> buf_ok ab' \<and> addr_ok (contents ab')
          \<and> contents ab' ! 0 = atyp \<and> contents ab' = take (len ab') (drop 3 (contents b))
          \<and> 3 + len ab' \<le> len b \<and> len ab' < 300)"
proof -
  define n where "n = (if atyp = 1 then 6 else if atyp = 3 then 3 + unat (data b ! 4) else 18)"
  have n: "n < 299"
    by (auto simp: n_def intro: less_trans [OF unat_u8_less])
  have "4 < length (data b)"
    using assms(1) by (simp add: buf_ok_def SOCKET_BUF_SIZE_def)
  then have read: "read_addr b (ab\<lparr>idx := 0\<rparr>) atyp = copy_addr b (ab\<lparr>idx := 0\<rparr>) atyp n"
    using assms(5) by (auto simp: read_addr_def n_def numeral_3_eq_3)
  show ?thesis
  proof (cases "4 + n \<le> len b")
    case True
    obtain ab' where ab': "copy_addr b (ab\<lparr>idx := 0\<rparr>) atyp n = Inr (Some ab')" "buf_ok ab'" "len ab' = 1 + n"
        "contents ab' = take (1 + n) (drop 3 (contents b))"
      using copy_addr_ok [OF assms(1,2) True _ assms(4)] n by auto
    have len: "length (contents ab') = 1 + n"
      using ab'(2,3) by (simp add: buf_ok_wf)
    have nth: "contents ab' ! i = data b ! (3 + i)" if "i < 1 + n" for i
      unfolding ab'(4) using that True assms(1) by (simp add: contents_def buf_ok_def)
    have "addr_ok (contents ab')"
      using assms(4,5) len nth [of 0] nth [of 1] by (auto simp: addr_ok_def n_def split: if_splits)
    then show ?thesis
      using read ab' True n nth [of 0] assms(4) by auto
  qed (simp add: read copy_addr_def)
qed

text \<open>The reply leaves the connection's state alone, or closes the connection.\<close>

lemma reply_ok:
  assumes "server_handshake_reply env False s c = (ok, c')"
  shows "if ok then c' = c \<or> (\<exists>x. c' = emit (ToClient x) c)
     else (\<exists>x. c' = close_and_free (emit (ToClient x) c))"
  using assms by (auto simp: server_handshake_reply_def Let_def split: if_splits sys.splits)

lemma sniff_ok:
  assumes "length d < 2 ^ 31"
  shows "\<exists>rc name. sniff lc cfg atyp port d = Inr (rc, name)
     \<and> (rc > 0 \<longrightarrow> (\<exists>h. name = Some h \<and> rc \<le> int (length h)))"
  using parse_http_header_safe [OF assms, of lc True] parse_tls_header_ok [of lc "cfg_signed_char cfg" d True]
  by (auto simp: sniff_def name_ok_def split: option.splits sum.splits)

text \<open>The code looks for the name that \<^const>\<open>found_name\<close> specifies.\<close>

lemma sniff_found:
  assumes "addr_ok a" "port = drop (length a - 2) a" "sniff lc cfg (a ! 0) (from_be16 (port ! 0) (port ! 1)) d = Inr (rc, name)"
    and "rc > 0 \<longrightarrow> (\<exists>h. name = Some h \<and> rc \<le> int (length h))"
  shows "found_name lc cfg a d = (if rc > 0 then Some (sniffed_host rc name) else None)"
proof -
  have two: "2 \<le> length a" "length a - 2 + 1 = length a - 1" using assms(1) by (auto simp: addr_ok_def)
  then have "port ! 0 = a ! (length a - 2)" "port ! 1 = a ! (length a - 1)"
    using two assms(2) by (simp_all add: Suc_diff_le flip: One_nat_def)
  moreover have "a ! 0 = 1 \<or> a ! 0 = 4 \<or> a ! 0 = 3" using assms(1) by (auto simp: addr_ok_def)
  ultimately show ?thesis
    using assms(3,4) by (auto simp: found_name_def sniff_def sniffed_host_def Let_def split: option.splits)
qed

lemma sniffed_host_ok:
  "rc > 0 \<Longrightarrow> rc \<le> int (length h) \<Longrightarrow>
     sniffed_host rc (Some h) \<noteq> [] \<and> length (sniffed_host rc (Some h)) \<le> MAX_HOSTNAME_LEN"
  by (auto simp: sniffed_host_def MAX_HOSTNAME_LEN_def)

lemma get_sockaddr_ok: "cfg_vpn cfg \<longrightarrow> cfg_pton cfg host \<noteq> None \<Longrightarrow> \<exists>r. get_sockaddr cfg host port = Inr r"
  by (auto simp: get_sockaddr_def split: option.splits list.splits)

lemma acl_route_ok:
  assumes "cfg_vpn cfg \<longrightarrow> atyp \<noteq> 3 \<longrightarrow> cfg_pton cfg ip \<noteq> None"
  shows "\<exists>r. acl_route cfg atyp sni host ip port = Inr r"
proof -
  have by_addr: "\<exists>r. bypass_addr cfg (atyp = 3) host ip port = Inr r"
    using assms get_sockaddr_ok [of cfg ip port] get_sockaddr_ok [of cfg host port]
    by (auto simp: bypass_addr_def)
  have "\<exists>r. bypass_addr cfg False host t port = Inr r" if "\<not> cfg_vpn cfg" for t
    using that get_sockaddr_ok [of cfg t port] by (auto simp: bypass_addr_def)
  moreover have "\<exists>r. resolve_ip cfg host port = Inr r" if "\<not> cfg_vpn cfg"
    using that get_sockaddr_ok [of cfg host port] by (auto simp: resolve_ip_def)
  ultimately show ?thesis
    using by_addr by (auto simp: acl_route_def Let_def split: sum.splits option.splits)
qed

lemma request_ip_ok:
  assumes "cfg_ok cfg" "addr_ok a" "a ! 0 \<noteq> 3"
  shows "cfg_pton cfg (cstr (request_ip cfg (a ! 0) a)) \<noteq> None"
proof -
  have "length (take (length a - 3) (drop 1 a)) = 4 \<or> length (take (length a - 3) (drop 1 a)) = 16"
    using assms(2,3) by (auto simp: addr_ok_def)
  then obtain t where "cfg_ntop cfg (take (length a - 3) (drop 1 a)) = Some t" "0 \<notin> set t" "cfg_pton cfg t \<noteq> None"
    using assms(1) unfolding cfg_ok_def by blast
  moreover have "cstr t = t" if "0 \<notin> set t" for t
    using that by (auto simp: cstr_def takeWhile_eq_all_conv)
  ultimately show ?thesis
    using assms(3) by (simp add: request_ip_def)
qed

lemma choose_remote_ok:
  assumes "cfg_ok cfg" "s_remote s = None"
  shows "\<exists>proxied r. choose_remote lc cfg env s route = Inr (proxied, r)
     \<and> (case r of None \<Rightarrow> True | Some r \<Rightarrow> \<exists>a. r = (new_remote lc)\<lparr>r_addr := a, r_direct := \<not> proxied\<rparr>)"
proof -
  define listed where "listed = cfg_remote_addr cfg ! (e_rand env mod length (cfg_remote_addr cfg))"
  have "e_rand env mod length (cfg_remote_addr cfg) < length (cfg_remote_addr cfg)"
    using assms(1) by (simp add: cfg_ok_def)
  then have create: "create_remote lc cfg sock (e_rand env) a direct =
      Inr (if sock then Some ((new_remote lc)\<lparr>r_addr := (case a of None \<Rightarrow> listed | Some a \<Rightarrow> a), r_direct := direct\<rparr>)
           else None)" for sock a direct
    by (simp add: create_remote_def listed_def split: option.split)
  show ?thesis
    using assms(2) by (cases route; cases "e_socket_direct env"; cases "e_socket env") (simp_all add: choose_remote_def create ex_bool_eq, blast+)
qed

context tcp_crypto
begin

text \<open>Behind the reply: the state with the request taken out of the buffer.\<close>

lemma start_remote_ok:
  assumes "stwf (c_state c)" "dwf (s_d_ctx s)" "buf_ok (s_buf s)" "idx (s_buf s) = 0" "len (s_buf s) \<le> SOCKET_BUF_SIZE"
    and "s_stage s = STAGE_STREAM" "s_remote s = None" "\<not> s_delayed s" "\<not> s_send_io s"
    and r: "r = (new_remote lc)\<lparr>r_addr := ra, r_direct := rdir\<rparr>"
    and up: "up_inv lc cfg sent wire s r c (contents (s_buf s)) []"
    and run: "start_remote s r sni c = (again, c')"
  shows "if again then loop_inv lc cfg c' \<and> (\<exists>s'. c_server c' = Some s' \<and> s_stage s' = STAGE_STREAM)
     else conn_inv lc cfg stwf sent wire dwf c'"
proof -
  define b where "b = s_buf s"
  define rb where "rb = (if len b > 0 then (r_buf r)\<lparr>data := memcpy_at (data (r_buf r)) 0 (take (len b) (data b)), len := len b\<rparr>
    else r_buf r)"
  define r' where "r' = r\<lparr>r_buf := rb\<rparr>"
  have flags: "\<not> r_send_io r" "\<not> r_recv_io r"
    by (simp_all add: r new_remote_def)
  have new: "length (data (r_buf r)) = SOCKET_BUF_SIZE" "capacity (r_buf r) = SOCKET_BUF_SIZE" "len (r_buf r) = 0" "idx (r_buf r) = 0"
    by (simp_all add: r new_remote_def balloc_def ss_malloc_def)
  have "length (contents b) = len b"
    using assms(3) by (simp add: b_def buf_ok_wf)
  then have rb: "buf_ok rb" "contents rb = contents b" "len rb = len b" "idx rb = 0"
    using assms(5) new length_memcpy_at [of 0 "contents b" "data (r_buf r)"] take_memcpy_at_0 [of "contents b" "data (r_buf r)"]
    by (auto simp: rb_def buf_ok_def b_def contents_def)
  have up': "up_inv lc cfg sent wire (s\<lparr>s_remote := Some r', s_delayed := d\<rparr>) r' (put_server s1 c) (contents rb) []" for s1 d
    using up rb(2) by (subst up_inv_cong [of _ s _ r _ c]) (auto simp: r'_def b_def)
  have run': "start_remote s r sni c = (if len b > 0 \<or> sni then (True, put_server (s\<lparr>s_remote := Some r'\<rparr>) c)
      else (False, put_server (s\<lparr>s_remote := Some r', s_delayed := True\<rparr>) c))"
    by (simp add: start_remote_def recv_buf_def assms(7) b_def r'_def rb_def Let_def)
  have same: "s\<lparr>s_remote := Some r'\<rparr> = s\<lparr>s_remote := Some r', s_delayed := False\<rparr>"
    using assms(8) by simp
  show ?thesis
  proof (cases "len b > 0 \<or> sni")
    case True
    then have "again" "c' = put_server (s\<lparr>s_remote := Some r', s_delayed := False\<rparr>) c"
      using run run' same by auto
    then show ?thesis
      using assms up' [of False] rb flags
      by (auto simp: loop_inv_def stream_pre_def r'_def b_def buf_ok_wf buf_ok_capacity)
  next
    case False
    then have c': "\<not> again" "c' = put_server (s\<lparr>s_remote := Some r', s_delayed := True\<rparr>) c"
      using run run' by auto
    have "contents rb = []" "unsent rb = []"
      using False rb by (auto simp: contents_def unsent_def)
    then show ?thesis
      using c' False assms up' [of True] rb flags
      by (auto simp: conn_inv_def late_inv_def down_inv_def r'_def)
  qed
qed

lemma rewrite_abuf_ok:
  assumes "buf_ok ab" "addr_ok a" "host \<noteq> []" "length host \<le> MAX_HOSTNAME_LEN"
  shows "contents (rewrite_abuf ab host (drop (length a - 2) a)) = [3, of_nat (length host)] @ host @ drop (length a - 2) a"
    and "buf_ok (rewrite_abuf ab host (drop (length a - 2) a)) \<or> idx ab \<noteq> 0"
    and "buf_wf (rewrite_abuf ab host (drop (length a - 2) a))"
    and "payload_ok (contents (rewrite_abuf ab host (drop (length a - 2) a)))"
proof -
  define h where "h = [3, of_nat (length host)] @ host @ drop (length a - 2) a"
  have l: "length h = 1 + 1 + length host + 2" "length h \<le> 260"
    using assms(2,4) by (auto simp: h_def addr_ok_def MAX_HOSTNAME_LEN_def)
  have ab: "length (data ab) = capacity ab" "SOCKET_BUF_SIZE \<le> capacity ab"
    using assms(1) by (simp_all add: buf_ok_def)
  have eq: "rewrite_abuf ab host (drop (length a - 2) a) = ab\<lparr>data := memcpy_at (data ab) 0 h, len := length h\<rparr>"
    by (simp only: rewrite_abuf_def h_def [symmetric] l(1))
  have c: "contents (ab\<lparr>data := memcpy_at (data ab) 0 h, len := length h\<rparr>) = h"
    by (simp add: contents_def)
  show "contents (rewrite_abuf ab host (drop (length a - 2) a)) = [3, of_nat (length host)] @ host @ drop (length a - 2) a"
    unfolding eq c by (simp add: h_def)
  show "buf_wf (rewrite_abuf ab host (drop (length a - 2) a))"
      "buf_ok (rewrite_abuf ab host (drop (length a - 2) a)) \<or> idx ab \<noteq> 0"
    unfolding eq using ab l(2) length_memcpy_at [of 0 h "data ab"] by (auto simp: buf_wf_def buf_ok_def SOCKET_BUF_SIZE_def)
  show "payload_ok (contents (rewrite_abuf ab host (drop (length a - 2) a)))"
    unfolding eq c using l by (auto simp: CHUNK_SIZE_MASK_def)
qed

lemma handshake_connect_ok:
  assumes "cfg_ok cfg" "stwf (c_state c)" "dwf (s_d_ctx s)" "buf_ok (s_buf s)" "idx (s_buf s) = 0" "len (s_buf s) \<le> SOCKET_BUF_SIZE"
    and "s_stage s = STAGE_STREAM" "s_remote s = None" "\<not> s_delayed s" "\<not> s_send_io s"
    and "sent sl [] (s_e_ctx s)" "remote_out c = []" "buf_ok ab" "addr_ok (contents ab)" "len ab < 300"
    and "greeting_ok g" "socks_request q (contents ab)" "client_in c = g @ q @ contents (s_buf s)"
    and "atyp = contents ab ! 0" "sni \<Longrightarrow> atyp \<noteq> 3 \<and> sniffed \<noteq> [] \<and> length sniffed \<le> MAX_HOSTNAME_LEN"
    and "seen c = None" "found_name lc cfg (contents ab) (contents (s_buf s)) = (if sni then Some sniffed else None)"
  shows "\<exists>again c'. handshake_connect lc cr cfg env atyp ab sni sniffed s c = Inr (again, c')
     \<and> (if again then loop_inv lc cfg c' \<and> (\<exists>s'. c_server c' = Some s' \<and> s_stage s' = STAGE_STREAM)
        else conn_inv lc cfg stwf sent wire dwf c')"
proof -
  define a where "a = contents ab"
  define pb where "pb = drop (length a - 2) a"
  obtain route where route: "acl_route cfg atyp sni (cstr (request_host atyp a sniffed)) (cstr (request_ip cfg atyp a))
      (from_be16 (pb ! 0) (pb ! 1)) = Inr route"
    using acl_route_ok request_ip_ok [OF assms(1,14)] assms(19) by (metis a_def)
  obtain proxied remote where ch: "choose_remote lc cfg env s route = Inr (proxied, remote)"
      "case remote of None \<Rightarrow> True | Some r \<Rightarrow> \<exists>ad. r = (new_remote lc)\<lparr>r_addr := ad, r_direct := \<not> proxied\<rparr>"
    using choose_remote_ok [OF assms(1,8)] by blast
  define ab' where "ab' = (if proxied \<and> sni \<and> cfg_acl cfg \<and> cfg_remote_dns cfg
      then rewrite_abuf ab (request_host atyp a sniffed) pb else ab)"
  have "len ab = length a"
    using assms(13) by (simp add: a_def buf_ok_wf)
  then have ab': "proxied \<Longrightarrow> contents ab' = header_for lc cfg a (contents (s_buf s))" "buf_wf ab'" "payload_ok (contents ab')"
    using rewrite_abuf_ok [OF assms(13,14), of sniffed] assms(13-15,20,22)
    by (auto simp: ab'_def pb_def a_def request_host_def header_for_def addr_ok_def buf_ok_wf CHUNK_SIZE_MASK_def rewrite_abuf_def [THEN arg_cong [of _ _ len]])
  define cs where "cs = emit Socket c"
  have cs: "client_in cs = client_in c" "remote_out cs = remote_out c" "seen cs = Some (client_in c)" "c_state cs = c_state c"
    by (simp_all add: cs_def seen_emit assms(21))
  have run: "handshake_connect lc cr cfg env atyp ab sni sniffed s c =
      (case remote of
         None \<Rightarrow> Inr (False, close_and_free c)
       | Some r \<Rightarrow>
           if r_direct r then Inr (start_remote (s\<lparr>s_abuf := Some ab'\<rparr>) r sni cs)
           else (case cr_encrypt cr ab' (s_e_ctx s) SOCKET_BUF_SIZE (c_state cs) of
                   Inl f \<Rightarrow> Inl f
                 | Inr (rc, abuf, e_ctx, st) \<Rightarrow>
                     if rc \<noteq> CRYPTO_OK then Inr (False, close_and_free (cs\<lparr>c_state := st\<rparr>))
                     else Inr (start_remote (s\<lparr>s_abuf := Some abuf, s_e_ctx := e_ctx\<rparr>) r sni (cs\<lparr>c_state := st\<rparr>))))"
    unfolding handshake_connect_def Let_def a_def [symmetric] pb_def [symmetric] route ch(1) sum.case prod.case
      ab'_def [symmetric] cs_def [symmetric] ..
  show ?thesis
  proof (cases remote)
    case None
    then show ?thesis
      using assms(2) close_inv by (intro exI [of _ False]) (simp add: run)
  next
    case (Some r)
    then obtain ad where r: "r = (new_remote lc)\<lparr>r_addr := ad, r_direct := \<not> proxied\<rparr>"
      using ch(2) by auto
    show ?thesis
    proof (cases proxied)
      case False
      then have "up_inv lc cfg sent wire (s\<lparr>s_abuf := Some ab'\<rparr>) r cs (contents (s_buf s)) []"
        using assms(12,16-18) cs by (auto simp: up_inv_def r)
      then show ?thesis
        using start_remote_ok [of cs "s\<lparr>s_abuf := Some ab'\<rparr>" r "\<not> proxied" ad lc cfg sni]
          assms(2-10) cs r False Some
        by (cases "start_remote (s\<lparr>s_abuf := Some ab'\<rparr>) r sni cs") (simp add: run)
    next
      case True
      obtain eb ctx st where e: "cr_encrypt cr ab' (s_e_ctx s) SOCKET_BUF_SIZE (c_state c) = Inr (CRYPTO_OK, eb, ctx, st)"
          "buf_wf eb" "stwf st" "sent sl [contents ab'] ctx" "wire sl [contents ab'] = contents eb"
        using encrypt_payload [OF assms(2,11) ab'(2,3), of SOCKET_BUF_SIZE] wire_Nil by auto
      define s1 where "s1 = s\<lparr>s_abuf := Some eb, s_e_ctx := ctx\<rparr>"
      have "up_inv lc cfg sent wire s1 r (cs\<lparr>c_state := st\<rparr>) (contents (s_buf s)) []"
        using assms(12,16-18) ab' e True cs
        by (intro up_invI [of g q a _ "[]" _ "contents (s_buf s)" sent sl]) (auto simp: s1_def r a_def)
      then show ?thesis
        using start_remote_ok [of "cs\<lparr>c_state := st\<rparr>" s1 r "\<not> proxied" ad lc cfg sni] e
          assms(3-10) cs r True Some
        by (cases "start_remote s1 r sni (cs\<lparr>c_state := st\<rparr>)") (simp add: run s1_def)
    qed
  qed
qed

text \<open>A connection in its handshake, at the start of a round.\<close>

definition shaking :: "server_t \<Rightarrow> conn \<Rightarrow> bool" where
  "shaking s c \<longleftrightarrow> stwf (c_state c) \<and> s_remote s = None \<and> (s_stage s = STAGE_HANDSHAKE \<or> s_stage s = STAGE_SNI)
     \<and> early_inv sent s c \<and> dwf (s_d_ctx s) \<and> buf_ok (s_buf s) \<and> \<not> s_delayed s"

lemma shaking_keep:
  assumes "shaking s c" "buf_ok ab"
  shows "conn_inv lc cfg stwf sent wire dwf (put_server (s\<lparr>s_abuf := Some ab\<rparr>) c)"
  using assms by (auto simp: shaking_def conn_inv_def early_inv_def split: stage.splits)

lemma shaking_sni:
  assumes "shaking s c" "buf_ok ab" "4 \<le> len (s_buf s)" "data (s_buf s) ! 1 = 1"
    and "c' = put_server s1 c \<or> (\<exists>x. c' = emit (ToClient x) (put_server s1 c))"
  shows "conn_inv lc cfg stwf sent wire dwf (put_server (s\<lparr>s_abuf := Some ab, s_stage := STAGE_SNI, s_delayed := True\<rparr>) c')"
  using assms by (auto simp: shaking_def conn_inv_def early_inv_def split: stage.splits)

lemma udp_reply_ok:
  assumes "shaking s c" "s_stage s = STAGE_HANDSHAKE" "server_handshake_reply env True s (put_server s c) = (ok, c')"
  shows "\<not> ok \<and> conn_inv lc cfg stwf sent wire dwf c'"
proof -
  have "stwf (c_state c)"
    using assms(1) by (simp add: shaking_def)
  moreover have "conn_inv lc cfg stwf sent wire dwf (emit (ToClient x) (put_server s c))" for x
    using assms(1,2) by (auto simp: shaking_def conn_inv_def early_inv_def)
  ultimately show ?thesis
    using assms(2,3) by (auto simp: server_handshake_reply_def Let_def intro!: close_inv split: if_splits sys.splits)
qed

text \<open>The request split off the buffer.\<close>

lemma request_split:
  assumes "buf_ok b" "data b ! 1 = 1" "4 \<le> len b" "addr_ok a" "a = take n (drop 3 (contents b))" "3 + n \<le> len b"
  shows "socks_request (take (3 + n) (contents b)) a"
proof -
  have wf: "length (contents b) = len b"
    using assms(1) by (simp add: buf_ok_wf)
  have "contents b ! 1 = 1"
    using assms(1-3) by (simp add: contents_nth buf_ok_wf)
  moreover have "take 3 (contents b) = [contents b ! 0, contents b ! 1, contents b ! 2]"
    using wf assms(3) by (intro nth_equalityI) (auto simp: less_Suc_eq numeral_3_eq_3 numeral_2_eq_2)
  moreover have "take (3 + n) (contents b) = take 3 (contents b) @ a"
    unfolding assms(5) by (rule take_add)
  ultimately show ?thesis
    using assms(4) by (auto simp: socks_request_def)
qed

text \<open>The rest of the handshake once the request is complete.\<close>

lemma handshake_rest_ok:
  assumes cfg: "cfg_ok cfg" and sh: "shaking s c" and req: "4 \<le> len (s_buf s)" "data (s_buf s) ! 1 = 1"
    and ab: "buf_ok ab" "addr_ok (contents ab)" "contents ab = take (len ab) (drop 3 (contents (s_buf s)))"
      "3 + len ab \<le> len (s_buf s)" "len ab < 300"
    and sn: "0 < rc \<longrightarrow> (\<exists>h. name = Some h \<and> rc \<le> int (length h)) \<and> contents ab ! 0 \<noteq> 3"
      "found_name lc cfg (contents ab) (drop (3 + len ab) (contents (s_buf s))) = (if rc > 0 then Some (sniffed_host rc name) else None)"
    and rep: "server_handshake_reply env False (s\<lparr>s_abuf := Some ab\<rparr>) (put_server (s\<lparr>s_abuf := Some ab\<rparr>) c) = (ok, c1)"
  shows "\<exists>again c'.
      (if \<not> ok then Inr (False, c1)
       else if rc = -1 \<and> len (s_buf s) < SOCKET_BUF_SIZE \<and> s_stage s \<noteq> STAGE_SNI
       then Inr (False, put_server (s\<lparr>s_abuf := Some ab, s_stage := STAGE_SNI, s_delayed := True\<rparr>) c1)
       else handshake_connect lc cr cfg env (contents ab ! 0) ab (rc > 0) (sniffed_host rc name)
              (put_recv_buf (bconsume (s_buf s) (3 + len ab)) (s\<lparr>s_abuf := Some ab, s_stage := STAGE_STREAM\<rparr>)) c1)
        = Inr (again, c')
     \<and> (if again then loop_inv lc cfg c' \<and> (\<exists>s'. c_server c' = Some s' \<and> s_stage s' = STAGE_STREAM)
        else conn_inv lc cfg stwf sent wire dwf c')"
    (is "?goal (if _ then _ else if _ then _ else ?connect)")
proof -
  have b: "buf_ok (s_buf s)" "idx (s_buf s) = 0" "len (s_buf s) \<le> SOCKET_BUF_SIZE" "s_remote s = None" "stwf (c_state c)"
      "remote_out c = []" "dwf (s_d_ctx s)" "\<not> s_delayed s" "\<not> s_send_io s" "seen c = None"
    using sh by (auto simp: shaking_def early_inv_def)
  obtain sl g where g: "sent sl [] (s_e_ctx s)" "greeting_ok g" "client_in c = g @ contents (s_buf s)"
    using sh by (auto simp: shaking_def early_inv_def split: stage.splits)
  define s1 where "s1 = s\<lparr>s_abuf := Some ab\<rparr>"
  have c1: "if ok then c1 = put_server s1 c \<or> (\<exists>x. c1 = emit (ToClient x) (put_server s1 c))
      else (\<exists>x. c1 = close_and_free (emit (ToClient x) (put_server s1 c)))"
    using reply_ok [OF rep] by (simp add: s1_def)
  show ?thesis
  proof (cases ok)
    case False
    then show ?thesis
      using c1 close_inv [of "emit _ (put_server s1 c)"] b(5) by (auto simp: ex_bool_eq)
  next
    case True
    then have same: "client_in c1 = client_in c" "remote_out c1 = remote_out c" "seen c1 = seen c" "c_state c1 = c_state c"
      using c1 by auto
    have sni: "conn_inv lc cfg stwf sent wire dwf (put_server (s\<lparr>s_abuf := Some ab, s_stage := STAGE_SNI, s_delayed := True\<rparr>) c1)"
      using shaking_sni [OF sh ab(1) req, of c1 s1] c1 True by simp
    have st: "put_recv_buf (bconsume (s_buf s) (3 + len ab)) (s\<lparr>s_abuf := Some ab, s_stage := STAGE_STREAM\<rparr>)
        = s\<lparr>s_abuf := Some ab, s_stage := STAGE_STREAM, s_buf := bconsume (s_buf s) (3 + len ab)\<rparr>"
      by (simp add: put_recv_buf_def b(4))
    have q: "socks_request (take (3 + len ab) (contents (s_buf s))) (contents ab)"
      by (rule request_split [OF b(1) req(2,1) ab(2-4)])
    have "?goal ?connect"
      unfolding st using b(3-10) g(1,3) bconsume_ok [OF b(1,2) ab(4)] sn sniffed_host_ok
      by (intro handshake_connect_ok [OF cfg _ _ _ _ _ _ _ _ _ _ _ ab(1,2,5) g(2) q]) (auto simp: same)
    then show ?thesis
      using True sni by (simp add: ex_bool_eq)
  qed
qed

lemma server_handshake_ok:
  assumes cfg: "cfg_ok cfg" and sh: "shaking s c"
  shows "\<exists>again c'. server_handshake lc cr cfg env s c = Inr (again, c')
     \<and> (if again then loop_inv lc cfg c' \<and> (\<exists>s'. c_server c' = Some s' \<and> s_stage s' = STAGE_STREAM)
        else conn_inv lc cfg stwf sent wire dwf c')"
    (is "?goal (server_handshake lc cr cfg env s c)")
proof -
  define b where "b = s_buf s"
  obtain ab sl where ab: "s_abuf s = Some ab" "buf_ok ab" "sent sl [] (s_e_ctx s)"
    using sh by (auto simp: shaking_def early_inv_def)
  obtain g where g: "greeting_ok g" "client_in c = g @ contents b"
    using sh by (auto simp: shaking_def early_inv_def b_def split: stage.splits)
  have b: "buf_ok b" "idx b = 0" "len b \<le> SOCKET_BUF_SIZE" "recv_buf s = b" "s_remote s = None" "stwf (c_state c)"
      "remote_out c = []" "dwf (s_d_ctx s)" "\<not> s_delayed s" "\<not> s_send_io s"
    using sh by (auto simp: shaking_def early_inv_def b_def recv_buf_def)
  have data: "1 < length (data b)" "3 < length (data b)"
    using b(1) by (simp_all add: buf_ok_def SOCKET_BUF_SIZE_def)
  have keep: "?goal (Inr (False, put_server s c))"
    using shaking_keep [OF sh ab(2)] ab(1) by (cases s) auto
  have close: "?goal (Inr (False, close_and_free c'))" if "c_state c' = c_state c" for c'
    using close_inv [of c'] b(6) that by auto
  show ?thesis
  proof (cases "4 \<le> len b \<and> data b ! 1 = 1 \<and> data b ! 3 \<in> {1, 3, 4}")
    case False
    have "s_stage s = STAGE_HANDSHAKE" if "4 \<le> len b" "data b ! 1 = 3"
      using sh that by (auto simp: shaking_def early_inv_def b_def)
    then have "?goal (Inr (server_handshake_reply env True s (put_server s c)))" if "4 \<le> len b" "data b ! 1 = 3"
      using udp_reply_ok [OF sh, where lc = lc and cfg = cfg] that by (cases "server_handshake_reply env True s (put_server s c)") auto
    then show ?thesis
      using False keep close data ab(1) unfolding server_handshake_def b(4) Let_def by (simp only: rd_in) auto
  next
    case True
    define atyp where "atyp = data b ! 3"
    have eq: "server_handshake lc cr cfg env s c =
       (case read_addr b (ab\<lparr>idx := 0\<rparr>) atyp of
          Inl f \<Rightarrow> Inl f
        | Inr None \<Rightarrow> Inr (False, put_server (s\<lparr>s_abuf := Some (ab\<lparr>idx := 0, len := 1, data := memcpy_at (data ab) 0 [atyp]\<rparr>)\<rparr>) c)
        | Inr (Some abuf) \<Rightarrow>
            let n = 3 + len abuf; port = drop (len abuf - 2) (contents abuf); s = s\<lparr>s_abuf := Some abuf\<rparr>
            in case sniff lc cfg atyp (from_be16 (port ! 0) (port ! 1)) (drop n (contents b)) of
                 Inl f \<Rightarrow> Inl f
               | Inr (rc, name) \<Rightarrow>
                   let (ok, c) = server_handshake_reply env False s (put_server s c)
                   in if \<not> ok then Inr (False, c)
                      else if rc = -1 \<and> len b < SOCKET_BUF_SIZE \<and> s_stage s \<noteq> STAGE_SNI
                      then Inr (False, put_server (s\<lparr>s_stage := STAGE_SNI, s_delayed := True\<rparr>) c)
                      else handshake_connect lc cr cfg env atyp abuf (rc > 0) (sniffed_host rc name)
                             (put_recv_buf (bconsume b n) (s\<lparr>s_stage := STAGE_STREAM\<rparr>)) c)"
      using True data ab(1) unfolding server_handshake_def b(4) Let_def atyp_def by (simp only: rd_in) auto
    have rd_ok: "read_addr b (ab\<lparr>idx := 0\<rparr>) atyp = Inr None
     \<or> (\<exists>ab'. read_addr b (ab\<lparr>idx := 0\<rparr>) atyp = Inr (Some ab') \<and> buf_ok ab' \<and> addr_ok (contents ab')
          \<and> contents ab' ! 0 = atyp \<and> contents ab' = take (len ab') (drop 3 (contents b))
          \<and> 3 + len ab' \<le> len b \<and> len ab' < 300)"
      using read_addr_ok [OF b(1) ab(2), of atyp] True by (auto simp: atyp_def)
    then show ?thesis
    proof (elim disjE exE conjE)
      assume none: "read_addr b (ab\<lparr>idx := 0\<rparr>) atyp = Inr None"
      have "buf_ok (ab\<lparr>idx := 0, len := 1, data := memcpy_at (data ab) 0 [atyp]\<rparr>)"
        using ab(2) length_memcpy_at [of 0 "[atyp]" "data ab"] by (simp add: buf_ok_def SOCKET_BUF_SIZE_def)
      then show ?thesis
        using shaking_keep [OF sh] by (simp add: eq none ex_bool_eq)
    next
      fix ab'
      assume ab': "read_addr b (ab\<lparr>idx := 0\<rparr>) atyp = Inr (Some ab')" "buf_ok ab'" "addr_ok (contents ab')"
        "contents ab' ! 0 = atyp" "contents ab' = take (len ab') (drop 3 (contents b))" "3 + len ab' \<le> len b" "len ab' < 300"
      define port where "port = from_be16 (drop (len ab' - 2) (contents ab') ! 0) (drop (len ab' - 2) (contents ab') ! 1)"
      have "length (drop (3 + len ab') (contents b)) < 2 ^ 31"
        using b(1,3) by (simp add: buf_ok_wf SOCKET_BUF_SIZE_def)
      then obtain rc name where sn: "sniff lc cfg atyp port (drop (3 + len ab') (contents b)) = Inr (rc, name)"
          "rc > 0 \<longrightarrow> (\<exists>h. name = Some h \<and> rc \<le> int (length h))"
        using sniff_ok by blast
      have sn_atyp: "atyp \<noteq> 3" if "rc > 0"
        using sn(1) that by (auto simp: sniff_def)
      have "len ab' = length (contents ab')" using ab'(2) by (simp add: buf_ok_wf)
      then have sn_found: "found_name lc cfg (contents ab') (drop (3 + len ab') (contents b)) = (if rc > 0 then Some (sniffed_host rc name) else None)"
        using sn by (intro sniff_found [OF ab'(3) refl]) (simp_all add: port_def ab'(4))
      obtain ok c1 where rep: "server_handshake_reply env False (s\<lparr>s_abuf := Some ab'\<rparr>) (put_server (s\<lparr>s_abuf := Some ab'\<rparr>) c) = (ok, c1)"
        by (cases "server_handshake_reply env False (s\<lparr>s_abuf := Some ab'\<rparr>) (put_server (s\<lparr>s_abuf := Some ab'\<rparr>) c)")
      have run: "server_handshake lc cr cfg env s c =
          (if \<not> ok then Inr (False, c1)
           else if rc = -1 \<and> len b < SOCKET_BUF_SIZE \<and> s_stage s \<noteq> STAGE_SNI
           then Inr (False, put_server (s\<lparr>s_abuf := Some ab', s_stage := STAGE_SNI, s_delayed := True\<rparr>) c1)
           else handshake_connect lc cr cfg env (contents ab' ! 0) ab' (rc > 0) (sniffed_host rc name)
                  (put_recv_buf (bconsume b (3 + len ab')) (s\<lparr>s_abuf := Some ab', s_stage := STAGE_STREAM\<rparr>)) c1)"
        unfolding eq ab'(1) sum.case option.case Let_def port_def [symmetric] sn(1) prod.case rep by (simp add: ab'(4))
      show ?thesis
        unfolding run b_def
        by (rule handshake_rest_ok [OF cfg sh _ _ ab'(2,3) _ _ ab'(7) _ _ rep])
          (use True ab'(4-6) sn(2) sn_atyp sn_found in \<open>auto simp: b_def\<close>)
    qed
  qed
qed

section \<open>The callbacks\<close>

lemma recv_loop_stream:
  assumes "loop_inv lc cfg c" "c_server c = Some s" "s_stage s = STAGE_STREAM"
  shows "\<exists>c'. recv_loop lc cr cfg env c = Some (Inr c') \<and> conn_inv lc cfg stwf sent wire dwf c'"
proof -
  obtain r where r: "s_remote s = Some r" "stream_pre lc cfg s r c"
    using assms by (auto simp: loop_inv_def early_inv_def split: option.splits)
  then show ?thesis
    using server_stream_ok [OF r, of env] assms(2,3) by (auto simp: recv_loop.simps)
qed

lemma recv_loop_handshake:
  assumes "cfg_ok cfg" "loop_inv lc cfg c" "c_server c = Some s" "s_stage s = STAGE_HANDSHAKE \<or> s_stage s = STAGE_SNI"
  shows "\<exists>c'. recv_loop lc cr cfg env c = Some (Inr c') \<and> conn_inv lc cfg stwf sent wire dwf c'"
proof -
  have "shaking s c"
    using assms(2-4) by (auto simp: loop_inv_def shaking_def stream_pre_def split: option.splits)
  then obtain again c' where h: "server_handshake lc cr cfg env s c = Inr (again, c')"
      "if again then loop_inv lc cfg c' \<and> (\<exists>s'. c_server c' = Some s' \<and> s_stage s' = STAGE_STREAM)
       else conn_inv lc cfg stwf sent wire dwf c'"
    using server_handshake_ok [OF assms(1)] by blast
  have "recv_loop lc cr cfg env c = (if again then recv_loop lc cr cfg env c' else Some (Inr c'))"
    using assms(3,4) h(1) by (subst recv_loop.simps) auto
  then show ?thesis
    using h(2) recv_loop_stream [of lc cfg c'] by (cases again) auto
qed

lemma recv_loop_ok:
  assumes "cfg_ok cfg" "loop_inv lc cfg c"
  shows "\<exists>c'. recv_loop lc cr cfg env c = Some (Inr c') \<and> conn_inv lc cfg stwf sent wire dwf c'"
proof -
  obtain s where s: "c_server c = Some s"
    using assms(2) by (auto simp: loop_inv_def)
  show ?thesis
  proof (cases "s_stage s")
    case STAGE_INIT
    then have "s_remote s = None"
      using assms(2) s by (auto simp: loop_inv_def stream_pre_def split: option.splits)
    then obtain again c' where h: "method_select env s c = Inr (again, c')"
        "if again then loop_inv lc cfg c' \<and> (\<exists>s'. c_server c' = Some s' \<and> s_stage s' = STAGE_HANDSHAKE)
         else conn_inv lc cfg stwf sent wire dwf c'"
      using method_select_ok [of c s env lc cfg] assms(2) s STAGE_INIT by (auto simp: loop_inv_def)
    have "recv_loop lc cr cfg env c = (if again then recv_loop lc cr cfg env c' else Some (Inr c'))"
      using s STAGE_INIT h(1) by (subst recv_loop.simps) auto
    then show ?thesis
      using h(2) recv_loop_handshake [OF assms(1), of lc c'] by (cases again) auto
  qed (use recv_loop_stream recv_loop_handshake assms s in blast)+
qed

text \<open>The watcher of the application's socket, or the timer of a delayed connection.\<close>

definition recv_enabled :: "env \<Rightarrow> server_t \<Rightarrow> bool" where
  "recv_enabled env s \<longleftrightarrow> (if e_timer env then s_delayed s else s_recv_io s)"

lemma early_received:
  assumes "early_inv sent s c" "buf_ok (s_buf s)" "buf_ok b" "idx b = 0" "len b \<le> SOCKET_BUF_SIZE"
    and "contents b = contents (s_buf s) @ bs"
  shows "early_inv sent (s\<lparr>s_delayed := False, s_buf := b\<rparr>) (emit (FromClient bs) (put_server s' c))"
proof -
  have "4 \<le> len b \<and> data b ! 1 = 1" if "4 \<le> len (s_buf s)" "data (s_buf s) ! 1 = 1"
  proof -
    have l: "length (contents b) = len b" "length (contents (s_buf s)) = len (s_buf s)"
      using assms(2,3) by (simp_all add: buf_ok_wf)
    then have "contents b ! 1 = 1" "len b \<ge> len (s_buf s)"
      using that contents_nth [OF buf_ok_wf [OF assms(2)], of 1] by (auto simp: assms(6) nth_append)
    then show ?thesis
      using contents_nth [OF buf_ok_wf [OF assms(3)], of 1] that by simp
  qed
  then show ?thesis
    using assms by (auto simp: early_inv_def split: stage.splits)
qed

lemma late_received:
  assumes "late_inv lc cfg sent wire s r c" "stwf (c_state c)" "dwf (s_d_ctx s)" "s_recv_io s \<or> s_delayed s"
    and "buf_wf b" "SOCKET_BUF_SIZE \<le> capacity b" "len b \<le> SOCKET_BUF_SIZE" "client_in c' = client_in c @ contents b"
      "remote_out c' = remote_out c" "seen c' = seen c" "c_state c' = c_state c"
  shows "stream_pre lc cfg (s\<lparr>s_delayed := False, s_remote := Some (r\<lparr>r_buf := b\<rparr>)\<rparr>) (r\<lparr>r_buf := b\<rparr>) c'"
proof -
  have "up_inv lc cfg sent wire s r c [] []" and l: "down_inv s r" "\<not> r_send_io r"
    using assms(1,4) by (auto simp: late_inv_def unsent_def)
  then have "up_inv lc cfg sent wire s r c' (contents b) []"
    using up_inv_read [OF _ assms(8-10)] by fastforce
  then have "up_inv lc cfg sent wire (s\<lparr>s_delayed := False, s_remote := Some (r\<lparr>r_buf := b\<rparr>)\<rparr>) (r\<lparr>r_buf := b\<rparr>) c' (contents b) []"
    by (subst up_inv_cong) auto
  then show ?thesis
    using l assms by (auto simp: stream_pre_def down_inv_def)
qed

lemma recv_read_ok:
  assumes "conn_inv lc cfg stwf sent wire dwf c" "c_server c = Some s" "s_recv_io s" "length bs \<le> recv_room (len (recv_buf s))"
  shows "\<exists>b. recv_into (recv_buf s) bs = Inr b
     \<and> loop_inv lc cfg (emit (FromClient bs) (put_server (put_recv_buf b (s\<lparr>s_delayed := False\<rparr>)) c))"
proof (cases "s_remote s")
  case None
  have e: "early_inv sent s c" "buf_ok (s_buf s)" "stwf (c_state c)" "dwf (s_d_ctx s)"
    using assms(1,2) None by (auto simp: conn_inv_def)
  then have room: "len (s_buf s) + length bs \<le> SOCKET_BUF_SIZE"
    using assms(4) None by (auto simp: early_inv_def recv_buf_def recv_room_le)
  moreover have "length (data (s_buf s)) = capacity (s_buf s)" "SOCKET_BUF_SIZE \<le> capacity (s_buf s)" "idx (s_buf s) = 0"
    using e(1,2) by (auto simp: early_inv_def buf_ok_def)
  ultimately obtain b where b: "recv_into (s_buf s) bs = Inr b" "buf_ok b" "idx b = 0" "len b = len (s_buf s) + length bs"
      "contents b = contents (s_buf s) @ bs"
    using recv_into_ok by blast
  then have "len b \<le> SOCKET_BUF_SIZE"
    using room by simp
  then show ?thesis
    using early_received [OF e(1,2) b(2,3) _ b(5)] b(1,2) e(3,4) None
    by (simp add: recv_buf_def put_recv_buf_def loop_inv_def)
next
  case (Some r)
  have l: "late_inv lc cfg sent wire s r c" "buf_ok (s_buf s)" "stwf (c_state c)" "dwf (s_d_ctx s)"
    using assms(1,2) Some by (auto simp: conn_inv_def)
  then have r: "len (r_buf r) = 0" "buf_ok (r_buf r)"
    using assms(3) by (auto simp: late_inv_def down_inv_def)
  then obtain b where b: "recv_into (r_buf r) bs = Inr b" "buf_wf b" "SOCKET_BUF_SIZE \<le> capacity b" "len b = length bs" "contents b = bs"
    using recv_into_wf [of "r_buf r" bs] assms(4) Some
    by (simp add: buf_ok_def [of "r_buf r"] recv_buf_def recv_room_le contents_def [of "r_buf r"]) blast
  define c' where "c' = emit (FromClient bs) (put_server (s\<lparr>s_delayed := False, s_remote := Some (r\<lparr>r_buf := b\<rparr>)\<rparr>) c)"
  have "len b \<le> SOCKET_BUF_SIZE"
    using assms(4) Some r(1) b(4) by (simp add: recv_buf_def recv_room_le)
  then have "stream_pre lc cfg (s\<lparr>s_delayed := False, s_remote := Some (r\<lparr>r_buf := b\<rparr>)\<rparr>) (r\<lparr>r_buf := b\<rparr>) c'"
    using assms(3) b by (intro late_received [OF l(1,3,4)]) (auto simp: c'_def)
  then show ?thesis
    using b(1) l(2-4) Some by (simp add: recv_buf_def put_recv_buf_def loop_inv_def c'_def)
qed

lemma recv_timer_ok:
  assumes "conn_inv lc cfg stwf sent wire dwf c" "c_server c = Some s" "s_delayed s"
  shows "loop_inv lc cfg (put_server (s\<lparr>s_delayed := False\<rparr>) c)"
proof (cases "s_remote s")
  case None
  then show ?thesis
    using assms by (auto simp: conn_inv_def loop_inv_def early_inv_def split: stage.splits)
next
  case (Some r)
  have l: "late_inv lc cfg sent wire s r c" "stwf (c_state c)" "dwf (s_d_ctx s)" "buf_ok (s_buf s)"
    using assms(1,2) Some by (auto simp: conn_inv_def)
  then have r: "len (r_buf r) = 0" "buf_ok (r_buf r)"
    using assms(3) by (auto simp: late_inv_def down_inv_def)
  then have "stream_pre lc cfg (s\<lparr>s_delayed := False, s_remote := Some (r\<lparr>r_buf := r_buf r\<rparr>)\<rparr>) (r\<lparr>r_buf := r_buf r\<rparr>)
      (put_server (s\<lparr>s_delayed := False\<rparr>) c)"
    using assms(3) by (intro late_received [OF l(1-3)]) (auto simp: contents_def buf_ok_wf buf_ok_capacity)
  moreover have "s\<lparr>s_delayed := False, s_remote := Some r\<rparr> = s\<lparr>s_delayed := False\<rparr>"
    using Some by (cases s) simp
  ultimately show ?thesis
    using Some l by (auto simp: loop_inv_def)
qed

lemma server_recv_cb_ok:
  assumes cfg: "cfg_ok cfg" and inv: "conn_inv lc cfg stwf sent wire dwf c" "c_server c = Some s" and en: "recv_enabled env s"
  shows "\<exists>c'. server_recv_cb lc cr cfg env c = Some (Inr c') \<and> conn_inv lc cfg stwf sent wire dwf c'"
proof -
  have st: "stwf (c_state c)"
    using inv by (simp add: conn_inv_def)
  have wait: "conn_inv lc cfg stwf sent wire dwf (put_server (s\<lparr>s_delayed := False\<rparr>) c)"
  proof (cases "s_remote s")
    case None
    then show ?thesis
      using inv by (auto simp: conn_inv_def early_inv_def split: stage.splits)
  next
    case (Some r)
    have "up_inv lc cfg sent wire (s\<lparr>s_delayed := False\<rparr>) r (put_server (s\<lparr>s_delayed := False\<rparr>) c) [] (unsent (r_buf r))"
      using inv Some by (subst up_inv_cong [of _ s _ r _ c]) (simp_all add: conn_inv_def late_inv_def)
    then show ?thesis
      using inv Some by (simp add: conn_inv_def late_inv_def down_inv_def)
  qed
  have same: "recv_buf (s\<lparr>s_delayed := False\<rparr>) = recv_buf s"
    by (simp add: recv_buf_def split: option.split)
  show ?thesis
  proof (cases "e_timer env")
    case True
    then show ?thesis
      using recv_loop_ok [OF cfg recv_timer_ok [OF inv]] en inv(2) by (simp add: server_recv_cb_def recv_enabled_def)
  next
    case False
    then have recv: "s_recv_io s"
      using en by (simp add: recv_enabled_def)
    show ?thesis
    proof (cases "sys_recv (recv_room (len (recv_buf s))) (e_recv env)")
      case (Ret bs)
      then have "length bs \<le> recv_room (len (recv_buf s))"
        by (auto simp: sys_recv_def split: sys.splits)
      then obtain b where b: "recv_into (recv_buf s) bs = Inr b"
          "loop_inv lc cfg (emit (FromClient bs) (put_server (put_recv_buf b (s\<lparr>s_delayed := False\<rparr>)) c))"
        using recv_read_ok [OF inv recv] by blast
      then show ?thesis
        using recv_loop_ok [OF cfg b(2)] close_inv [OF st] False inv(2) Ret
        by (simp add: server_recv_cb_def same Let_def)
    qed (use False inv(2) wait close_inv [OF st] in \<open>simp_all add: server_recv_cb_def same\<close>)
  qed
qed

text \<open>The bytes that wait for one of the two sockets.\<close>

lemma send_rest_ok:
  assumes "buf_ok b" "send_rest b (sys_send (unsent b) r) = Some (done, b')"
  shows "buf_ok b'" "unsent b = accepted (unsent b) r @ unsent b'" "done \<longrightarrow> len b' = 0 \<and> idx b' = 0"
proof -
  have l: "length (unsent b) = len b"
    using assms(1) by (auto simp: unsent_def buf_ok_def)
  have "take (len b - n) (drop (n + idx b) (data b)) = drop n (unsent b)" for n
    by (simp add: unsent_def drop_take)
  then show "unsent b = accepted (unsent b) r @ unsent b'"
    using assms(2) l unfolding send_rest_def sys_send_def accepted_def
    by (auto simp: unsent_def [of "_\<lparr>idx := _, len := _\<rparr>"] unsent_def [of "_\<lparr>len := _, idx := _\<rparr>"] add.commute
        split: sys.splits if_splits)
  show "buf_ok b'" "done \<longrightarrow> len b' = 0 \<and> idx b' = 0"
    using assms by (auto simp: send_rest_def buf_ok_def split: sys.splits if_splits)
qed

lemma server_send_cb_ok:
  assumes "conn_inv lc cfg stwf sent wire dwf c" "c_server c = Some s" "s_send_io s"
  shows "\<exists>c'. server_send_cb env c = Inr c' \<and> conn_inv lc cfg stwf sent wire dwf c'"
proof -
  obtain r where r: "s_remote s = Some r" "late_inv lc cfg sent wire s r c" "stwf (c_state c)" "dwf (s_d_ctx s)" "buf_ok (s_buf s)"
    using assms by (auto simp: conn_inv_def early_inv_def split: option.splits)
  have up: "up_inv lc cfg sent wire s r c [] (unsent (r_buf r))"
    using r(2) by (simp add: late_inv_def)
  define c1 where "c1 = emit (ToClient (accepted (unsent (s_buf s)) (e_send env))) c"
  have keep: "conn_inv lc cfg stwf sent wire dwf (put_server (s\<lparr>s_buf := b\<rparr>) c1)" if "buf_ok b" for b
  proof -
    have "up_inv lc cfg sent wire (s\<lparr>s_buf := b\<rparr>) r (put_server (s\<lparr>s_buf := b\<rparr>) c1) [] (unsent (r_buf r))"
      using up by (subst up_inv_cong [of _ s _ r _ c]) (simp_all add: c1_def)
    then show ?thesis
      using that r assms(3) by (simp add: conn_inv_def late_inv_def down_inv_def c1_def)
  qed
  have restart: "conn_inv lc cfg stwf sent wire dwf
      (put_server (s\<lparr>s_buf := b, s_send_io := False, s_remote := Some (r\<lparr>r_recv_io := True\<rparr>)\<rparr>) c1)"
    if "buf_ok b" "idx b = 0" "\<not> s_delayed s" for b
  proof -
    have "up_inv lc cfg sent wire (s\<lparr>s_buf := b, s_send_io := False, s_remote := Some (r\<lparr>r_recv_io := True\<rparr>)\<rparr>) (r\<lparr>r_recv_io := True\<rparr>)
        (put_server (s\<lparr>s_buf := b, s_send_io := False, s_remote := Some (r\<lparr>r_recv_io := True\<rparr>)\<rparr>) c1) [] (unsent (r_buf r))"
      using up by (subst up_inv_cong [of _ s _ r _ c]) (simp_all add: c1_def)
    then show ?thesis
      using that r assms(3) by (simp add: conn_inv_def late_inv_def down_inv_def c1_def)
  qed
  have fin: "\<not> s_delayed s"
    using r(2) assms(3) by (simp add: late_inv_def down_inv_def)
  show ?thesis
  proof (cases "send_rest (s_buf s) (sys_send (unsent (s_buf s)) (e_send env))")
    case None
    then show ?thesis
      using r(3) assms(2) close_inv by (simp add: server_send_cb_def Let_def)
  next
    case (Some db)
    then obtain fin b where f: "send_rest (s_buf s) (sys_send (unsent (s_buf s)) (e_send env)) = Some (fin, b)"
      by (cases db) auto
    note b = send_rest_ok [OF r(5) f]
    have "server_send_cb env c = Inr (if len (s_buf s) = 0 then close_and_free c
        else if fin then put_server (s\<lparr>s_buf := b, s_send_io := False, s_remote := Some (r\<lparr>r_recv_io := True\<rparr>)\<rparr>) c1
        else put_server (s\<lparr>s_buf := b\<rparr>) c1)"
      using f r(1) assms(2) by (simp add: server_send_cb_def Let_def c1_def)
    then show ?thesis
      using b keep restart fin close_inv [OF r(3)] by simp
  qed
qed

text \<open>Nothing of the way upstream changes.\<close>

lemma late_inv_down:
  assumes "late_inv lc cfg sent wire s r c" "down_inv s' r'"
    and "s_e_ctx s' = s_e_ctx s" "s_abuf s' = s_abuf s" "s_recv_io s' = s_recv_io s" "s_delayed s' = s_delayed s"
    and "r_direct r' = r_direct r" "r_buf r' = r_buf r" "r_send_io r' = r_send_io r"
    and "client_in c' = client_in c" "remote_out c' = remote_out c" "seen c' = seen c"
  shows "late_inv lc cfg sent wire s' r' c'"
proof -
  have "up_inv lc cfg sent wire s' r' c' [] (unsent (r_buf r'))"
    using assms by (subst up_inv_cong [of _ s _ r _ c]) (simp_all add: late_inv_def)
  then show ?thesis
    using assms by (simp add: late_inv_def)
qed

lemma deliver_ok:
  assumes "late_inv lc cfg sent wire s r c" "stwf (c_state c)" "dwf (s_d_ctx s)" "r_recv_io r" "\<not> s_send_io s" "\<not> s_delayed s"
    and "s_stage s = STAGE_STREAM" "buf_ok (s_buf s)" "idx (s_buf s) = 0"
  shows "conn_inv lc cfg stwf sent wire dwf (deliver env s r c)"
proof -
  define b where "b = s_buf s"
  define r' where "r' = r\<lparr>r_recv_connected := True\<rparr>"
  define c1 where "c1 = emit (ToClient (accepted (contents b) (e_send env))) c"
  have rest: "conn_inv lc cfg stwf sent wire dwf
      (put_server (s\<lparr>s_send_io := True, s_remote := Some (r'\<lparr>r_recv_io := False\<rparr>), s_buf := b'\<rparr>) c1)" if "buf_ok b'" for b'
    using assms that
      late_inv_down [OF assms(1), of "s\<lparr>s_send_io := True, s_remote := Some (r'\<lparr>r_recv_io := False\<rparr>), s_buf := b'\<rparr>" "r'\<lparr>r_recv_io := False\<rparr>"
        "put_server (s\<lparr>s_send_io := True, s_remote := Some (r'\<lparr>r_recv_io := False\<rparr>), s_buf := b'\<rparr>) c1"]
    by (simp add: conn_inv_def r'_def c1_def down_inv_def late_inv_def)
  have all: "conn_inv lc cfg stwf sent wire dwf (put_server (s\<lparr>s_remote := Some r'\<rparr>) c1)"
    using assms late_inv_down [OF assms(1), of "s\<lparr>s_remote := Some r'\<rparr>" r' "put_server (s\<lparr>s_remote := Some r'\<rparr>) c1"]
    by (simp add: conn_inv_def r'_def c1_def down_inv_def late_inv_def)
  have close: "conn_inv lc cfg stwf sent wire dwf (close_and_free c1)"
    using assms(2) by (intro close_inv) (simp add: c1_def)
  have "n \<le> len b" if "sys_send (contents b) (e_send env) = Ret n" for n
    using accepted_sys_send [OF that] assms(8) by (simp add: b_def buf_ok_wf)
  then have "buf_ok (b\<lparr>len := len b - n, idx := n\<rparr>)" if "sys_send (contents b) (e_send env) = Ret n" for n
    using assms(8,9) that by (simp add: buf_ok_def b_def)
  moreover have "buf_ok (b\<lparr>idx := 0\<rparr>)"
    using assms(8) by (simp add: b_def buf_ok_def)
  ultimately show ?thesis
    unfolding deliver_def Let_def b_def [symmetric] c1_def [symmetric] r'_def [symmetric]
    using rest all close by (auto split: sys.split)
qed

lemma remote_recv_cb_ok:
  assumes "conn_inv lc cfg stwf sent wire dwf c" "c_server c = Some s" "s_remote s = Some r" "r_recv_io r"
  shows "\<exists>c'. remote_recv_cb cr env c = Inr c' \<and> conn_inv lc cfg stwf sent wire dwf c'"
proof -
  have i: "late_inv lc cfg sent wire s r c" "stwf (c_state c)" "dwf (s_d_ctx s)" "buf_ok (s_buf s)"
    using assms by (auto simp: conn_inv_def)
  have f: "\<not> s_send_io s" "\<not> s_delayed s" "idx (s_buf s) = 0" "s_stage s = STAGE_STREAM"
    using i(1) assms(4) by (auto simp: late_inv_def down_inv_def)
  have late: "late_inv lc cfg sent wire (s\<lparr>s_buf := b, s_d_ctx := d\<rparr>) r c'"
    if "buf_ok b" "idx b = 0" "client_in c' = client_in c" "remote_out c' = remote_out c" "seen c' = seen c" for b d c'
    using that i(1) by (intro late_inv_down [OF i(1)]) (auto simp: late_inv_def down_inv_def)
  have same: "conn_inv lc cfg stwf sent wire dwf (put_server s c)"
    using assms(1-3) late_inv_down [OF i(1), of s r "put_server s c"] by (simp add: conn_inv_def late_inv_def)
  show ?thesis
  proof (cases "sys_recv SOCKET_BUF_SIZE (e_recv env)")
    case (Ret bs)
    then have "length bs \<le> SOCKET_BUF_SIZE"
      by (auto simp: sys_recv_def split: sys.splits)
    then obtain b where b: "recv_into ((s_buf s)\<lparr>len := 0\<rparr>) bs = Inr b" "buf_ok b" "idx b = 0"
      using recv_into_ok [of "(s_buf s)\<lparr>len := 0\<rparr>" bs] i(4) f(3) by (auto simp: buf_ok_def [of "s_buf s"])
    define c1 where "c1 = emit (FromRemote bs) c"
    define c2 where "c2 = c1\<lparr>c_rx := c_rx c1 + of_nat (len b)\<rparr>"
    obtain rc b' d st where d: "cr_decrypt cr b (s_d_ctx s) SOCKET_BUF_SIZE (c_state c2) = Inr (rc, b', d, st)"
        "buf_wf b'" "capacity b \<le> capacity b'" "idx b' = idx b" "stwf st" "dwf d"
      using decrypt_returns [of "c_state c2" "s_d_ctx s" b SOCKET_BUF_SIZE] i(2,3) b(2) by (auto simp: c2_def c1_def buf_ok_wf)
    have b': "buf_ok b'" "idx b' = 0"
      using buf_ok_grow [OF b(2) d(2,3)] d(4) b(3) by simp_all
    have cl: "client_in (c2\<lparr>c_state := st\<rparr>) = client_in c" "remote_out (c2\<lparr>c_state := st\<rparr>) = remote_out c"
        "seen (c2\<lparr>c_state := st\<rparr>) = seen c"
      by (simp_all add: c2_def c1_def)
    have direct: "conn_inv lc cfg stwf sent wire dwf (deliver env (s\<lparr>s_buf := b\<rparr>) r c1)"
      using late [OF b(2,3), of c1 "s_d_ctx s"] b i f assms(4) by (intro deliver_ok) (auto simp: c1_def)
    have proxied: "conn_inv lc cfg stwf sent wire dwf (deliver env (s\<lparr>s_buf := b', s_d_ctx := d\<rparr>) r (c2\<lparr>c_state := st\<rparr>))"
      using late [OF b' cl] b' i f assms(4) d by (intro deliver_ok) auto
    have more: "conn_inv lc cfg stwf sent wire dwf (put_server (s\<lparr>s_buf := b', s_d_ctx := d\<rparr>) (c2\<lparr>c_state := st\<rparr>))"
      using late [OF b', of "put_server (s\<lparr>s_buf := b', s_d_ctx := d\<rparr>) (c2\<lparr>c_state := st\<rparr>)" d] cl b' d assms(3)
      by (simp add: conn_inv_def)
    show ?thesis
      using assms(2,3) Ret b(1) d(1,5) direct proxied more close_inv [OF i(2)] close_inv [of "c2\<lparr>c_state := st\<rparr>"]
      by (cases rc) (simp_all add: remote_recv_cb_def Let_def c1_def c2_def)
  qed (use assms(2,3) same close_inv [OF i(2)] in \<open>simp_all add: remote_recv_cb_def\<close>)
qed

lemma remote_flush_ok:
  assumes "late_inv lc cfg sent wire s r c" "stwf (c_state c)" "dwf (s_d_ctx s)" "r_send_io r"
  shows "conn_inv lc cfg stwf sent wire dwf (remote_flush env s r c)"
proof -
  have d: "down_inv s r" "\<not> s_recv_io s" "\<not> s_delayed s" "buf_ok (r_buf r)" "buf_ok (s_buf s)"
    and up: "up_inv lc cfg sent wire s r c [] (unsent (r_buf r))"
    using assms(1,4) by (auto simp: late_inv_def down_inv_def)
  define c1 where "c1 = emit (ToRemote (accepted (unsent (r_buf r)) (e_send env))) c"
  show ?thesis
  proof (cases "send_rest (r_buf r) (sys_send (unsent (r_buf r)) (e_send env))")
    case None
    then show ?thesis
      using close_inv [OF assms(2)] close_inv [of c1] assms(2) by (simp add: remote_flush_def Let_def c1_def)
  next
    case (Some fb)
    then obtain fin b where f: "send_rest (r_buf r) (sys_send (unsent (r_buf r)) (e_send env)) = Some (fin, b)"
      by (cases fb) auto
    note b = send_rest_ok [OF d(4) f]
    have "up_inv lc cfg sent wire s r c1 [] (unsent b)"
      unfolding c1_def using up by (intro up_inv_sent) (simp flip: b(2))
    then have up': "up_inv lc cfg sent wire s' r' (put_server s' c1) [] (unsent b)"
      if "s_e_ctx s' = s_e_ctx s" "s_abuf s' = s_abuf s" "r_direct r' = r_direct r" for s' r'
      using that by (subst up_inv_cong [of _ s _ r _ c1]) simp_all
    have part: "conn_inv lc cfg stwf sent wire dwf (put_server (s\<lparr>s_remote := Some (r\<lparr>r_buf := b\<rparr>)\<rparr>) c1)"
      using up' d assms(2-4) b(1) by (simp add: conn_inv_def late_inv_def down_inv_def c1_def)
    have all: "conn_inv lc cfg stwf sent wire dwf
        (put_server (s\<lparr>s_recv_io := True, s_remote := Some (r\<lparr>r_buf := b, r_send_io := False\<rparr>)\<rparr>) c1)" if fin
      using up' d assms(2-4) b(1,3) that by (simp add: conn_inv_def late_inv_def down_inv_def c1_def)
    show ?thesis
      using f part all close_inv [OF assms(2)] by (cases fin) (simp_all add: remote_flush_def Let_def c1_def)
  qed
qed

lemma remote_send_cb_ok:
  assumes "conn_inv lc cfg stwf sent wire dwf c" "c_server c = Some s" "s_remote s = Some r" "r_send_io r"
  shows "\<exists>c'. remote_send_cb env c = Inr c' \<and> conn_inv lc cfg stwf sent wire dwf c'"
proof -
  have i: "late_inv lc cfg sent wire s r c" "stwf (c_state c)" "dwf (s_d_ctx s)" "buf_ok (s_buf s)"
    using assms by (auto simp: conn_inv_def)
  define r1 where "r1 = r\<lparr>r_send_connected := True, r_watcher := False, r_recv_io := True\<rparr>"
  show ?thesis
  proof (cases "r_send_connected r \<or> \<not> e_peername env")
    case True
    then show ?thesis
      using assms(2,3) remote_flush_ok [OF i(1-3) assms(4)] close_inv [OF i(2)] by (auto simp: remote_send_cb_def)
  next
    case False
    then have n: "\<not> s_send_io s"
      using i(1) by (auto simp: late_inv_def down_inv_def)
    then have l1: "late_inv lc cfg sent wire s r1 c"
      using i(1) assms(4) by (intro late_inv_down [OF i(1)]) (auto simp: r1_def late_inv_def down_inv_def)
    have "conn_inv lc cfg stwf sent wire dwf (put_server (s\<lparr>s_recv_io := True, s_remote := Some (r1\<lparr>r_send_io := False\<rparr>)\<rparr>) c)"
      if "len (r_buf r) = 0"
    proof -
      have "up_inv lc cfg sent wire (s\<lparr>s_recv_io := True, s_remote := Some (r1\<lparr>r_send_io := False\<rparr>)\<rparr>) (r1\<lparr>r_send_io := False\<rparr>)
          (put_server (s\<lparr>s_recv_io := True, s_remote := Some (r1\<lparr>r_send_io := False\<rparr>)\<rparr>) c) [] (unsent (r_buf r))"
        using i(1) by (subst up_inv_cong [of _ s _ r _ c]) (simp_all add: r1_def late_inv_def)
      then show ?thesis
        using l1 i that by (simp add: conn_inv_def late_inv_def down_inv_def r1_def)
    qed
    then show ?thesis
      using False assms(2,3) remote_flush_ok [OF l1 i(2,3)] assms(4)
      by (simp add: remote_send_cb_def Let_def r1_def)
  qed
qed

lemma accept_cb_ok:
  assumes "stwf st"
  shows "\<exists>c. accept_cb lc cr fast_open st = Inr c \<and> conn_inv lc cfg stwf sent wire dwf c"
proof -
  obtain e st1 sl where e: "cr_ctx_init cr (cr_cipher cr) True st = Inr (e, st1)" "stwf st1" "sent sl [] e"
    using init_sender [OF assms] by blast
  obtain d st2 where d: "cr_ctx_init cr (cr_cipher cr) False st1 = Inr (d, st2)" "stwf st2" "dwf d"
    using init_receiver [OF e(2)] by blast
  have "buf_ok (snd (balloc lc SOCKET_BUF_SIZE))" "len (snd (balloc lc SOCKET_BUF_SIZE)) = 0" "idx (snd (balloc lc SOCKET_BUF_SIZE)) = 0"
    by (simp_all add: buf_ok_def balloc_def ss_malloc_def)
  then show ?thesis
    using e d by (auto simp: accept_cb_def new_server_def conn_inv_def early_inv_def client_in_def remote_out_def seen_def contents_def
        List.map_filter_def)
qed

end

section \<open>Steps of the event loop\<close>

text \<open>
  A callback of a connection, with the results of its system calls. libev calls it only while
  the watcher is started: the two of the application's socket, the timer that stands in for
  them after the handshake, the two of the remote's socket, and the timer of the connection attempt.
\<close>

inductive conn_step :: "libc \<Rightarrow> crypto_t \<Rightarrow> config \<Rightarrow> conn \<Rightarrow> (fault + conn) option \<Rightarrow> bool"
  for lc cr cfg where
  recv: "c_server c = Some s \<Longrightarrow> (if e_timer env then s_delayed s else s_recv_io s) \<Longrightarrow>
     conn_step lc cr cfg c (server_recv_cb lc cr cfg env c)"
| send: "c_server c = Some s \<Longrightarrow> s_send_io s \<Longrightarrow> conn_step lc cr cfg c (Some (server_send_cb env c))"
| remote_recv: "c_server c = Some s \<Longrightarrow> s_remote s = Some r \<Longrightarrow> r_recv_io r \<Longrightarrow>
     conn_step lc cr cfg c (Some (remote_recv_cb cr env c))"
| remote_send: "c_server c = Some s \<Longrightarrow> s_remote s = Some r \<Longrightarrow> r_send_io r \<Longrightarrow>
     conn_step lc cr cfg c (Some (remote_send_cb env c))"
| timeout: "c_server c = Some s \<Longrightarrow> s_remote s = Some r \<Longrightarrow> r_watcher r \<Longrightarrow>
     conn_step lc cr cfg c (Some (Inr (remote_timeout_cb c)))"

inductive_cases conn_stepE: "conn_step lc cr cfg c res"

text \<open>
  The states a connection goes through, from \<^verbatim>\<open>accept\<close> on. The random generator and the nonce
  filter are shared with the other connections, so they may change between two callbacks.
\<close>

inductive conn_reachable ::
  "(crypto_state \<Rightarrow> bool) \<Rightarrow> libc \<Rightarrow> crypto_t \<Rightarrow> config \<Rightarrow> conn \<Rightarrow> bool"
  for stwf lc cr cfg where
  accept: "stwf st \<Longrightarrow> accept_cb lc cr fast_open st = Inr c \<Longrightarrow> conn_reachable stwf lc cr cfg c"
| step: "conn_reachable stwf lc cr cfg c \<Longrightarrow> conn_step lc cr cfg c (Some (Inr c')) \<Longrightarrow> conn_reachable stwf lc cr cfg c'"
| share: "conn_reachable stwf lc cr cfg c \<Longrightarrow> stwf st \<Longrightarrow>
     conn_reachable stwf lc cr cfg (c\<lparr>c_state := st, c_fast_open := fo, c_tx := tx, c_rx := rx\<rparr>)"

context tcp_crypto
begin

lemma conn_step_ok:
  assumes "cfg_ok cfg" "conn_inv lc cfg stwf sent wire dwf c" "conn_step lc cr cfg c res"
  shows "\<exists>c'. res = Some (Inr c') \<and> conn_inv lc cfg stwf sent wire dwf c'"
  using assms(3)
proof (rule conn_stepE)
  fix s env
  assume "res = server_recv_cb lc cr cfg env c" "c_server c = Some s" "if e_timer env then s_delayed s else s_recv_io s"
  then show ?thesis
    using server_recv_cb_ok [OF assms(1,2)] by (simp add: recv_enabled_def)
next
  fix s r
  assume "res = Some (Inr (remote_timeout_cb c))"
  then show ?thesis
    using assms(2) close_inv [of c] by (simp add: remote_timeout_cb_def conn_inv_def)
qed (use server_send_cb_ok [OF assms(2)] remote_recv_cb_ok [OF assms(2)] remote_send_cb_ok [OF assms(2)] in \<open>auto dest: sym\<close>)

lemma conn_share_ok:
  assumes "conn_inv lc cfg stwf sent wire dwf c" "stwf st"
  shows "conn_inv lc cfg stwf sent wire dwf (c\<lparr>c_state := st, c_fast_open := fo, c_tx := tx, c_rx := rx\<rparr>)"
proof -
  define c' where "c' = c\<lparr>c_state := st, c_fast_open := fo, c_tx := tx, c_rx := rx\<rparr>"
  have same: "client_in c' = client_in c" "remote_out c' = remote_out c" "seen c' = seen c" "c_server c' = c_server c" "c_state c' = st"
    using assms(2) by (simp_all add: c'_def client_in_def remote_out_def seen_def)
  show ?thesis
    using assms unfolding c'_def [symmetric] conn_inv_def early_inv_def late_inv_def up_inv_def same by simp
qed

theorem conn_reachable_inv:
  assumes "cfg_ok cfg" "conn_reachable stwf lc cr cfg c"
  shows "conn_inv lc cfg stwf sent wire dwf c"
  using assms(2)
proof induction
  case (accept st fast_open c)
  then show ?case
    using accept_cb_ok [of st lc fast_open] by auto
next
  case (step c c')
  then show ?case
    using conn_step_ok [OF assms(1)] by blast
qed (rule conn_share_ok)

end

end
