(* ===== verification/SS_LocalLive.thy ===== *)
theory SS_LocalLive
  imports SS_LocalInv
begin

text \<open>
  No connection of the relay gets stuck: every open connection has a watcher that is started,
  in each direction. The lemmas hold for any cipher and any configuration, as they only look
  at the watchers.
\<close>

definition s_watch :: "server_t \<Rightarrow> bool" where
  "s_watch s \<longleftrightarrow>
     (case s_remote s of
        None \<Rightarrow> s_recv_io s
      | Some r \<Rightarrow> s_stage s = STAGE_STREAM \<and> (s_recv_io s \<or> r_send_io r) \<and> (r_send_connected r \<longrightarrow> r_recv_io r \<or> s_send_io s))"

definition watch_inv :: "conn \<Rightarrow> bool" where
  "watch_inv c \<longleftrightarrow> (case c_server c of None \<Rightarrow> True | Some s \<Rightarrow> s_watch s)"

lemma watch_put [simp]:
  "watch_inv (put_server s c) \<longleftrightarrow> s_watch s" "watch_inv (close_and_free c)" "watch_inv (emit x c) \<longleftrightarrow> watch_inv c"
  by (simp_all add: watch_inv_def)

lemma watch_cong:
  "s_stage s' = s_stage s \<Longrightarrow> s_remote s' = s_remote s \<Longrightarrow> s_recv_io s' = s_recv_io s \<Longrightarrow> s_send_io s' = s_send_io s \<Longrightarrow> s_watch s' \<longleftrightarrow> s_watch s"
  by (simp add: s_watch_def cong: option.case_cong)

lemma watch_wait:
  "s_remote s = Some r \<Longrightarrow> s_watch s \<Longrightarrow> r_send_connected r' = r_send_connected r \<Longrightarrow> r_recv_io r' = r_recv_io r \<Longrightarrow>
     watch_inv (wait_send s r' timer c)"
  by (simp add: wait_send_def s_watch_def)

text \<open>Encryption does not touch the watchers.\<close>

lemma stream_encrypt_watch:
  assumes "stream_encrypt_buf lc cr s r c = Inr (Some (s', r'), c')"
  shows "s_stage s' = s_stage s \<and> s_remote s' = s_remote s \<and> s_recv_io s' = s_recv_io s \<and> s_send_io s' = s_send_io s
     \<and> r' = r\<lparr>r_buf := r_buf r'\<rparr>"
  using assms
  by (auto simp: stream_encrypt_buf_def Let_def split: if_splits sum.splits prod.splits option.splits)

lemma server_stream_watch:
  assumes "server_stream lc cr cfg env s c = Inr c'" "s_watch s"
  shows "watch_inv c'"
proof (cases "s_remote s")
  case (Some r)
  show ?thesis
  proof (cases "\<exists>s' r' c1. stream_encrypt_buf lc cr s r c = Inr (Some (s', r'), c1)")
    case True
    then obtain s' r' c1 where e: "stream_encrypt_buf lc cr s r c = Inr (Some (s', r'), c1)"
      by blast
    note w = stream_encrypt_watch [OF e]
    have flags: "r_send_connected r' = r_send_connected r" "r_recv_io r' = r_recv_io r" "r_send_io r' = r_send_io r"
      using w by (metis remote_t.select_convs(5-7) remote_t.surjective remote_t.update_convs(3))+
    have "s_watch s'"
      using assms(2) watch_cong [of s' s] w by simp
    then have "watch_inv (wait_send s' x timer c2)"
      if "r_send_connected x = r_send_connected r" "r_recv_io x = r_recv_io r" for x timer c2
      using watch_wait [of s' r x] that w Some by simp
    moreover have "watch_inv (put_server (s'\<lparr>s_remote := Some (r'\<lparr>r_buf := b\<rparr>)\<rparr>) c2)" for b c2
      using assms(2) w Some flags by (simp add: s_watch_def)
    ultimately show ?thesis
      using assms(1) Some e flags
      by (auto simp: server_stream_def stream_send_def stream_connect_def Let_def split: if_splits sys.splits)
  qed (use assms(1) Some in \<open>auto simp: server_stream_def split: sum.splits prod.splits option.splits\<close>)
qed (use assms(1) in \<open>auto simp: server_stream_def\<close>)

text \<open>The handshake: the reading watcher of the application's socket stays on.\<close>

lemma put_recv_buf_watch [simp]: "s_watch (put_recv_buf b s) \<longleftrightarrow> s_watch s"
  by (auto simp: put_recv_buf_def s_watch_def split: option.splits)

lemma reply_watch:
  assumes "server_handshake_reply env udp s c = (ok, c')" "watch_inv c"
  shows "watch_inv c'"
  using assms by (auto simp: server_handshake_reply_def Let_def split: if_splits sys.splits)

lemma method_select_watch:
  assumes "method_select env s c = Inr (again, c')" "s_watch s" "s_stage s \<noteq> STAGE_STREAM"
  shows "watch_inv c'"
proof -
  have "s_watch (s\<lparr>s_stage := x\<rparr>)" for x
    using assms(2,3) by (auto simp: s_watch_def split: option.splits)
  then show ?thesis
    using assms by (auto simp: method_select_def rd_def Let_def split: if_splits)
qed

lemma start_remote_watch:
  assumes "start_remote s r sni c = (again, c')" "s_recv_io s" "s_stage s = STAGE_STREAM" "\<not> r_send_connected r"
  shows "watch_inv c'"
  using assms by (auto simp: start_remote_def Let_def s_watch_def split: if_splits)

lemma choose_remote_watch:
  assumes "choose_remote lc cfg env s route = Inr (proxied, Some r)" "s_remote s = None"
  shows "\<not> r_send_connected r"
  using assms
  by (auto simp: choose_remote_def create_remote_def new_remote_def rd_def Let_def split: option.splits if_splits sum.splits)

lemma handshake_connect_watch:
  assumes "handshake_connect lc cr cfg env atyp ab sni sniffed s c = Inr (again, c')" "s_recv_io s" "s_stage s = STAGE_STREAM" "s_remote s = None"
  shows "watch_inv c'"
  using assms(1-3) choose_remote_watch [OF _ assms(4)] start_remote_watch
  by (auto simp: handshake_connect_def Let_def split: sum.splits prod.splits option.splits if_splits)

lemma server_handshake_watch:
  assumes run: "server_handshake lc cr cfg env s c = Inr (again, c')" and w: "s_watch s" "s_stage s \<noteq> STAGE_STREAM"
  shows "watch_inv c'"
proof -
  have r: "s_remote s = None" "s_recv_io s"
    using w by (auto simp: s_watch_def split: option.splits)
  have keep: "s_watch (s\<lparr>s_abuf := x\<rparr>)" "s_watch (s\<lparr>s_abuf := x, s_stage := y, s_delayed := z\<rparr>)" for x y z
    using r by (simp_all add: s_watch_def)
  have conn: "watch_inv c2"
    if "handshake_connect lc cr cfg env atyp ab sni h (put_recv_buf b (s\<lparr>s_abuf := x, s_stage := STAGE_STREAM\<rparr>)) c1 = Inr (again, c2)"
    for atyp ab sni h b x c1 c2
    by (rule handshake_connect_watch [OF that]) (use r in \<open>simp_all add: put_recv_buf_def\<close>)
  have rep: "watch_inv c2" if "server_handshake_reply env u s1 (put_server s2 c) = (ok, c2)" "s_watch s2" for u s1 s2 ok c2
    using reply_watch [OF that(1)] that(2) by simp
  show ?thesis
    using run w(1) keep conn rep unfolding server_handshake_def
    by (auto simp: rd_def Let_def split: if_splits option.splits sum.splits prod.splits)
qed

lemma recv_loop_watch:
  assumes "recv_loop lc cr cfg env c = Some res" "watch_inv c"
  shows "\<forall>c'. res = Inr c' \<longrightarrow> watch_inv c'"
proof -
  have "watch_inv c \<longrightarrow> (\<forall>c'. res = Inr c' \<longrightarrow> watch_inv c')"
  proof (rule recv_loop.raw_induct [OF _ assms(1), where P = "\<lambda>lc cr cfg env c res. watch_inv c \<longrightarrow> (\<forall>c'. res = Inr c' \<longrightarrow> watch_inv c')"], goal_cases)
    case (1 loop lc cr cfg env c res)
    then show ?case
      using server_stream_watch method_select_watch server_handshake_watch
      by (auto simp: watch_inv_def [of c] split: option.splits if_splits sum.splits prod.splits)
  qed
  then show ?thesis
    using assms(2) by blast
qed

lemma server_recv_watch:
  assumes "server_recv_cb lc cr cfg env c = Some (Inr c')" "watch_inv c"
  shows "watch_inv c'"
proof -
  have put: "watch_inv (put_server (s\<lparr>s_delayed := False\<rparr>) c1)" if "c_server c = Some s" for s c1
    using assms(2) watch_cong [of "s\<lparr>s_delayed := False\<rparr>" s] that by (simp add: watch_inv_def [of c])
  show ?thesis
    using assms put recv_loop_watch
    by (auto simp: server_recv_cb_def Let_def split: option.splits if_splits sys.splits sum.splits)
qed

lemma server_send_watch:
  assumes "server_send_cb env c = Inr c'" "watch_inv c"
  shows "watch_inv c'"
  using assms unfolding watch_inv_def [of c]
  by (auto simp: server_send_cb_def Let_def s_watch_def split: option.splits if_splits bool.splits)

lemma deliver_watch:
  assumes "s_remote s = Some r" "s_watch s"
  shows "watch_inv (deliver env s r c)"
  using assms by (auto simp: deliver_def Let_def s_watch_def split: sys.splits)

lemma remote_recv_watch:
  assumes "remote_recv_cb cr env c = Inr c'" "watch_inv c"
  shows "watch_inv c'"
proof -
  have "watch_inv (deliver env (s\<lparr>s_buf := b\<rparr>) r c1)" "watch_inv (deliver env (s\<lparr>s_buf := b, s_d_ctx := d\<rparr>) r c1)"
      "s_watch s" "s_watch (s\<lparr>s_buf := b, s_d_ctx := d\<rparr>)"
    if "c_server c = Some s" "s_remote s = Some r" for s r b d c1
    using assms(2) that by (auto intro!: deliver_watch simp: watch_inv_def [of c] s_watch_def)
  then show ?thesis
    using assms(1)
    by (auto simp: remote_recv_cb_def Let_def split: option.splits if_splits sys.splits sum.splits prod.splits crypto_rc.splits)
qed

lemma remote_send_watch:
  assumes "remote_send_cb env c = Inr c'" "watch_inv c" "\<And>s r. c_server c = Some s \<Longrightarrow> s_remote s = Some r \<Longrightarrow> r_send_io r"
  shows "watch_inv c'"
  using assms unfolding watch_inv_def [of c]
  by (auto simp: remote_send_cb_def remote_flush_def Let_def s_watch_def split: option.splits if_splits bool.splits)

text \<open>The watchers of every connection that was accepted.\<close>

lemma conn_step_watch:
  assumes "conn_step lc cr cfg c res" "watch_inv c" "res = Some (Inr c')"
  shows "watch_inv c'"
  using assms
  by cases (auto dest: server_recv_watch server_send_watch remote_recv_watch remote_send_watch simp: remote_timeout_cb_def)

lemma conn_reachable_watch:
  assumes "conn_reachable stwf lc cr cfg c"
  shows "watch_inv c"
  using assms
proof induction
  case (accept st fast_open c)
  then show ?case
    by (auto simp: accept_cb_def new_server_def watch_inv_def s_watch_def split: sum.splits)
next
  case (step c c')
  then show ?case
    using conn_step_watch by blast
qed (simp add: watch_inv_def)

end
