(* ===== verification/SS_LocalDialogue.thy ===== *)
theory SS_LocalDialogue
  imports SS_LocalInv
begin

text \<open>
  The dialogue of an application that behaves: a greeting, a CONNECT request and payload in one
  segment take a new connection through all stages in one call of \<^const>\<open>server_recv_cb\<close>.
\<close>

definition client_out :: "conn \<Rightarrow> bytes" where
  "client_out c = concat (List.map_filter (\<lambda>x. case x of ToClient bs \<Rightarrow> Some bs | _ \<Rightarrow> None) (c_log c))"

lemma client_out_simps [simp]:
  "client_out (emit (FromClient bs) c) = client_out c"
  "client_out (emit (FromRemote bs) c) = client_out c"
  "client_out (emit (ToClient bs) c) = client_out c @ bs"
  "client_out (emit (ToRemote bs) c) = client_out c"
  "client_out (put_server s c) = client_out c"
  "client_out (c\<lparr>c_state := st\<rparr>) = client_out c"
  "client_out (c\<lparr>c_tx := n\<rparr>) = client_out c" "client_out (c\<lparr>c_rx := n\<rparr>) = client_out c"
  "client_out (c\<lparr>c_fast_open := f\<rparr>) = client_out c" "client_out (c\<lparr>c_server := sv\<rparr>) = client_out c"
  "client_out (emit Socket c) = client_out c"
  by (simp_all add: client_out_def emit_def List.map_filter_def put_server_def)

lemma method_select_accept:
  assumes "recv_buf s = b" "s_remote s = None" "buf_ok b" "contents b = g @ rest" "greeting_ok g" "rest \<noteq> []"
  shows "method_select env s c = Inr (True, put_server (s\<lparr>s_stage := STAGE_HANDSHAKE, s_buf := bconsume b (length g)\<rparr>)
     (emit (ToClient (accepted [5, 0] (e_send_method env))) c))"
proof -
  obtain ms where g: "g = [5, of_nat (length ms)] @ ms" "length ms < 256" "0 \<in> set ms"
    using assms(5) by (auto simp: greeting_ok_def)
  have l: "len b = length g + length rest" "len b \<le> length (data b)"
    using assms(3,4) length_contents [OF buf_ok_wf [OF assms(3)]] by (auto simp: buf_ok_def)
  have d: "take (len b) (data b) = [5, of_nat (length ms)] @ ms @ rest"
    using assms(4) g(1) by (simp add: contents_def)
  have nth: "data b ! i = ([5, of_nat (length ms)] @ ms @ rest) ! i" if "i < len b" for i
    using that nth_take [OF that, of "data b"] d by simp
  have n1: "unat (data b ! 1) = length ms" "data b ! 0 = 5"
    using nth [of 0] nth [of 1] l g by (simp_all add: unat_of_nat)
  have "take (length ms) (drop 2 (data b)) = take (length ms) (drop 2 (take (len b) (data b)))"
    using l g(1) by (simp add: drop_take)
  also have "\<dots> = ms"
    unfolding d by simp
  finally have "take (length ms) (drop 2 (data b)) = ms" .
  moreover have "0 < length rest"
    using assms(6) by simp
  ultimately show ?thesis
    using assms(1,2) n1 l g by (auto simp: method_select_def rd_def Let_def put_recv_buf_def)
qed

lemma read_addr_accept:
  assumes "buf_ok b" "buf_ok ab" "contents b = q @ p" "socks_request q a"
  shows "\<exists>ab'. read_addr b (ab\<lparr>idx := 0\<rparr>) (a ! 0) = Inr (Some ab') \<and> buf_ok ab' \<and> contents ab' = a
     \<and> len ab' = length a \<and> length a < 300 \<and> 4 \<le> len b \<and> data b ! 1 = 1 \<and> data b ! 3 = a ! 0 \<and> a ! 0 \<in> {1, 3, 4}
     \<and> length q = 3 + length a"
proof -
  obtain ver rsv where q: "q = [ver, 1, rsv] @ a" and a: "addr_ok a"
    using assms(4) by (auto simp: socks_request_def)
  have l: "len b = 3 + length a + length p" and a1: "1 \<le> length a" "a ! 0 \<in> {1, 3, 4}"
    using assms(1,3) length_contents [OF buf_ok_wf [OF assms(1)]] a q by (auto simp: addr_ok_def Suc_le_eq)
  have nth: "data b ! i = ([ver, 1, rsv] @ a @ p) ! i" if "i < len b" for i
    using that assms(3) q nth_take [OF that, of "data b"] by (simp add: contents_def)
  have "a \<noteq> []"
    using a1(1) by auto
  then have b3: "data b ! 3 = a ! 0" "data b ! 1 = 1"
    using nth [of 3] nth [of 1] l a1 by (auto simp: nth_append)
  have b4: "data b ! 4 = a ! 1" if "2 \<le> length a"
    using nth [of 4] l that by (simp add: nth_append)
  define n where "n = length a - 1"
  have n: "n = (if a ! 0 = 1 then 6 else if a ! 0 = 3 then 3 + unat (data b ! 4) else 18)" "n < 299"
    using a a1 b4 less_trans [OF unat_u8_less [of "a ! 1"], of 296] by (auto simp: addr_ok_def n_def)
  have "4 < length (data b)"
    using assms(1) by (simp add: buf_ok_def SOCKET_BUF_SIZE_def)
  then have "read_addr b (ab\<lparr>idx := 0\<rparr>) (a ! 0) = copy_addr b (ab\<lparr>idx := 0\<rparr>) (a ! 0) n"
    using a1(2) by (auto simp: read_addr_def n numeral_3_eq_3)
  moreover have "4 + n \<le> len b"
    using l a1 by (simp add: n_def)
  moreover have "take (1 + n) (drop 3 (contents b)) = a"
    using a1 by (simp add: assms(3) q n_def)
  ultimately show ?thesis
    using copy_addr_ok [OF assms(1,2), of n "a ! 0"] n(2) b3 l a1 q by (auto simp: n_def)
qed

text \<open>What the environment has to do for it: no list, a socket, and a connection that is being made.\<close>

definition dialogue_env :: "config \<Rightarrow> env \<Rightarrow> bool" where
  "dialogue_env cfg env \<longleftrightarrow> \<not> cfg_acl cfg \<and> \<not> e_timer env \<and> e_send_method env = Ret 2 \<and> e_send_reply env = Ret 10
     \<and> e_socket env \<and> (cfg_vpn cfg \<longrightarrow> e_protect env) \<and> e_connect env = CONNECT_IN_PROGRESS"

text \<open>No name is looked for in the payload.\<close>

definition no_sniff :: "bytes \<Rightarrow> bool" where
  "no_sniff a \<longleftrightarrow> a ! 0 = 3 \<or> from_be16 (a ! (length a - 2)) (a ! (length a - 1)) \<notin> {80, 443}"

context tcp_crypto
begin

lemma handshake_connect_accept:
  assumes "cfg_ok cfg" "dialogue_env cfg env" "stwf (c_state c)" "sent sl [] (s_e_ctx s)" "s_remote s = None"
    and "buf_ok ab" "contents ab = a" "addr_ok a" "length a < 300"
    and "buf_ok (s_buf s)" "len (s_buf s) \<le> SOCKET_BUF_SIZE" "len (s_buf s) > 0"
  shows "\<exists>eb ctx st r. handshake_connect lc cr cfg env (a ! 0) ab False [] s c
       = Inr (True, put_server (s\<lparr>s_abuf := Some eb, s_e_ctx := ctx, s_remote := Some r\<rparr>) ((emit Socket c)\<lparr>c_state := st\<rparr>))
     \<and> buf_wf eb \<and> contents eb = wire sl [a] \<and> sent sl [a] ctx \<and> stwf st
     \<and> \<not> r_direct r \<and> \<not> r_send_connected r \<and> \<not> r_recv_io r \<and> buf_wf (r_buf r) \<and> SOCKET_BUF_SIZE \<le> capacity (r_buf r)
     \<and> len (r_buf r) = len (s_buf s) \<and> contents (r_buf r) = contents (s_buf s)"
proof -
  have "payload_ok (contents ab)"
    using assms(7-9) by (auto simp: addr_ok_def CHUNK_SIZE_MASK_def)
  then obtain eb ctx st where e: "cr_encrypt cr ab (s_e_ctx s) SOCKET_BUF_SIZE (c_state c) = Inr (CRYPTO_OK, eb, ctx, st)"
      "buf_wf eb" "stwf st" "sent sl [a] ctx" "contents eb = wire sl [a]"
    using encrypt_payload [OF assms(3,4) buf_ok_wf [OF assms(6)], of SOCKET_BUF_SIZE] assms(7) wire_Nil by auto
  have idx: "e_rand env mod length (cfg_remote_addr cfg) < length (cfg_remote_addr cfg)"
    using assms(1) by (simp add: cfg_ok_def)
  define r0 where "r0 = (new_remote lc)\<lparr>r_addr := cfg_remote_addr cfg ! (e_rand env mod length (cfg_remote_addr cfg)), r_direct := False\<rparr>"
  define r where "r = r0\<lparr>r_buf := (r_buf r0)\<lparr>data := memcpy_at (data (r_buf r0)) 0 (take (len (s_buf s)) (data (s_buf s))), len := len (s_buf s)\<rparr>\<rparr>"
  have r0: "length (data (r_buf r0)) = SOCKET_BUF_SIZE" "capacity (r_buf r0) = SOCKET_BUF_SIZE" "\<not> r_direct r0"
      "\<not> r_send_connected r0" "\<not> r_recv_io r0"
    by (simp_all add: r0_def new_remote_def balloc_def ss_malloc_def)
  have "length (contents (s_buf s)) = len (s_buf s)"
    using assms(10) by (simp add: buf_ok_wf)
  then have r: "buf_wf (r_buf r)" "contents (r_buf r) = contents (s_buf s)" "len (r_buf r) = len (s_buf s)" "capacity (r_buf r) = SOCKET_BUF_SIZE"
    using assms(11) r0 length_memcpy_at [of 0 "contents (s_buf s)" "data (r_buf r0)"] take_memcpy_at_0 [of "contents (s_buf s)" "data (r_buf r0)"]
    by (auto simp: r_def buf_wf_def contents_def)
  have "handshake_connect lc cr cfg env (a ! 0) ab False [] s c
      = Inr (True, put_server (s\<lparr>s_abuf := Some eb, s_e_ctx := ctx, s_remote := Some r\<rparr>) ((emit Socket c)\<lparr>c_state := st\<rparr>))"
    using assms(2,5,12) e idx r0
    by (simp add: handshake_connect_def acl_route_def choose_remote_def create_remote_def dialogue_env_def rd_def Let_def
        start_remote_def recv_buf_def r_def flip: r0_def)
  moreover have "\<not> r_direct r" "\<not> r_send_connected r" "\<not> r_recv_io r"
    using r0 by (simp_all add: r_def)
  ultimately show ?thesis
    using e(2-5) r by (intro exI [of _ eb] exI [of _ ctx] exI [of _ st] exI [of _ r]) simp
qed

end

context tcp_crypto
begin

lemma server_handshake_accept:
  assumes cfg: "cfg_ok cfg" "dialogue_env cfg env" and sh: "shaking s c" "s_stage s = STAGE_HANDSHAKE"
    and req: "contents (s_buf s) = q @ p" "socks_request q a" "p \<noteq> []" "no_sniff a" and sl: "sent sl [] (s_e_ctx s)"
  shows "\<exists>s1 c1 eb ctx r. server_handshake lc cr cfg env s c
       = Inr (True, put_server (s1\<lparr>s_abuf := Some eb, s_e_ctx := ctx, s_remote := Some r\<rparr>) c1)
     \<and> s1 = s\<lparr>s_abuf := s_abuf s1, s_stage := STAGE_STREAM, s_buf := s_buf s1\<rparr>
     \<and> buf_wf eb \<and> contents eb = wire sl [a] \<and> sent sl [a] ctx \<and> stwf (c_state c1)
     \<and> \<not> r_direct r \<and> \<not> r_send_connected r \<and> \<not> r_recv_io r \<and> buf_wf (r_buf r) \<and> SOCKET_BUF_SIZE \<le> capacity (r_buf r)
     \<and> len (r_buf r) \<le> SOCKET_BUF_SIZE \<and> contents (r_buf r) = p
     \<and> client_out c1 = client_out c @ [5, 0, 0, 1, 0, 0, 0, 0, 0, 0] \<and> remote_out c1 = remote_out c \<and> c_fast_open c1 = c_fast_open c"
proof -
  define b where "b = s_buf s"
  have b: "buf_ok b" "idx b = 0" "len b \<le> SOCKET_BUF_SIZE" "recv_buf s = b" "s_remote s = None" "stwf (c_state c)"
    using sh by (auto simp: shaking_def early_inv_def b_def recv_buf_def)
  obtain ab where ab: "s_abuf s = Some ab" "buf_ok ab"
    using sh by (auto simp: shaking_def early_inv_def)
  obtain ab' where r: "read_addr b (ab\<lparr>idx := 0\<rparr>) (a ! 0) = Inr (Some ab')" "buf_ok ab'" "contents ab' = a"
      "len ab' = length a" "length a < 300" "4 \<le> len b" "data b ! 1 = 1" "data b ! 3 = a ! 0" "a ! 0 \<in> {1, 3, 4}" "length q = 3 + length a"
    using read_addr_accept [OF b(1) ab(2), of q p a] req by (auto simp: b_def)
  have lb: "len b = 3 + length a + length p" "3 + length a \<le> len b"
    using length_contents [OF buf_ok_wf [OF b(1)]] req(1) r(10) by (auto simp: b_def)
  define s1 where "s1 = s\<lparr>s_abuf := Some ab', s_stage := STAGE_STREAM, s_buf := bconsume b (3 + length a)\<rparr>"
  define c1 where "c1 = emit (ToClient [5, 0, 0, 1, 0, 0, 0, 0, 0, 0]) (put_server (s\<lparr>s_abuf := Some ab'\<rparr>) c)"
  have sz: "1 < length (data b)" "3 < length (data b)"
    using b(1) by (simp_all add: buf_ok_def SOCKET_BUF_SIZE_def)
  have "2 \<le> length a" "addr_ok a"
    using req(2) by (auto simp: socks_request_def addr_ok_def)
  moreover have "drop (length a - 2) a ! 0 = a ! (length a - 2)" "drop (length a - 2) a ! 1 = a ! (length a - 1)"
    using \<open>2 \<le> length a\<close> by (auto simp: Suc_diff_le numeral_2_eq_2 intro!: arg_cong [of _ _ "nth a"])
  ultimately have sn: "sniff lc cfg (a ! 0) (from_be16 (drop (length a - 2) a ! 0) (drop (length a - 2) a ! 1)) d = Inr (0, None)" for d
    using req(4) by (auto simp: sniff_def no_sniff_def)
  have "server_handshake lc cr cfg env s c = handshake_connect lc cr cfg env (a ! 0) ab' False [] s1 c1"
    using r cfg(2) sh(2) ab b(5) sz sn
    unfolding server_handshake_def b(4) Let_def
    by (simp add: rd_in server_handshake_reply_def dialogue_env_def accepted_def sys_send_def sniffed_host_def put_recv_buf_def s1_def c1_def)
  moreover have "buf_ok (s_buf s1)" "len (s_buf s1) \<le> SOCKET_BUF_SIZE" "len (s_buf s1) > 0" "contents (s_buf s1) = p"
    using bconsume_ok [OF b(1,2) lb(2)] b(3) lb(1) req(1,3) r(10) by (auto simp: s1_def b_def)
  moreover have "stwf (c_state c1)" "sent sl [] (s_e_ctx s1)" "s_remote s1 = None"
    using b sl by (auto simp: c1_def s1_def)
  ultimately obtain eb ctx st rr where h: "server_handshake lc cr cfg env s c = Inr (True,
        put_server (s1\<lparr>s_abuf := Some eb, s_e_ctx := ctx, s_remote := Some rr\<rparr>) ((emit Socket c1)\<lparr>c_state := st\<rparr>))"
      "buf_wf eb" "contents eb = wire sl [a]" "sent sl [a] ctx" "stwf st"
      "\<not> r_direct rr" "\<not> r_send_connected rr" "\<not> r_recv_io rr" "buf_wf (r_buf rr)" "SOCKET_BUF_SIZE \<le> capacity (r_buf rr)"
      "len (r_buf rr) \<le> SOCKET_BUF_SIZE" "contents (r_buf rr) = p"
    using handshake_connect_accept [OF cfg _ _ _ r(2,3) \<open>addr_ok a\<close> r(5), of c1 sl s1 lc] by auto
  show ?thesis
    by (rule exI [of _ s1], rule exI [of _ "(emit Socket c1)\<lparr>c_state := st\<rparr>"], rule exI [of _ eb], rule exI [of _ ctx], rule exI [of _ rr])
      (use h in \<open>simp add: s1_def c1_def\<close>)
qed

end

context tcp_crypto
begin

text \<open>The whole segment through \<^const>\<open>server_recv_cb\<close>, and the two chunks once the connection is there.\<close>

lemma server_stream_accept:
  assumes "s_remote s = Some r" "stwf (c_state c)" "sent sl [a] (s_e_ctx s)" "s_abuf s = Some eb" "buf_wf eb"
    and "contents eb = wire sl [a]" "\<not> r_direct r" "\<not> r_send_connected r" "buf_wf (r_buf r)"
    and "contents (r_buf r) = p" "p \<noteq> []" "len (r_buf r) \<le> SOCKET_BUF_SIZE" "dialogue_env cfg env" "\<not> c_fast_open c"
  shows "\<exists>c' s' r'. server_stream lc cr cfg env s c = Inr c' \<and> c_server c' = Some s' \<and> s_remote s' = Some r'
     \<and> \<not> r_direct r' \<and> r_send_io r' \<and> r_watcher r' \<and> \<not> r_send_connected r' \<and> s_abuf s' = None
     \<and> unsent (r_buf r') = wire sl [a, p] \<and> buf_wf (r_buf r') \<and> idx (r_buf r') = 0
     \<and> client_out c' = client_out c \<and> remote_out c' = remote_out c"
proof -
  have "payload_ok (contents (r_buf r))"
    using assms(9-12) length_contents [OF assms(9)] by (auto simp: CHUNK_SIZE_MASK_def SOCKET_BUF_SIZE_def)
  then obtain b' ctx' st' where e: "cr_encrypt cr (r_buf r) (s_e_ctx s) SOCKET_BUF_SIZE (c_state c) = Inr (CRYPTO_OK, b', ctx', st')"
      "buf_wf b'" "wire sl [a, p] = wire sl [a] @ contents b'"
    using encrypt_payload [OF assms(2,3,9), of SOCKET_BUF_SIZE] assms(10) by auto
  define pb where "pb = snd (bprepend lc b' eb SOCKET_BUF_SIZE)"
  have pb: "buf_wf pb" "contents pb = wire sl [a, p]"
    using bprepend_props [OF e(2), of eb lc SOCKET_BUF_SIZE] assms(5,6) e(3) by (auto simp: pb_def)
  show ?thesis
    using assms(1,4,7,8,13,14) e(1) pb
    by (auto simp: server_stream_def stream_encrypt_buf_def stream_connect_def dialogue_env_def must_protect_def wait_send_def Let_def
        unsent_contents buf_wf_def contents_def simp flip: pb_def)
qed

end

context tcp_crypto
begin

lemma accept_server:
  assumes "accept_cb lc cr fo st = Inr c"
  shows "\<exists>s. c_server c = Some s \<and> s_recv_io s \<and> \<not> s_delayed s \<and> s_remote s = None \<and> s_stage s = STAGE_INIT
     \<and> len (s_buf s) = 0 \<and> c_fast_open c = fo \<and> client_out c = [] \<and> remote_out c = []"
  using assms by (auto simp: accept_cb_def new_server_def client_out_def remote_out_def List.map_filter_def balloc_def split: sum.splits)

lemma accept_received:
  assumes "stwf st" "accept_cb lc cr fo st = Inr c" "length bs \<le> SOCKET_BUF_SIZE" "bs \<noteq> []" "\<not> e_timer env" "e_recv env = Ret bs"
  shows "\<exists>s c1. server_recv_cb lc cr cfg env c = recv_loop lc cr cfg env c1 \<and> loop_inv lc cfg c1 \<and> c_server c1 = Some s
     \<and> s_remote s = None \<and> s_stage s = STAGE_INIT \<and> contents (s_buf s) = bs
     \<and> client_out c1 = [] \<and> remote_out c1 = [] \<and> c_fast_open c1 = fo"
proof -
  obtain s where s: "c_server c = Some s" "s_recv_io s" "\<not> s_delayed s" "s_remote s = None" "s_stage s = STAGE_INIT"
      "len (s_buf s) = 0" "c_fast_open c = fo" "client_out c = []" "remote_out c = []"
    using accept_server [OF assms(2)] by blast
  have inv: "conn_inv lc cfg stwf sent wire dwf c"
    using accept_cb_ok [OF assms(1), of lc fo] assms(2) by auto
  have room: "recv_room (len (recv_buf s)) = SOCKET_BUF_SIZE" "recv_buf s = s_buf s"
    using s(4,6) by (simp_all add: recv_buf_def recv_room_le)
  obtain b where b: "recv_into (s_buf s) bs = Inr b"
      "loop_inv lc cfg (emit (FromClient bs) (put_server (put_recv_buf b (s\<lparr>s_delayed := False\<rparr>)) c))"
    using recv_read_ok [OF inv s(1,2), of bs] assms(3) room by auto
  define c1 where "c1 = emit (FromClient bs) (put_server (put_recv_buf b (s\<lparr>s_delayed := False\<rparr>)) c)"
  have "buf_ok (s_buf s)" "idx (s_buf s) = 0"
    using inv s(1,4) by (auto simp: conn_inv_def early_inv_def)
  then have "contents b = bs"
    using recv_into_ok [of "s_buf s" bs] b(1) assms(3) s(6) by (auto simp: buf_ok_def contents_def)
  moreover have "recv_buf (s\<lparr>s_delayed := False\<rparr>) = s_buf s"
    using s(4) by (simp add: recv_buf_def)
  then have "server_recv_cb lc cr cfg env c = recv_loop lc cr cfg env c1"
    using assms(3-6) s(1,3) room b(1) SOCKET_BUF_SIZE_def by (simp add: server_recv_cb_def sys_recv_def c1_def Let_def)
  ultimately show ?thesis
    using b(2) s by (intro exI [of _ "s\<lparr>s_delayed := False, s_buf := b\<rparr>"] exI [of _ c1]) (simp add: c1_def put_recv_buf_def)
qed

lemma dialogue_ok:
  assumes cfg: "cfg_ok cfg" "dialogue_env cfg env" and acc: "stwf st" "accept_cb lc cr False st = Inr c"
    and recv: "e_recv env = Ret (g @ q @ p)" "length (g @ q @ p) \<le> SOCKET_BUF_SIZE"
    and msg: "greeting_ok g" "socks_request q a" "p \<noteq> []" "no_sniff a"
  shows "\<exists>c' s r sl. server_recv_cb lc cr cfg env c = Some (Inr c') \<and> c_server c' = Some s \<and> s_remote s = Some r
     \<and> \<not> r_direct r \<and> r_send_io r \<and> r_watcher r \<and> \<not> r_send_connected r \<and> s_abuf s = None \<and> unsent (r_buf r) = wire sl [a, p]
     \<and> client_out c' = [5, 0] @ [5, 0, 0, 1, 0, 0, 0, 0, 0, 0] \<and> remote_out c' = []"
proof -
  have "\<not> e_timer env" "g @ q @ p \<noteq> []"
    using cfg(2) msg(3) by (auto simp: dialogue_env_def)
  then obtain s c1 where c1: "server_recv_cb lc cr cfg env c = recv_loop lc cr cfg env c1" "loop_inv lc cfg c1" "c_server c1 = Some s"
      "s_remote s = None" "s_stage s = STAGE_INIT" "contents (s_buf s) = g @ q @ p" "client_out c1 = []" "remote_out c1 = []" "\<not> c_fast_open c1"
    using accept_received [OF acc recv(2) _ _ recv(1), of cfg] by auto
  define s2 where "s2 = s\<lparr>s_stage := STAGE_HANDSHAKE, s_buf := bconsume (s_buf s) (length g)\<rparr>"
  define c2 where "c2 = put_server s2 (emit (ToClient [5, 0]) c1)"
  have e: "early_inv sent s c1" "buf_ok (s_buf s)" "dwf (s_d_ctx s)" "\<not> s_delayed s" "stwf (c_state c1)"
    using c1(2-4) by (auto simp: loop_inv_def)
  have m: "method_select env s c1 = Inr (True, c2)"
    using method_select_accept [of s "s_buf s" g "q @ p" env c1] c1(4,6) e(2) msg(1,3) cfg(2)
    by (simp add: recv_buf_def dialogue_env_def accepted_def s2_def c2_def)
  then have l2: "loop_inv lc cfg c2"
    using method_select_ok [OF e(5) c1(3-5) e(1,3,2,4), of env lc cfg] by auto
  then have "shaking s2 c2"
    using c1(4) by (auto simp: loop_inv_def shaking_def c2_def s2_def)
  obtain sl where sl: "sent sl [] (s_e_ctx s)"
    using e(1) by (auto simp: early_inv_def)
  have "length (contents (s_buf s)) = len (s_buf s)" "idx (s_buf s) = 0"
    using e(1,2) by (auto simp: early_inv_def buf_ok_wf)
  then have "contents (s_buf s2) = q @ p"
    using bconsume_ok(3) [OF e(2), of "length g"] c1(6) by (simp add: s2_def)
  then obtain s3 c3 eb ctx r where h: "server_handshake lc cr cfg env s2 c2
        = Inr (True, put_server (s3\<lparr>s_abuf := Some eb, s_e_ctx := ctx, s_remote := Some r\<rparr>) c3)"
      "s3 = s2\<lparr>s_abuf := s_abuf s3, s_stage := STAGE_STREAM, s_buf := s_buf s3\<rparr>" "buf_wf eb"
      "contents eb = wire sl [a]" "sent sl [a] ctx" "stwf (c_state c3)" "\<not> r_direct r" "\<not> r_send_connected r"
      "buf_wf (r_buf r)" "len (r_buf r) \<le> SOCKET_BUF_SIZE" "contents (r_buf r) = p"
      "client_out c3 = client_out c2 @ [5, 0, 0, 1, 0, 0, 0, 0, 0, 0]" "remote_out c3 = remote_out c2" "c_fast_open c3 = c_fast_open c2"
    using server_handshake_accept [OF cfg \<open>shaking s2 c2\<close> _ _ msg(2-4), of sl lc] sl by (auto simp: s2_def)
  define s4 where "s4 = s3\<lparr>s_abuf := Some eb, s_e_ctx := ctx, s_remote := Some r\<rparr>"
  have "s_stage s3 = STAGE_STREAM"
    by (subst h(2)) simp
  then have "recv_loop lc cr cfg env (put_server s4 c3) = Some (server_stream lc cr cfg env s4 (put_server s4 c3))"
    by (simp add: recv_loop.simps s4_def)
  moreover have "recv_loop lc cr cfg env c2 = recv_loop lc cr cfg env (put_server s4 c3)"
    using h(1) by (subst recv_loop.simps) (simp add: c2_def s2_def s4_def)
  moreover have "recv_loop lc cr cfg env c1 = recv_loop lc cr cfg env c2"
    using c1(3,5) m by (subst recv_loop.simps) simp
  ultimately have "recv_loop lc cr cfg env c1 = Some (server_stream lc cr cfg env s4 (put_server s4 c3))"
    by simp
  moreover have "\<exists>c' s' r'. server_stream lc cr cfg env s4 (put_server s4 c3) = Inr c' \<and> c_server c' = Some s' \<and> s_remote s' = Some r'
     \<and> \<not> r_direct r' \<and> r_send_io r' \<and> r_watcher r' \<and> \<not> r_send_connected r' \<and> s_abuf s' = None
     \<and> unsent (r_buf r') = wire sl [a, p] \<and> buf_wf (r_buf r') \<and> idx (r_buf r') = 0
     \<and> client_out c' = client_out (put_server s4 c3) \<and> remote_out c' = remote_out (put_server s4 c3)"
    using h c1(9) msg(3) cfg(2) by (intro server_stream_accept) (auto simp: s4_def c2_def)
  ultimately show ?thesis
    using h(12,13) c1(1,7,8) by (auto simp: c2_def)
qed

end

end
