(* ===== verification/SS_LocalDown.thy ===== *)
theory SS_LocalDown
  imports SS_LocalDialogue
begin

text \<open>
  The way back, from the remote to the application: what the application was sent, followed by what still waits for
  its socket, is the replies of the handshake and then everything that was read from the remote, decrypted in the order of
  the reads. The proof follows the callbacks of \<^verbatim>\<open>src/local.c\<close> like that of \<^const>\<open>conn_inv\<close>, on which it rests.
\<close>

section \<open>What came from the remote\<close>

definition from_remote :: "conn \<Rightarrow> bytes list" where
  "from_remote c = List.map_filter (\<lambda>x. case x of FromRemote bs \<Rightarrow> Some bs | _ \<Rightarrow> None) (c_log c)"

lemma from_remote_simps [simp]:
  "from_remote (emit (FromClient bs) c) = from_remote c"
  "from_remote (emit (FromRemote bs) c) = from_remote c @ [bs]"
  "from_remote (emit (ToClient bs) c) = from_remote c"
  "from_remote (emit (ToRemote bs) c) = from_remote c"
  "from_remote (emit Socket c) = from_remote c"
  "from_remote (put_server s c) = from_remote c"
  "from_remote (c\<lparr>c_state := st\<rparr>) = from_remote c" "from_remote (c\<lparr>c_tx := n\<rparr>) = from_remote c"
  "from_remote (c\<lparr>c_rx := n\<rparr>) = from_remote c" "from_remote (c\<lparr>c_fast_open := f\<rparr>) = from_remote c"
  by (simp_all add: from_remote_def emit_def List.map_filter_def put_server_def)

text \<open>
  The plaintext \<open>p\<close> of the pieces \<open>fs\<close> that were read so far: one call of the decryption per piece, in their order,
  with the context that the call before left, and none of them refused. The state that all connections share
  may change between two calls.
\<close>

inductive decrypted :: "(crypto_state \<Rightarrow> bool) \<Rightarrow> crypto_t \<Rightarrow> bytes list \<Rightarrow> bytes \<Rightarrow> cipher_ctx \<Rightarrow> bool" for stwf cr where
  start: "stwf st \<Longrightarrow> cr_ctx_init cr (cr_cipher cr) False st = Inr (ctx, st') \<Longrightarrow> decrypted stwf cr [] [] ctx"
| piece: "decrypted stwf cr fs p ctx \<Longrightarrow> stwf st \<Longrightarrow> buf_wf b \<Longrightarrow>
     cr_decrypt cr b ctx SOCKET_BUF_SIZE st = Inr (rc, b', ctx', st') \<Longrightarrow> rc \<noteq> CRYPTO_ERROR \<Longrightarrow>
     decrypted stwf cr (fs @ [contents b]) (p @ (if rc = CRYPTO_OK then contents b' else [])) ctx'"

section \<open>The invariant\<close>

definition success_reply :: bytes where
  "success_reply = [5, 0, 0, 1, 0, 0, 0, 0, 0, 0]"

text \<open>
  The replies of the handshake. Only the first of the two bytes of the method selection may have been accepted, as the result of that
  \<^verbatim>\<open>send\<close> is not looked at. A request for a UDP association stays in the buffer.
\<close>

definition early_down :: "(crypto_state \<Rightarrow> bool) \<Rightarrow> crypto_t \<Rightarrow> server_t \<Rightarrow> conn \<Rightarrow> bool" where
  "early_down stwf cr s c \<longleftrightarrow> from_remote c = [] \<and> \<not> s_send_io s \<and> decrypted stwf cr [] [] (s_d_ctx s) \<and>
     (case s_stage s of
        STAGE_INIT \<Rightarrow> client_out c = []
      | STAGE_HANDSHAKE \<Rightarrow> 4 \<le> len (s_buf s) \<and> data (s_buf s) ! 1 = 3 \<or> (\<exists>k. client_out c = take k [5, 0])
      | STAGE_SNI \<Rightarrow> \<exists>k. client_out c = take k [5, 0] @ success_reply
      | STAGE_STREAM \<Rightarrow> False)"

text \<open>With a remote: the bytes for the application, sent or waiting.\<close>

definition for_client :: "server_t \<Rightarrow> conn \<Rightarrow> bytes" where
  "for_client s c = client_out c @ (if s_send_io s then unsent (s_buf s) else [])"

definition plain_of :: "(crypto_state \<Rightarrow> bool) \<Rightarrow> crypto_t \<Rightarrow> server_t \<Rightarrow> remote_t \<Rightarrow> bytes list \<Rightarrow> bytes \<Rightarrow> bool" where
  "plain_of stwf cr s r fs p \<longleftrightarrow> (if r_direct r then p = concat fs else decrypted stwf cr fs p (s_d_ctx s))"

definition late_down :: "(crypto_state \<Rightarrow> bool) \<Rightarrow> crypto_t \<Rightarrow> server_t \<Rightarrow> remote_t \<Rightarrow> conn \<Rightarrow> bool" where
  "late_down stwf cr s r c \<longleftrightarrow> s_stage s = STAGE_STREAM \<and>
     (\<exists>k p. for_client s c = take k [5, 0] @ success_reply @ p \<and> plain_of stwf cr s r (from_remote c) p)"

definition srv_down :: "(crypto_state \<Rightarrow> bool) \<Rightarrow> crypto_t \<Rightarrow> server_t \<Rightarrow> conn \<Rightarrow> bool" where
  "srv_down stwf cr s c \<longleftrightarrow> (case s_remote s of None \<Rightarrow> early_down stwf cr s c | Some r \<Rightarrow> late_down stwf cr s r c)"

definition conn_down :: "(crypto_state \<Rightarrow> bool) \<Rightarrow> crypto_t \<Rightarrow> conn \<Rightarrow> bool" where
  "conn_down stwf cr c \<longleftrightarrow> (case c_server c of None \<Rightarrow> True | Some s \<Rightarrow> srv_down stwf cr s c)"

lemma late_down_cong:
  "s_stage s' = s_stage s \<Longrightarrow> s_send_io s' = s_send_io s \<Longrightarrow> s_buf s' = s_buf s \<Longrightarrow> s_d_ctx s' = s_d_ctx s \<Longrightarrow>
     r_direct r' = r_direct r \<Longrightarrow> client_out c' = client_out c \<Longrightarrow> from_remote c' = from_remote c \<Longrightarrow>
     late_down stwf cr s' r' c' \<longleftrightarrow> late_down stwf cr s r c"
  by (simp add: late_down_def for_client_def plain_of_def)

lemma early_down_cong:
  "s_stage s' = s_stage s \<Longrightarrow> s_send_io s' = s_send_io s \<Longrightarrow> s_buf s' = s_buf s \<Longrightarrow> s_d_ctx s' = s_d_ctx s \<Longrightarrow>
     client_out c' = client_out c \<Longrightarrow> from_remote c' = from_remote c \<Longrightarrow>
     early_down stwf cr s' c' \<longleftrightarrow> early_down stwf cr s c"
  by (simp add: early_down_def cong: stage.case_cong)

lemma conn_down_put [simp]:
  "conn_down stwf cr (close_and_free c)"
  "conn_down stwf cr (put_server s c) \<longleftrightarrow> srv_down stwf cr s c"
  using early_down_cong [of s s "put_server s c" c] late_down_cong [of s s _ _ "put_server s c" c]
  by (simp_all add: conn_down_def srv_down_def split: option.split)

section \<open>Sending to the remote\<close>

lemma wait_send_down:
  assumes "late_down stwf cr s r c" "r_direct r' = r_direct r" "client_out c' = client_out c" "from_remote c' = from_remote c"
  shows "conn_down stwf cr (wait_send s r' timer c')"
  using late_down_cong [of "s\<lparr>s_recv_io := False, s_remote := x\<rparr>" s "r'\<lparr>r_send_io := True, r_watcher := y\<rparr>" r c' c for x y] assms
  by (simp add: wait_send_def srv_down_def)

lemma stream_encrypt_down:
  assumes "stream_encrypt_buf lc cr s r c = Inr (Some (s', r'), c')" "late_down stwf cr s r c"
  shows "late_down stwf cr s' r' c'"
proof -
  have "s_stage s' = s_stage s \<and> s_send_io s' = s_send_io s \<and> s_buf s' = s_buf s \<and> s_d_ctx s' = s_d_ctx s \<and> r_direct r' = r_direct r
      \<and> client_out c' = client_out c \<and> from_remote c' = from_remote c"
    using assms(1) by (auto simp: stream_encrypt_buf_def Let_def split: if_splits sum.splits prod.splits option.splits)
  then show ?thesis
    using assms(2) late_down_cong [of s' s r' r c' c] by simp
qed

lemma stream_send_down:
  assumes "late_down stwf cr s r c"
  shows "conn_down stwf cr (stream_send env s r c)"
proof -
  have "late_down stwf cr (s\<lparr>s_remote := x\<rparr>) (r\<lparr>r_buf := b\<rparr>) (emit (ToRemote bs) c)" for x b bs
    using assms by (subst late_down_cong [of _ s _ r _ c]) simp_all
  then show ?thesis
    using wait_send_down [OF assms] by (simp add: stream_send_def Let_def srv_down_def split: sys.split)
qed

lemma stream_connect_down:
  assumes "late_down stwf cr s r c"
  shows "conn_down stwf cr (stream_connect cfg env s r c)"
  using wait_send_down [OF assms] by (simp add: stream_connect_def Let_def split: sys.split)

lemma server_stream_down:
  assumes "server_stream lc cr cfg env s c = Inr c'" "srv_down stwf cr s c"
  shows "conn_down stwf cr c'"
proof (cases "s_remote s")
  case (Some r)
  then have "late_down stwf cr s r c"
    using assms(2) by (simp add: srv_down_def)
  then show ?thesis
    using assms(1) Some stream_encrypt_down [of lc cr s r c] stream_send_down [of stwf cr] stream_connect_down [of stwf cr]
    by (auto simp: server_stream_def split: sum.splits prod.splits option.splits if_splits)
qed (use assms(1) in \<open>auto simp: server_stream_def\<close>)

section \<open>The handshake\<close>

lemma method_select_down:
  assumes "method_select env s c = Inr (again, c')" "srv_down stwf cr s c" "s_stage s = STAGE_INIT"
  shows "conn_down stwf cr c'"
proof -
  have r: "s_remote s = None" "early_down stwf cr s c"
    using assms(2,3) by (auto simp: srv_down_def late_down_def split: option.splits)
  have "\<exists>k. accepted [5, 0] x = take k [5, 0]" for x
    by (cases x) (auto simp: accepted_def intro: exI [of _ 0])
  then have "early_down stwf cr (s\<lparr>s_stage := STAGE_HANDSHAKE, s_buf := b\<rparr>) (emit (ToClient (accepted [5, 0] x)) c)" for b x
    using r assms(3) by (simp add: early_down_def)
  then show ?thesis
    using assms(1) r by (auto simp: method_select_def rd_def Let_def srv_down_def put_recv_buf_def split: if_splits)
qed

lemma start_remote_down:
  assumes "start_remote s r sni c = (again, c')" "s_stage s = STAGE_STREAM" "\<not> s_send_io s"
    and "client_out c = take k [5, 0] @ success_reply" "from_remote c = []" "decrypted stwf cr [] [] (s_d_ctx s)"
  shows "conn_down stwf cr c'"
proof -
  have "late_down stwf cr s' r' c" if "s_stage s' = s_stage s" "s_send_io s' = s_send_io s" "s_d_ctx s' = s_d_ctx s" for s' r'
    unfolding late_down_def by (rule conjI) (use assms that in \<open>auto simp: for_client_def plain_of_def intro!: exI [of _ k] exI [of _ "[]"]\<close>)
  then show ?thesis
    using assms(1) by (auto simp: start_remote_def Let_def srv_down_def split: if_splits)
qed

lemma handshake_connect_down:
  assumes "handshake_connect lc cr cfg env atyp ab sni sniffed s c = Inr (again, c')" "s_stage s = STAGE_STREAM" "\<not> s_send_io s"
    and "client_out c = take k [5, 0] @ success_reply" "from_remote c = []" "decrypted stwf cr [] [] (s_d_ctx s)"
  shows "conn_down stwf cr c'"
proof -
  have "conn_down stwf cr c2" if "start_remote s' r sni' c1 = (again', c2)" "s_stage s' = STAGE_STREAM" "\<not> s_send_io s'"
      "client_out c1 = client_out c" "from_remote c1 = from_remote c" "s_d_ctx s' = s_d_ctx s" for s' r sni' c1 again' c2
    using start_remote_down [OF that(1), of k stwf cr] that(2-6) assms(4-6) by simp
  then show ?thesis
    using assms(1-3) by (auto simp: handshake_connect_def Let_def split: sum.splits prod.splits option.splits if_splits)
qed

lemma reply_down:
  assumes "server_handshake_reply env False s c = (ok, c')" "early_down stwf cr s c" "\<not> (4 \<le> len (s_buf s) \<and> data (s_buf s) ! 1 = 3)"
    and "s_stage s = STAGE_HANDSHAKE \<or> s_stage s = STAGE_SNI"
  shows "if ok then \<exists>k. client_out c' = take k [5, 0] @ success_reply \<and> from_remote c' = [] else c_server c' = None"
  using assms
  by (auto simp: server_handshake_reply_def early_down_def success_reply_def sys_send_def accepted_def Let_def split: if_splits sys.splits)

lemma reply_udp_down:
  assumes "server_handshake_reply env True s (put_server s c) = (ok, c')" "early_down stwf cr s c" "s_remote s = None"
    and "4 \<le> len (s_buf s)" "data (s_buf s) ! 1 = 3"
  shows "conn_down stwf cr c'"
proof -
  have "conn_down stwf cr (emit (ToClient x) (put_server s c))" if "s_stage s = STAGE_HANDSHAKE" for x
    using assms(2-5) that by (simp add: conn_down_def srv_down_def early_down_def)
  then show ?thesis
    using assms(1-3) by (auto simp: server_handshake_reply_def srv_down_def Let_def split: if_splits sys.splits)
qed

lemma server_handshake_down:
  assumes run: "server_handshake lc cr cfg env s c = Inr (again, c')"
    and inv: "srv_down stwf cr s c" "s_stage s = STAGE_HANDSHAKE \<or> s_stage s = STAGE_SNI"
  shows "conn_down stwf cr c'"
proof -
  have r: "s_remote s = None" "early_down stwf cr s c" "recv_buf s = s_buf s"
    using inv by (auto simp: srv_down_def late_down_def recv_buf_def split: option.splits)
  then have d: "\<not> s_send_io s" "decrypted stwf cr [] [] (s_d_ctx s)"
    by (simp_all add: early_down_def)
  have keep: "srv_down stwf cr (s\<lparr>s_abuf := x\<rparr>) c" for x
    using r early_down_cong [of "s\<lparr>s_abuf := x\<rparr>" s c c] by (simp add: srv_down_def)
  show ?thesis
  proof (cases "4 \<le> len (s_buf s) \<and> data (s_buf s) ! 1 = 3")
    case True
    then have "server_handshake_reply env True s (put_server s c) = (again, c')"
      using run by (auto simp: server_handshake_def r(3) rd_def Let_def split: if_splits)
    then show ?thesis
      using reply_udp_down [of env s c again c'] r True by blast
  next
    case False
    have rep: "if ok then \<exists>k. client_out c2 = take k [5, 0] @ success_reply \<and> from_remote c2 = [] else conn_down stwf cr c2"
      if "server_handshake_reply env False (s\<lparr>s_abuf := x\<rparr>) (put_server (s\<lparr>s_abuf := x\<rparr>) c) = (ok, c2)" for x ok c2
    proof -
      have "early_down stwf cr (s\<lparr>s_abuf := x\<rparr>) (put_server (s\<lparr>s_abuf := x\<rparr>) c)"
        using r(2) by (subst early_down_cong [of _ s _ c]) simp_all
      then show ?thesis
        using reply_down [OF that, of stwf cr] False inv(2) by (auto simp: conn_down_def split: if_splits)
    qed
    let ?reply = "\<lambda>x. server_handshake_reply env False (s\<lparr>s_abuf := x\<rparr>) (put_server (s\<lparr>s_abuf := x\<rparr>) c)"
    have closed: "conn_down stwf cr c2" if "?reply x = (False, c2)" for x c2
      using rep [OF that] by simp
    have sni: "srv_down stwf cr (s\<lparr>s_abuf := x, s_stage := STAGE_SNI, s_delayed := True\<rparr>) c2" if "?reply x = (True, c2)" for x c2
      using r(1) d rep [OF that] by (auto simp: srv_down_def early_down_def)
    have conn: "conn_down stwf cr c2"
      if rp: "?reply x = (True, c1)" and hc: "handshake_connect lc cr cfg env atyp ab sni h (put_recv_buf b (s\<lparr>s_abuf := x, s_stage := STAGE_STREAM\<rparr>)) c1 = Inr (again, c2)"
      for atyp ab sni h b x c1 c2
    proof -
      obtain k where "client_out c1 = take k [5, 0] @ success_reply" "from_remote c1 = []"
        using rep [OF rp] by auto
      then show ?thesis
        by (rule handshake_connect_down [OF hc, rotated 2]) (use r(1) d in \<open>simp_all add: put_recv_buf_def\<close>)
    qed
    show ?thesis
      using run False inv(1) keep closed sni conn unfolding server_handshake_def r(3)
      by (auto simp: rd_def Let_def split: if_splits option.splits sum.splits prod.splits)
  qed
qed

section \<open>The callbacks\<close>

lemma recv_loop_down:
  assumes "recv_loop lc cr cfg env c = Some res" "conn_down stwf cr c"
  shows "\<forall>c'. res = Inr c' \<longrightarrow> conn_down stwf cr c'"
proof -
  have "conn_down stwf cr c \<longrightarrow> (\<forall>c'. res = Inr c' \<longrightarrow> conn_down stwf cr c')"
  proof (rule recv_loop.raw_induct [OF _ assms(1), where P = "\<lambda>lc cr cfg env c res. conn_down stwf cr c \<longrightarrow> (\<forall>c'. res = Inr c' \<longrightarrow> conn_down stwf cr c')"], goal_cases)
    case (1 loop lc cr cfg env c res)
    show ?case
    proof (cases "c_server c")
      case (Some s)
      then show ?thesis
        using 1 server_stream_down [of lc cr cfg env s c] method_select_down [of env s c] server_handshake_down [of lc cr cfg env s c]
        by (cases "s_stage s") (auto simp: conn_down_def [of _ _ c] split: sum.splits prod.splits if_splits)
    qed (use 1 in auto)
  qed
  then show ?thesis
    using assms(2) by blast
qed

lemma recv_into_keeps:
  assumes "recv_into b bs = Inr b'" "4 \<le> len b"
  shows "4 \<le> len b'" "data b' ! 1 = data b ! 1"
proof -
  have "length (take (len b) (data b)) \<ge> 4"
    using assms by (auto simp: recv_into_def split: if_splits)
  then show "4 \<le> len b'" "data b' ! 1 = data b ! 1"
    using assms by (auto simp: recv_into_def memcpy_at_def nth_append split: if_splits)
qed

lemma server_recv_down:
  assumes "server_recv_cb lc cr cfg env c = Some (Inr c')" "conn_down stwf cr c"
  shows "conn_down stwf cr c'"
proof (cases "c_server c")
  case (Some s)
  define s0 where "s0 = s\<lparr>s_delayed := False\<rparr>"
  have s: "srv_down stwf cr s c"
    using assms(2) Some by (simp add: conn_down_def)
  have s0: "srv_down stwf cr s0 c"
    using s early_down_cong [of s0 s c c] late_down_cong [of s0 s _ _ c c] by (simp add: srv_down_def s0_def split: option.splits)
  have "srv_down stwf cr (put_recv_buf b s0) c" if "recv_into (recv_buf s0) bs = Inr b" for b bs
  proof (cases "s_remote s0")
    case None
    then show ?thesis
      using s0 recv_into_keeps [of "s_buf s0" bs b] that by (auto simp: srv_down_def put_recv_buf_def recv_buf_def early_down_def split: stage.splits)
  next
    case (Some r)
    then show ?thesis
      using s0 late_down_cong [of "s0\<lparr>s_remote := Some (r\<lparr>r_buf := b\<rparr>)\<rparr>" s0 "r\<lparr>r_buf := b\<rparr>" r c c] by (simp add: srv_down_def put_recv_buf_def)
  qed
  moreover have "conn_down stwf cr (emit (FromClient bs) (put_server s1 c))" if "srv_down stwf cr s1 c" for s1 bs
    using that early_down_cong [of s1 s1 "emit (FromClient bs) (put_server s1 c)" c]
      late_down_cong [of s1 s1 _ _ "emit (FromClient bs) (put_server s1 c)" c]
    by (simp add: conn_down_def srv_down_def split: option.splits)
  ultimately show ?thesis
    using assms(1) Some s0 recv_loop_down [of lc cr cfg env]
    by (auto simp: server_recv_cb_def s0_def [symmetric] Let_def split: if_splits sys.splits sum.splits)
qed (use assms(1) in \<open>simp add: server_recv_cb_def\<close>)

text \<open>The bytes that wait for the application's socket.\<close>

context tcp_crypto
begin

lemma server_send_down:
  assumes "server_send_cb env c = Inr c'" "c_server c = Some s" "s_send_io s" "srv_down stwf cr s c" "buf_ok (s_buf s)"
  shows "conn_down stwf cr c'"
proof -
  obtain r k p where r: "s_remote s = Some r" "s_stage s = STAGE_STREAM"
      "client_out c @ unsent (s_buf s) = take k [5, 0] @ success_reply @ p" "plain_of stwf cr s r (from_remote c) p"
    using assms(3,4) by (auto simp: srv_down_def early_down_def late_down_def for_client_def split: option.splits)
  define c1 where "c1 = emit (ToClient (accepted (unsent (s_buf s)) (e_send env))) c"
  have out: "client_out c1 @ unsent b = take k [5, 0] @ success_reply @ p"
    if "send_rest (s_buf s) (sys_send (unsent (s_buf s)) (e_send env)) = Some (fin, b)" for fin b
    using send_rest_ok(2) [OF assms(5) that] r(3) by (simp add: c1_def)
  have part: "srv_down stwf cr (s\<lparr>s_buf := b\<rparr>) c1"
    if "send_rest (s_buf s) (sys_send (unsent (s_buf s)) (e_send env)) = Some (fin, b)" for fin b
    using r out [OF that] assms(3) unfolding srv_down_def late_down_def
    by (auto simp: for_client_def plain_of_def c1_def intro!: exI [of _ k] exI [of _ p])
  have all: "srv_down stwf cr (s\<lparr>s_buf := b, s_send_io := False, s_remote := Some (r\<lparr>r_recv_io := True\<rparr>)\<rparr>) c1"
    if "send_rest (s_buf s) (sys_send (unsent (s_buf s)) (e_send env)) = Some (True, b)" for b
    using r out [OF that] send_rest_ok(3) [OF assms(5) that] unfolding srv_down_def late_down_def
    by (auto simp: for_client_def plain_of_def c1_def unsent_def intro!: exI [of _ k] exI [of _ p])
  show ?thesis
    using assms(1,2) r(1) part all
    by (auto simp: server_send_cb_def Let_def c1_def [symmetric] split: option.splits if_splits bool.splits)
qed

text \<open>New bytes for the application: all of them are accepted, or the rest waits.\<close>

lemma deliver_down:
  assumes "s_stage s = STAGE_STREAM" "\<not> s_send_io s" "buf_wf (s_buf s)" "idx (s_buf s) = 0"
    and "client_out c @ contents (s_buf s) = take k [5, 0] @ success_reply @ p" "plain_of stwf cr s r (from_remote c) p"
  shows "conn_down stwf cr (deliver env s r c)"
proof -
  define b where "b = s_buf s"
  define c1 where "c1 = emit (ToClient (accepted (contents b) (e_send env))) c"
  define r' where "r' = r\<lparr>r_recv_connected := True\<rparr>"
  have wf: "buf_wf b" and inv: "client_out c @ contents b = take k [5, 0] @ success_reply @ p"
    using assms by (simp_all add: b_def)
  have rest: "srv_down stwf cr (s\<lparr>s_send_io := True, s_remote := Some (r'\<lparr>r_recv_io := False\<rparr>), s_buf := b'\<rparr>) c1"
    if "client_out c1 @ unsent b' = take k [5, 0] @ success_reply @ p" for b'
    using assms(1,6) that unfolding srv_down_def late_down_def
    by (auto simp: for_client_def plain_of_def c1_def r'_def intro!: exI [of _ k] exI [of _ p])
  have all: "srv_down stwf cr (s\<lparr>s_remote := Some r'\<rparr>) c1" if "client_out c1 = take k [5, 0] @ success_reply @ p"
    using assms(1,2,6) that unfolding srv_down_def late_down_def
    by (auto simp: for_client_def plain_of_def c1_def r'_def intro!: exI [of _ k] exI [of _ p])
  show ?thesis
  proof (cases "sys_send (contents b) (e_send env)")
    case (Ret n)
    note acc = accepted_sys_send [OF Ret]
    have "accepted (contents b) (e_send env) @ unsent (b\<lparr>len := len b - n, idx := n\<rparr>) = contents b"
      using sent_tail [OF wf, of n] acc wf by (simp add: unsent_def)
    then have "client_out c1 @ unsent (b\<lparr>len := len b - n, idx := n\<rparr>) = take k [5, 0] @ success_reply @ p"
      using inv by (simp add: c1_def)
    moreover have "client_out c1 = take k [5, 0] @ success_reply @ p" if "\<not> n < len b"
      using acc wf inv that by (simp add: c1_def)
    ultimately show ?thesis
      using Ret rest all unfolding deliver_def Let_def b_def [symmetric] c1_def [symmetric] r'_def [symmetric] by simp
  next
    case EAGAIN
    then have "accepted (contents b) (e_send env) = []"
      by (intro accepted_fail) simp
    moreover have "unsent (b\<lparr>idx := 0\<rparr>) = contents b"
      by (simp add: unsent_def contents_def)
    ultimately show ?thesis
      using EAGAIN rest inv unfolding deliver_def Let_def b_def [symmetric] c1_def [symmetric] r'_def [symmetric]
      by (simp add: c1_def)
  qed (simp_all add: deliver_def Let_def b_def)
qed

end

lemma remote_send_down:
  assumes "remote_send_cb env c = Inr c'" "c_server c = Some s" "s_remote s = Some r" "srv_down stwf cr s c"
  shows "conn_down stwf cr c'"
proof -
  have late: "late_down stwf cr s r c"
    using assms(3,4) by (simp add: srv_down_def)
  have keep: "srv_down stwf cr s1 (emit (ToRemote x) c)" "srv_down stwf cr s1 c"
    if "s_remote s1 = Some r1" "s_stage s1 = s_stage s" "s_send_io s1 = s_send_io s" "s_buf s1 = s_buf s" "s_d_ctx s1 = s_d_ctx s"
      "r_direct r1 = r_direct r" for s1 r1 x
    using late that late_down_cong [of s1 s r1 r "emit (ToRemote x) c" c] late_down_cong [of s1 s r1 r c c]
    by (simp_all add: srv_down_def)
  show ?thesis
    using assms(1-3)
    by (auto simp: remote_send_cb_def remote_flush_def Let_def intro!: keep split: if_splits option.splits bool.splits)
qed

context tcp_crypto
begin

lemma remote_recv_down:
  assumes "remote_recv_cb cr env c = Inr c'" "c_server c = Some s" "s_remote s = Some r" "r_recv_io r"
    and "conn_inv lc cfg stwf sent wire dwf c" "conn_down stwf cr c"
  shows "conn_down stwf cr c'"
proof -
  have i: "stwf (c_state c)" "dwf (s_d_ctx s)" "buf_ok (s_buf s)" "\<not> s_send_io s" "idx (s_buf s) = 0" "s_stage s = STAGE_STREAM"
    using assms(2-5) by (auto simp: conn_inv_def late_inv_def down_inv_def)
  have late: "late_down stwf cr s r c"
    using assms(2,3,6) by (simp add: conn_down_def srv_down_def)
  then obtain k p where kp: "client_out c = take k [5, 0] @ success_reply @ p" "plain_of stwf cr s r (from_remote c) p"
    using i(4) by (auto simp: late_down_def for_client_def)
  show ?thesis
  proof (cases "sys_recv SOCKET_BUF_SIZE (e_recv env)")
    case (Ret bs)
    then have "length bs \<le> SOCKET_BUF_SIZE"
      by (auto simp: sys_recv_def split: sys.splits)
    then obtain b where b: "recv_into ((s_buf s)\<lparr>len := 0\<rparr>) bs = Inr b" "buf_ok b" "idx b = 0" "contents b = bs"
      using recv_into_ok [of "(s_buf s)\<lparr>len := 0\<rparr>" bs] i(3,5) by (auto simp: buf_ok_def [of "s_buf s"] contents_def [of "(s_buf s)\<lparr>len := 0\<rparr>"])
    define c2 where "c2 = (emit (FromRemote bs) c)\<lparr>c_rx := c_rx (emit (FromRemote bs) c) + of_nat (len b)\<rparr>"
    have c2: "client_out c2 = client_out c" "from_remote c2 = from_remote c @ [bs]" "c_state c2 = c_state c"
      by (simp_all add: c2_def)
    obtain rc b' d st where d: "cr_decrypt cr b (s_d_ctx s) SOCKET_BUF_SIZE (c_state c2) = Inr (rc, b', d, st)" "buf_wf b'" "idx b' = idx b"
      using decrypt_returns [of "c_state c2" "s_d_ctx s" b SOCKET_BUF_SIZE] i(1,2) b(2) c2(3) by (auto simp: buf_ok_wf)
    have direct: "conn_down stwf cr (deliver env (s\<lparr>s_buf := b\<rparr>) r (emit (FromRemote bs) c))" if "r_direct r"
      using that i b kp by (intro deliver_down [where k = k and p = "p @ bs"]) (auto simp: plain_of_def buf_ok_wf)
    have dec: "decrypted stwf cr (from_remote c @ [bs]) (p @ (if rc = CRYPTO_OK then contents b' else [])) d"
      if "\<not> r_direct r" "rc \<noteq> CRYPTO_ERROR"
      using decrypted.piece [where stwf = stwf, OF _ i(1) buf_ok_wf [OF b(2)], of cr "from_remote c" p "s_d_ctx s" rc b' d st] kp(2) that d(1) c2(3) b(4)
      by (simp add: plain_of_def)
    have proxied: "conn_down stwf cr (deliver env (s\<lparr>s_buf := b', s_d_ctx := d\<rparr>) r (c2\<lparr>c_state := st\<rparr>))"
      if "\<not> r_direct r" "rc = CRYPTO_OK"
      using that i b(3) d(2,3) kp(1) dec c2
      by (intro deliver_down [where k = k and p = "p @ contents b'"]) (auto simp: plain_of_def)
    have more: "srv_down stwf cr (s\<lparr>s_buf := b', s_d_ctx := d\<rparr>) (c2\<lparr>c_state := st\<rparr>)" if "\<not> r_direct r" "rc = CRYPTO_NEED_MORE"
      using that i(4,6) assms(3) kp(1) dec c2 unfolding srv_down_def late_down_def
      by (auto simp: for_client_def plain_of_def intro!: exI [of _ k] exI [of _ p])
    show ?thesis
      using assms(1-3) Ret b(1) d(1) direct proxied more
      by (cases rc) (auto simp: remote_recv_cb_def Let_def c2_def split: if_splits)
  qed (use assms(1-3,6) late in \<open>auto simp: remote_recv_cb_def srv_down_def\<close>)
qed

lemma accept_down:
  assumes "stwf st" "accept_cb lc cr fast_open st = Inr c"
  shows "conn_down stwf cr c"
proof -
  obtain e st1 where e: "cr_ctx_init cr (cr_cipher cr) True st = Inr (e, st1)" "stwf st1"
    using init_sender [OF assms(1)] by blast
  obtain d st2 where d: "cr_ctx_init cr (cr_cipher cr) False st1 = Inr (d, st2)"
    using init_receiver [OF e(2)] by blast
  have "decrypted stwf cr [] [] d"
    using e(2) d by (rule decrypted.start)
  then show ?thesis
    using assms(2) e d
    by (auto simp: accept_cb_def new_server_def conn_down_def srv_down_def early_down_def from_remote_def client_out_def List.map_filter_def)
qed

lemma conn_step_down:
  assumes "conn_step lc cr cfg c res" "conn_inv lc cfg stwf sent wire dwf c" "conn_down stwf cr c" "res = Some (Inr c')"
  shows "conn_down stwf cr c'"
proof -
  have srv: "srv_down stwf cr s c" "buf_ok (s_buf s)" if "c_server c = Some s" for s
    using assms(2,3) that by (simp_all add: conn_down_def conn_inv_def)
  show ?thesis
    using assms(1)
  proof (rule conn_stepE)
    fix s env
    assume "res = server_recv_cb lc cr cfg env c"
    then show ?thesis
      using server_recv_down assms(3,4) by simp
  next
    fix s env
    assume "res = Some (server_send_cb env c)" "c_server c = Some s" "s_send_io s"
    then show ?thesis
      using server_send_down [of env c c' s] srv [of s] assms(4) by simp
  next
    fix s r env
    assume "res = Some (remote_recv_cb cr env c)" "c_server c = Some s" "s_remote s = Some r" "r_recv_io r"
    then show ?thesis
      using remote_recv_down [of env c c' s r] assms(2-4) by simp
  next
    fix s r env
    assume "res = Some (remote_send_cb env c)" "c_server c = Some s" "s_remote s = Some r"
    then show ?thesis
      using remote_send_down [of env c c' s r] srv [of s] assms(4) by simp
  next
    fix s r
    assume "res = Some (Inr (remote_timeout_cb c))"
    then show ?thesis
      using assms(4) by (auto simp: remote_timeout_cb_def)
  qed
qed

lemma share_down:
  assumes "conn_down stwf cr c"
  shows "conn_down stwf cr (c\<lparr>c_state := st, c_fast_open := fo, c_tx := tx, c_rx := rx\<rparr>)"
proof -
  define c' where "c' = c\<lparr>c_state := st, c_fast_open := fo, c_tx := tx, c_rx := rx\<rparr>"
  have same: "client_out c' = client_out c" "from_remote c' = from_remote c" "c_server c' = c_server c"
    by (simp_all add: c'_def)
  have "srv_down stwf cr s c' = srv_down stwf cr s c" for s
    using early_down_cong [of s s c' c] late_down_cong [of s s _ _ c' c] same by (simp add: srv_down_def split: option.split)
  then show ?thesis
    using assms unfolding c'_def [symmetric] by (auto simp: conn_down_def same split: option.splits)
qed

theorem conn_reachable_down:
  assumes "cfg_ok cfg" "conn_reachable stwf lc cr cfg c"
  shows "conn_down stwf cr c"
  using assms(2)
proof induction
  case (accept st fast_open c)
  then show ?case by (rule accept_down)
next
  case (step c c')
  then show ?case
    using conn_step_down conn_reachable_inv [OF assms(1)] by blast
qed (rule share_down)

end

end
