(* ===== verification/SS_LocalProps.thy ===== *)
theory SS_LocalProps
  imports SS_LocalLive SS_LocalDown SS_AeadProps
begin

text \<open>
  The properties of the client's TCP relay with an AEAD cipher, on the states that a connection can
  reach from \<^verbatim>\<open>accept\<close> on, whatever the system calls return and in whatever order its callbacks run.
\<close>

lemmas relay_inv = tcp_crypto.conn_reachable_inv [OF aead_tcp_crypto]
  and relay_step = tcp_crypto.conn_step_ok [OF aead_tcp_crypto]
  and relay_down = tcp_crypto.conn_reachable_down [OF aead_tcp_crypto]

section \<open>A concrete relay\<close>

text \<open>
  For the witnesses: one server, no access control list, and conversions of addresses that
  accept everything; system calls that all succeed.
\<close>

definition cfg_ex :: config where
  "cfg_ex = \<lparr>cfg_acl = False, cfg_vpn = False, cfg_remote_dns = False, cfg_ipv6first = False, cfg_signed_char = True,
     cfg_acl_mode = BLACK_LIST, cfg_match_host = (\<lambda>_. 0), cfg_pton = (\<lambda>t. Some (AF_INET [10, 0, 0, 1])),
     cfg_ntop = (\<lambda>a. Some [49]), cfg_getaddrinfo = (\<lambda>_ _. None), cfg_remote_addr = [AF_INET [192, 0, 2, 1] 8388]\<rparr>"

definition env_ex :: "bytes \<Rightarrow> env" where
  "env_ex bs = \<lparr>e_timer = False, e_recv = Ret bs, e_send_method = Ret 2, e_send_reply = Ret 10, e_send = Ret 100000,
     e_connect = CONNECT_IN_PROGRESS, e_sockname = EOTHER, e_socket_direct = True, e_socket = True, e_rand = 0,
     e_protect = True, e_peername = True\<rparr>"

lemma cfg_ex_ok: "cfg_ok cfg_ex"
  by (simp add: cfg_ok_def cfg_ex_def)

lemma env_ex_ok: "dialogue_env cfg_ex (env_ex bs)" "e_recv (env_ex bs) = Ret bs" "\<not> e_timer (env_ex bs)"
  by (simp_all add: dialogue_env_def cfg_ex_def env_ex_def)

text \<open>A greeting, a request for port 8080 of \<^verbatim>\<open>a.b\<close>, and one byte of payload.\<close>

definition greeting_ex :: bytes where "greeting_ex = [5, 1, 0]"

definition addr_ex :: bytes where "addr_ex = [3, 3, 97, 46, 98, 31, 144]"

definition request_ex :: bytes where "request_ex = [5, 1, 0] @ addr_ex"

lemma msg_ex: "greeting_ok greeting_ex" "socks_request request_ex addr_ex" "no_sniff addr_ex"
    "length (greeting_ex @ request_ex @ [7]) \<le> SOCKET_BUF_SIZE"
proof -
  show "greeting_ok greeting_ex"
    unfolding greeting_ok_def by (intro exI [of _ "[0]"]) (simp add: greeting_ex_def)
  show "socks_request request_ex addr_ex"
    unfolding socks_request_def request_ex_def by (auto simp: addr_ok_def addr_ex_def)
qed (simp_all add: no_sniff_def addr_ex_def greeting_ex_def request_ex_def SOCKET_BUF_SIZE_def)

abbreviation cr_ex :: crypto_t where
  "cr_ex \<equiv> aead_crypto lc_ex lib_ex cipher_ex"

abbreviation reachable_ex :: "conn \<Rightarrow> bool" where
  "reachable_ex \<equiv> conn_reachable (state_wf lc_ex) lc_ex cr_ex cfg_ex"

lemma accepted_ex: "\<exists>cn. accept_cb lc_ex cr_ex False state_ex = Inr cn \<and> reachable_ex cn"
  using tcp_crypto.accept_cb_ok [OF aead_tcp_crypto [OF cipher_ex_ok lib_ex_ok] state_ex_wf, of lc_ex False]
    conn_reachable.accept [of "state_wf lc_ex" state_ex] state_ex_wf by blast

lemma connecting_ex:
  "\<exists>cn s r sl. reachable_ex cn \<and> c_server cn = Some s \<and> s_remote s = Some r \<and> \<not> r_direct r \<and> r_send_io r
     \<and> \<not> r_send_connected r \<and> s_abuf s = None \<and> unsent (r_buf r) = aead_wire lib_ex cipher_ex sl [addr_ex, [7]]
     \<and> client_out cn = [5, 0, 5, 0, 0, 1, 0, 0, 0, 0, 0, 0] \<and> remote_out cn = []"
proof -
  obtain c0 where c0: "accept_cb lc_ex cr_ex False state_ex = Inr c0" "reachable_ex c0"
    using accepted_ex by blast
  obtain cn s r sl where cn: "server_recv_cb lc_ex cr_ex cfg_ex (env_ex (greeting_ex @ request_ex @ [7])) c0 = Some (Inr cn)"
      "c_server cn = Some s" "s_remote s = Some r" "\<not> r_direct r" "r_send_io r" "\<not> r_send_connected r" "s_abuf s = None"
      "unsent (r_buf r) = aead_wire lib_ex cipher_ex sl [addr_ex, [7]]"
      "client_out cn = [5, 0] @ [5, 0, 0, 1, 0, 0, 0, 0, 0, 0]" "remote_out cn = []"
    using tcp_crypto.dialogue_ok [OF aead_tcp_crypto [OF cipher_ex_ok lib_ex_ok] cfg_ex_ok env_ex_ok(1) state_ex_wf c0(1) env_ex_ok(2) msg_ex(4,1,2) _ msg_ex(3)]
    by blast
  obtain s0 where "c_server c0 = Some s0" "s_recv_io s0"
    using tcp_crypto.accept_server [OF aead_tcp_crypto [OF cipher_ex_ok lib_ex_ok] c0(1)] by blast
  then have "conn_step lc_ex cr_ex cfg_ex c0 (Some (Inr cn))"
    using conn_step.recv [of c0 s0 "env_ex (greeting_ex @ request_ex @ [7])" lc_ex cr_ex cfg_ex] cn(1) env_ex_ok(3) by simp
  then have "reachable_ex cn"
    using conn_reachable.step [OF c0(2)] by blast
  then show ?thesis
    using cn by auto
qed

lemma relayed_ex:
  "\<exists>cn s r. reachable_ex cn \<and> c_server cn = Some s \<and> s_remote s = Some r \<and> \<not> r_direct r \<and> s_abuf s = None
     \<and> unsent (r_buf r) = []"
proof -
  obtain c1 s r where c1: "reachable_ex c1" "c_server c1 = Some s" "s_remote s = Some r" "\<not> r_direct r" "r_send_io r"
      "\<not> r_send_connected r" "s_abuf s = None"
    using connecting_ex by blast
  define env where "env = (env_ex [])\<lparr>e_send := Ret (len (r_buf r))\<rparr>"
  have "buf_ok (r_buf r)"
    using relay_inv [OF cipher_ex_ok lib_ex_ok cfg_ex_ok c1(1)] c1(2,3) by (simp add: conn_inv_def late_inv_def down_inv_def)
  then have "length (unsent (r_buf r)) = len (r_buf r)"
    by (auto simp: unsent_def buf_ok_def)
  then have sys: "sys_send (unsent (r_buf r)) (e_send env) = Ret (len (r_buf r))" "e_peername env"
    by (simp_all add: sys_send_def env_def env_ex_def)
  have "\<exists>cn s' r'. remote_send_cb env c1 = Inr cn \<and> c_server cn = Some s' \<and> s_remote s' = Some r'
      \<and> \<not> r_direct r' \<and> s_abuf s' = None \<and> unsent (r_buf r') = []"
    using c1(2-4,6,7) sys by (cases "len (r_buf r) = 0")
      (simp_all add: remote_send_cb_def remote_flush_def send_rest_def unsent_def Let_def)
  then obtain cn s' r' where cn: "remote_send_cb env c1 = Inr cn" "c_server cn = Some s'" "s_remote s' = Some r'"
      "\<not> r_direct r'" "s_abuf s' = None" "unsent (r_buf r') = []"
    by blast
  have "reachable_ex cn"
    using conn_reachable.step [OF c1(1)] conn_step.remote_send [OF c1(2,3,5), of lc_ex cr_ex cfg_ex env] cn(1) by simp
  then show ?thesis
    using cn by blast
qed

section \<open>Properties\<close>

text \<open>C3: every callback of the relay returns. In every state a connection can reach, a callback whose watcher is
  started (the reading and writing of the application's socket, the delay timer, the reading and
  writing of the remote's socket, the connection timer) returns without a memory fault or a failed assertion, whatever its
  system calls return; in particular the \<^verbatim>\<open>while (1)\<close> loop of \<^verbatim>\<open>server_recv_cb\<close> ends. The resulting state is
  again reachable, so this holds for any sequence of callbacks.\<close>

theorem relay_callbacks_return:
  assumes "cipher_ok c" "lib_ok lib c" "cfg_ok cfg" "conn_reachable (state_wf lc) lc (aead_crypto lc lib c) cfg cn"
    and "conn_step lc (aead_crypto lc lib c) cfg cn res"
  shows "\<exists>cn'. res = Some (Inr cn') \<and> conn_reachable (state_wf lc) lc (aead_crypto lc lib c) cfg cn'"
  using relay_step [OF assms(1-3) relay_inv [OF assms(1-4)] assms(5)] conn_reachable.step [OF assms(4)] assms(5) by blast

text \<open>C8: no open connection is stuck. One of its callbacks can run, and it returns; there is always a watcher started
  for the way from the application to the server (reading from the one or writing to the other), and once
  the remote is connected also one for the way back.\<close>

theorem relay_progress:
  assumes "cipher_ok c" "lib_ok lib c" "cfg_ok cfg" "conn_reachable (state_wf lc) lc (aead_crypto lc lib c) cfg cn"
    and "c_server cn = Some s"
  shows "(\<exists>cn'. conn_step lc (aead_crypto lc lib c) cfg cn (Some (Inr cn')))
     \<and> (s_recv_io s \<or> (\<exists>r. s_remote s = Some r \<and> r_send_io r))
     \<and> (\<forall>r. s_remote s = Some r \<and> r_send_connected r \<longrightarrow> r_recv_io r \<or> s_send_io s)"
proof -
  have w: "s_watch s"
    using conn_reachable_watch [OF assms(4)] assms(5) by (simp add: watch_inv_def)
  then have up: "s_recv_io s \<or> (\<exists>r. s_remote s = Some r \<and> r_send_io r)"
    by (auto simp: s_watch_def split: option.splits)
  moreover have "conn_step lc (aead_crypto lc lib c) cfg cn (server_recv_cb lc (aead_crypto lc lib c) cfg (env_ex []) cn)" if "s_recv_io s"
    using conn_step.recv [OF assms(5)] that env_ex_ok(3) by simp
  ultimately have "\<exists>res. conn_step lc (aead_crypto lc lib c) cfg cn res"
    using conn_step.remote_send [OF assms(5)] by blast
  then show ?thesis
    using relay_step [OF assms(1-3) relay_inv [OF assms(1-4)]] w up by (auto simp: s_watch_def split: option.splits)
qed

theorem relay_callbacks_return_witness:
  "\<exists>cn cn'. reachable_ex cn \<and> conn_step lc_ex cr_ex cfg_ex cn (Some (Inr cn')) \<and> reachable_ex cn'"
proof -
  obtain cn s r where cn: "reachable_ex cn" "c_server cn = Some s" "s_remote s = Some r" "r_send_io r"
    using connecting_ex by blast
  have st: "conn_step lc_ex cr_ex cfg_ex cn (Some (remote_send_cb (env_ex []) cn))"
    using conn_step.remote_send [OF cn(2-4)] .
  then show ?thesis
    using cn(1) relay_callbacks_return [OF cipher_ex_ok lib_ex_ok cfg_ex_ok cn(1) st] by metis
qed

theorem relay_progress_witness:
  "\<exists>cn s cn'. reachable_ex cn \<and> c_server cn = Some s \<and> conn_step lc_ex cr_ex cfg_ex cn (Some (Inr cn'))"
  using connecting_ex relay_progress [OF cipher_ex_ok lib_ex_ok cfg_ex_ok] by metis

text \<open>C7: what the relay sends upstream. As soon as a connection has its remote, the bytes received from the
  application are a SOCKS5 greeting that offers no authentication, a CONNECT request for an address, and the payload. On a
  direct connection, the bytes sent to the remote and those that still wait for its socket are
  exactly the payload. Otherwise they are the AEAD stream of one salt whose chunks are the address followed by a division of the payload;
  before the first payload is encrypted, the address waits in \<^verbatim>\<open>abuf\<close> and nothing was sent. The address
  (\<^const>\<open>header_for\<close>) is the requested one, byte for byte, unless there is an access control list with remote name
  resolution and the HTTP or TLS parser finds a host name in \<open>d\<close>, the payload that was there when the remote's
  socket was opened: then it is this name (at most 256 bytes of it) with the requested port.\<close>

theorem relay_upstream:
  assumes "cipher_ok c" "lib_ok lib c" "cfg_ok cfg" "conn_reachable (state_wf lc) lc (aead_crypto lc lib c) cfg cn"
    and "c_server cn = Some s" "s_remote s = Some r"
  shows "\<exists>g q a d later. greeting_ok g \<and> socks_request q a \<and> client_in cn = g @ q @ d @ later \<and> seen cn = Some (g @ q @ d)
     \<and> (if r_direct r then remote_out cn @ unsent (r_buf r) = d @ later
        else \<exists>sl hdr chunks. hdr = header_for lc cfg a d \<and> concat chunks = d @ later
          \<and> (case s_abuf s of
               None \<Rightarrow> remote_out cn @ unsent (r_buf r) = aead_wire lib c sl (hdr # chunks)
             | Some ab \<Rightarrow> chunks = [] \<and> remote_out cn = [] \<and> contents ab = aead_wire lib c sl [hdr]))"
proof -
  have "up_inv lc cfg (aead_sent lib c) (aead_wire lib c) s r cn [] (unsent (r_buf r))"
    using relay_inv [OF assms(1-4)] assms(5,6) by (simp add: conn_inv_def late_inv_def)
  then obtain g q a d payload where up: "greeting_ok g" "socks_request q a" "client_in cn = g @ q @ payload" "seen cn = Some (g @ q @ d)"
      and out: "if r_direct r then remote_out cn @ unsent (r_buf r) = payload
        else \<exists>sl hdr chunks. hdr = header_for lc cfg a d \<and> aead_sent lib c sl (hdr # chunks) (s_e_ctx s) \<and> concat chunks = payload \<and>
           (case s_abuf s of
              Some ab \<Rightarrow> buf_wf ab \<and> chunks = [] \<and> remote_out cn @ unsent (r_buf r) = [] \<and> contents ab = aead_wire lib c sl [hdr]
            | None \<Rightarrow> remote_out cn @ unsent (r_buf r) = aead_wire lib c sl (hdr # chunks))"
    unfolding up_inv_def append_Nil2 by blast
  obtain later where "payload = d @ later"
    using seen_prefix [OF up(4)] up(3) by auto
  then show ?thesis
    using up out by (intro exI [of _ g] exI [of _ q] exI [of _ a] exI [of _ d] exI [of _ later]) (cases "s_abuf s"; fastforce split: if_splits)
qed

theorem relay_upstream_witness:
  "\<exists>cn s r g q a d later sl chunks. reachable_ex cn \<and> c_server cn = Some s \<and> s_remote s = Some r \<and> \<not> r_direct r
     \<and> greeting_ok g \<and> socks_request q a \<and> client_in cn = g @ q @ d @ later \<and> seen cn = Some (g @ q @ d)
     \<and> concat chunks = d @ later
     \<and> remote_out cn @ unsent (r_buf r) = aead_wire lib_ex cipher_ex sl (header_for lc_ex cfg_ex a d # chunks)"
proof -
  obtain cn s r where cn: "reachable_ex cn" "c_server cn = Some s" "s_remote s = Some r" "\<not> r_direct r" "s_abuf s = None"
    using connecting_ex by blast
  show ?thesis
    using relay_upstream [OF cipher_ex_ok lib_ex_ok cfg_ex_ok cn(1-3)] cn by (simp only: if_False option.case) blast
qed

text \<open>C2: end to end. When the relay has flushed everything, a server that feeds the bytes it received, in any
  fragments, to \<^verbatim>\<open>aead_decrypt\<close> obtains exactly the address followed by the payload of
  the application: no byte is lost, added or reordered between the SOCKS5 client and the server's
  plaintext. The address is that of the application's request, or, with an access control list and remote name resolution, the host name that the
  parsers find in the payload \<open>d\<close> that was there when the remote's socket was opened, with the requested port
  (\<^const>\<open>header_for\<close>). The server's nonce filter must not already hold the salt.\<close>

theorem relay_server_receives:
  assumes "cipher_ok c" "lib_ok lib c" "cfg_ok cfg" "conn_reachable (state_wf lc) lc (aead_crypto lc lib c) cfg cn"
    and "c_server cn = Some s" "s_remote s = Some r" "\<not> r_direct r" "s_abuf s = None" "unsent (r_buf r) = []"
  shows "\<exists>g q a d later sl. greeting_ok g \<and> socks_request q a \<and> client_in cn = g @ q @ d @ later \<and> seen cn = Some (g @ q @ d)
     \<and> (\<forall>lc' st dctx st' cap fs. state_wf lc' st \<and> ppbloom_check (ppb st) sl \<noteq> 1
          \<and> aead_ctx_init lc' lib c False st = Inr (dctx, st') \<and> concat fs = remote_out cn \<longrightarrow>
          (\<exists>dctx' st''. decrypt_stream lc' lib cap dctx st' fs
              = Inr (CRYPTO_OK, header_for lc cfg a d @ d @ later, dctx', st'')))"
proof -
  have "up_inv lc cfg (aead_sent lib c) (aead_wire lib c) s r cn [] []"
    using relay_inv [OF assms(1-4)] assms(5,6,9) by (simp add: conn_inv_def late_inv_def)
  then obtain g q a d payload sl hdr chunks where up: "greeting_ok g" "socks_request q a" "client_in cn = g @ q @ payload"
      "hdr = header_for lc cfg a d" "aead_sent lib c sl (hdr # chunks) (s_e_ctx s)" "concat chunks = payload"
      "remote_out cn = aead_wire lib c sl (hdr # chunks)" "seen cn = Some (g @ q @ d)"
    using assms(7,8) unfolding up_inv_def append_Nil2 by auto
  obtain later where later: "payload = d @ later"
    using seen_prefix [OF up(8)] up(3) by auto
  have ok: "length sl = key_len c" "\<forall>m \<in> set (hdr # chunks). payload_ok m"
    using up(5) by (auto simp: aead_sent_def)
  have "\<exists>dctx' st''. decrypt_stream lc' lib cap dctx st' fs = Inr (CRYPTO_OK, hdr @ payload, dctx', st'')"
    if "state_wf lc' st" "ppbloom_check (ppb st) sl \<noteq> 1" "aead_ctx_init lc' lib c False st = Inr (dctx, st')" "concat fs = remote_out cn"
    for lc' st dctx st' cap fs
    using ctx_init_receiver [OF assms(1,2) that(3) ok] that up(6,7)
      decrypt_stream_wire [OF assms(1,2), of sl dctx "hdr # chunks" fs lc' st' cap]
    by (auto simp: aead_wire_def)
  then show ?thesis
    using up(1-4,8) unfolding later by blast
qed

theorem relay_server_receives_witness:
  "\<exists>cn g q a d later dctx st' dctx' st''. reachable_ex cn \<and> client_in cn = g @ q @ d @ later \<and> socks_request q a
     \<and> aead_ctx_init lc_ex lib_ex cipher_ex False state_ex = Inr (dctx, st')
     \<and> decrypt_stream lc_ex lib_ex 16383 dctx st' [remote_out cn] = Inr (CRYPTO_OK, a @ d @ later, dctx', st'')"
proof -
  obtain cn s r where cn: "reachable_ex cn" "c_server cn = Some s" "s_remote s = Some r" "\<not> r_direct r" "s_abuf s = None"
      "unsent (r_buf r) = []"
    using relayed_ex by blast
  obtain dctx st' where d: "aead_ctx_init lc_ex lib_ex cipher_ex False state_ex = Inr (dctx, st')"
    using ctx_init_keyable [OF cipher_ex_ok, of lc_ex lib_ex False state_ex] by metis
  have "ppbloom_check (ppb state_ex) sl \<noteq> 1" for sl
    by (simp add: state_ex_empty)
  moreover have "concat [remote_out cn] = remote_out cn" and "header_for lc_ex cfg_ex a x = a" for a x
    by (simp_all add: header_for_def cfg_ex_def split: option.split)
  ultimately show ?thesis
    using relay_server_receives [OF cipher_ex_ok lib_ex_ok cfg_ex_ok cn] cn(1) d state_ex_wf by metis
qed

text \<open>C20: a complete dialogue. A fresh connection on which the application's greeting, a CONNECT request and some payload arrive in one
  segment goes through all its stages in one call of \<^verbatim>\<open>server_recv_cb\<close>: the application gets the choice of the
  method and the success reply, the remote is being connected with its watchers started, and what waits for it is the
  stream of two chunks, the requested address and the payload. (No access control list, TCP fast open off, no name to look for in the payload, and the
  system calls succeed.)\<close>

theorem relay_dialogue:
  assumes "cipher_ok c" "lib_ok lib c" "cfg_ok cfg" "dialogue_env cfg env" "state_wf lc st"
    and "accept_cb lc (aead_crypto lc lib c) False st = Inr cn"
    and "e_recv env = Ret (g @ q @ p)" "length (g @ q @ p) \<le> SOCKET_BUF_SIZE"
    and "greeting_ok g" "socks_request q a" "p \<noteq> []" "no_sniff a"
  shows "\<exists>cn' s r sl. server_recv_cb lc (aead_crypto lc lib c) cfg env cn = Some (Inr cn') \<and> c_server cn' = Some s
     \<and> s_remote s = Some r \<and> \<not> r_direct r \<and> r_send_io r \<and> r_watcher r
     \<and> unsent (r_buf r) = aead_wire lib c sl [a, p]
     \<and> client_out cn' = [5, 0] @ [5, 0, 0, 1, 0, 0, 0, 0, 0, 0] \<and> remote_out cn' = []"
  using tcp_crypto.dialogue_ok [OF aead_tcp_crypto [OF assms(1,2)] assms(3-12)] by blast

theorem relay_dialogue_witness:
  "\<exists>cn cn' s r sl. accept_cb lc_ex cr_ex False state_ex = Inr cn
     \<and> server_recv_cb lc_ex cr_ex cfg_ex (env_ex (greeting_ex @ request_ex @ [7])) cn = Some (Inr cn')
     \<and> c_server cn' = Some s \<and> s_remote s = Some r
     \<and> unsent (r_buf r) = aead_wire lib_ex cipher_ex sl [[3, 3, 97, 46, 98, 31, 144], [7]]"
proof -
  obtain cn where cn: "accept_cb lc_ex cr_ex False state_ex = Inr cn"
    using accepted_ex by blast
  show ?thesis
    using cn relay_dialogue [OF cipher_ex_ok lib_ex_ok cfg_ex_ok env_ex_ok(1) state_ex_wf cn env_ex_ok(2) msg_ex(4,1,2) _ msg_ex(3)]
    unfolding addr_ex_def by blast
qed

text \<open>C21: an application that does not speak SOCKS5. When the first byte on a fresh connection is not the version 5, the
  connection is closed at once, and nothing was sent to either side.\<close>

theorem relay_bad_version:
  assumes "cipher_ok c" "lib_ok lib c" "state_wf lc st" "accept_cb lc (aead_crypto lc lib c) fo st = Inr cn"
    and "\<not> e_timer env" "e_recv env = Ret (v # bs)" "v \<noteq> 5" "length (v # bs) \<le> SOCKET_BUF_SIZE"
  shows "\<exists>cn'. server_recv_cb lc (aead_crypto lc lib c) cfg env cn = Some (Inr cn') \<and> c_server cn' = None
     \<and> client_out cn' = [] \<and> remote_out cn' = []"
proof -
  obtain s c1 where c1: "server_recv_cb lc (aead_crypto lc lib c) cfg env cn = recv_loop lc (aead_crypto lc lib c) cfg env c1"
      "c_server c1 = Some s" "s_remote s = None" "s_stage s = STAGE_INIT" "contents (s_buf s) = v # bs"
      "client_out c1 = []" "remote_out c1 = []"
    using tcp_crypto.accept_received [OF aead_tcp_crypto [OF assms(1,2)] assms(3,4,8) _ assms(5,6)] by blast
  then have "len (s_buf s) \<noteq> 0" "data (s_buf s) \<noteq> []" "data (s_buf s) ! 0 = v"
    by (cases "len (s_buf s)"; cases "data (s_buf s)"; simp add: contents_def)+
  then have "recv_loop lc (aead_crypto lc lib c) cfg env c1 = Some (Inr (close_and_free c1))"
    using c1(2-4) assms(7) by (subst recv_loop.simps) (simp add: method_select_def recv_buf_def rd_def)
  then show ?thesis
    using c1 by (auto simp: close_and_free_def client_out_def remote_out_def)
qed

theorem relay_bad_version_witness:
  "\<exists>cn cn'. accept_cb lc_ex cr_ex False state_ex = Inr cn
     \<and> server_recv_cb lc_ex cr_ex cfg_ex (env_ex [4, 1]) cn = Some (Inr cn') \<and> c_server cn' = None"
proof -
  obtain cn where cn: "accept_cb lc_ex cr_ex False state_ex = Inr cn"
    using accepted_ex by blast
  show ?thesis
    using cn relay_bad_version [OF cipher_ex_ok lib_ex_ok state_ex_wf cn env_ex_ok(3,2), of 4 "[1]" cfg_ex] by (auto simp: SOCKET_BUF_SIZE_def)
qed

text \<open>C11: buffer bounds. In every reachable state the buffers of a connection stay inside their allocation (\<^verbatim>\<open>idx + len\<close>
  never exceeds the capacity, which is the real size and at least \<^verbatim>\<open>SOCKET_BUF_SIZE\<close>), and whenever the application's socket is
  read, the room passed to \<^verbatim>\<open>recv\<close> is what is left of the buffer: the unsigned subtraction \<^verbatim>\<open>SOCKET_BUF_SIZE - len\<close>
  does not wrap around.\<close>

theorem relay_buffers:
  assumes "cipher_ok c" "lib_ok lib c" "cfg_ok cfg" "conn_reachable (state_wf lc) lc (aead_crypto lc lib c) cfg cn"
    and "c_server cn = Some s"
  shows "buf_ok (s_buf s) \<and> (\<forall>r. s_remote s = Some r \<longrightarrow> buf_ok (r_buf r))
     \<and> (s_recv_io s \<longrightarrow> len (recv_buf s) \<le> SOCKET_BUF_SIZE
          \<and> len (recv_buf s) + recv_room (len (recv_buf s)) = SOCKET_BUF_SIZE
          \<and> len (recv_buf s) + recv_room (len (recv_buf s)) \<le> length (data (recv_buf s)))"
proof -
  have b: "buf_ok (s_buf s)" "\<forall>r. s_remote s = Some r \<longrightarrow> buf_ok (r_buf r)"
    and l: "s_recv_io s \<longrightarrow> len (recv_buf s) \<le> SOCKET_BUF_SIZE"
    using relay_inv [OF assms(1-4)] assms(5)
    by (auto simp: conn_inv_def early_inv_def late_inv_def down_inv_def recv_buf_def split: option.splits)
  have "buf_ok (recv_buf s)"
    using b by (simp add: recv_buf_def split: option.split)
  then show ?thesis
    using b l by (auto simp: recv_room_le buf_ok_def [of "recv_buf s"])
qed

theorem relay_buffers_witness:
  "\<exists>cn s r. reachable_ex cn \<and> c_server cn = Some s \<and> s_remote s = Some r \<and> buf_ok (s_buf s) \<and> buf_ok (r_buf r)"
proof -
  obtain cn s r where cn: "reachable_ex cn" "c_server cn = Some s" "s_remote s = Some r"
    using connecting_ex by blast
  then show ?thesis
    using relay_buffers [OF cipher_ex_ok lib_ex_ok cfg_ex_ok cn(1,2)] by blast
qed

text \<open>C10: back pressure, in both directions. While the application's socket is read, nothing waits for the remote. On the way back,
  what the application was sent, followed by what waits in the buffer for its socket, is always the replies of the handshake and then the
  whole plaintext \<open>p\<close> of everything that was read from the remote: the bytes themselves on a direct
  connection, otherwise their decryption piece by piece (\<^const>\<open>decrypted\<close>). The remote is read only while nothing waits for the application,
  that is, when it was sent all of \<open>p\<close>. So no unsent byte is overwritten, lost or sent twice, and the memory of a
  connection is bounded. (Of the two bytes that select the method, \<open>k\<close> were accepted: the code does not look at the result of this \<^verbatim>\<open>send\<close>.)\<close>

theorem relay_back_pressure:
  assumes "cipher_ok c" "lib_ok lib c" "cfg_ok cfg" "conn_reachable (state_wf lc) lc (aead_crypto lc lib c) cfg cn"
    and "c_server cn = Some s" "s_remote s = Some r"
  shows "(s_recv_io s \<longrightarrow> unsent (r_buf r) = [] \<and> \<not> r_send_io r) \<and> \<not> (s_send_io s \<and> r_recv_io r)
     \<and> (\<exists>k p. client_out cn @ (if s_send_io s then unsent (s_buf s) else []) = take k [5, 0] @ [5, 0, 0, 1, 0, 0, 0, 0, 0, 0] @ p
          \<and> (r_recv_io r \<longrightarrow> client_out cn = take k [5, 0] @ [5, 0, 0, 1, 0, 0, 0, 0, 0, 0] @ p)
          \<and> (if r_direct r then p = concat (from_remote cn)
             else decrypted (state_wf lc) (aead_crypto lc lib c) (from_remote cn) p (s_d_ctx s)))"
proof -
  have flags: "s_recv_io s \<longrightarrow> unsent (r_buf r) = [] \<and> \<not> r_send_io r" "\<not> (s_send_io s \<and> r_recv_io r)"
    using relay_inv [OF assms(1-4)] assms(5,6) by (auto simp: conn_inv_def late_inv_def down_inv_def unsent_def)
  obtain k p where "for_client s cn = take k [5, 0] @ success_reply @ p" "plain_of (state_wf lc) (aead_crypto lc lib c) s r (from_remote cn) p"
    using relay_down [OF assms(1-4)] assms(5,6) by (auto simp: conn_down_def srv_down_def late_down_def)
  then show ?thesis
    using flags by (intro conjI exI [of _ k] exI [of _ p]) (auto simp: for_client_def plain_of_def success_reply_def)
qed

theorem relay_back_pressure_witness:
  "\<exists>cn s r k p. reachable_ex cn \<and> c_server cn = Some s \<and> s_remote s = Some r \<and> r_send_io r \<and> \<not> s_recv_io s
     \<and> client_out cn @ (if s_send_io s then unsent (s_buf s) else []) = take k [5, 0] @ [5, 0, 0, 1, 0, 0, 0, 0, 0, 0] @ p
     \<and> decrypted (state_wf lc_ex) cr_ex (from_remote cn) p (s_d_ctx s)"
proof -
  obtain cn s r where cn: "reachable_ex cn" "c_server cn = Some s" "s_remote s = Some r" "r_send_io r" "\<not> r_direct r"
    using connecting_ex by blast
  then show ?thesis
    using relay_back_pressure [OF cipher_ex_ok lib_ex_ok cfg_ex_ok cn(1-3)] by (simp only: if_False) blast
qed

end
