(* ===== verification/SS_Stream.thy ===== *)
theory SS_Stream
  imports SS_Aead SS_Salsa
begin

text \<open>
  The stream ciphers of \<^verbatim>\<open>src/stream.c\<close>: TCP streams and UDP packets of the form
  \<^verbatim>\<open>[IV][encrypted payload]\<close>. Three methods call libsodium at a byte position that the context
  counts, the others keep the state of the stream in an mbed TLS context (\<open>evp\<close>). The client is
  built without \<^verbatim>\<open>MODULE_REMOTE\<close>, so a sender does not enter its own IV in the nonce filter.
\<close>

section \<open>Methods\<close>

definition TABLE :: nat where "TABLE = 0"
definition RC4 :: nat where "RC4 = 1"
definition RC4_MD5 :: nat where "RC4_MD5 = 2"
definition SALSA20 :: nat where "SALSA20 = 18"
definition CHACHA20 :: nat where "CHACHA20 = 19"
definition CHACHA20IETF :: nat where "CHACHA20IETF = 20"
definition STREAM_CIPHER_NUM :: nat where "STREAM_CIPHER_NUM = 21"
definition SODIUM_BLOCK_SIZE :: nat where "SODIUM_BLOCK_SIZE = 64"

lemmas stream_method_defs = TABLE_def RC4_def RC4_MD5_def SALSA20_def CHACHA20_def CHACHA20IETF_def
  STREAM_CIPHER_NUM_def

definition supported_stream_ciphers :: "string list" where
  "supported_stream_ciphers =
     [''table'', ''rc4'', ''rc4-md5'', ''aes-128-cfb'', ''aes-192-cfb'', ''aes-256-cfb'',
      ''aes-128-ctr'', ''aes-192-ctr'', ''aes-256-ctr'', ''bf-cfb'', ''camellia-128-cfb'',
      ''camellia-192-cfb'', ''camellia-256-cfb'', ''cast5-cfb'', ''des-cfb'', ''idea-cfb'', ''rc2-cfb'',
      ''seed-cfb'', ''salsa20'', ''chacha20'', ''chacha20-ietf'']"

definition supported_stream_ciphers_mbedtls :: "string list" where
  "supported_stream_ciphers_mbedtls =
     [''table'', ''ARC4-128'', ''ARC4-128'', ''AES-128-CFB128'', ''AES-192-CFB128'', ''AES-256-CFB128'',
      ''AES-128-CTR'', ''AES-192-CTR'', ''AES-256-CTR'', ''BLOWFISH-CFB64'', ''CAMELLIA-128-CFB128'',
      ''CAMELLIA-192-CFB128'', ''CAMELLIA-256-CFB128'', CIPHER_UNSUPPORTED, CIPHER_UNSUPPORTED,
      CIPHER_UNSUPPORTED, CIPHER_UNSUPPORTED, CIPHER_UNSUPPORTED, ''salsa20'', ''chacha20'', ''chacha20-ietf'']"

definition supported_stream_ciphers_nonce_size :: "nat list" where
  "supported_stream_ciphers_nonce_size =
     [0, 0, 16, 16, 16, 16, 16, 16, 16, 8, 16, 16, 16, 8, 8, 8, 8, 16, 8, 8, 12]"

definition supported_stream_ciphers_key_size :: "nat list" where
  "supported_stream_ciphers_key_size =
     [0, 16, 16, 16, 24, 32, 16, 24, 32, 16, 16, 24, 32, 16, 8, 16, 16, 16, 32, 32, 32]"

lemmas stream_tables = supported_stream_ciphers_mbedtls_def supported_stream_ciphers_nonce_size_def
  supported_stream_ciphers_key_size_def CIPHER_UNSUPPORTED_def

section \<open>Primitives\<close>

text \<open>
  What the switch computes; for another method nothing is written. For ChaCha20-IETF libsodium ends the process
  (\<^verbatim>\<open>sodium_misuse\<close>) when the block counter of 32 bits would wrap around within the call. That is not modelled: it
  cannot happen on a connection of less than 256 GiB, and all theorems about the stream ciphers have that limit.
\<close>

definition sodium_xor :: "nat \<Rightarrow> bytes \<Rightarrow> bytes \<Rightarrow> bytes \<Rightarrow> u64 \<Rightarrow> bytes" where
  "sodium_xor meth n k m ic =
     (if meth = SALSA20 then salsa20_xor_ic m n ic k
      else if meth = CHACHA20 then stream_ref_xor_ic m n ic k
      else stream_ietf_ext_ref_xor_ic m n (ucast ic) k)"

definition crypto_stream_xor_ic :: "bytes \<Rightarrow> nat \<Rightarrow> bytes \<Rightarrow> bytes \<Rightarrow> u64 \<Rightarrow> bytes \<Rightarrow> nat \<Rightarrow> bytes" where
  "crypto_stream_xor_ic d ofs m n ic k meth =
     (if meth = SALSA20 \<or> meth = CHACHA20 \<or> meth = CHACHA20IETF
      then memcpy_at d ofs (sodium_xor meth n k m ic) else d)"

definition stream_get_cipher_type :: "nat \<Rightarrow> cipher_info option" where
  "stream_get_cipher_type meth =
     (if meth \<le> TABLE \<or> meth \<ge> STREAM_CIPHER_NUM then None
      else
        let meth = (if meth = RC4_MD5 then RC4 else meth)
        in if meth \<ge> SALSA20 then None
           else
             let mbedtlsname = supported_stream_ciphers_mbedtls ! meth
             in if mbedtlsname = CIPHER_UNSUPPORTED then None
                else mbedtls_cipher_info_from_string mbedtlsname)"

definition stream_cipher_ctx_init :: "cipher_ctx \<Rightarrow> nat \<Rightarrow> fault + cipher_ctx" where
  "stream_cipher_ctx_init ctx meth =
     (if meth \<le> TABLE \<or> meth \<ge> STREAM_CIPHER_NUM then Inr ctx
      else if meth \<ge> SALSA20 then Inr ctx
      else
        case stream_get_cipher_type meth of
          None \<Rightarrow> Inl (FATAL ''Cannot initialize mbed TLS cipher'')
        | Some info \<Rightarrow>
            (case mbedtls_cipher_setup (Some info) of
               None \<Rightarrow> Inl (FATAL ''Cannot initialize mbed TLS cipher context'')
             | Some e \<Rightarrow> Inr (ctx\<lparr>evp := Some e\<rparr>)))"

definition stream_ctx_release :: "cipher_ctx \<Rightarrow> cipher_ctx" where
  "stream_ctx_release ctx =
     (let ctx = ctx\<lparr>chunk := None\<rparr>
      in if cmethod (cipher ctx) \<ge> SALSA20 then ctx else ctx\<lparr>evp := None\<rparr>)"

text \<open>The nonce argument is always the array of the context itself.\<close>

definition cipher_ctx_set_nonce :: "cipher_ctx \<Rightarrow> nat \<Rightarrow> bool \<Rightarrow> fault + cipher_ctx" where
  "cipher_ctx_set_nonce ctx nlen enc =
     (let c = cipher ctx
      in if cmethod c \<ge> SALSA20 then Inr ctx
         else
           let md5 = (cmethod c = RC4_MD5);
               true_key = (if md5 then mbedtls_md5_ret (take 16 (key c) @ take 16 (nonce ctx)) else key c);
               nlen = (if md5 then 0 else nlen)
           in case evp ctx of
                None \<Rightarrow> Inr ctx
              | Some e \<Rightarrow>
                  (case mbedtls_cipher_setkey e true_key (key_len c * 8) enc of
                     None \<Rightarrow> Inl (FATAL ''Cannot set mbed TLS cipher key'')
                   | Some e \<Rightarrow>
                       (case mbedtls_cipher_set_iv e (nonce ctx) nlen of
                          None \<Rightarrow> Inl (FATAL ''Cannot set mbed TLS cipher NONCE'')
                        | Some e \<Rightarrow> Inr (ctx\<lparr>evp := Some (mbedtls_cipher_reset e)\<rparr>))))"

text \<open>\<open>Inr None\<close> is a non-zero return code of the update.\<close>

definition cipher_ctx_update :: "cipher_ctx \<Rightarrow> bytes \<Rightarrow> fault + (bytes \<times> cipher_ctx) option" where
  "cipher_ctx_update ctx inp =
     (case evp ctx of
        None \<Rightarrow> Inl SEGV
      | Some e \<Rightarrow>
          (case mbedtls_cipher_update e inp of
             None \<Rightarrow> Inr None
           | Some (out, e) \<Rightarrow> Inr (Some (out, ctx\<lparr>evp := Some e\<rparr>))))"

definition stream_ctx_init ::
  "libc \<Rightarrow> cipher_t \<Rightarrow> bool \<Rightarrow> crypto_state \<Rightarrow> fault + cipher_ctx \<times> crypto_state" where
  "stream_ctx_init lc c enc st =
     (case stream_cipher_ctx_init (zero_ctx c) (cmethod c) of
        Inl f \<Rightarrow> Inl f
      | Inr ctx \<Rightarrow>
          if enc then
            (case rand_bytes lc st (nonce_len c) of
               (bs, st) \<Rightarrow> Inr (ctx\<lparr>nonce := memcpy_at (nonce ctx) 0 bs\<rparr>, st))
          else Inr (ctx, st))"

section \<open>UDP packets\<close>

text \<open>
  The cipher call of a whole packet: the result is written at \<open>ofs\<close> of the array \<open>d\<close>.
\<close>

definition stream_packet :: "cipher_ctx \<Rightarrow> bytes \<Rightarrow> nat \<Rightarrow> bytes \<Rightarrow> fault + (bytes \<times> nat) option" where
  "stream_packet ctx d ofs m =
     (let c = cipher ctx
      in if cmethod c \<ge> SALSA20
         then Inr (Some (crypto_stream_xor_ic d ofs m (nonce ctx) 0 (key c) (cmethod c), length m))
         else
           case cipher_ctx_update ctx m of
             Inl f \<Rightarrow> Inl f
           | Inr None \<Rightarrow> Inr None
           | Inr (Some (out, _)) \<Rightarrow> Inr (Some (memcpy_at d ofs out, length out)))"

definition stream_encrypt_all ::
  "libc \<Rightarrow> buffer \<Rightarrow> cipher_t \<Rightarrow> nat \<Rightarrow> crypto_state \<Rightarrow> fault + crypto_rc \<times> buffer \<times> crypto_state" where
  "stream_encrypt_all lc plaintext c cap st =
     (case stream_ctx_init lc c True st of
        Inl f \<Rightarrow> Inl f
      | Inr (ctx, st) \<Rightarrow>
          let nlen = nonce_len c;
              tmp = brealloc_buf lc (tmps st STREAM_ENCRYPT_ALL) (nlen + len plaintext) cap;
              tmp = tmp\<lparr>len := len plaintext\<rparr>
          in case cipher_ctx_set_nonce ctx nlen True of
               Inl f \<Rightarrow> Inl f
             | Inr ctx \<Rightarrow>
                 let tmp = tmp\<lparr>data := memcpy_at (data tmp) 0 (take nlen (nonce ctx))\<rparr>
                 in case stream_packet ctx (data tmp) nlen (contents plaintext) of
                      Inl f \<Rightarrow> Inl f
                    | Inr None \<Rightarrow> Inr (CRYPTO_ERROR, plaintext, set_tmp STREAM_ENCRYPT_ALL (tmp\<lparr>len := 0\<rparr>) st)
                    | Inr (Some (d, olen)) \<Rightarrow>
                        let tmp = tmp\<lparr>data := d, len := olen\<rparr>
                        in Inr (CRYPTO_OK, bstore lc plaintext (take (nlen + len tmp) (data tmp)) cap,
                                set_tmp STREAM_ENCRYPT_ALL tmp st))"

definition stream_decrypt_all ::
  "libc \<Rightarrow> buffer \<Rightarrow> cipher_t \<Rightarrow> nat \<Rightarrow> crypto_state \<Rightarrow> fault + crypto_rc \<times> buffer \<times> crypto_state" where
  "stream_decrypt_all lc ciphertext c cap st =
     (let nlen = nonce_len c
      in if len ciphertext \<le> nlen then Inr (CRYPTO_ERROR, ciphertext, st)
         else
           case stream_ctx_init lc c False st of
             Inl f \<Rightarrow> Inl f
           | Inr (ctx, st) \<Rightarrow>
               let tmp = brealloc_buf lc (tmps st STREAM_DECRYPT_ALL) (len ciphertext) cap;
                   tmp = tmp\<lparr>len := len ciphertext - nlen\<rparr>;
                   ctx = ctx\<lparr>nonce := memcpy_at (nonce ctx) 0 (take nlen (data ciphertext))\<rparr>;
                   iv = take nlen (nonce ctx)
               in if ppbloom_check (ppb st) iv = 1
                  then Inr (CRYPTO_ERROR, ciphertext, set_tmp STREAM_DECRYPT_ALL tmp st)
                  else
                    case cipher_ctx_set_nonce ctx nlen False of
                      Inl f \<Rightarrow> Inl f
                    | Inr ctx \<Rightarrow>
                        (case stream_packet ctx (data tmp) 0 (drop nlen (contents ciphertext)) of
                           Inl f \<Rightarrow> Inl f
                         | Inr None \<Rightarrow> Inr (CRYPTO_ERROR, ciphertext, set_tmp STREAM_DECRYPT_ALL (tmp\<lparr>len := 0\<rparr>) st)
                         | Inr (Some (d, olen)) \<Rightarrow>
                             let tmp = tmp\<lparr>data := d, len := olen\<rparr>;
                                 st = remember lc iv st
                             in Inr (CRYPTO_OK, bstore lc ciphertext (take (len tmp) (data tmp)) cap,
                                     set_tmp STREAM_DECRYPT_ALL tmp st)))"

section \<open>TCP streams\<close>

text \<open>
  The libsodium branch that encryption and decryption share: the message is moved behind
  \<open>padding\<close> zero bytes so that the call starts on a block boundary, and the bytes for the padding
  are cut from the result. \<open>ofs\<close> is where the result goes in the destination.
\<close>

definition stream_xor_block ::
  "libc \<Rightarrow> buffer \<Rightarrow> buffer \<Rightarrow> nat \<Rightarrow> cipher_ctx \<Rightarrow> nat \<Rightarrow> buffer \<times> buffer \<times> cipher_ctx" where
  "stream_xor_block lc src dst ofs ctx cap =
     (let c = cipher ctx;
          padding = unat (counter ctx mod of_nat SODIUM_BLOCK_SIZE);
          dst = brealloc_buf lc dst (ofs + (padding + len dst) * 2) cap;
          src = (if padding \<noteq> 0 then
                   let src = brealloc_buf lc src (len src + padding) cap;
                       d = memcpy_at (data src) padding (take (len src) (data src))
                   in src\<lparr>data := memcpy_at d 0 (replicate padding 0)\<rparr>
                 else src);
          d = crypto_stream_xor_ic (data dst) ofs (take (len src + padding) (data src)) (nonce ctx)
                (counter ctx div of_nat SODIUM_BLOCK_SIZE) (key c) (cmethod c);
          ctx = ctx\<lparr>counter := counter ctx + of_nat (len src)\<rparr>;
          d = (if padding \<noteq> 0 then memcpy_at d ofs (take (len dst) (drop (ofs + padding) d)) else d)
      in (src, dst\<lparr>data := d\<rparr>, ctx))"

text \<open>The first call on a connection sets the IV and puts it in front.\<close>

definition stream_encrypt_start :: "cipher_ctx \<Rightarrow> nat \<Rightarrow> bytes \<Rightarrow> fault + bytes \<times> cipher_ctx" where
  "stream_encrypt_start ctx nlen d =
     (if init ctx = 0 then
        case cipher_ctx_set_nonce ctx nlen True of
          Inl f \<Rightarrow> Inl f
        | Inr ctx \<Rightarrow> Inr (memcpy_at d 0 (take nlen (nonce ctx)), ctx\<lparr>counter := 0, init := 1\<rparr>)
      else Inr (d, ctx))"

definition stream_encrypt ::
  "libc \<Rightarrow> buffer \<Rightarrow> cipher_ctx option \<Rightarrow> nat \<Rightarrow> crypto_state
     \<Rightarrow> fault + crypto_rc \<times> buffer \<times> cipher_ctx option \<times> crypto_state" where
  "stream_encrypt lc plaintext octx cap st =
     (case octx of
        None \<Rightarrow> Inr (CRYPTO_ERROR, plaintext, None, st)
      | Some ctx \<Rightarrow>
          let nlen = (if init ctx = 0 then nonce_len (cipher ctx) else 0);
              tmp = brealloc_buf lc (tmps st STREAM_ENCRYPT) (nlen + len plaintext) cap;
              tmp = tmp\<lparr>len := len plaintext\<rparr>
          in case stream_encrypt_start ctx nlen (data tmp) of
               Inl f \<Rightarrow> Inl f
             | Inr (d, ctx) \<Rightarrow>
                 let tmp = tmp\<lparr>data := d\<rparr>
                 in if cmethod (cipher ctx) \<ge> SALSA20 then
                      (case stream_xor_block lc plaintext tmp nlen ctx cap of
                         (plaintext, tmp, ctx) \<Rightarrow>
                           Inr (CRYPTO_OK, bstore lc plaintext (take (nlen + len tmp) (data tmp)) cap, Some ctx,
                                set_tmp STREAM_ENCRYPT tmp st))
                    else
                      (case cipher_ctx_update ctx (contents plaintext) of
                         Inl f \<Rightarrow> Inl f
                       | Inr None \<Rightarrow> Inr (CRYPTO_ERROR, plaintext, Some ctx, set_tmp STREAM_ENCRYPT (tmp\<lparr>len := 0\<rparr>) st)
                       | Inr (Some (out, ctx)) \<Rightarrow>
                           let tmp = tmp\<lparr>data := memcpy_at (data tmp) nlen out, len := length out\<rparr>
                           in Inr (CRYPTO_OK, bstore lc plaintext (take (nlen + len tmp) (data tmp)) cap, Some ctx,
                                   set_tmp STREAM_ENCRYPT tmp st)))"

text \<open>
  The IV of a receiver is collected in \<open>chunk\<close>. The result is an early return, if any, the rest of
  the input, and by how many bytes the code shortens \<^verbatim>\<open>plaintext->len\<close>.
\<close>

definition stream_decrypt_start ::
  "libc \<Rightarrow> buffer \<Rightarrow> cipher_ctx \<Rightarrow> crypto_state \<Rightarrow> fault + crypto_rc option \<times> buffer \<times> nat \<times> cipher_ctx" where
  "stream_decrypt_start lc ciphertext ctx st =
     (if init ctx \<noteq> 0 then Inr (None, ciphertext, 0, ctx)
      else
        let c = cipher ctx;
            b = (case chunk ctx of None \<Rightarrow> snd (balloc lc (nonce_len c)) | Some b \<Rightarrow> b);
            left_len = min (nonce_len c - len b) (len ciphertext);
            taken = take left_len (data ciphertext);
            ciphertext = (if left_len > 0 then bconsume ciphertext left_len else ciphertext);
            b = (if left_len > 0 then b\<lparr>data := memcpy_at (data b) (len b) taken, len := len b + left_len\<rparr> else b);
            ctx = ctx\<lparr>chunk := Some b\<rparr>
        in if len b < nonce_len c then Inr (Some CRYPTO_NEED_MORE, ciphertext, 0, ctx)
           else
             let ctx = ctx\<lparr>nonce := memcpy_at (nonce ctx) 0 (take (nonce_len c) (data b))\<rparr>
             in case cipher_ctx_set_nonce ctx (nonce_len c) False of
                  Inl f \<Rightarrow> Inl f
                | Inr ctx \<Rightarrow>
                    let ctx = ctx\<lparr>counter := 0, init := 1\<rparr>
                    in if cmethod c \<ge> RC4_MD5 \<and> ppbloom_check (ppb st) (take (nonce_len c) (nonce ctx)) = 1
                       then Inr (Some CRYPTO_ERROR, ciphertext, left_len, ctx)
                       else Inr (None, ciphertext, left_len, ctx))"

text \<open>After the first bytes decrypted, the IV is checked again and entered in the filter.\<close>

definition stream_decrypt_finish ::
  "libc \<Rightarrow> buffer \<Rightarrow> buffer \<Rightarrow> cipher_ctx \<Rightarrow> nat \<Rightarrow> crypto_state
     \<Rightarrow> fault + crypto_rc \<times> buffer \<times> cipher_ctx option \<times> crypto_state" where
  "stream_decrypt_finish lc ciphertext tmp ctx cap st =
     (let c = cipher ctx;
          iv = take (nonce_len c) (nonce ctx);
          first = (init ctx = 1 \<and> cmethod c \<ge> RC4_MD5);
          st = set_tmp STREAM_DECRYPT tmp st
      in if first \<and> ppbloom_check (ppb st) iv = 1 then Inr (CRYPTO_ERROR, ciphertext, Some ctx, st)
         else
           let st = (if first then remember lc iv st else st);
               ctx = (if first then ctx\<lparr>init := 2\<rparr> else ctx)
           in Inr (CRYPTO_OK, bstore lc ciphertext (take (len tmp) (data tmp)) cap, Some ctx, st))"

text \<open>What a receiver that has its IV does with the rest of the input.\<close>

definition stream_decrypt_body ::
  "libc \<Rightarrow> buffer \<Rightarrow> buffer \<Rightarrow> cipher_ctx \<Rightarrow> nat \<Rightarrow> crypto_state
     \<Rightarrow> fault + crypto_rc \<times> buffer \<times> cipher_ctx option \<times> crypto_state" where
  "stream_decrypt_body lc ciphertext tmp ctx cap st =
     (if len ciphertext = 0
      then Inr (CRYPTO_NEED_MORE, ciphertext, Some ctx, set_tmp STREAM_DECRYPT tmp st)
      else if cmethod (cipher ctx) \<ge> SALSA20 then
        (case stream_xor_block lc ciphertext tmp 0 ctx cap of
           (ciphertext, tmp, ctx) \<Rightarrow> stream_decrypt_finish lc ciphertext tmp ctx cap st)
      else
        (case cipher_ctx_update ctx (contents ciphertext) of
           Inl f \<Rightarrow> Inl f
         | Inr None \<Rightarrow> Inr (CRYPTO_ERROR, ciphertext, Some ctx, set_tmp STREAM_DECRYPT (tmp\<lparr>len := 0\<rparr>) st)
         | Inr (Some (out, ctx)) \<Rightarrow>
             stream_decrypt_finish lc ciphertext
               (tmp\<lparr>data := memcpy_at (data tmp) 0 out, len := length out\<rparr>) ctx cap st))"

definition stream_decrypt ::
  "libc \<Rightarrow> buffer \<Rightarrow> cipher_ctx option \<Rightarrow> nat \<Rightarrow> crypto_state
     \<Rightarrow> fault + crypto_rc \<times> buffer \<times> cipher_ctx option \<times> crypto_state" where
  "stream_decrypt lc ciphertext octx cap st =
     (case octx of
        None \<Rightarrow> Inr (CRYPTO_ERROR, ciphertext, None, st)
      | Some ctx \<Rightarrow>
          let tmp = brealloc_buf lc (tmps st STREAM_DECRYPT) (len ciphertext) cap;
              tmp = tmp\<lparr>len := len ciphertext\<rparr>
          in case stream_decrypt_start lc ciphertext ctx st of
               Inl f \<Rightarrow> Inl f
             | Inr (Some err, ciphertext, left_len, ctx) \<Rightarrow>
                 Inr (err, ciphertext, Some ctx, set_tmp STREAM_DECRYPT (tmp\<lparr>len := len tmp - left_len\<rparr>) st)
             | Inr (None, ciphertext, left_len, ctx) \<Rightarrow>
                 stream_decrypt_body lc ciphertext (tmp\<lparr>len := len tmp - left_len\<rparr>) ctx cap st)"

end
