(* ===== verification/SS_StreamSession.thy ===== *)
theory SS_StreamSession
  imports SS_Stream
begin

text \<open>
  What the stream ciphers of \<^verbatim>\<open>src/stream.c\<close> guarantee. The running cipher is abstracted to a key
  stream state (\<open>ks_start\<close>, \<open>ks_run\<close>): how far the stream has come in libsodium's case, the mbed
  TLS context in the other. The code is shown to emit the IV once and then the payloads as one
  stream, and to take such a stream apart again in whatever pieces it arrives.
\<close>

section \<open>Ciphers\<close>

text \<open>A cipher as \<open>stream_key_init\<close> leaves it; five of the names have no implementation.\<close>

definition stream_cipher_ok :: "cipher_t \<Rightarrow> bool" where
  "stream_cipher_ok c \<longleftrightarrow> TABLE < cmethod c \<and> cmethod c < STREAM_CIPHER_NUM \<and> cmethod c \<notin> {13..17}
     \<and> nonce_len c = supported_stream_ciphers_nonce_size ! cmethod c
     \<and> key_len c = supported_stream_ciphers_key_size ! cmethod c
     \<and> length (key c) = MAX_KEY_LENGTH"

lemma stream_method_cases:
  assumes "stream_cipher_ok c"
  shows "cmethod c \<in> {1, 2, 3, 4, 5, 6, 7, 8, 9, 10, 11, 12, 18, 19, 20}"
proof -
  have "0 < cmethod c" "cmethod c < 21" "\<not> (13 \<le> cmethod c \<and> cmethod c \<le> 17)"
    using assms by (auto simp: stream_cipher_ok_def stream_method_defs)
  then show ?thesis by simp presburger
qed

definition sodium_method :: "cipher_t \<Rightarrow> bool" where
  "sodium_method c \<longleftrightarrow> SALSA20 \<le> cmethod c"

lemma stream_nonce_len: "stream_cipher_ok c \<Longrightarrow> nonce_len c \<le> 16"
  using stream_method_cases [of c] by (auto simp: stream_cipher_ok_def stream_tables)

definition stream_kt :: "cipher_t \<Rightarrow> cipher_info" where
  "stream_kt c = the (stream_get_cipher_type (cmethod c))"

lemma mbedtls_names:
  "mbedtls_cipher_info_from_string ''ARC4-128'' = Some arc4_128_info"
  "mbedtls_cipher_info_from_string ''AES-128-CFB128'' = Some (cfb128_info ''AES-128-CFB128'' BASE_AES 128)"
  "mbedtls_cipher_info_from_string ''AES-192-CFB128'' = Some (cfb128_info ''AES-192-CFB128'' BASE_AES 192)"
  "mbedtls_cipher_info_from_string ''AES-256-CFB128'' = Some (cfb128_info ''AES-256-CFB128'' BASE_AES 256)"
  "mbedtls_cipher_info_from_string ''AES-128-CTR'' = Some (aes_ctr_info ''AES-128-CTR'' 128)"
  "mbedtls_cipher_info_from_string ''AES-192-CTR'' = Some (aes_ctr_info ''AES-192-CTR'' 192)"
  "mbedtls_cipher_info_from_string ''AES-256-CTR'' = Some (aes_ctr_info ''AES-256-CTR'' 256)"
  "mbedtls_cipher_info_from_string ''BLOWFISH-CFB64'' = Some blowfish_cfb64_info"
  "mbedtls_cipher_info_from_string ''CAMELLIA-128-CFB128'' = Some (cfb128_info ''CAMELLIA-128-CFB128'' BASE_CAMELLIA 128)"
  "mbedtls_cipher_info_from_string ''CAMELLIA-192-CFB128'' = Some (cfb128_info ''CAMELLIA-192-CFB128'' BASE_CAMELLIA 192)"
  "mbedtls_cipher_info_from_string ''CAMELLIA-256-CFB128'' = Some (cfb128_info ''CAMELLIA-256-CFB128'' BASE_CAMELLIA 256)"
  by (simp_all add: mbedtls_cipher_info_from_string_def mbedtls_cipher_definitions_def cipher_infos)

lemma cipher_types:
  "stream_get_cipher_type 1 = Some arc4_128_info"
  "stream_get_cipher_type 2 = Some arc4_128_info"
  "stream_get_cipher_type 3 = Some (cfb128_info ''AES-128-CFB128'' BASE_AES 128)"
  "stream_get_cipher_type 4 = Some (cfb128_info ''AES-192-CFB128'' BASE_AES 192)"
  "stream_get_cipher_type 5 = Some (cfb128_info ''AES-256-CFB128'' BASE_AES 256)"
  "stream_get_cipher_type 6 = Some (aes_ctr_info ''AES-128-CTR'' 128)"
  "stream_get_cipher_type 7 = Some (aes_ctr_info ''AES-192-CTR'' 192)"
  "stream_get_cipher_type 8 = Some (aes_ctr_info ''AES-256-CTR'' 256)"
  "stream_get_cipher_type 9 = Some blowfish_cfb64_info"
  "stream_get_cipher_type 10 = Some (cfb128_info ''CAMELLIA-128-CFB128'' BASE_CAMELLIA 128)"
  "stream_get_cipher_type 11 = Some (cfb128_info ''CAMELLIA-192-CFB128'' BASE_CAMELLIA 192)"
  "stream_get_cipher_type 12 = Some (cfb128_info ''CAMELLIA-256-CFB128'' BASE_CAMELLIA 256)"
  by (simp_all add: stream_get_cipher_type_def stream_method_defs stream_tables mbedtls_names)

text \<open>Every mbed TLS method finds its cipher there, with the key and IV sizes of the tables.\<close>

lemma stream_kt_props:
  assumes "stream_cipher_ok c" "\<not> sodium_method c"
  shows "stream_get_cipher_type (cmethod c) = Some (stream_kt c)" "stream_info (stream_kt c)"
    "ci_key_bitlen (stream_kt c) = key_len c * 8"
    "ci_iv_size (stream_kt c) = (if cmethod c = RC4_MD5 then 0 else nonce_len c)"
proof -
  have m: "cmethod c = 1 \<or> cmethod c = 2 \<or> cmethod c = 3 \<or> cmethod c = 4 \<or> cmethod c = 5 \<or> cmethod c = 6
      \<or> cmethod c = 7 \<or> cmethod c = 8 \<or> cmethod c = 9 \<or> cmethod c = 10 \<or> cmethod c = 11 \<or> cmethod c = 12"
    using stream_method_cases [OF assms(1)] assms(2) by (auto simp: sodium_method_def SALSA20_def)
  have sz: "key_len c = supported_stream_ciphers_key_size ! cmethod c"
      "nonce_len c = supported_stream_ciphers_nonce_size ! cmethod c"
    using assms(1) by (simp_all add: stream_cipher_ok_def)
  show "stream_get_cipher_type (cmethod c) = Some (stream_kt c)"
    using m by (elim disjE) (simp_all add: stream_kt_def cipher_types del: One_nat_def)
  show "stream_info (stream_kt c)"
    using m by (elim disjE) (simp_all add: stream_kt_def cipher_types cipher_infos stream_info_def del: One_nat_def)
  show "ci_key_bitlen (stream_kt c) = key_len c * 8"
    using m unfolding sz
    by (elim disjE) (simp_all add: stream_kt_def cipher_types cipher_infos stream_tables del: One_nat_def)
  show "ci_iv_size (stream_kt c) = (if cmethod c = RC4_MD5 then 0 else nonce_len c)"
    using m unfolding sz
    by (elim disjE) (simp_all add: stream_kt_def cipher_types cipher_infos stream_tables RC4_MD5_def del: One_nat_def)
qed

section \<open>The key stream state\<close>

type_synonym ks = "u64 \<times> mbed_context option"

text \<open>The nonce array that holds an IV, and the key that goes into the cipher.\<close>

definition iv_array :: "bytes \<Rightarrow> bytes" where
  "iv_array iv = memcpy_at (replicate MAX_NONCE_LENGTH 0) 0 iv"

definition true_key :: "cipher_t \<Rightarrow> bytes \<Rightarrow> bytes" where
  "true_key c iv =
     (if cmethod c = RC4_MD5 then mbedtls_md5_ret (take 16 (key c) @ take 16 (iv_array iv)) else key c)"

definition evp_ivlen :: "cipher_t \<Rightarrow> nat" where
  "evp_ivlen c = (if cmethod c = RC4_MD5 then 0 else nonce_len c)"

definition ks_start :: "cipher_t \<Rightarrow> bytes \<Rightarrow> bool \<Rightarrow> ks" where
  "ks_start c iv enc =
     (0, if sodium_method c then None else evp_start (stream_kt c) (true_key c iv) (iv_array iv) (evp_ivlen c) enc)"

definition ks_run :: "cipher_t \<Rightarrow> bytes \<Rightarrow> ks \<Rightarrow> bytes \<Rightarrow> bytes \<times> ks" where
  "ks_run c iv s m =
     (case s of (cnt, e) \<Rightarrow>
        if sodium_method c
        then (xor_at (sodium_xor (cmethod c) (iv_array iv) (key c)) cnt m, cnt + of_nat (length m), e)
        else case mbedtls_cipher_update (the e) m of
               None \<Rightarrow> ([], s)
             | Some (out, e) \<Rightarrow> (out, cnt, Some e))"

definition ks_wf :: "cipher_t \<Rightarrow> bool \<Rightarrow> ks \<Rightarrow> bool" where
  "ks_wf c enc s \<longleftrightarrow> (if sodium_method c then snd s = None else \<exists>e. snd s = Some e \<and> evp_wf e \<and> m_encrypt e = enc)"

text \<open>
  How far a stream may run before the pieces it is cut into could matter: the 32-bit block counter of
  the IETF variant spills into its nonce after \<open>2 ^ 32\<close> blocks within one call, but wraps
  around between calls.
\<close>

definition stream_limit :: "cipher_t \<Rightarrow> nat" where
  "stream_limit c = (if cmethod c = CHACHA20IETF then 2 ^ 38 else 2 ^ 64)"

lemma iv_array_props:
  assumes "length iv \<le> MAX_NONCE_LENGTH"
  shows "length (iv_array iv) = MAX_NONCE_LENGTH" "take (length iv) (iv_array iv) = iv"
  using assms by (simp_all add: iv_array_def length_memcpy_at)

lemma ks_start_wf:
  assumes "stream_cipher_ok c" "length iv = nonce_len c"
  shows "ks_wf c enc (ks_start c iv enc)"
proof (cases "sodium_method c")
  case False
  have "length (iv_array iv) = 32"
    using iv_array_props(1) [of iv] stream_nonce_len [OF assms(1)] assms(2) by (simp add: MAX_NONCE_LENGTH_def)
  moreover have "ci_iv_size (stream_kt c) \<le> evp_ivlen c" "evp_ivlen c \<le> 16"
    using stream_kt_props(4) [OF assms(1) False] stream_nonce_len [OF assms(1)] by (simp_all add: evp_ivlen_def)
  ultimately obtain e where "evp_start (stream_kt c) (true_key c iv) (iv_array iv) (evp_ivlen c) enc = Some e"
      "evp_wf e" "m_encrypt e = enc"
    using evp_start_ok [OF stream_kt_props(2) [OF assms(1) False], of "evp_ivlen c" "iv_array iv" "true_key c iv" enc]
    by (metis le_trans numeral_le_iff semiring_norm(69) semiring_norm(71) semiring_norm(68))
  with False show ?thesis by (simp add: ks_wf_def ks_start_def)
qed (simp add: ks_wf_def ks_start_def)

text \<open>The three libsodium methods, as one instance of the interface.\<close>

lemma sodium_stream:
  assumes "stream_cipher_ok c" "sodium_method c"
  obtains B L where "block_stream (sodium_xor (cmethod c) n k) B L" "stream_limit c \<le> 64 * L"
proof -
  have "cmethod c = SALSA20 \<or> cmethod c = CHACHA20 \<or> cmethod c = CHACHA20IETF"
    using stream_method_cases [OF assms(1)] assms(2) by (auto simp: sodium_method_def stream_method_defs)
  then consider "cmethod c = SALSA20" | "cmethod c = CHACHA20" | "cmethod c = CHACHA20IETF" by blast
  then show ?thesis
  proof cases
    case 1
    then have "sodium_xor (cmethod c) n k = (\<lambda>m ic. salsa20_xor_ic m n ic k)"
      by (simp add: fun_eq_iff sodium_xor_def)
    with 1 show ?thesis
      using that [of "salsa_block n k" "2 ^ 64"] salsa20.block_stream_axioms by (simp add: stream_limit_def stream_method_defs)
  next
    case 2
    then have "sodium_xor (cmethod c) n k = (\<lambda>m ic. stream_ref_xor_ic m n ic k)"
      by (simp add: fun_eq_iff sodium_xor_def stream_method_defs)
    with 2 show ?thesis
      using that [of "\<lambda>i. keyblock (chacha_at n k i)" "2 ^ 64"] chacha20.block_stream_axioms
      by (simp add: stream_limit_def stream_method_defs)
  next
    case 3
    then have "sodium_xor (cmethod c) n k = (\<lambda>m ic. stream_ietf_ext_ref_xor_ic m n (ucast ic) k)"
      by (simp add: fun_eq_iff sodium_xor_def stream_method_defs)
    with 3 show ?thesis
      using that [of "\<lambda>i. keyblock (ietf_at n k i)" "2 ^ 32"] chacha20_ietf.block_stream_axioms
      by (simp add: stream_limit_def)
  qed
qed

lemma sodium_xor_at_props:
  fixes n k :: bytes
  assumes "stream_cipher_ok c" "sodium_method c"
  defines "f \<equiv> sodium_xor (cmethod c) n k"
  shows "length (xor_at f cnt m) = length m"
    and "length (f m ic) = length m"
    and "unat cnt + length m < stream_limit c \<Longrightarrow> xor_at f cnt (xor_at f cnt m) = m"
    and "unat cnt + length a + length b < stream_limit c \<Longrightarrow>
           xor_at f cnt (a @ b) = xor_at f cnt a @ xor_at f (cnt + of_nat (length a)) b"
proof -
  obtain B L where bs: "block_stream f B L" and L: "stream_limit c \<le> 64 * L"
    unfolding f_def by (rule sodium_stream [OF assms(1,2)])
  have lim: "stream_limit c \<le> 2 ^ 64" by (simp add: stream_limit_def)
  show "length (xor_at f cnt m) = length m" by (rule block_stream.length_xor_at [OF bs])
  show "length (f m ic) = length m" by (rule block_stream.length_xor_ic [OF bs])
  show "xor_at f cnt (xor_at f cnt m) = m" if "unat cnt + length m < stream_limit c"
    using that L by (intro block_stream.xor_at_undo [OF bs]) simp
  show "xor_at f cnt (a @ b) = xor_at f cnt a @ xor_at f (cnt + of_nat (length a)) b"
    if "unat cnt + length a + length b < stream_limit c"
    using that L lim by (intro block_stream.xor_at_append [OF bs]) simp_all
qed

lemma ks_run_props:
  assumes "stream_cipher_ok c" "ks_wf c enc s"
  shows "length (fst (ks_run c iv s m)) = length m" "ks_wf c enc (snd (ks_run c iv s m))"
proof -
  obtain cnt e where s: "s = (cnt, e)" by fastforce
  have "length (fst (ks_run c iv s m)) = length m \<and> ks_wf c enc (snd (ks_run c iv s m))"
  proof (cases "sodium_method c")
    case True
    then show ?thesis
      using assms(2) sodium_xor_at_props(1) [OF assms(1) True] by (simp add: ks_run_def ks_wf_def s)
  next
    case False
    then obtain e' where e: "e = Some e'" "evp_wf e'" "m_encrypt e' = enc" using assms(2) by (auto simp: ks_wf_def s)
    obtain ys e'' where "mbedtls_cipher_update e' m = Some (ys, e'')" "length ys = length m" "evp_wf e''" "m_encrypt e'' = m_encrypt e'"
      using cipher_update_total [OF e(2), of m] by metis
    with False e show ?thesis
      by (simp add: ks_run_def ks_wf_def s)
  qed
  then show "length (fst (ks_run c iv s m)) = length m" "ks_wf c enc (snd (ks_run c iv s m))" by simp_all
qed

text \<open>Two pieces are one piece.\<close>

lemma ks_run_append:
  assumes "stream_cipher_ok c" "ks_wf c enc s" "unat (fst s) + length a + length b < stream_limit c"
  shows "ks_run c iv s (a @ b) =
    (case ks_run c iv s a of (x, s) \<Rightarrow> case ks_run c iv s b of (y, s) \<Rightarrow> (x @ y, s))"
proof -
  obtain cnt e where s: "s = (cnt, e)" by fastforce
  show ?thesis
  proof (cases "sodium_method c")
    case True
    then show ?thesis
      using sodium_xor_at_props(4) [OF assms(1) True] assms(3) by (simp add: ks_run_def s)
  next
    case False
    then obtain e' where e: "e = Some e'" "evp_wf e'" using assms(2) by (auto simp: ks_wf_def s)
    obtain x e1 where u: "mbedtls_cipher_update e' a = Some (x, e1)" "evp_wf e1"
      using cipher_update_total [OF e(2), of a] by metis
    obtain y e2 where v: "mbedtls_cipher_update e1 b = Some (y, e2)"
      using cipher_update_total [OF u(2), of b] by metis
    show ?thesis
      using False e u v cipher_update_append [OF e(2) u(1) v] by (simp add: ks_run_def s)
  qed
qed

text \<open>The receiver's state that belongs to a sender's.\<close>

definition ks_dec :: "ks \<Rightarrow> ks" where
  "ks_dec s = (fst s, map_option decrypting (snd s))"

lemma ks_start_dec: "ks_dec (ks_start c iv True) = ks_start c iv False"
  using evp_start_dec by (simp add: ks_dec_def ks_start_def)

lemma ks_run_undo:
  assumes "stream_cipher_ok c" "ks_wf c True s" "unat (fst s) + length m < stream_limit c"
  shows "ks_run c iv (ks_dec s) (fst (ks_run c iv s m)) = (m, ks_dec (snd (ks_run c iv s m)))"
proof -
  obtain cnt e where s: "s = (cnt, e)" by fastforce
  show ?thesis
  proof (cases "sodium_method c")
    case True
    then show ?thesis
      using sodium_xor_at_props(1) [OF assms(1) True] sodium_xor_at_props(3) [OF assms(1) True] assms(3) by (simp add: ks_run_def ks_dec_def s)
  next
    case False
    then obtain e' where e: "e = Some e'" "evp_wf e'" "m_encrypt e'" using assms(2) by (auto simp: ks_wf_def s)
    obtain x e1 where u: "mbedtls_cipher_update e' m = Some (x, e1)"
      using cipher_update_total [OF e(2), of m] by metis
    show ?thesis
      using False e u cipher_update_undo [OF e(2,3) u] by (simp add: ks_run_def ks_dec_def s)
  qed
qed

lemma ks_run_counter:
  assumes "unat (fst s) + length m < stream_limit c"
  shows "unat (fst (snd (ks_run c iv s m))) \<le> unat (fst s) + length m"
proof -
  have "unat (fst s + of_nat (length m)) \<le> unat (fst s) + unat (of_nat (length m) :: u64)"
    by (simp add: unat_word_ariths)
  also have "unat (of_nat (length m) :: u64) \<le> length m"
    by (simp add: unsigned_of_nat)
  finally show ?thesis
    by (auto simp: ks_run_def split: prod.splits option.splits)
qed

section \<open>The libsodium branch\<close>

lemma brealloc_take:
  assumes "buf_wf b" "m \<le> capacity b"
  shows "take m (data (brealloc_buf lc b n cap)) = take m (data b)"
  using assms by (simp add: brealloc_buf_def Let_def ss_realloc_def buf_wf_def)

lemma memcpy_at_middle:
  assumes "ofs + length a + length b \<le> length d"
  shows "take (ofs + length b) (memcpy_at (memcpy_at d ofs (a @ b)) ofs
      (take (length b) (drop (ofs + length a) (memcpy_at d ofs (a @ b))))) = take ofs d @ b"
  using assms by (simp add: memcpy_at_def)

text \<open>The source buffer with the message behind its padding.\<close>

lemma padded_source:
  fixes lc :: libc and cap :: nat
  assumes "buf_wf b" "p \<noteq> 0"
  defines "g \<equiv> brealloc_buf lc b (len b + p) cap"
  defines "b' \<equiv> g\<lparr>data := memcpy_at (memcpy_at (data g) p (take (len g) (data g))) 0 (replicate p 0)\<rparr>"
  shows "buf_wf b'" "len b' = len b" "take (len b + p) (data b') = replicate p 0 @ contents b"
    "capacity b \<le> capacity b'"
proof -
  have g: "buf_wf g" "len g = len b" "take (len b) (data g) = contents b" "len b + p \<le> length (data g)" "capacity b \<le> capacity g"
    using brealloc_buf_props [OF assms(1), where lc = lc and n = "len b + p" and cap = cap]
    by (auto simp: g_def contents_def buf_wf_def)
  have l: "length (contents b) = len b" using assms(1) by simp
  show "len b' = len b" "capacity b \<le> capacity b'" using g by (simp_all add: b'_def)
  show "buf_wf b'" using g l by (simp add: b'_def buf_wf_def length_memcpy_at)
  show "take (len b + p) (data b') = replicate p 0 @ contents b"
    using g l by (simp add: b'_def memcpy_at_def)
qed

lemma stream_xor_block_ok:
  assumes "stream_cipher_ok (cipher ctx)" "sodium_method (cipher ctx)"
    and "buf_wf src" "buf_wf dst" "len dst = len src" "ofs \<le> capacity dst"
  defines "f \<equiv> sodium_xor (cmethod (cipher ctx)) (nonce ctx) (key (cipher ctx))"
  obtains src' dst' where
    "stream_xor_block lc src dst ofs ctx cap = (src', dst', ctx\<lparr>counter := counter ctx + of_nat (len src)\<rparr>)"
    "buf_wf src'" "capacity src \<le> capacity src'" "buf_wf dst'" "len dst' = len src" "idx src' = idx src"
    "take (ofs + len src) (data dst') = take ofs (data dst) @ xor_at f (counter ctx) (contents src)"
    "ofs + len src \<le> capacity dst'"
proof -
  define p where "p = unat (counter ctx) mod 64"
  have p: "unat (counter ctx mod of_nat SODIUM_BLOCK_SIZE) = p"
    by (simp add: p_def SODIUM_BLOCK_SIZE_def unat_mod)
  have ic: "counter ctx div of_nat SODIUM_BLOCK_SIZE = counter ctx div 64"
    by (simp add: SODIUM_BLOCK_SIZE_def)
  define g where "g = brealloc_buf lc dst (ofs + (p + len dst) * 2) cap"
  have g: "buf_wf g" "len g = len src" "take ofs (data g) = take ofs (data dst)" "ofs + p + len src \<le> length (data g)"
    using brealloc_buf_props [OF assms(4), where lc = lc and n = "ofs + (p + len dst) * 2" and cap = cap]
      brealloc_take [OF assms(4,6)] assms(5) by (auto simp: g_def buf_wf_def)
  define src' where "src' = (if p \<noteq> 0 then
      (brealloc_buf lc src (len src + p) cap)\<lparr>data := memcpy_at (memcpy_at (data (brealloc_buf lc src (len src + p) cap)) p
        (take (len (brealloc_buf lc src (len src + p) cap)) (data (brealloc_buf lc src (len src + p) cap)))) 0 (replicate p 0)\<rparr>
      else src)"
  have s: "buf_wf src'" "len src' = len src" "take (len src + p) (data src') = replicate p 0 @ contents src"
      "capacity src \<le> capacity src'" "idx src' = idx src"
    using padded_source [OF assms(3), of p lc cap] assms(3)
    by (auto simp: src'_def contents_def brealloc_buf_def Let_def)
  let ?o = "f (replicate p 0 @ contents src) (counter ctx div 64)"
  have lo: "length ?o = p + len src"
    using sodium_xor_at_props(2) [OF assms(1,2)] assms(3) by (simp add: f_def)
  have x: "xor_at f (counter ctx) (contents src) = drop p ?o"
    by (simp add: xor_at_def p_def)
  have o: "?o = take p ?o @ xor_at f (counter ctx) (contents src)"
    by (simp add: x)
  have m: "cmethod (cipher ctx) = SALSA20 \<or> cmethod (cipher ctx) = CHACHA20 \<or> cmethod (cipher ctx) = CHACHA20IETF"
    using stream_method_cases [OF assms(1)] assms(2) by (auto simp: sodium_method_def stream_method_defs)
  define d where "d = memcpy_at (data g) ofs ?o"
  define d' where "d' = (if p \<noteq> 0 then memcpy_at d ofs (take (len src) (drop (ofs + p) d)) else d)"
  have res: "stream_xor_block lc src dst ofs ctx cap = (src', g\<lparr>data := d'\<rparr>, ctx\<lparr>counter := counter ctx + of_nat (len src)\<rparr>)"
    unfolding stream_xor_block_def Let_def p ic g_def [symmetric] src'_def [symmetric] s(2) g(2) s(3)
    using m by (simp add: crypto_stream_xor_ic_def f_def d_def d'_def)
  have ld: "length d = length (data g)"
    unfolding d_def using g lo by (intro length_memcpy_at) simp
  then have ld': "length d' = length (data g)"
    using g(4) by (simp add: d'_def length_memcpy_at)
  have lx: "length (take p ?o) = p" "length (xor_at f (counter ctx) (contents src)) = len src"
    using lo by (simp_all add: x)
  have "take (ofs + len src) d' = take ofs (data g) @ xor_at f (counter ctx) (contents src)"
  proof (cases "p = 0")
    case True
    then show ?thesis
      using take_memcpy_at_end [of ofs "data g" ?o] g(4) lo x by (simp add: d'_def d_def)
  next
    case False
    then show ?thesis
      using memcpy_at_middle [of ofs "take p ?o" "xor_at f (counter ctx) (contents src)" "data g"] g(4) lx
      by (simp add: d'_def d_def flip: o)
  qed
  then show ?thesis
    by (intro that [OF res]) (use s g ld' in \<open>auto simp: buf_wf_def\<close>)
qed

end
