(* ===== verification/SS_StreamConn.thy ===== *)
theory SS_StreamConn
  imports SS_StreamSession
begin

text \<open>
  Connections over the stream ciphers: contexts from \<open>stream_ctx_init\<close>, what \<open>stream_encrypt\<close> emits
  and what \<open>stream_decrypt\<close> makes of any piece of a stream.
\<close>

section \<open>Contexts\<close>

definition unstarted :: "cipher_t \<Rightarrow> cipher_ctx \<Rightarrow> bool" where
  "unstarted c ctx \<longleftrightarrow> cipher ctx = c \<and> init ctx = 0
     \<and> evp ctx = (if sodium_method c then None else mbedtls_cipher_setup (Some (stream_kt c)))"

lemma stream_ctx_init_ok:
  assumes "stream_cipher_ok c"
  obtains ctx where "stream_ctx_init lc c enc st =
      Inr (ctx, if enc then snd (rand_bytes lc st (nonce_len c)) else st)"
    "unstarted c ctx" "chunk ctx = None"
    "nonce ctx = (if enc then iv_array (fst (rand_bytes lc st (nonce_len c))) else replicate MAX_NONCE_LENGTH 0)"
proof -
  define ctx where "ctx = (zero_ctx c)\<lparr>evp := if sodium_method c then None else mbedtls_cipher_setup (Some (stream_kt c))\<rparr>"
  have z: "(zero_ctx c)\<lparr>evp := None\<rparr> = zero_ctx c" by (simp add: zero_ctx_def)
  have m: "TABLE < cmethod c" "cmethod c < STREAM_CIPHER_NUM" using assms by (simp_all add: stream_cipher_ok_def)
  have i: "stream_cipher_ctx_init (zero_ctx c) (cmethod c) = Inr ctx"
    using m z stream_kt_props(1) [OF assms]
    by (auto simp: stream_cipher_ctx_init_def ctx_def sodium_method_def mbedtls_cipher_setup_def)
  have b: "unstarted c ctx" "chunk ctx = None" "nonce ctx = replicate MAX_NONCE_LENGTH 0"
    by (simp_all add: ctx_def unstarted_def zero_ctx_def)
  show ?thesis
  proof (cases enc)
    case True
    let ?ctx = "ctx\<lparr>nonce := memcpy_at (nonce ctx) 0 (fst (rand_bytes lc st (nonce_len c)))\<rparr>"
    show ?thesis
      using True i b by (intro that [of ?ctx]) (auto simp: stream_ctx_init_def iv_array_def unstarted_def split_beta)
  next
    case False
    then show ?thesis
      using i b by (intro that [of ctx]) (auto simp: stream_ctx_init_def)
  qed
qed

lemma set_nonce_ok:
  assumes "stream_cipher_ok c" "unstarted c ctx" "nonce ctx = iv_array iv" "length iv = nonce_len c"
  shows "cipher_ctx_set_nonce ctx (nonce_len c) enc = Inr (ctx\<lparr>evp := snd (ks_start c iv enc)\<rparr>)"
proof (cases "sodium_method c")
  case True
  then have "ctx\<lparr>evp := None\<rparr> = ctx" using assms(2) by (cases ctx) (simp add: unstarted_def)
  with True assms(2) show ?thesis
    by (simp add: cipher_ctx_set_nonce_def ks_start_def unstarted_def sodium_method_def Let_def)
next
  case False
  obtain e where "ks_start c iv enc = (0, Some e)"
    using ks_start_wf [OF assms(1,4), of enc] False by (auto simp: ks_wf_def ks_start_def)
  then have e: "evp_start (stream_kt c) (true_key c iv) (iv_array iv) (evp_ivlen c) enc = Some e" "snd (ks_start c iv enc) = Some e"
    using False by (simp_all add: ks_start_def)
  obtain e0 where s: "mbedtls_cipher_setup (Some (stream_kt c)) = Some e0"
    by (simp add: mbedtls_cipher_setup_def)
  obtain e1 e2 where k: "mbedtls_cipher_setkey e0 (true_key c iv) (key_len c * 8) enc = Some e1"
      "mbedtls_cipher_set_iv e1 (iv_array iv) (evp_ivlen c) = Some e2" "e = mbedtls_cipher_reset e2"
    using e(1) s stream_kt_props(3) [OF assms(1) False] by (auto simp: evp_start_def split: option.splits)
  have c: "cipher ctx = c" "evp ctx = Some e0" using assms(2) False s by (simp_all add: unstarted_def)
  show ?thesis
    using False c k e(2) assms(3)
    by (cases "cmethod c = RC4_MD5")
       (simp_all add: cipher_ctx_set_nonce_def Let_def sodium_method_def true_key_def evp_ivlen_def)
qed

text \<open>A sender with IV \<open>iv\<close> whose stream has come to the state \<open>s\<close>.\<close>

definition stream_sender :: "cipher_t \<Rightarrow> bytes \<Rightarrow> ks \<Rightarrow> cipher_ctx \<Rightarrow> bool" where
  "stream_sender c iv s ctx \<longleftrightarrow> cipher ctx = c \<and> nonce ctx = iv_array iv \<and> length iv = nonce_len c
     \<and> (if init ctx = 0 then unstarted c ctx \<and> s = ks_start c iv True
        else (counter ctx, evp ctx) = s \<and> ks_wf c True s)"

lemma sender_ks_wf: "stream_cipher_ok c \<Longrightarrow> stream_sender c iv s ctx \<Longrightarrow> ks_wf c True s"
  using ks_start_wf [of c iv True] by (auto simp: stream_sender_def split: if_splits)

lemma iv_array_take:
  assumes "stream_cipher_ok c" "length iv = nonce_len c"
  shows "take (nonce_len c) (iv_array iv) = iv" "length (iv_array iv) = MAX_NONCE_LENGTH"
  using iv_array_props [of iv] stream_nonce_len [OF assms(1)] assms(2) by (simp_all add: MAX_NONCE_LENGTH_def)

lemma stream_encrypt_start_ok:
  assumes "stream_cipher_ok c" "stream_sender c iv s ctx"
  defines "p \<equiv> (if init ctx = 0 then iv else [])"
  obtains ctx' where
    "stream_encrypt_start ctx (length p) d = Inr (memcpy_at d 0 p, ctx')"
    "cipher ctx' = c" "nonce ctx' = iv_array iv" "(counter ctx', evp ctx') = s" "init ctx' \<noteq> 0"
proof (cases "init ctx = 0")
  case True
  have ctx: "cipher ctx = c" "nonce ctx = iv_array iv" "unstarted c ctx" "length iv = nonce_len c" "s = ks_start c iv True"
    using assms(2) True by (simp_all add: stream_sender_def)
  let ?ctx = "(ctx\<lparr>evp := snd (ks_start c iv True)\<rparr>)\<lparr>counter := 0, init := 1\<rparr>"
  have "stream_encrypt_start ctx (length p) d = Inr (memcpy_at d 0 p, ?ctx)"
    using True set_nonce_ok [OF assms(1) ctx(3,2,4), of True] ctx(2,4) iv_array_take [OF assms(1) ctx(4)]
    by (simp add: stream_encrypt_start_def p_def)
  then show ?thesis
    by (rule that) (use ctx in \<open>simp_all add: ks_start_def\<close>)
next
  case False
  then show ?thesis
    using assms(2) by (intro that [of ctx]) (simp_all add: stream_encrypt_start_def p_def stream_sender_def)
qed

text \<open>The cipher step of a connection that has started, in the destination array.\<close>

lemma evp_update_ok:
  assumes "stream_cipher_ok c" "\<not> sodium_method c" "cipher ctx = c" "ks_wf c enc (counter ctx, evp ctx)"
  obtains out ctx' where "cipher_ctx_update ctx m = Inr (Some (out, ctx'))"
    "out = fst (ks_run c iv (counter ctx, evp ctx) m)" "length out = length m"
    "(counter ctx', evp ctx') = snd (ks_run c iv (counter ctx, evp ctx) m)"
    "ctx' = ctx\<lparr>evp := evp ctx'\<rparr>"
proof -
  obtain e where e: "evp ctx = Some e" "evp_wf e" using assms(2,4) by (auto simp: ks_wf_def)
  obtain out e' where u: "mbedtls_cipher_update e m = Some (out, e')" "length out = length m"
    using cipher_update_total [OF e(2), of m] by metis
  show ?thesis
    using e u assms(2) by (intro that [of out "ctx\<lparr>evp := Some e'\<rparr>"]) (simp_all add: cipher_ctx_update_def ks_run_def)
qed

section \<open>Sending\<close>

lemma stream_cipher_encrypt_ok:
  assumes "stream_cipher_ok c" "stream_sender c iv s ctx" "state_wf lc st" "buf_wf b"
  obtains b' ctx' st' where "stream_encrypt lc b (Some ctx) cap st = Inr (CRYPTO_OK, b', Some ctx', st')"
    "buf_wf b'" "capacity b \<le> capacity b'"
    "contents b' = (if init ctx = 0 then iv else []) @ fst (ks_run c iv s (contents b))"
    "stream_sender c iv (snd (ks_run c iv s (contents b))) ctx'" "init ctx' \<noteq> 0" "state_wf lc st'"
proof -
  define p where "p = (if init ctx = 0 then iv else [])"
  have ivl: "length iv = nonce_len c" using assms(2) by (simp add: stream_sender_def)
  have pl: "(if init ctx = 0 then nonce_len (cipher ctx) else 0) = length p"
    using assms(2) by (simp add: p_def stream_sender_def)
  define tmp where "tmp = (brealloc_buf lc (tmps st STREAM_ENCRYPT) (length p + len b) cap)\<lparr>len := len b\<rparr>"
  have tmp: "buf_wf tmp" "len tmp = len b" "length p + len b \<le> length (data tmp)"
    using brealloc_buf_props [of "tmps st STREAM_ENCRYPT", where lc = lc and n = "length p + len b" and cap = cap] assms(3)
    by (auto simp: tmp_def state_wf_def buf_wf_def)
  obtain ctx1 where c1: "stream_encrypt_start ctx (length p) (data tmp) = Inr (memcpy_at (data tmp) 0 p, ctx1)"
      "cipher ctx1 = c" "nonce ctx1 = iv_array iv" "(counter ctx1, evp ctx1) = s" "init ctx1 \<noteq> 0"
    unfolding p_def by (rule stream_encrypt_start_ok [OF assms(1,2)])
  have wf: "ks_wf c True s" by (rule sender_ks_wf [OF assms(1,2)])
  note kr = ks_run_props [OF assms(1) wf, of iv "contents b"]
  let ?m = "contents b" and ?t = "tmp\<lparr>data := memcpy_at (data tmp) 0 p\<rparr>"
  have t: "buf_wf ?t" "len ?t = len b" "length p \<le> capacity ?t" "take (length p) (data ?t) = p"
    using tmp by (simp_all add: buf_wf_def length_memcpy_at)
  have fin: "stream_sender c iv (snd (ks_run c iv s ?m)) ctx2"
    if "cipher ctx2 = c" "nonce ctx2 = iv_array iv" "init ctx2 \<noteq> 0" "(counter ctx2, evp ctx2) = snd (ks_run c iv s ?m)" for ctx2
    using that kr(2) ivl by (simp add: stream_sender_def)
  show ?thesis
  proof (cases "sodium_method c")
    case True
    obtain b1 t1 where x: "stream_xor_block lc b ?t (length p) ctx1 cap = (b1, t1, ctx1\<lparr>counter := counter ctx1 + of_nat (len b)\<rparr>)"
      "buf_wf b1" "capacity b \<le> capacity b1" "buf_wf t1" "len t1 = len b"
      "take (length p + len b) (data t1) = take (length p) (data ?t) @
         xor_at (sodium_xor (cmethod (cipher ctx1)) (nonce ctx1) (key (cipher ctx1))) (counter ctx1) ?m"
      using stream_xor_block_ok [of ctx1 b ?t "length p" lc cap] assms(1,4) True t c1(2) by metis
    have k: "ks_run c iv s ?m = (xor_at (sodium_xor (cmethod c) (iv_array iv) (key c)) (counter ctx1) ?m,
        counter ctx1 + of_nat (len b), evp ctx1)"
      using True c1(4) assms(4) by (auto simp: ks_run_def)
    let ?ctx = "ctx1\<lparr>counter := counter ctx1 + of_nat (len b)\<rparr>"
    have res: "stream_encrypt lc b (Some ctx) cap st =
        Inr (CRYPTO_OK, bstore lc b1 (take (length p + len t1) (data t1)) cap, Some ?ctx, set_tmp STREAM_ENCRYPT t1 st)"
      unfolding stream_encrypt_def option.case Let_def pl tmp_def [symmetric] c1(1) sum.case prod.case c1(2)
      using True x(1) by (simp add: sodium_method_def)
    have snd: "stream_sender c iv (snd (ks_run c iv s ?m)) ?ctx"
      using c1 k by (intro fin) simp_all
    have d: "take (length p + len t1) (data t1) = p @ fst (ks_run c iv s ?m)"
      using x(5,6) t(4) k c1(2,3) by simp
    show ?thesis
      by (rule that [OF res [unfolded d]])
         (use bstore_props [OF x(2)] le_trans [OF x(3) bstore_props(4) [OF x(2)]] snd c1(5) x(4) assms(3) in
           \<open>simp_all add: p_def wf_intros\<close>)
  next
    case False
    obtain out ctx2 where u: "cipher_ctx_update ctx1 ?m = Inr (Some (out, ctx2))" "out = fst (ks_run c iv s ?m)"
        "length out = len b" "(counter ctx2, evp ctx2) = snd (ks_run c iv s ?m)" "ctx2 = ctx1\<lparr>evp := evp ctx2\<rparr>"
      using evp_update_ok [OF assms(1) False c1(2), of True ?m iv] wf c1(4) assms(4) by auto
    have c2: "cipher ctx2 = c" "nonce ctx2 = iv_array iv" "init ctx2 \<noteq> 0"
      using c1 by (subst u(5), simp)+
    let ?t2 = "?t\<lparr>data := memcpy_at (data ?t) (length p) out, len := length out\<rparr>"
    have t2: "buf_wf ?t2" "take (length p + length out) (data ?t2) = p @ out"
      using tmp u(3) take_memcpy_at_end [of "length p" "data ?t" out] t
      by (simp_all add: buf_wf_def length_memcpy_at)
    have res: "stream_encrypt lc b (Some ctx) cap st =
        Inr (CRYPTO_OK, bstore lc b (p @ out) cap, Some ctx2, set_tmp STREAM_ENCRYPT ?t2 st)"
      unfolding stream_encrypt_def option.case Let_def pl tmp_def [symmetric] c1(1) sum.case prod.case c1(2)
      using False u(1) t2(2) by (simp add: sodium_method_def)
    have snd: "stream_sender c iv (snd (ks_run c iv s ?m)) ctx2"
      using c2 u(4) by (intro fin)
    show ?thesis
      by (rule that [OF res])
         (use bstore_props [OF assms(4)] snd c2(3) t2(1) u(2) assms(3) in \<open>simp_all add: p_def wf_intros\<close>)
  qed
qed

section \<open>Receiving\<close>

text \<open>A receiver that knows its IV, and one that may still be collecting it.\<close>

definition running :: "cipher_t \<Rightarrow> bytes \<Rightarrow> ks \<Rightarrow> cipher_ctx \<Rightarrow> bool" where
  "running c iv s ctx \<longleftrightarrow> cipher ctx = c \<and> nonce ctx = iv_array iv \<and> length iv = nonce_len c \<and> init ctx \<noteq> 0
     \<and> (counter ctx, evp ctx) = s \<and> ks_wf c False s"

definition collecting :: "cipher_t \<Rightarrow> bytes \<Rightarrow> cipher_ctx \<Rightarrow> bool" where
  "collecting c q ctx \<longleftrightarrow> unstarted c ctx \<and> nonce ctx = replicate MAX_NONCE_LENGTH 0
     \<and> (case chunk ctx of
          None \<Rightarrow> q = []
        | Some b \<Rightarrow> buf_wf b \<and> capacity b = nonce_len c \<and> len b < nonce_len c \<and> contents b = q)"

definition stream_conn_wf :: "cipher_t \<Rightarrow> cipher_ctx \<Rightarrow> bool" where
  "stream_conn_wf c ctx \<longleftrightarrow> (\<exists>q. collecting c q ctx) \<or> (\<exists>iv s. running c iv s ctx)"

lemma collecting_props:
  assumes "collecting c q ctx"
  shows "cipher ctx = c" "init ctx = 0" "length q \<le> nonce_len c"
    and "\<exists>b. (case chunk ctx of None \<Rightarrow> snd (balloc lc (nonce_len c)) | Some b \<Rightarrow> b) = b
      \<and> buf_wf b \<and> capacity b = nonce_len c \<and> len b = length q \<and> contents b = q"
proof -
  show "cipher ctx = c" "init ctx = 0" using assms by (simp_all add: collecting_def unstarted_def)
  show "\<exists>b. (case chunk ctx of None \<Rightarrow> snd (balloc lc (nonce_len c)) | Some b \<Rightarrow> b) = b
      \<and> buf_wf b \<and> capacity b = nonce_len c \<and> len b = length q \<and> contents b = q"
  proof (cases "chunk ctx")
    case None
    then show ?thesis using assms balloc_wf [of lc "nonce_len c"] by (simp add: collecting_def balloc_def contents_def)
  next
    case (Some b)
    then show ?thesis using assms length_contents [of b] by (auto simp: collecting_def)
  qed
  then show "length q \<le> nonce_len c" by (auto simp: buf_wf_def)
qed

lemma bconsume_0: "buf_wf b \<Longrightarrow> bconsume b 0 = b"
  by (simp add: bconsume_def memcpy_at_def buf_wf_def)

lemma stream_start_cases:
  assumes "stream_cipher_ok c" "collecting c q ctx" "buf_wf ct"
  defines "m \<equiv> q @ contents ct"
  defines "iv \<equiv> take (nonce_len c) m"
  obtains
    (more) ct' ctx' where "length m < nonce_len c"
      "stream_decrypt_start lc ct ctx st = Inr (Some CRYPTO_NEED_MORE, ct', 0, ctx')" "collecting c m ctx'"
      "buf_wf ct'" "capacity ct' = capacity ct" "idx ct' = idx ct"
  | (refused) ct' l ctx' where "nonce_len c \<le> length m" "RC4_MD5 \<le> cmethod c" "ppbloom_check (ppb st) iv = 1"
      "stream_decrypt_start lc ct ctx st = Inr (Some CRYPTO_ERROR, ct', l, ctx')" "running c iv (ks_start c iv False) ctx'"
      "buf_wf ct'" "capacity ct' = capacity ct" "idx ct' = idx ct"
  | (started) ct' l ctx' where "nonce_len c \<le> length m" "RC4_MD5 \<le> cmethod c \<Longrightarrow> ppbloom_check (ppb st) iv \<noteq> 1"
      "stream_decrypt_start lc ct ctx st = Inr (None, ct', l, ctx')" "running c iv (ks_start c iv False) ctx'"
      "init ctx' = 1" "contents ct' = drop (nonce_len c) m" "l = len ct - len ct'" "len ct' \<le> len ct"
      "buf_wf ct'" "capacity ct' = capacity ct" "idx ct' = idx ct"
proof -
  note cp = collecting_props [OF assms(2)]
  obtain b where b: "(case chunk ctx of None \<Rightarrow> snd (balloc lc (nonce_len c)) | Some b \<Rightarrow> b) = b"
      "buf_wf b" "capacity b = nonce_len c" "len b = length q" "contents b = q"
    using cp(4) by blast
  define l where "l = min (nonce_len c - len b) (len ct)"
  have l: "l \<le> len ct" "len b + l \<le> nonce_len c" using cp(3) b(4) by (simp_all add: l_def)
  define ct' where "ct' = bconsume ct l"
  have ct': "(if l > 0 then bconsume ct l else ct) = ct'" "buf_wf ct'" "contents ct' = drop l (contents ct)"
      "len ct' = len ct - l" "capacity ct' = capacity ct" "idx ct' = idx ct"
    using bconsume_0 [OF assms(3)] bconsume_props [OF assms(3) l(1)] by (auto simp: ct'_def bconsume_def)
  have tk: "take l (data ct) = take l (contents ct)" using l(1) by (simp add: contents_def)
  define b' where "b' = b\<lparr>data := memcpy_at (data b) (len b) (take l (data ct)), len := len b + l\<rparr>"
  have b'0: "(if l > 0 then b\<lparr>data := memcpy_at (data b) (len b) (take l (data ct)), len := len b + l\<rparr> else b) = b'"
    by (simp add: b'_def)
  have lt: "length (take l (contents ct)) = l" using l(1) assms(3) by simp
  have b': "buf_wf b'" "capacity b' = nonce_len c" "len b' = length q + l" "contents b' = q @ take l (contents ct)"
  proof -
    show "buf_wf b'" "capacity b' = nonce_len c" "len b' = length q + l"
      using b l lt by (simp_all add: b'_def buf_wf_def tk length_memcpy_at)
    show "contents b' = q @ take l (contents ct)"
      using take_memcpy_at_end [of "len b" "data b" "take l (contents ct)"] b lt l(2)
      by (simp add: b'_def contents_def [of b] contents_def [of "_\<lparr>data := _, len := _\<rparr>"] tk buf_wf_def)
  qed
  have lm: "length m = length q + len ct" using assms(3) by (simp add: m_def)
  let ?ctx = "ctx\<lparr>chunk := Some b'\<rparr>"
  show ?thesis
  proof (cases "length m < nonce_len c")
    case True
    then have la: "l = len ct" "len b' < nonce_len c" using lm b(4) b'(3) by (simp_all add: l_def)
    have "stream_decrypt_start lc ct ctx st = Inr (Some CRYPTO_NEED_MORE, ct', 0, ?ctx)"
      unfolding stream_decrypt_start_def Let_def cp(1) b(1) l_def [symmetric] ct'(1) b'0 using cp(2) la(2) by simp
    moreover have "collecting c m ?ctx"
      using assms(2,3) b' la by (simp add: collecting_def unstarted_def m_def)
    ultimately show ?thesis
      by (rule more [OF True]) (use ct'(2,5,6) in simp_all)
  next
    case False
    then have la: "l = nonce_len c - length q" "len b' = nonce_len c" using lm b(4) b'(3) cp(3) by (simp_all add: l_def)
    have ive: "contents b' = iv" "length iv = nonce_len c"
      using False b'(4) la(1) cp(3) by (simp_all add: iv_def m_def)
    have tb: "take (nonce_len c) (data b') = iv" using ive(1) la(2) by (simp add: contents_def)
    let ?c1 = "?ctx\<lparr>nonce := memcpy_at (nonce ?ctx) 0 iv\<rparr>"
    have un: "unstarted c ?c1" "nonce ?c1 = iv_array iv"
      using assms(2) by (simp_all add: collecting_def unstarted_def iv_array_def)
    let ?c2 = "(?c1\<lparr>evp := snd (ks_start c iv False)\<rparr>)\<lparr>counter := 0, init := 1\<rparr>"
    have sn: "cipher_ctx_set_nonce ?c1 (nonce_len c) False = Inr (?c1\<lparr>evp := snd (ks_start c iv False)\<rparr>)"
      by (rule set_nonce_ok [OF assms(1) un ive(2)])
    have tn: "take (nonce_len c) (nonce ?c2) = iv"
      using un(2) iv_array_take(1) [OF assms(1) ive(2)] by simp
    have res: "stream_decrypt_start lc ct ctx st =
        (if cmethod c \<ge> RC4_MD5 \<and> ppbloom_check (ppb st) iv = 1 then Inr (Some CRYPTO_ERROR, ct', l, ?c2) else Inr (None, ct', l, ?c2))"
      unfolding stream_decrypt_start_def Let_def cp(1) b(1) l_def [symmetric] ct'(1) b'0 tb
      using cp(2) la(2) sn tn by simp
    have run: "running c iv (ks_start c iv False) ?c2"
      using un ive(2) ks_start_wf [OF assms(1) ive(2), of False] by (simp add: running_def unstarted_def ks_start_def)
    have rest: "contents ct' = drop (nonce_len c) m" using ct'(3) la(1) cp(3) by (simp add: m_def)
    show ?thesis
    proof (cases "cmethod c \<ge> RC4_MD5 \<and> ppbloom_check (ppb st) iv = 1")
      case True
      then have "stream_decrypt_start lc ct ctx st = Inr (Some CRYPTO_ERROR, ct', l, ?c2)" using res by simp
      then show ?thesis
        by (rule refused [rotated 3]) (use False True run ct'(2,5,6) in simp_all)
    next
      case nr: False
      then have "stream_decrypt_start lc ct ctx st = Inr (None, ct', l, ?c2)" using res by simp
      then show ?thesis
        by (rule started [rotated 2]) (use False nr run rest ct'(2,4,5,6) l(1) in auto)
    qed
  qed
qed

end
