(* ===== verification/SS_StreamRecv.thy ===== *)
theory SS_StreamRecv
  imports SS_StreamConn
begin

text \<open>
  The receiving side of a stream cipher connection: what \<open>stream_decrypt\<close> does with any input, and
  that it delivers what was sent, in whatever pieces the stream arrives.
\<close>

section \<open>One call\<close>

lemma stream_conn_wfI [intro]:
  "collecting c q ctx \<Longrightarrow> stream_conn_wf c ctx" "running c iv s ctx \<Longrightarrow> stream_conn_wf c ctx"
  unfolding stream_conn_wf_def by blast+

text \<open>Whether the IV is still to be entered in the filter.\<close>

definition iv_open :: "cipher_t \<Rightarrow> cipher_ctx \<Rightarrow> bool" where
  "iv_open c ctx \<longleftrightarrow> init ctx = 1 \<and> RC4_MD5 \<le> cmethod c"

lemma decrypt_finish_cases:
  assumes "stream_cipher_ok c" "running c iv s ctx" "state_wf lc st" "buf_wf ct" "buf_wf tmp"
  obtains
    (repeated) "iv_open c ctx" "ppbloom_check (ppb st) iv = 1"
      "stream_decrypt_finish lc ct tmp ctx cap st = Inr (CRYPTO_ERROR, ct, Some ctx, set_tmp STREAM_DECRYPT tmp st)"
  | (delivered) ctx' st' where "iv_open c ctx \<longrightarrow> ppbloom_check (ppb st) iv \<noteq> 1"
      "stream_decrypt_finish lc ct tmp ctx cap st = Inr (CRYPTO_OK, bstore lc ct (contents tmp) cap, Some ctx', st')"
      "running c iv s ctx'" "\<not> iv_open c ctx'" "state_wf lc st'"
proof -
  have iv: "take (nonce_len c) (nonce ctx) = iv" "cipher ctx = c"
    using assms(1,2) iv_array_take [of c iv] by (simp_all add: running_def)
  show ?thesis
  proof (cases "iv_open c ctx \<and> ppbloom_check (ppb st) iv = 1")
    case True
    then show ?thesis
      using iv by (intro repeated) (simp_all add: stream_decrypt_finish_def Let_def iv_open_def)
  next
    case False
    let ?ctx = "if iv_open c ctx then ctx\<lparr>init := 2\<rparr> else ctx"
    let ?st = "if iv_open c ctx then remember lc iv (set_tmp STREAM_DECRYPT tmp st) else set_tmp STREAM_DECRYPT tmp st"
    have "stream_decrypt_finish lc ct tmp ctx cap st = Inr (CRYPTO_OK, bstore lc ct (contents tmp) cap, Some ?ctx, ?st)"
      using False iv by (auto simp: stream_decrypt_finish_def Let_def iv_open_def contents_def)
    then show ?thesis
      by (rule delivered [rotated])
         (use False assms in \<open>auto simp: running_def iv_open_def intro: wf_intros\<close>)
  qed
qed

lemma decrypt_body_cases:
  assumes "stream_cipher_ok c" "running c iv s ctx" "state_wf lc st" "buf_wf ct" "buf_wf tmp" "len tmp = len ct"
  obtains
    (empty) "len ct = 0" "stream_decrypt_body lc ct tmp ctx cap st =
        Inr (CRYPTO_NEED_MORE, ct, Some ctx, set_tmp STREAM_DECRYPT tmp st)"
  | (repeated) ct' ctx' st' where "iv_open c ctx" "ppbloom_check (ppb st) iv = 1"
      "stream_decrypt_body lc ct tmp ctx cap st = Inr (CRYPTO_ERROR, ct', Some ctx', st')"
      "running c iv (snd (ks_run c iv s (contents ct))) ctx'"
      "buf_wf ct'" "capacity ct \<le> capacity ct'" "idx ct' = idx ct" "state_wf lc st'"
  | (delivered) ct' ctx' st' where "len ct \<noteq> 0" "iv_open c ctx \<longrightarrow> ppbloom_check (ppb st) iv \<noteq> 1"
      "stream_decrypt_body lc ct tmp ctx cap st = Inr (CRYPTO_OK, ct', Some ctx', st')"
      "contents ct' = fst (ks_run c iv s (contents ct))"
      "running c iv (snd (ks_run c iv s (contents ct))) ctx'" "\<not> iv_open c ctx'"
      "buf_wf ct'" "capacity ct \<le> capacity ct'" "idx ct' = idx ct" "state_wf lc st'"
proof (cases "len ct = 0")
  case True
  then show ?thesis by (intro empty) (simp_all add: stream_decrypt_body_def)
next
  case ne: False
  have r: "cipher ctx = c" "nonce ctx = iv_array iv" "(counter ctx, evp ctx) = s" "ks_wf c False s"
    using assms(2) by (simp_all add: running_def)
  let ?m = "contents ct"
  have wf: "ks_wf c False (snd (ks_run c iv s ?m))" by (rule ks_run_props(2) [OF assms(1) r(4)])
  have "\<exists>ct1 tmp1 ctx1. stream_decrypt_body lc ct tmp ctx cap st = stream_decrypt_finish lc ct1 tmp1 ctx1 cap st
     \<and> buf_wf ct1 \<and> capacity ct \<le> capacity ct1 \<and> idx ct1 = idx ct \<and> buf_wf tmp1 \<and> contents tmp1 = fst (ks_run c iv s ?m)
     \<and> running c iv (snd (ks_run c iv s ?m)) ctx1 \<and> init ctx1 = init ctx"
  proof (cases "sodium_method c")
    case True
    obtain ct1 tmp1 where x: "stream_xor_block lc ct tmp 0 ctx cap = (ct1, tmp1, ctx\<lparr>counter := counter ctx + of_nat (len ct)\<rparr>)"
      "buf_wf ct1" "capacity ct \<le> capacity ct1" "buf_wf tmp1" "len tmp1 = len ct" "idx ct1 = idx ct"
      "take (len ct) (data tmp1) = xor_at (sodium_xor (cmethod c) (iv_array iv) (key c)) (counter ctx) ?m"
      using stream_xor_block_ok [of ctx ct tmp 0 lc cap] assms(1,4,5,6) True r(1,2)
      by (metis append_Nil le0 plus_nat.add_0 take_0)
    have k: "ks_run c iv s ?m = (xor_at (sodium_xor (cmethod c) (iv_array iv) (key c)) (counter ctx) ?m,
        counter ctx + of_nat (len ct), evp ctx)"
      using True r(3) assms(4) by (auto simp: ks_run_def)
    show ?thesis
      using x True ne r(1) assms(2) k wf
      by (intro exI [of _ ct1] exI [of _ tmp1] exI [of _ "ctx\<lparr>counter := counter ctx + of_nat (len ct)\<rparr>"])
         (simp add: stream_decrypt_body_def sodium_method_def running_def contents_def)
  next
    case False
    obtain out ctx2 where u: "cipher_ctx_update ctx ?m = Inr (Some (out, ctx2))" "out = fst (ks_run c iv s ?m)"
        "length out = len ct" "(counter ctx2, evp ctx2) = snd (ks_run c iv s ?m)" "ctx2 = ctx\<lparr>evp := evp ctx2\<rparr>"
      using evp_update_ok [OF assms(1) False r(1), of False ?m iv] r(3,4) assms(4) by auto
    have c2: "cipher ctx2 = c" "nonce ctx2 = iv_array iv" "init ctx2 = init ctx"
      using r by (subst u(5), simp)+
    let ?t = "tmp\<lparr>data := memcpy_at (data tmp) 0 out, len := length out\<rparr>"
    have t: "buf_wf ?t" "contents ?t = out"
      using assms(5,6) u(3) take_memcpy_at_0 [of out "data tmp"] by (auto simp: buf_wf_def length_memcpy_at contents_def)
    show ?thesis
      using u(1,2,4) False ne r(1) c2 assms(2,4) t wf
      by (intro exI [of _ ct] exI [of _ ?t] exI [of _ ctx2])
         (simp add: stream_decrypt_body_def sodium_method_def running_def)
  qed
  then obtain ct1 tmp1 ctx1 where f: "stream_decrypt_body lc ct tmp ctx cap st = stream_decrypt_finish lc ct1 tmp1 ctx1 cap st"
      "buf_wf ct1" "capacity ct \<le> capacity ct1" "idx ct1 = idx ct" "buf_wf tmp1" "contents tmp1 = fst (ks_run c iv s ?m)"
      "running c iv (snd (ks_run c iv s ?m)) ctx1" "init ctx1 = init ctx" by blast
  have io: "iv_open c ctx1 = iv_open c ctx" using f(8) by (simp add: iv_open_def)
  from assms(1) f(7) assms(3) f(2,5) show ?thesis
  proof (cases rule: decrypt_finish_cases [where cap = cap])
    case repeated
    show ?thesis
      by (rule that(2) [OF _ repeated(2) repeated(3) [folded f(1)] f(7,2,3,4)]) (use repeated(1) io f(5) assms(3) in \<open>simp_all add: wf_intros\<close>)
  next
    case (delivered ctx' st')
    have "idx (bstore lc ct1 (contents tmp1) cap) = idx ct1" by (simp add: bstore_def brealloc_buf_def Let_def)
    then show ?thesis
      using bstore_props [OF f(2), where lc = lc and bs = "contents tmp1" and cap = cap]
      by (intro that(3) [OF ne _ delivered(2) [folded f(1)] _ delivered(3,4) _ _ _ delivered(5)])
         (use delivered(1) io f in auto)
  qed
qed

text \<open>A whole call while the IV is still being collected, and once it is known.\<close>

lemma decrypt_collecting_cases:
  assumes "stream_cipher_ok c" "collecting c q ctx" "state_wf lc st" "buf_wf ct"
  defines "m \<equiv> q @ contents ct"
  defines "iv \<equiv> take (nonce_len c) m"
  defines "s \<equiv> ks_start c iv False"
  obtains
    (more) ct' ctx' st' where "length m < nonce_len c"
      "stream_decrypt lc ct (Some ctx) cap st = Inr (CRYPTO_NEED_MORE, ct', Some ctx', st')" "collecting c m ctx'"
      "buf_wf ct'" "capacity ct \<le> capacity ct'" "idx ct' = idx ct" "state_wf lc st'" "ppb st' = ppb st"
  | (refused) ct' ctx' st' where "nonce_len c \<le> length m" "RC4_MD5 \<le> cmethod c" "ppbloom_check (ppb st) iv = 1"
      "stream_decrypt lc ct (Some ctx) cap st = Inr (CRYPTO_ERROR, ct', Some ctx', st')" "stream_conn_wf c ctx'"
      "buf_wf ct'" "capacity ct \<le> capacity ct'" "idx ct' = idx ct" "state_wf lc st'"
  | (started) ct' ctx' st' where "length m = nonce_len c"
      "stream_decrypt lc ct (Some ctx) cap st = Inr (CRYPTO_NEED_MORE, ct', Some ctx', st')" "running c iv s ctx'"
      "buf_wf ct'" "capacity ct \<le> capacity ct'" "idx ct' = idx ct" "state_wf lc st'" "ppb st' = ppb st"
  | (delivered) ct' ctx' st' where "nonce_len c < length m"
      "stream_decrypt lc ct (Some ctx) cap st = Inr (CRYPTO_OK, ct', Some ctx', st')"
      "contents ct' = fst (ks_run c iv s (drop (nonce_len c) m))"
      "running c iv (snd (ks_run c iv s (drop (nonce_len c) m))) ctx'" "\<not> iv_open c ctx'"
      "buf_wf ct'" "capacity ct \<le> capacity ct'" "idx ct' = idx ct" "state_wf lc st'"
proof -
  define tmp where "tmp = (brealloc_buf lc (tmps st STREAM_DECRYPT) (len ct) cap)\<lparr>len := len ct\<rparr>"
  have tmp: "buf_wf (tmp\<lparr>len := len tmp - l\<rparr>)" "len tmp = len ct" for l
    using brealloc_buf_props [of "tmps st STREAM_DECRYPT", where lc = lc and n = "len ct" and cap = cap] assms(3)
    by (auto simp: tmp_def state_wf_def buf_wf_def)
  from assms(1,2,4) show ?thesis
  proof (cases rule: stream_start_cases [where st = st and lc = lc])
    case more: (more ct' ctx')
    then have "stream_decrypt lc ct (Some ctx) cap st =
        Inr (CRYPTO_NEED_MORE, ct', Some ctx', set_tmp STREAM_DECRYPT (tmp\<lparr>len := len tmp - 0\<rparr>) st)"
      unfolding stream_decrypt_def option.case Let_def tmp_def [symmetric] by simp
    then show ?thesis
      by (rule that(1) [rotated]) (use more tmp(1) [of 0] assms(3) in \<open>simp_all add: m_def wf_intros\<close>)
  next
    case refused: (refused ct' l ctx')
    then have "stream_decrypt lc ct (Some ctx) cap st =
        Inr (CRYPTO_ERROR, ct', Some ctx', set_tmp STREAM_DECRYPT (tmp\<lparr>len := len tmp - l\<rparr>) st)"
      unfolding stream_decrypt_def option.case Let_def tmp_def [symmetric] by simp
    then show ?thesis
      by (rule that(2) [rotated 3])
         (use refused [folded m_def, folded iv_def] tmp(1) [of l] assms(3) in \<open>auto intro: wf_intros\<close>)
  next
    case started: (started ct' l ctx')
    let ?t = "tmp\<lparr>len := len tmp - l\<rparr>"
    have e: "stream_decrypt lc ct (Some ctx) cap st = stream_decrypt_body lc ct' ?t ctx' cap st"
      using started(3) unfolding stream_decrypt_def option.case Let_def tmp_def [symmetric] by simp
    have lt: "len ?t = len ct'" using started(7,8) tmp(2) by simp
    have run: "running c iv s ctx'" and ct': "contents ct' = drop (nonce_len c) m" and lm: "nonce_len c \<le> length m"
      using started(1,4,6) [folded m_def, folded iv_def] by (simp_all add: s_def)
    have l': "len ct' = length m - nonce_len c" using ct' length_contents [OF started(9)] by simp
    from assms(1) run assms(3) started(9) tmp(1) lt show ?thesis
    proof (cases rule: decrypt_body_cases [where cap = cap])
      case empty
      have "length m = nonce_len c" using empty(1) l' lm by simp
      then show ?thesis
        by (rule that(3) [OF _ empty(2) [folded e] run]) (use started(9-) tmp(1) [of l] assms(3) in \<open>simp_all add: wf_intros\<close>)
    next
      case (repeated ct'' ctx'' st')
      then show ?thesis
        using started(2) [folded m_def, folded iv_def] by (auto simp: iv_open_def)
    next
      case (delivered ct'' ctx'' st')
      then have "nonce_len c < length m" using l' by simp
      then show ?thesis
        by (rule that(4) [OF _ delivered(3) [folded e] _ _ delivered(6,7) _ _ delivered(10)])
           (use delivered(4,5,8,9) ct' started(10,11) in simp_all)
    qed
  qed
qed

lemma decrypt_running:
  assumes "running c iv s ctx" "state_wf lc st" "buf_wf ct"
  obtains tmp where "stream_decrypt lc ct (Some ctx) cap st = stream_decrypt_body lc ct tmp ctx cap st"
    "buf_wf tmp" "len tmp = len ct"
proof -
  let ?t = "(brealloc_buf lc (tmps st STREAM_DECRYPT) (len ct) cap)\<lparr>len := len ct\<rparr>"
  have "stream_decrypt_start lc ct ctx st = Inr (None, ct, 0, ctx)"
    using assms(1) by (simp add: stream_decrypt_start_def running_def)
  then have "stream_decrypt lc ct (Some ctx) cap st = stream_decrypt_body lc ct ?t ctx cap st"
    by (simp add: stream_decrypt_def Let_def)
  then show ?thesis
    by (rule that)
       (use brealloc_buf_props [of "tmps st STREAM_DECRYPT", where lc = lc and n = "len ct" and cap = cap] assms(2) in
         \<open>auto simp: state_wf_def buf_wf_def\<close>)
qed

section \<open>Any input\<close>

lemma stream_decrypt_safe:
  assumes "stream_cipher_ok c" "stream_conn_wf c ctx" "state_wf lc st" "buf_wf ct"
  obtains rc ct' ctx' st' where "stream_decrypt lc ct (Some ctx) cap st = Inr (rc, ct', Some ctx', st')"
    "stream_conn_wf c ctx'" "state_wf lc st'" "buf_wf ct'" "capacity ct \<le> capacity ct'" "idx ct' = idx ct"
  using assms(2) unfolding stream_conn_wf_def
proof (elim disjE exE)
  fix q assume "collecting c q ctx"
  from assms(1) this assms(3,4) show ?thesis
  proof (cases rule: decrypt_collecting_cases [where cap = cap])
    case (more ct' ctx' st')
    show ?thesis by (rule that [OF more(2) _ more(7,4,5,6)]) (rule stream_conn_wfI(1) [OF more(3)])
  next
    case (refused ct' ctx' st')
    show ?thesis by (rule that [OF refused(4,5,9,6,7,8)])
  next
    case (started ct' ctx' st')
    show ?thesis by (rule that [OF started(2) _ started(7,4,5,6)]) (rule stream_conn_wfI(2) [OF started(3)])
  next
    case (delivered ct' ctx' st')
    show ?thesis by (rule that [OF delivered(2) _ delivered(9,6,7,8)]) (rule stream_conn_wfI(2) [OF delivered(4)])
  qed
next
  fix iv s assume r: "running c iv s ctx"
  obtain tmp where t: "stream_decrypt lc ct (Some ctx) cap st = stream_decrypt_body lc ct tmp ctx cap st"
      "buf_wf tmp" "len tmp = len ct"
    by (rule decrypt_running [OF r assms(3,4)])
  from assms(1) r assms(3,4) t(2,3) show ?thesis
  proof (cases rule: decrypt_body_cases [where cap = cap])
    case empty
    show ?thesis
      by (rule that [OF empty(2) [folded t(1)]]) (use stream_conn_wfI(2) [OF r] t assms in \<open>simp_all add: wf_intros\<close>)
  next
    case (repeated ct' ctx' st')
    show ?thesis
      by (rule that [OF repeated(3) [folded t(1)] _ repeated(8,5,6,7)]) (rule stream_conn_wfI(2) [OF repeated(4)])
  next
    case (delivered ct' ctx' st')
    show ?thesis
      by (rule that [OF delivered(3) [folded t(1)] _ delivered(10,7,8,9)]) (rule stream_conn_wfI(2) [OF delivered(5)])
  qed
qed

end
