(* ===== verification/SS_StreamCrypto.thy ===== *)
theory SS_StreamCrypto
  imports SS_CryptoApi SS_StreamRecv
begin

text \<open>
  The stream ciphers behind the table \<^verbatim>\<open>crypto_t\<close>: they meet the contract of a TCP relay and
  deliver what was sent, for every method that \<^verbatim>\<open>stream_init\<close> accepts.
\<close>

section \<open>The table\<close>

definition stream_call ::
  "(buffer \<Rightarrow> cipher_ctx option \<Rightarrow> nat \<Rightarrow> crypto_state \<Rightarrow> fault + crypto_rc \<times> buffer \<times> cipher_ctx option \<times> crypto_state)
     \<Rightarrow> crypto_call" where
  "stream_call f b ctx cap st =
     (case f b (Some ctx) cap st of
        Inl e \<Rightarrow> Inl e
      | Inr (rc, b, Some ctx, st) \<Rightarrow> Inr (rc, b, ctx, st)
      | Inr (rc, b, None, st) \<Rightarrow> Inl SEGV)"

definition stream_crypto :: "libc \<Rightarrow> cipher_t \<Rightarrow> crypto_t" where
  "stream_crypto lc c =
     \<lparr>cr_cipher = c,
      cr_encrypt_all = stream_encrypt_all lc, cr_decrypt_all = stream_decrypt_all lc,
      cr_encrypt = stream_call (stream_encrypt lc), cr_decrypt = stream_call (stream_decrypt lc),
      cr_ctx_init = stream_ctx_init lc, cr_ctx_release = stream_ctx_release\<rparr>"

lemma stream_crypto_simps [simp]:
  "cr_cipher (stream_crypto lc c) = c" "cr_ctx_init (stream_crypto lc c) = stream_ctx_init lc"
  "cr_encrypt (stream_crypto lc c) = stream_call (stream_encrypt lc)"
  "cr_decrypt (stream_crypto lc c) = stream_call (stream_decrypt lc)"
  by (simp_all add: stream_crypto_def)

section \<open>Streams of payloads\<close>

fun ks_all :: "cipher_t \<Rightarrow> bytes \<Rightarrow> ks \<Rightarrow> bytes list \<Rightarrow> bytes \<times> ks" where
  "ks_all c iv s [] = ([], s)"
| "ks_all c iv s (m # ms) =
     (case ks_run c iv s m of (x, s) \<Rightarrow> case ks_all c iv s ms of (y, s) \<Rightarrow> (x @ y, s))"

lemma ks_all_snoc:
  "ks_all c iv s (ms @ [m]) =
     (case ks_all c iv s ms of (x, s) \<Rightarrow> case ks_run c iv s m of (y, s) \<Rightarrow> (x @ y, s))"
  by (induction ms arbitrary: s) (simp_all split: prod.splits)

lemma ks_run_Nil:
  assumes "stream_cipher_ok c" "ks_wf c enc s"
  shows "ks_run c iv s [] = ([], s)"
proof -
  have "fst (ks_run c iv s []) = []" using ks_run_props(1) [OF assms, of iv "[]"] by simp
  moreover have "snd (ks_run c iv s []) = s"
  proof (cases "sodium_method c")
    case False
    then obtain cnt e where s: "s = (cnt, Some e)" "evp_wf e" using assms(2) by (cases s) (auto simp: ks_wf_def)
    obtain x e1 where u: "mbedtls_cipher_update e [] = Some (x, e1)"
      using cipher_update_total [OF s(2), of "[]"] by metis
    have "e1 = e" using u by (auto simp: mbedtls_cipher_update_def crypt_cfb_def cfb_func_def crypt_ctr_def mbedtls_arc4_crypt_def split: if_splits cipher_mode.splits option.splits prod.splits prim_ctx.splits)
    with u False s show ?thesis by (simp add: ks_run_def)
  qed (simp add: ks_run_def split_beta)
  ultimately show ?thesis by (metis surjective_pairing)
qed

text \<open>The pieces are one stream as long as it is not too long.\<close>

lemma ks_all_concat:
  assumes "stream_cipher_ok c" "ks_wf c enc s" "unat (fst s) + length (concat ms) < stream_limit c"
  shows "ks_all c iv s ms = ks_run c iv s (concat ms)"
  using assms(2,3)
proof (induction ms arbitrary: s)
  case Nil
  then show ?case using ks_run_Nil [OF assms(1)] by simp
next
  case (Cons m ms)
  obtain x s1 where r: "ks_run c iv s m = (x, s1)" by (rule prod.exhaust)
  have lim: "unat (fst s) + length m + length (concat ms) < stream_limit c" using Cons.prems(2) by simp
  have s1: "ks_wf c enc s1" "unat (fst s1) \<le> unat (fst s) + length m"
    using ks_run_props(2) [OF assms(1) Cons.prems(1), of iv m] ks_run_counter [of s m c iv] lim r by auto
  have "ks_all c iv s1 ms = ks_run c iv s1 (concat ms)"
    using Cons.IH [OF s1(1)] s1(2) lim by linarith
  then show ?case
    using ks_run_append [OF assms(1) Cons.prems(1) lim, of iv] r by simp
qed

definition stream_wire_of :: "cipher_t \<Rightarrow> bytes \<Rightarrow> bytes list \<Rightarrow> bytes" where
  "stream_wire_of c iv ms = (if ms = [] then [] else iv @ fst (ks_all c iv (ks_start c iv True) ms))"

definition stream_sent :: "cipher_t \<Rightarrow> bytes \<Rightarrow> bytes list \<Rightarrow> cipher_ctx \<Rightarrow> bool" where
  "stream_sent c iv ms ctx \<longleftrightarrow> stream_sender c iv (snd (ks_all c iv (ks_start c iv True) ms)) ctx
     \<and> (init ctx = 0 \<longleftrightarrow> ms = [])"

lemma stream_encrypt_step:
  assumes "stream_cipher_ok c" "state_wf lc st" "stream_sent c iv ms ctx" "buf_wf b"
  obtains b' ctx' st' where "stream_call (stream_encrypt lc) b ctx cap st = Inr (CRYPTO_OK, b', ctx', st')"
    "buf_wf b'" "capacity b \<le> capacity b'" "state_wf lc st'" "stream_sent c iv (ms @ [contents b]) ctx'"
    "stream_wire_of c iv (ms @ [contents b]) = stream_wire_of c iv ms @ contents b'"
    "ms \<noteq> [] \<and> contents b = [] \<longrightarrow> stream_sent c iv ms ctx' \<and> contents b' = []"
proof -
  define s where "s = snd (ks_all c iv (ks_start c iv True) ms)"
  have sd: "stream_sender c iv s ctx" and i: "init ctx = 0 \<longleftrightarrow> ms = []"
    using assms(3) by (simp_all add: stream_sent_def s_def)
  obtain b' ctx' st' where e: "stream_encrypt lc b (Some ctx) cap st = Inr (CRYPTO_OK, b', Some ctx', st')"
      "buf_wf b'" "capacity b \<le> capacity b'"
      "contents b' = (if init ctx = 0 then iv else []) @ fst (ks_run c iv s (contents b))"
      "stream_sender c iv (snd (ks_run c iv s (contents b))) ctx'" "init ctx' \<noteq> 0" "state_wf lc st'"
    using stream_cipher_encrypt_ok [OF assms(1) sd assms(2,4), of cap] by metis
  have call: "stream_call (stream_encrypt lc) b ctx cap st = Inr (CRYPTO_OK, b', ctx', st')"
    using e(1) by (simp add: stream_call_def)
  have "snd (ks_all c iv (ks_start c iv True) (ms @ [contents b])) = snd (ks_run c iv s (contents b))"
    by (simp add: ks_all_snoc s_def split_beta)
  then have "stream_sent c iv (ms @ [contents b]) ctx'" using e(5,6) by (simp add: stream_sent_def)
  moreover have "stream_wire_of c iv (ms @ [contents b]) = stream_wire_of c iv ms @ contents b'"
    using i e(4) by (simp add: stream_wire_of_def ks_all_snoc s_def split_beta)
  moreover have "stream_sent c iv ms ctx' \<and> contents b' = []" if "ms \<noteq> []" "contents b = []"
    using that e(4,5,6) i ks_run_Nil [OF assms(1) sender_ks_wf [OF assms(1) sd], of iv]
    by (simp add: stream_sent_def s_def)
  ultimately show ?thesis using that [OF call] e(2,3,7) by blast
qed

section \<open>The contract\<close>

definition stream_rcv :: "cipher_t \<Rightarrow> bytes \<Rightarrow> bytes \<Rightarrow> bytes \<Rightarrow> cipher_ctx \<Rightarrow> crypto_state \<Rightarrow> bool" where
  "stream_rcv c iv p w ctx st \<longleftrightarrow> length iv = nonce_len c
     \<and> ((\<exists>q. collecting c q ctx \<and> q @ w = iv @ fst (ks_run c iv (ks_start c iv True) p)
           \<and> length p < stream_limit c \<and> (RC4_MD5 \<le> cmethod c \<longrightarrow> ppbloom_check (ppb st) iv \<noteq> 1))
      \<or> (\<exists>s. running c iv (ks_dec s) ctx \<and> ks_wf c True s \<and> w = fst (ks_run c iv s p)
           \<and> unat (fst s) + length p < stream_limit c \<and> (iv_open c ctx \<longrightarrow> ppbloom_check (ppb st) iv \<noteq> 1)))"

lemma stream_rcvI:
  "length iv = nonce_len c \<Longrightarrow> collecting c q ctx \<Longrightarrow> q @ w = iv @ fst (ks_run c iv (ks_start c iv True) p) \<Longrightarrow>
    length p < stream_limit c \<Longrightarrow> (RC4_MD5 \<le> cmethod c \<Longrightarrow> ppbloom_check (ppb st) iv \<noteq> 1) \<Longrightarrow> stream_rcv c iv p w ctx st"
  "length iv = nonce_len c \<Longrightarrow> running c iv (ks_dec s) ctx \<Longrightarrow> ks_wf c True s \<Longrightarrow> w = fst (ks_run c iv s p) \<Longrightarrow>
    unat (fst s) + length p < stream_limit c \<Longrightarrow> (iv_open c ctx \<Longrightarrow> ppbloom_check (ppb st) iv \<noteq> 1) \<Longrightarrow> stream_rcv c iv p w ctx st"
  unfolding stream_rcv_def by blast+

lemma stream_ctx_init_sender:
  assumes "stream_cipher_ok c"
  obtains ctx where "stream_ctx_init lc c True st = Inr (ctx, snd (rand_bytes lc st (nonce_len c)))"
    "stream_sent c (fst (rand_bytes lc st (nonce_len c))) [] ctx"
    "take (nonce_len c) (nonce ctx) = fst (rand_bytes lc st (nonce_len c))"
proof -
  let ?iv = "fst (rand_bytes lc st (nonce_len c))"
  obtain ctx where e: "stream_ctx_init lc c True st = Inr (ctx, if True then snd (rand_bytes lc st (nonce_len c)) else st)"
      "unstarted c ctx" "nonce ctx = (if True then iv_array ?iv else replicate MAX_NONCE_LENGTH 0)"
    by (rule stream_ctx_init_ok [OF assms, of lc True st])
  have "stream_sent c ?iv [] ctx"
    using e(2,3) by (simp add: stream_sent_def stream_sender_def unstarted_def)
  moreover have "take (nonce_len c) (nonce ctx) = ?iv" using e(3) iv_array_take(1) [OF assms, of ?iv] by simp
  ultimately show ?thesis using e(1) by (intro that) simp_all
qed

lemma stream_ctx_init_receiver:
  assumes "stream_cipher_ok c"
  obtains ctx where "stream_ctx_init lc c False st = Inr (ctx, st)" "collecting c [] ctx"
proof -
  obtain ctx where e: "stream_ctx_init lc c False st = Inr (ctx, if False then snd (rand_bytes lc st (nonce_len c)) else st)"
      "unstarted c ctx" "chunk ctx = None"
      "nonce ctx = (if False then iv_array (fst (rand_bytes lc st (nonce_len c))) else replicate MAX_NONCE_LENGTH 0)"
    by (rule stream_ctx_init_ok [OF assms, of lc False st])
  show ?thesis by (rule that [of ctx]) (use e in \<open>simp_all add: collecting_def\<close>)
qed

text \<open>A piece of the stream of a running receiver.\<close>

lemma ks_piece:
  assumes "stream_cipher_ok c" "ks_wf c True s" "unat (fst s) + length p < stream_limit c"
    and "fst (ks_run c iv s p) = x @ w"
  obtains p1 p2 s' where "p = p1 @ p2" "length p1 = length x" "ks_run c iv (ks_dec s) x = (p1, ks_dec s')" "ks_wf c True s'"
    "fst (ks_run c iv s' p2) = w" "unat (fst s') + length p2 < stream_limit c"
proof -
  define p1 p2 where "p1 = take (length x) p" and "p2 = drop (length x) p"
  have "length (x @ w) = length p" using ks_run_props(1) [OF assms(1,2), of iv p] assms(4) by simp
  then have p: "p = p1 @ p2" "length p1 = length x" by (simp_all add: p1_def p2_def)
  obtain y s' where r: "ks_run c iv s p1 = (y, s')" by (rule prod.exhaust)
  have lim: "unat (fst s) + length p1 + length p2 < stream_limit c" using assms(3) p(1) by simp
  have y: "length y = length p1" "ks_wf c True s'" "unat (fst s') \<le> unat (fst s) + length p1"
    using ks_run_props [OF assms(1,2), of iv p1] ks_run_counter [of s p1 c iv] lim r by auto
  have "y @ fst (ks_run c iv s' p2) = x @ w"
    using ks_run_append [OF assms(1,2) lim, of iv] r assms(4) p(1) by (simp add: split_beta)
  then have x: "y = x" "fst (ks_run c iv s' p2) = w" using y(1) p(2) by auto
  have "ks_run c iv (ks_dec s) x = (p1, ks_dec s')"
    using ks_run_undo [OF assms(1,2), of p1 iv] lim r x(1) by simp
  then show ?thesis
    by (rule that [OF p _ y(2) x(2)]) (use y(3) lim in linarith)
qed

lemma rcv_running:
  assumes "stream_cipher_ok c" "state_wf lc st" "running c iv (ks_dec s) ctx" "ks_wf c True s"
    and "unat (fst s) + length p < stream_limit c" "fst (ks_run c iv s p) = contents b @ w" "buf_wf b"
    and "iv_open c ctx \<longrightarrow> ppbloom_check (ppb st) iv \<noteq> 1"
  shows "\<exists>rc b' ctx' st' p'. stream_call (stream_decrypt lc) b ctx cap st = Inr (rc, b', ctx', st')
      \<and> state_wf lc st' \<and> rc \<noteq> CRYPTO_ERROR \<and> p = (if rc = CRYPTO_OK then contents b' else []) @ p'
      \<and> stream_rcv c iv p' w ctx' st'"
proof -
  have ivl: "length iv = nonce_len c" using assms(3) by (simp add: running_def)
  obtain p1 p2 s' where k: "p = p1 @ p2" "length p1 = length (contents b)" "ks_run c iv (ks_dec s) (contents b) = (p1, ks_dec s')"
      "ks_wf c True s'" "fst (ks_run c iv s' p2) = w" "unat (fst s') + length p2 < stream_limit c"
    by (rule ks_piece [OF assms(1,4-6)])
  obtain tmp where t: "stream_decrypt lc b (Some ctx) cap st = stream_decrypt_body lc b tmp ctx cap st"
      "buf_wf tmp" "len tmp = len b"
    by (rule decrypt_running [OF assms(3,2,7)])
  from assms(1,3,2,7) t(2,3) show ?thesis
  proof (cases rule: decrypt_body_cases [where cap = cap])
    case empty
    let ?st = "set_tmp STREAM_DECRYPT tmp st"
    have "contents b = []" using empty(1) by (simp add: contents_def)
    then have "stream_rcv c iv p w ctx ?st"
      using assms(6,8) by (intro stream_rcvI(2) [OF ivl assms(3,4) _ assms(5)]) simp_all
    with empty(2) t(1,2) assms(2) show ?thesis
      by (intro exI [of _ CRYPTO_NEED_MORE] exI [of _ b] exI [of _ ctx] exI [of _ ?st] exI [of _ p])
         (simp add: stream_call_def wf_intros)
  next
    case (repeated ct' ctx' st')
    then show ?thesis using assms(8) by simp
  next
    case (delivered ct' ctx' st')
    then have "stream_rcv c iv p2 w ctx' st'"
      using k(3,5) by (intro stream_rcvI(2) [OF ivl _ k(4) _ k(6)]) simp_all
    with delivered k(1,3) t(1) show ?thesis
      by (intro exI [of _ CRYPTO_OK] exI [of _ ct'] exI [of _ ctx'] exI [of _ st'] exI [of _ p2])
         (simp add: stream_call_def)
  qed
qed

lemma rcv_collecting:
  assumes "stream_cipher_ok c" "state_wf lc st" "collecting c q ctx" "length iv = nonce_len c"
    and "q @ contents b @ w = iv @ fst (ks_run c iv (ks_start c iv True) p)" "length p < stream_limit c" "buf_wf b"
    and f: "RC4_MD5 \<le> cmethod c \<Longrightarrow> ppbloom_check (ppb st) iv \<noteq> 1"
  shows "\<exists>rc b' ctx' st' p'. stream_call (stream_decrypt lc) b ctx cap st = Inr (rc, b', ctx', st')
      \<and> state_wf lc st' \<and> rc \<noteq> CRYPTO_ERROR \<and> p = (if rc = CRYPTO_OK then contents b' else []) @ p'
      \<and> stream_rcv c iv p' w ctx' st'"
proof -
  let ?m = "q @ contents b" and ?s = "ks_start c iv True"
  have split: "?m @ w = iv @ fst (ks_run c iv ?s p)" using assms(5) by simp
  have ivm: "take (nonce_len c) ?m = iv" "fst (ks_run c iv ?s p) = drop (nonce_len c) ?m @ w" if "nonce_len c \<le> length ?m"
    using arg_cong [OF split, of "take (nonce_len c)"] arg_cong [OF split, of "drop (nonce_len c)"] that assms(4) by simp_all
  have s: "ks_wf c True ?s" "unat (fst ?s) + length p < stream_limit c"
    using ks_start_wf [OF assms(1,4)] assms(6) by (simp_all add: ks_start_def)
  note sd = ks_start_dec [of c iv, symmetric]
  from assms(1,3,2,7) show ?thesis
  proof (cases rule: decrypt_collecting_cases [where cap = cap])
    case (more ct' ctx' st')
    have "stream_rcv c iv p w ctx' st'"
      by (rule stream_rcvI(1) [OF assms(4) more(3) split assms(6)]) (simp add: more(8) f)
    with more show ?thesis
      by (intro exI [of _ CRYPTO_NEED_MORE] exI [of _ ct'] exI [of _ ctx'] exI [of _ st'] exI [of _ p])
         (simp add: stream_call_def)
  next
    case (refused ct' ctx' st')
    then show ?thesis using f ivm(1) by simp
  next
    case (started ct' ctx' st')
    have l: "nonce_len c \<le> length ?m" using started(1) by simp
    have "running c iv (ks_dec ?s) ctx'" using started(3) unfolding ivm(1) [OF l] sd .
    then have "stream_rcv c iv p w ctx' st'"
      using ivm(2) [OF l] started(1,8) f s by (intro stream_rcvI(2) [OF assms(4)]) (simp_all add: iv_open_def)
    with started show ?thesis
      by (intro exI [of _ CRYPTO_NEED_MORE] exI [of _ ct'] exI [of _ ctx'] exI [of _ st'] exI [of _ p])
         (simp add: stream_call_def)
  next
    case (delivered ct' ctx' st')
    have l: "nonce_len c \<le> length ?m" using delivered(1) by simp
    obtain p1 p2 s' where k: "p = p1 @ p2" "ks_run c iv (ks_dec ?s) (drop (nonce_len c) ?m) = (p1, ks_dec s')"
        "ks_wf c True s'" "fst (ks_run c iv s' p2) = w" "unat (fst s') + length p2 < stream_limit c"
      by (rule ks_piece [OF assms(1) s ivm(2) [OF l]])
    have d: "contents ct' = p1" "running c iv (ks_dec s') ctx'"
      using delivered(3,4) k(2) unfolding ivm(1) [OF l] sd by simp_all
    have "stream_rcv c iv p2 w ctx' st'"
      using k(4) delivered(5) by (intro stream_rcvI(2) [OF assms(4) d(2) k(3) _ k(5)]) simp_all
    with delivered(2,9) k(1) d(1) show ?thesis
      by (intro exI [of _ CRYPTO_OK] exI [of _ ct'] exI [of _ ctx'] exI [of _ st'] exI [of _ p2])
         (simp add: stream_call_def)
  qed
qed

lemma rcv_end_stream:
  assumes "stream_cipher_ok c" "stream_rcv c iv p [] ctx st"
  shows "p = []"
proof -
  have iv: "length iv = nonce_len c" using assms(2) by (simp add: stream_rcv_def)
  note l = ks_run_props(1) [OF assms(1), of True]
  from assms(2) consider
      q where "collecting c q ctx" "q = iv @ fst (ks_run c iv (ks_start c iv True) p)"
    | s where "ks_wf c True s" "fst (ks_run c iv s p) = []"
    by (auto simp: stream_rcv_def)
  then show ?thesis
  proof cases
    case 1
    then have "length iv + length p \<le> nonce_len c"
      using collecting_props(3) [OF 1(1)] l [OF ks_start_wf [OF assms(1) iv], of iv p] by simp
    with iv show ?thesis by simp
  next
    case 2
    then show ?thesis using l [OF 2(1), of iv p] by simp
  qed
qed

definition stream_unseen :: "cipher_t \<Rightarrow> bytes \<Rightarrow> crypto_state \<Rightarrow> bool" where
  "stream_unseen c iv st \<longleftrightarrow> (RC4_MD5 \<le> cmethod c \<longrightarrow> ppbloom_check (ppb st) iv \<noteq> 1)"

definition stream_fits :: "cipher_t \<Rightarrow> bytes list \<Rightarrow> bool" where
  "stream_fits c ms \<longleftrightarrow> length (concat ms) < stream_limit c"

lemma stream_tcp_crypto:
  assumes "stream_cipher_ok c"
  shows "tcp_crypto (stream_crypto lc c) (state_wf lc) (stream_sent c) (stream_wire_of c) (stream_conn_wf c)"
proof
  fix st assume st: "state_wf lc st"
  obtain ctx where e: "stream_ctx_init lc c True st = Inr (ctx, snd (rand_bytes lc st (nonce_len c)))"
      "stream_sent c (fst (rand_bytes lc st (nonce_len c))) [] ctx"
    by (rule stream_ctx_init_sender [OF assms])
  show "\<exists>ctx st' s. cr_ctx_init (stream_crypto lc c) (cr_cipher (stream_crypto lc c)) True st = Inr (ctx, st')
      \<and> state_wf lc st' \<and> stream_sent c s [] ctx"
    unfolding stream_crypto_simps e(1)
    using e(2) state_wf_rand [OF st] by blast
  obtain ctx where d: "stream_ctx_init lc c False st = Inr (ctx, st)" "collecting c [] ctx"
    by (rule stream_ctx_init_receiver [OF assms])
  show "\<exists>ctx st'. cr_ctx_init (stream_crypto lc c) (cr_cipher (stream_crypto lc c)) False st = Inr (ctx, st')
      \<and> state_wf lc st' \<and> stream_conn_wf c ctx"
    unfolding stream_crypto_simps d(1) using st stream_conn_wfI(1) [OF d(2)] by blast
next
  fix st s ms ctx b cap
  assume a: "state_wf lc st" "stream_sent c s ms ctx" "buf_wf b"
  obtain b' ctx' st' where e: "stream_call (stream_encrypt lc) b ctx cap st = Inr (CRYPTO_OK, b', ctx', st')"
    "buf_wf b'" "capacity b \<le> capacity b'" "state_wf lc st'" "stream_sent c s (ms @ [contents b]) ctx'"
    "stream_wire_of c s (ms @ [contents b]) = stream_wire_of c s ms @ contents b'"
      "ms \<noteq> [] \<and> contents b = [] \<longrightarrow> stream_sent c s ms ctx' \<and> contents b' = []"
    by (rule stream_encrypt_step [OF assms a, where cap = cap])
  show "\<exists>b' ctx' st'. cr_encrypt (stream_crypto lc c) b ctx cap st = Inr (CRYPTO_OK, b', ctx', st')
     \<and> buf_wf b' \<and> capacity b \<le> capacity b' \<and> state_wf lc st' \<and> stream_sent c s (ms @ [contents b]) ctx'
     \<and> stream_wire_of c s (ms @ [contents b]) = stream_wire_of c s ms @ contents b'"
    using e by (intro exI [of _ b'] exI [of _ ctx'] exI [of _ st']) simp
  assume "ms \<noteq> []" "len b = 0"
  then have "stream_sent c s ms ctx' \<and> contents b' = []" using e(7) by (simp add: contents_def)
  with e show "\<exists>b' ctx' st'. cr_encrypt (stream_crypto lc c) b ctx cap st = Inr (CRYPTO_OK, b', ctx', st')
     \<and> buf_wf b' \<and> capacity b \<le> capacity b' \<and> state_wf lc st' \<and> stream_sent c s ms ctx' \<and> contents b' = []"
    by (intro exI [of _ b'] exI [of _ ctx'] exI [of _ st']) simp
next
  fix st ctx b cap
  assume w: "state_wf lc st" "stream_conn_wf c ctx" "buf_wf b"
  obtain rc b' ctx' st' where "stream_decrypt lc b (Some ctx) cap st = Inr (rc, b', Some ctx', st')"
    "stream_conn_wf c ctx'" "state_wf lc st'" "buf_wf b'" "capacity b \<le> capacity b'" "idx b' = idx b"
    by (rule stream_decrypt_safe [OF assms w(2,1,3), where cap = cap])
  then show "\<exists>rc b' ctx' st'. cr_decrypt (stream_crypto lc c) b ctx cap st = Inr (rc, b', ctx', st')
      \<and> buf_wf b' \<and> capacity b \<le> capacity b' \<and> idx b' = idx b \<and> state_wf lc st' \<and> stream_conn_wf c ctx'"
    by (simp add: stream_call_def)
qed (simp add: stream_wire_of_def)

lemma stream_tcp_delivery_law:
  assumes "stream_cipher_ok c"
  shows "tcp_delivery (stream_crypto lc c) (state_wf lc) (stream_sent c) (stream_wire_of c) (stream_conn_wf c)
    (stream_rcv c) (stream_unseen c) (stream_fits c)"
proof (intro tcp_delivery.intro stream_tcp_crypto [OF assms] tcp_delivery_axioms.intro)
  fix st s ms sctx ctx st'
  assume a: "stream_sent c s ms sctx" "ms \<noteq> []" "stream_fits c ms" "stream_unseen c s st"
    "cr_ctx_init (stream_crypto lc c) (cr_cipher (stream_crypto lc c)) False st = Inr (ctx, st')"
  obtain ctx0 where "stream_ctx_init lc c False st = Inr (ctx0, st)" "collecting c [] ctx0"
    by (rule stream_ctx_init_receiver [OF assms])
  then have "collecting c [] ctx" "st' = st" using a(5) by simp_all
  moreover have sl: "length s = nonce_len c" using a(1) by (simp add: stream_sent_def stream_sender_def)
  moreover have "ks_all c s (ks_start c s True) ms = ks_run c s (ks_start c s True) (concat ms)"
    using a(3) by (intro ks_all_concat [OF assms ks_start_wf [OF assms sl]]) (simp add: stream_fits_def ks_start_def)
  ultimately show "stream_rcv c s (concat ms) (stream_wire_of c s ms) ctx st'"
    using a(2-4) by (intro stream_rcvI(1)) (simp_all add: stream_wire_of_def stream_fits_def stream_unseen_def)
next
  fix st s p b w ctx cap
  assume a: "state_wf lc st" "stream_rcv c s p (contents b @ w) ctx st" "buf_wf b"
  have sl: "length s = nonce_len c" using a(2) by (simp add: stream_rcv_def)
  from a(2) consider
      q where "collecting c q ctx" "q @ contents b @ w = s @ fst (ks_run c s (ks_start c s True) p)"
        "length p < stream_limit c" "RC4_MD5 \<le> cmethod c \<longrightarrow> ppbloom_check (ppb st) s \<noteq> 1"
    | ss where "running c s (ks_dec ss) ctx" "ks_wf c True ss" "contents b @ w = fst (ks_run c s ss p)"
        "unat (fst ss) + length p < stream_limit c" "iv_open c ctx \<longrightarrow> ppbloom_check (ppb st) s \<noteq> 1"
    unfolding stream_rcv_def by blast
  then show "\<exists>rc b' ctx' st' p'. cr_decrypt (stream_crypto lc c) b ctx cap st = Inr (rc, b', ctx', st')
      \<and> state_wf lc st' \<and> rc \<noteq> CRYPTO_ERROR \<and> p = (if rc = CRYPTO_OK then contents b' else []) @ p'
      \<and> stream_rcv c s p' w ctx' st'"
  proof cases
    case 1
    then show ?thesis unfolding stream_crypto_simps by (intro rcv_collecting [OF assms a(1) 1(1) sl 1(2,3) a(3)]) blast
  next
    case 2
    then show ?thesis unfolding stream_crypto_simps by (intro rcv_running [OF assms a(1) 2(1,2,4) 2(3) [symmetric] a(3) 2(5)])
  qed
qed (rule rcv_end_stream [OF assms])

section \<open>Two of the methods\<close>

definition stream_cipher :: "nat \<Rightarrow> bytes \<Rightarrow> cipher_t" where
  "stream_cipher m k = \<lparr>cmethod = m, nonce_len = supported_stream_ciphers_nonce_size ! m,
     key_len = supported_stream_ciphers_key_size ! m, tag_len = 0, key = take MAX_KEY_LENGTH (k @ replicate MAX_KEY_LENGTH 0)\<rparr>"

lemma stream_cipher_is_ok:
  "TABLE < m \<Longrightarrow> m < STREAM_CIPHER_NUM \<Longrightarrow> m \<notin> {13..17} \<Longrightarrow> stream_cipher_ok (stream_cipher m k)"
  by (simp add: stream_cipher_ok_def stream_cipher_def)

text \<open>One of the mbed TLS ciphers (\<^verbatim>\<open>aes-256-cfb\<close>) and one of libsodium's (\<^verbatim>\<open>chacha20\<close>).\<close>

interpretation aes_256_cfb: tcp_delivery "stream_crypto lc (stream_cipher 5 k)" "state_wf lc"
  "stream_sent (stream_cipher 5 k)" "stream_wire_of (stream_cipher 5 k)" "stream_conn_wf (stream_cipher 5 k)"
  "stream_rcv (stream_cipher 5 k)" "stream_unseen (stream_cipher 5 k)" "stream_fits (stream_cipher 5 k)" for lc k
  by (rule stream_tcp_delivery_law, rule stream_cipher_is_ok) (simp_all add: stream_method_defs)

interpretation chacha20_stream: tcp_delivery "stream_crypto lc (stream_cipher CHACHA20 k)" "state_wf lc"
  "stream_sent (stream_cipher CHACHA20 k)" "stream_wire_of (stream_cipher CHACHA20 k)" "stream_conn_wf (stream_cipher CHACHA20 k)"
  "stream_rcv (stream_cipher CHACHA20 k)" "stream_unseen (stream_cipher CHACHA20 k)" "stream_fits (stream_cipher CHACHA20 k)" for lc k
  by (rule stream_tcp_delivery_law, rule stream_cipher_is_ok) (simp_all add: stream_method_defs)

end
