(* ===== verification/SS_StreamUdp.thy ===== *)
theory SS_StreamUdp
  imports SS_StreamCrypto
begin

text \<open>
  UDP packets under the stream ciphers: what \<open>stream_encrypt_all\<close> produces, how \<open>stream_decrypt_all\<close>
  ends on any packet, and that it recovers what was sent.
\<close>

definition stream_packet_wire :: "cipher_t \<Rightarrow> bytes \<Rightarrow> bytes \<Rightarrow> bytes" where
  "stream_packet_wire c iv m = iv @ fst (ks_run c iv (ks_start c iv True) m)"

text \<open>The cipher call on a context that has just been given its IV.\<close>

lemma stream_packet_ok:
  fixes m :: bytes
  assumes "stream_cipher_ok c" "cipher ctx = c" "nonce ctx = iv_array iv" "length iv = nonce_len c"
    and "evp ctx = snd (ks_start c iv enc)"
  defines "out \<equiv> fst (ks_run c iv (ks_start c iv enc) m)"
  shows "stream_packet ctx d ofs m = Inr (Some (memcpy_at d ofs out, length m))" "length out = length m"
proof -
  note wf = ks_start_wf [OF assms(1,4), of enc]
  show l: "length out = length m" unfolding out_def by (rule ks_run_props(1) [OF assms(1) wf])
  show "stream_packet ctx d ofs m = Inr (Some (memcpy_at d ofs out, length m))"
  proof (cases "sodium_method c")
    case True
    then have "cmethod c = SALSA20 \<or> cmethod c = CHACHA20 \<or> cmethod c = CHACHA20IETF"
      using stream_method_cases [OF assms(1)] by (auto simp: sodium_method_def stream_method_defs)
    moreover have "out = sodium_xor (cmethod c) (iv_array iv) (key c) m 0"
      using True by (simp add: out_def ks_run_def ks_start_def xor_at_def)
    ultimately show ?thesis
      using True assms(2,3) by (simp add: stream_packet_def Let_def sodium_method_def crypto_stream_xor_ic_def)
  next
    case False
    then obtain e where e: "ks_start c iv enc = (0, Some e)" "evp_wf e" using wf by (auto simp: ks_wf_def ks_start_def)
    obtain x e1 where "mbedtls_cipher_update e m = Some (x, e1)"
      using cipher_update_total [OF e(2), of m] by metis
    with e(1) False assms(2,5) l show ?thesis
      by (simp add: stream_packet_def Let_def sodium_method_def cipher_ctx_update_def out_def ks_run_def)
  qed
qed

lemma stream_encrypt_all_ok:
  assumes "stream_cipher_ok c" "state_wf lc st" "buf_wf pt"
  defines "iv \<equiv> fst (rand_bytes lc st (nonce_len c))"
  obtains pt' st' where "stream_encrypt_all lc pt c cap st = Inr (CRYPTO_OK, pt', st')"
    "buf_wf pt'" "contents pt' = stream_packet_wire c iv (contents pt)" "state_wf lc st'" "ppb st' = ppb st"
proof -
  let ?st = "snd (rand_bytes lc st (nonce_len c))" and ?m = "contents pt"
  have ivl: "length iv = nonce_len c" by (simp add: iv_def)
  obtain ctx where i: "stream_ctx_init lc c True st = Inr (ctx, if True then ?st else st)" "unstarted c ctx"
      "nonce ctx = (if True then iv_array iv else replicate MAX_NONCE_LENGTH 0)"
    unfolding iv_def by (rule stream_ctx_init_ok [OF assms(1), of lc True st])
  have n: "nonce ctx = iv_array iv" "cipher ctx = c" using i(2,3) by (simp_all add: unstarted_def)
  let ?ctx = "ctx\<lparr>evp := snd (ks_start c iv True)\<rparr>"
  have sn: "cipher_ctx_set_nonce ctx (nonce_len c) True = Inr ?ctx"
    by (rule set_nonce_ok [OF assms(1) i(2) n(1) ivl])
  have tn: "take (nonce_len c) (nonce ?ctx) = iv" using n(1) iv_array_take(1) [OF assms(1) ivl] by simp
  define out where "out = fst (ks_run c iv (ks_start c iv True) ?m)"
  have p: "stream_packet ?ctx d ofs ?m = Inr (Some (memcpy_at d ofs out, length ?m))" "length out = length ?m" for d ofs
    unfolding out_def using n by (simp_all add: stream_packet_ok [OF assms(1) _ _ ivl, where ctx = ?ctx and enc = True])
  define tmp where "tmp = (brealloc_buf lc (tmps ?st STREAM_ENCRYPT_ALL) (nonce_len c + len pt) cap)\<lparr>len := len pt\<rparr>"
  have tmp: "buf_wf tmp" "nonce_len c + len pt \<le> length (data tmp)"
    using brealloc_buf_props [of "tmps ?st STREAM_ENCRYPT_ALL", where lc = lc and n = "nonce_len c + len pt" and cap = cap] assms(2)
    by (auto simp: tmp_def state_wf_def buf_wf_def)
  let ?d = "memcpy_at (memcpy_at (data tmp) 0 iv) (nonce_len c) out"
  have lm: "length ?m = len pt" using assms(3) by simp
  have d: "?d = memcpy_at (data tmp) 0 (iv @ out)" "take (nonce_len c + len pt) ?d = iv @ out" "length ?d = length (data tmp)"
    using memcpy_at_append_0 [of "data tmp" iv out] take_memcpy_at_0 [of "iv @ out" "data tmp"] ivl p(2) lm tmp(2)
    by (simp_all add: length_memcpy_at)
  let ?t = "tmp\<lparr>data := ?d, len := length ?m\<rparr>"
  have res: "stream_encrypt_all lc pt c cap st = Inr (CRYPTO_OK, bstore lc pt (iv @ out) cap, set_tmp STREAM_ENCRYPT_ALL ?t ?st)"
    unfolding stream_encrypt_all_def i(1) if_True sum.case prod.case Let_def tmp_def [symmetric] sn tn
    using d(2) lm by (simp add: p(1))
  have "buf_wf ?t" using tmp d(3) lm by (simp add: buf_wf_def)
  then show ?thesis
    by (intro that [OF res])
       (use bstore_props [OF assms(3)] assms(2) in \<open>simp_all add: stream_packet_wire_def out_def wf_intros\<close>)
qed

text \<open>The ways \<open>stream_decrypt_all\<close> ends.\<close>

lemma stream_decrypt_all_cases:
  assumes "stream_cipher_ok c" "state_wf lc st" "buf_wf ct"
  defines "iv \<equiv> take (nonce_len c) (contents ct)"
  obtains (short) "len ct \<le> nonce_len c" "stream_decrypt_all lc ct c cap st = Inr (CRYPTO_ERROR, ct, st)"
  | (refused) st' where "nonce_len c < len ct" "ppbloom_check (ppb st) iv = 1"
      "stream_decrypt_all lc ct c cap st = Inr (CRYPTO_ERROR, ct, st')" "state_wf lc st'" "ppb st' = ppb st"
  | (opened) ct' st' where "nonce_len c < len ct" "ppbloom_check (ppb st) iv \<noteq> 1"
      "stream_decrypt_all lc ct c cap st = Inr (CRYPTO_OK, ct', st')" "buf_wf ct'"
      "contents ct' = fst (ks_run c iv (ks_start c iv False) (drop (nonce_len c) (contents ct)))"
      "state_wf lc st'" "ppb st' = pp_add lc (ppb st) iv"
proof (cases "len ct \<le> nonce_len c")
  case True
  then show ?thesis by (intro short) (simp_all add: stream_decrypt_all_def Let_def)
next
  case long: False
  then have lc: "nonce_len c < len ct" "\<not> len ct \<le> nonce_len c" by simp_all
  obtain ctx where i: "stream_ctx_init lc c False st = Inr (ctx, st)" "collecting c [] ctx"
    by (rule stream_ctx_init_receiver [OF assms(1)])
  have ivl: "length iv = nonce_len c" using assms(3) long by (simp add: iv_def)
  have iv: "take (nonce_len c) (data ct) = iv" using long by (simp add: iv_def contents_def)
  let ?c1 = "ctx\<lparr>nonce := memcpy_at (nonce ctx) 0 iv\<rparr>"
  have un: "unstarted c ?c1" "nonce ?c1 = iv_array iv" "cipher ctx = c"
    using i(2) by (simp_all add: collecting_def unstarted_def iv_array_def)
  have tn: "take (nonce_len c) (nonce ?c1) = iv" using un(2) iv_array_take(1) [OF assms(1) ivl] by simp
  let ?ctx = "?c1\<lparr>evp := snd (ks_start c iv False)\<rparr>" and ?m = "drop (nonce_len c) (contents ct)"
  have sn: "cipher_ctx_set_nonce ?c1 (nonce_len c) False = Inr ?ctx"
    by (rule set_nonce_ok [OF assms(1) un(1,2) ivl])
  define out where "out = fst (ks_run c iv (ks_start c iv False) ?m)"
  have p: "stream_packet ?ctx d ofs ?m = Inr (Some (memcpy_at d ofs out, length ?m))" "length out = length ?m" for d ofs
  proof -
    note sp = stream_packet_ok [OF assms(1) _ _ ivl, where ctx = ?ctx and enc = False and m = ?m, folded out_def]
    have "cipher ?ctx = c" "nonce ?ctx = iv_array iv" "evp ?ctx = snd (ks_start c iv False)" using un(2,3) by simp_all
    then show "stream_packet ?ctx d ofs ?m = Inr (Some (memcpy_at d ofs out, length ?m))" "length out = length ?m"
      by (rule sp(1), rule sp(2))
  qed
  define tmp where "tmp = (brealloc_buf lc (tmps st STREAM_DECRYPT_ALL) (len ct) cap)\<lparr>len := len ct - nonce_len c\<rparr>"
  have tmp: "buf_wf tmp" "len ct \<le> length (data tmp)"
    using brealloc_buf_props [of "tmps st STREAM_DECRYPT_ALL", where lc = lc and n = "len ct" and cap = cap] assms(2)
    by (auto simp: tmp_def state_wf_def buf_wf_def)
  let ?t = "tmp\<lparr>data := memcpy_at (data tmp) 0 out, len := length ?m\<rparr>"
  have lo: "length out \<le> length (data tmp)" using p(2) tmp(2) assms(3) by simp
  have t: "buf_wf ?t" "take (length ?m) (memcpy_at (data tmp) 0 out) = out"
    using tmp(1) p(2) lo take_memcpy_at_0 [of out "data tmp"] by (auto simp: buf_wf_def length_memcpy_at)
  have res: "stream_decrypt_all lc ct c cap st =
      (if ppbloom_check (ppb st) iv = 1 then Inr (CRYPTO_ERROR, ct, set_tmp STREAM_DECRYPT_ALL tmp st)
       else Inr (CRYPTO_OK, bstore lc ct out cap, set_tmp STREAM_DECRYPT_ALL ?t (remember lc iv st)))"
    unfolding stream_decrypt_all_def Let_def if_not_P [OF lc(2)] i(1) sum.case prod.case tmp_def [symmetric] iv tn sn
    using t(2) by (simp add: p(1) del: length_drop)
  show ?thesis
  proof (cases "ppbloom_check (ppb st) iv = 1")
    case True
    then have "stream_decrypt_all lc ct c cap st = Inr (CRYPTO_ERROR, ct, set_tmp STREAM_DECRYPT_ALL tmp st)" using res by simp
    then show ?thesis
      by (rule refused [OF lc(1) True]) (use tmp(1) assms(2) in \<open>simp_all add: wf_intros\<close>)
  next
    case False
    then have "stream_decrypt_all lc ct c cap st =
        Inr (CRYPTO_OK, bstore lc ct out cap, set_tmp STREAM_DECRYPT_ALL ?t (remember lc iv st))" using res by simp
    then show ?thesis
      by (rule opened [OF lc(1) False])
         (use t(1) bstore_props [OF assms(3)] assms(2) in \<open>simp_all add: out_def wf_intros\<close>)
  qed
qed

lemma stream_decrypt_all_ok:
  assumes "stream_cipher_ok c" "state_wf lc st" "buf_wf ct"
    and "contents ct = stream_packet_wire c iv m" "length iv = nonce_len c" "m \<noteq> []" "length m < stream_limit c"
    and "ppbloom_check (ppb st) iv \<noteq> 1"
  obtains ct' st' where "stream_decrypt_all lc ct c cap st = Inr (CRYPTO_OK, ct', st')"
    "contents ct' = m" "buf_wf ct'" "state_wf lc st'" "ppb st' = pp_add lc (ppb st) iv"
proof -
  let ?s = "ks_start c iv True"
  have wf: "ks_wf c True ?s" by (rule ks_start_wf [OF assms(1,5)])
  note sp = ks_run_props(1) [OF assms(1) wf, of iv m]
  have "length m \<noteq> 0" using assms(6) by simp
  have l: "take (nonce_len c) (contents ct) = iv" "drop (nonce_len c) (contents ct) = fst (ks_run c iv ?s m)"
      "nonce_len c < len ct"
    using assms(4,5) \<open>length m \<noteq> 0\<close> sp length_contents [OF assms(3)] by (auto simp: stream_packet_wire_def simp del: length_0_conv length_greater_0_conv)
  have u: "fst (ks_run c iv (ks_start c iv False) (fst (ks_run c iv ?s m))) = m"
    using ks_run_undo [OF assms(1) wf, of m iv] assms(7) by (simp add: ks_start_dec) (simp add: ks_start_def)
  from assms(1-3) show ?thesis
    by (cases rule: stream_decrypt_all_cases [where cap = cap]) (use l u assms(8) that in auto)
qed

end
