(* ===== verification/SS_StreamProps.thy ===== *)
theory SS_StreamProps
  imports SS_StreamUdp SS_Example
begin

text \<open>
  The properties of the stream ciphers (\<^verbatim>\<open>src/stream.c\<close>) over mbed TLS and libsodium, with the
  witnesses that apply them to \<^verbatim>\<open>aes-256-cfb\<close>, \<^verbatim>\<open>salsa20\<close> and \<^verbatim>\<open>rc4\<close>.
\<close>

section \<open>Examples\<close>

abbreviation aes_ex :: cipher_t where
  "aes_ex \<equiv> stream_cipher 5 [7]"

abbreviation salsa_ex :: cipher_t where
  "salsa_ex \<equiv> stream_cipher SALSA20 [7]"

abbreviation rc4_ex :: cipher_t where
  "rc4_ex \<equiv> stream_cipher RC4 [7]"

lemma stream_ex_ok: "stream_cipher_ok aes_ex" "stream_cipher_ok salsa_ex" "stream_cipher_ok rc4_ex"
  by (rule stream_cipher_is_ok; simp add: stream_method_defs)+

lemma stream_limit_large: "n < 2 ^ 38 \<Longrightarrow> n < stream_limit c"
  by (simp add: stream_limit_def)

section \<open>Properties\<close>

text \<open>C31: TCP delivery of the stream ciphers. For every method that has an implementation, payloads
  passed through \<open>stream_encrypt\<close> arrive through \<open>stream_decrypt\<close> unchanged and in order, in whatever
  fragments the network hands over the IV and the stream. The receiver's nonce filter must not hold
  the IV (it is not asked for \<^verbatim>\<open>rc4\<close>), and the stream must stay below 256 GiB for
  \<^verbatim>\<open>chacha20-ietf\<close> and \<open>2 ^ 64\<close> bytes for the others.\<close>

theorem stream_tcp_delivery:
  assumes "stream_cipher_ok c" "state_wf lc st1" "state_wf lc' st2"
    and "stream_ctx_init lc c True st1 = Inr (ectx, st1')"
    and "stream_ctx_init lc' c False st2 = Inr (dctx, st2')"
    and "RC4_MD5 \<le> cmethod c \<Longrightarrow> ppbloom_check (ppb st2) (take (nonce_len c) (nonce ectx)) \<noteq> 1"
    and "ms \<noteq> []" "\<forall>m \<in> set ms. payload_ok m" "length (concat ms) < stream_limit c"
  shows "\<exists>wire ectx' st1''. crypto_send lc (stream_crypto lc c) cap ectx st1' ms = Inr (CRYPTO_OK, wire, ectx', st1'')
     \<and> (\<forall>fs. concat fs = wire \<longrightarrow>
          (\<exists>dctx' st2''. crypto_recv lc' (stream_crypto lc' c) cap' dctx st2' fs = Inr (CRYPTO_OK, concat ms, dctx', st2'')))"
proof -
  let ?iv = "fst (rand_bytes lc st1 (nonce_len c))"
  note snd_law = stream_tcp_delivery_law [OF assms(1), of lc]
  note rcv_law = stream_tcp_delivery_law [OF assms(1), of lc']
  obtain ctx where "stream_ctx_init lc c True st1 = Inr (ctx, snd (rand_bytes lc st1 (nonce_len c)))"
      "stream_sent c ?iv [] ctx" "take (nonce_len c) (nonce ctx) = ?iv"
    by (rule stream_ctx_init_sender [OF assms(1)])
  then have s: "stream_sent c ?iv [] ectx" "state_wf lc st1'" "take (nonce_len c) (nonce ectx) = ?iv"
    using assms(2,4) by (auto intro: wf_intros)
  have "stream_unseen c ?iv st2" "stream_fits c ms"
    using assms(6,9) s(3) by (simp_all add: stream_unseen_def stream_fits_def)
  then show ?thesis
    using two_sided_delivery [OF snd_law rcv_law s(2) assms(3) s(1) assms(7,8), of dctx st2' lc cap lc' cap'] assms(5) by simp
qed

theorem stream_tcp_delivery_witness:
  "\<exists>ectx st1' dctx st2' wire ectx' st1''.
     stream_ctx_init lc_ex aes_ex True state_ex = Inr (ectx, st1')
     \<and> stream_ctx_init lc_ex aes_ex False state_ex = Inr (dctx, st2')
     \<and> crypto_send lc_ex (stream_crypto lc_ex aes_ex) 2048 ectx st1' [[1, 2, 3], [4]] = Inr (CRYPTO_OK, wire, ectx', st1'')
     \<and> (\<forall>fs. concat fs = wire \<longrightarrow>
          (\<exists>dctx' st2''. crypto_recv lc_ex (stream_crypto lc_ex aes_ex) 2048 dctx st2' fs = Inr (CRYPTO_OK, [1, 2, 3, 4], dctx', st2'')))"
proof -
  obtain ectx st1' where e: "stream_ctx_init lc_ex aes_ex True state_ex = Inr (ectx, st1')"
    by (rule stream_ctx_init_sender [OF stream_ex_ok(1)])
  obtain dctx st2' where d: "stream_ctx_init lc_ex aes_ex False state_ex = Inr (dctx, st2')"
    by (rule stream_ctx_init_receiver [OF stream_ex_ok(1)])
  have "(4 :: nat) < stream_limit aes_ex" by (rule stream_limit_large) simp
  then show ?thesis
    using e d stream_tcp_delivery [OF stream_ex_ok(1) state_ex_wf state_ex_wf e d, of "[[1, 2, 3], [4]]" 2048 2048] state_ex_empty
    by (auto simp: CHUNK_SIZE_MASK_def)
qed

text \<open>C32: UDP round trip of the stream ciphers. A packet made by \<open>stream_encrypt_all\<close> is a random IV
  and the encrypted payload; \<open>stream_decrypt_all\<close> turns it back into the payload and remembers the
  IV, provided its filter does not hold it. The sender's filter is not changed.\<close>

theorem stream_udp_roundtrip:
  assumes "stream_cipher_ok c" "state_wf lc st1" "state_wf lc' st2" "buf_wf pt" "len pt \<noteq> 0" "len pt < stream_limit c"
  defines "iv \<equiv> fst (rand_bytes lc st1 (nonce_len c))"
  assumes "ppbloom_check (ppb st2) iv \<noteq> 1"
  shows "\<exists>pkt st1'. stream_encrypt_all lc pt c cap st1 = Inr (CRYPTO_OK, pkt, st1')
     \<and> take (nonce_len c) (contents pkt) = iv \<and> len pkt = nonce_len c + len pt \<and> ppb st1' = ppb st1
     \<and> (\<exists>out st2'. stream_decrypt_all lc' pkt c cap' st2 = Inr (CRYPTO_OK, out, st2')
          \<and> contents out = contents pt \<and> ppb st2' = pp_add lc' (ppb st2) iv)"
proof -
  obtain pkt st1' where e: "stream_encrypt_all lc pt c cap st1 = Inr (CRYPTO_OK, pkt, st1')" "buf_wf pkt"
      "contents pkt = stream_packet_wire c iv (contents pt)" "ppb st1' = ppb st1"
    unfolding iv_def by (rule stream_encrypt_all_ok [OF assms(1,2,4)])
  have iv: "length iv = nonce_len c" by (simp add: iv_def)
  have "length (contents pt) = len pt" by (rule length_contents [OF assms(4)])
  then have m: "contents pt \<noteq> []" "length (contents pt) < stream_limit c"
    using assms(5,6) by (cases "contents pt"; simp)+
  obtain out st2' where d: "stream_decrypt_all lc' pkt c cap' st2 = Inr (CRYPTO_OK, out, st2')"
      "contents out = contents pt" "ppb st2' = pp_add lc' (ppb st2) iv"
    by (rule stream_decrypt_all_ok [OF assms(1,3) e(2,3) iv m assms(8)])
  have l: "take (nonce_len c) (contents pkt) = iv" "len pkt = nonce_len c + len pt"
    using e(3) iv assms(4) length_contents [OF e(2)] ks_run_props(1) [OF assms(1) ks_start_wf [OF assms(1) iv]]
    by (simp_all add: stream_packet_wire_def)
  show ?thesis
    using e(1,4) d l by (intro exI [of _ pkt] exI [of _ st1']) auto
qed

theorem stream_udp_roundtrip_witness:
  "\<exists>pkt st1' out st2'. stream_encrypt_all lc_ex (filled lc_ex 9 [1, 2, 3]) salsa_ex 9 state_ex = Inr (CRYPTO_OK, pkt, st1')
     \<and> stream_decrypt_all lc_ex pkt salsa_ex 9 state_ex = Inr (CRYPTO_OK, out, st2') \<and> contents out = [1, 2, 3]"
proof -
  note f = filled_props [of lc_ex 9 "[1, 2, 3]"]
  have "len (filled lc_ex 9 [1, 2, 3]) < stream_limit salsa_ex" by (rule stream_limit_large) (simp add: f)
  with stream_udp_roundtrip [OF stream_ex_ok(2) state_ex_wf state_ex_wf f(1), of 9 9] f(2,3) state_ex_empty
  show ?thesis by auto
qed

text \<open>C33: the method \<^verbatim>\<open>rc4\<close> has no IV, so every packet carries the same empty one. Once
  \<open>stream_decrypt_all\<close> has accepted a packet, which enters the empty IV in the nonce filter, it
  refuses the next one, whatever it is.\<close>

theorem rc4_udp_refused:
  assumes "stream_cipher_ok c" "cmethod c = RC4" "state_wf lc st" "0 < pp_entries (ppb st)" "buf_wf ct" "buf_wf ct2"
    and "stream_decrypt_all lc ct c cap st = Inr (CRYPTO_OK, ct', st')"
  shows "\<exists>st''. stream_decrypt_all lc ct2 c cap' st' = Inr (CRYPTO_ERROR, ct2, st'')"
proof -
  have n0: "nonce_len c = 0" using assms(1,2) by (simp add: stream_cipher_ok_def stream_tables RC4_def)
  from assms(1,3,5) have st': "ppb st' = pp_add lc (ppb st) [] \<and> state_wf lc st'"
    by (cases rule: stream_decrypt_all_cases [where cap = cap]) (use assms(7) n0 in simp_all)
  have "pp_wf lc (ppb st)" using assms(3) by (simp add: state_wf_def)
  then have "pp_seen (ppb st') []"
    using pp_seen_within_window [of lc "ppb st" "[]" "[]"] assms(4) st' by simp
  then have seen: "ppbloom_check (ppb st') [] = 1" by (simp add: pp_seen_def)
  from assms(1) st' [THEN conjunct2] assms(6) show ?thesis
    by (cases rule: stream_decrypt_all_cases [where cap = cap']) (use seen n0 in auto)
qed

theorem rc4_udp_refused_witness:
  "\<exists>ct' st' st''. stream_decrypt_all lc_ex (filled lc_ex 9 [1, 2, 3]) rc4_ex 9 state_ex = Inr (CRYPTO_OK, ct', st')
     \<and> stream_decrypt_all lc_ex (filled lc_ex 9 [4, 5]) rc4_ex 9 st' = Inr (CRYPTO_ERROR, filled lc_ex 9 [4, 5], st'')"
proof -
  note f = filled_props [of lc_ex 9 "[1, 2, 3]"] and g = filled_props [of lc_ex 9 "[4, 5]"]
  have m: "cmethod rc4_ex = RC4" "nonce_len rc4_ex = 0" by (simp_all add: stream_cipher_def RC4_def stream_tables)
  have "\<exists>ct' st'. stream_decrypt_all lc_ex (filled lc_ex 9 [1, 2, 3]) rc4_ex 9 state_ex = Inr (CRYPTO_OK, ct', st')"
    using stream_ex_ok(3) state_ex_wf f(1)
    by (cases rule: stream_decrypt_all_cases [where cap = 9]) (use f m(2) state_ex_empty in auto)
  then obtain ct' st' where d: "stream_decrypt_all lc_ex (filled lc_ex 9 [1, 2, 3]) rc4_ex 9 state_ex = Inr (CRYPTO_OK, ct', st')"
    by blast
  with rc4_udp_refused [OF stream_ex_ok(3) m(1) state_ex_wf _ f(1) g(1) d, of 9] state_ex_entries show ?thesis by auto
qed

end
