(* ===== verification/SS_Base64.thy ===== *)
theory SS_Base64
  imports SS_Prelude
begin

text \<open>
  The URL-safe Base64 of \<^verbatim>\<open>src/base64.c\<close>, in which a key is written in the configuration. The
  accumulators of both functions are 32-bit words of which only the low bits are read, so that the bits that
  the shifts lose do not matter: this is what the round trip shows. A C string is the list of its
  characters; the list ends where the terminating zero is, and a zero in the list ends it too.
\<close>

section \<open>Decoding\<close>

definition map2_table :: "nat list" where
  "map2_table =
     [0xff, 0xff, 0x3e, 0xff, 0xff, 0x34, 0x35, 0x36,
      0x37, 0x38, 0x39, 0x3a, 0x3b, 0x3c, 0x3d, 0xff,
      0xff, 0xff, 0xff, 0xff, 0xff, 0xff, 0x00, 0x01,
      0x02, 0x03, 0x04, 0x05, 0x06, 0x07, 0x08, 0x09,
      0x0a, 0x0b, 0x0c, 0x0d, 0x0e, 0x0f, 0x10, 0x11,
      0x12, 0x13, 0x14, 0x15, 0x16, 0x17, 0x18, 0x19,
      0xff, 0xff, 0xff, 0xff, 0x3f, 0xff, 0x1a, 0x1b,
      0x1c, 0x1d, 0x1e, 0x1f, 0x20, 0x21, 0x22, 0x23,
      0x24, 0x25, 0x26, 0x27, 0x28, 0x29, 0x2a, 0x2b,
      0x2c, 0x2d, 0x2e, 0x2f, 0x30, 0x31, 0x32, 0x33]"

text \<open>The subtraction of 43 from a \<^verbatim>\<open>char\<close>, which may be signed, as an \<^verbatim>\<open>unsigned int\<close>.\<close>

definition b64_index :: "bool \<Rightarrow> u8 \<Rightarrow> nat" where
  "b64_index sc c = unat (word_of_int (c_char sc c - 43) :: u32)"

fun base64_decode_loop :: "bool \<Rightarrow> nat \<Rightarrow> nat \<Rightarrow> u32 \<Rightarrow> bytes \<Rightarrow> bytes \<Rightarrow> bytes option" where
  "base64_decode_loop sc out_size i v dst [] = Some dst"
| "base64_decode_loop sc out_size i v dst (c # inp) =
     (if c = 0 \<or> c = 61 then Some dst
      else
        let index = b64_index sc c
        in if index \<ge> length map2_table \<or> map2_table ! index = 0xff then None
           else
             let v = push_bit 6 v + of_nat (map2_table ! index);
                 dst = (if i mod 4 \<noteq> 0 \<and> length dst < out_size
                        then dst @ [ucast (drop_bit (6 - 2 * (i mod 4)) v)] else dst)
             in base64_decode_loop sc out_size (i + 1) v dst inp)"

text \<open>\<open>None\<close> is the return value \<open>-1\<close>, and otherwise the bytes that were written.\<close>

definition base64_decode :: "bool \<Rightarrow> bytes \<Rightarrow> nat \<Rightarrow> bytes option" where
  "base64_decode sc inp out_size = base64_decode_loop sc out_size 0 0 [] inp"

section \<open>Encoding\<close>

definition BASE64_SIZE :: "nat \<Rightarrow> nat" where
  "BASE64_SIZE x = (x + 2) div 3 * 4 + 1"

definition b64 :: bytes where
  "b64 = str ''ABCDEFGHIJKLMNOPQRSTUVWXYZabcdefghijklmnopqrstuvwxyz0123456789-_''"

text \<open>The inner \<^verbatim>\<open>do\<close>-loop emits a character and goes on while a whole one is left, or any bits at the end.\<close>

function b64_emit :: "u32 \<Rightarrow> int \<Rightarrow> bool \<Rightarrow> bytes \<times> int" where
  "b64_emit i_bits i_shift at_end =
     (let c = b64 ! unat (drop_bit (nat i_shift) (push_bit 6 i_bits) AND 0x3f);
          i_shift' = i_shift - 6
      in if i_shift' > 6 \<or> at_end \<and> i_shift' > 0
         then case b64_emit i_bits i_shift' at_end of (out, sh) \<Rightarrow> (c # out, sh)
         else ([c], i_shift'))"
  by pat_completeness auto

termination
  by (relation "measure (\<lambda>(b, s, e). nat s)") auto

declare b64_emit.simps [simp del]

fun base64_encode_loop :: "u32 \<Rightarrow> int \<Rightarrow> bytes \<Rightarrow> bytes" where
  "base64_encode_loop i_bits i_shift [] = []"
| "base64_encode_loop i_bits i_shift (x # inp) =
     (let i_bits = push_bit 8 i_bits + ucast x
      in case b64_emit i_bits (i_shift + 8) (inp = []) of
           (out, i_shift) \<Rightarrow> out @ base64_encode_loop i_bits i_shift inp)"

text \<open>The string that is written, without its terminating zero; \<open>None\<close> where the source returns \<^verbatim>\<open>NULL\<close>.\<close>

definition base64_encode :: "nat \<Rightarrow> bytes \<Rightarrow> bytes option" where
  "base64_encode out_size inp =
     (if length inp \<ge> (2 ^ 32 - 1) div 4 \<or> out_size < BASE64_SIZE (length inp) then None
      else
        let out = base64_encode_loop 0 0 inp
        in Some (out @ replicate ((4 - length out mod 4) mod 4) 61))"

section \<open>The groups of three bytes\<close>

text \<open>The reference: three bytes are four numbers of six bits, and one or two bytes at the end are two or three.\<close>

fun sextets :: "bytes \<Rightarrow> nat list" where
  "sextets [] = []"
| "sextets [a] = [unat a div 4, unat a mod 4 * 16]"
| "sextets [a, b] = [unat a div 4, unat a mod 4 * 16 + unat b div 16, unat b mod 16 * 4]"
| "sextets (a # b # c # r) =
     [unat a div 4, unat a mod 4 * 16 + unat b div 16, unat b mod 16 * 4 + unat c div 64, unat c mod 64] @ sextets r"

text \<open>The character that the encoder emits depends on the last two bytes it read only.\<close>

lemma emit_low:
  assumes "n \<le> 14"
  shows "drop_bit n (push_bit 6 v) AND 0x3f = take_bit 6 (drop_bit n (push_bit 6 (take_bit 16 (v :: u32))))"
proof -
  have m: "(0x3f :: u32) = mask 6" by (simp add: mask_eq_exp_minus_1)
  show ?thesis
    unfolding m using assms by (intro bit_word_eqI) (auto simp: bit_simps)
qed

lemma unat_drop_bit_u32: "unat (drop_bit n (w :: u32)) = unat w div 2 ^ n"
proof -
  have "take_bit LENGTH(32) (unat w) = unat w"
    using unsigned_less [of w, where ?'a = nat] by (intro take_bit_nat_eq_self)
  then have "unat (drop_bit n w) = drop_bit n (unat w)" by (simp only: unsigned_drop_bit_eq)
  then show ?thesis by (simp only: drop_bit_eq_div [of n "unat w"])
qed

lemma emit_value:
  assumes "n \<le> 14"
  shows "unat (drop_bit n (push_bit 6 (v :: u32)) AND 0x3f) = unat v mod 65536 * 64 div 2 ^ n mod 64"
proof -
  have u: "unat (take_bit 16 v) = unat v mod 65536" by (simp only: unsigned_take_bit_eq) (simp add: take_bit_eq_mod)
  have "unat (push_bit 6 (take_bit 16 v)) = unat v mod 65536 * 64"
    by (simp only: unsigned_push_bit_eq u) (simp add: push_bit_eq_mult take_bit_eq_mod)
  then show ?thesis
    by (simp only: emit_low [OF assms] unsigned_take_bit_eq unat_drop_bit_u32) (simp add: take_bit_eq_mod)
qed

lemma next_bits: "unat (push_bit 8 v + ucast x :: u32) mod 65536 = 256 * (unat v mod 256) + unat (x :: u8)"
proof -
  have "unat (push_bit 8 v + ucast x :: u32) mod 65536 = (unat v * 256 + unat x) mod 65536"
    by (simp add: unat_word_ariths unsigned_push_bit_eq push_bit_eq_mult take_bit_eq_mod unsigned_ucast_eq mod_simps mod_mod_cancel)
  also have "\<dots> = 256 * (unat v mod 256) + unat x"
    using mod_mult2_eq [of "unat v * 256 + unat x" 256 256] by simp
  finally show ?thesis .
qed

lemma next_byte: "unat (push_bit 8 v + ucast x :: u32) mod 256 = unat (x :: u8)"
proof -
  have "unat (push_bit 8 v + ucast x :: u32) mod 65536 mod 256 = unat x" unfolding next_bits by simp
  then show ?thesis by (simp add: mod_mod_cancel)
qed

text \<open>The arithmetic of six bits out of two bytes.\<close>

lemma select_six: "N = 64 * k * h + k * r + s \<Longrightarrow> s < k \<Longrightarrow> r < 64 \<Longrightarrow> N div k mod 64 = (r :: nat)"
proof -
  assume a: "N = 64 * k * h + k * r + s" "s < k" "r < 64"
  then have "N = k * (64 * h + r) + s" by (simp add: algebra_simps)
  then have "N div k = 64 * h + r" using a(2) by simp
  with a(3) show ?thesis by simp
qed

lemma two_bytes:
  fixes x y :: nat
  assumes "x = 4 * p + q" "q < 4" "x = 16 * r + s" "s < 16" "x = 64 * t + u" "u < 64" "x < 256"
    and "y = 4 * p' + q'" "q' < 4" "y = 16 * r' + s'" "s' < 16" "y = 64 * t' + u'" "u' < 64"
  shows "(256 * y + x) * 64 div 256 mod 64 = p"
    and "(256 * y + x) * 64 div 4 mod 64 = q * 16"
    and "(256 * y + x) * 64 div 1024 mod 64 = q' * 16 + r"
    and "(256 * y + x) * 64 div 16 mod 64 = s * 4"
    and "(256 * y + x) * 64 div 4096 mod 64 = s' * 4 + t"
    and "(256 * y + x) * 64 div 64 mod 64 = u"
    and "(256 * y + x) * 64 div 16384 mod 64 = u'"
proof -
  show "(256 * y + x) * 64 div 256 mod 64 = p"
    by (rule select_six [of _ _ y _ "64 * q"]) (insert assms(1,2,7), simp_all add: algebra_simps)
  show "(256 * y + x) * 64 div 4 mod 64 = q * 16"
    by (rule select_six [of _ _ "64 * y + p" _ "0"]) (insert assms(1,2,7), simp_all add: algebra_simps)
  show "(256 * y + x) * 64 div 1024 mod 64 = q' * 16 + r"
    by (rule select_six [of _ _ p' _ "64 * s"]) (insert assms(3,4,7,8,9), simp_all add: algebra_simps)
  show "(256 * y + x) * 64 div 16 mod 64 = s * 4"
    by (rule select_six [of _ _ "16 * y + r" _ "0"]) (insert assms(3,4,7), simp_all add: algebra_simps)
  show "(256 * y + x) * 64 div 4096 mod 64 = s' * 4 + t"
    by (rule select_six [of _ _ r' _ "64 * u"]) (insert assms(5-7,10,11), simp_all add: algebra_simps)
  show "(256 * y + x) * 64 div 64 mod 64 = u"
    by (rule select_six [of _ _ "4 * y + t" _ "0"]) (insert assms(5-7), simp_all add: algebra_simps)
  show "(256 * y + x) * 64 div 16384 mod 64 = u'"
    by (rule select_six [of _ _ t' _ "64 * x"]) (insert assms(7,12,13), simp_all add: algebra_simps)
qed

lemma emit_cases:
  assumes "unat (v :: u32) mod 65536 = 256 * unat (y :: u8) + unat (x :: u8)"
  shows "unat (drop_bit 8 (push_bit 6 v) AND 0x3f) = unat x div 4"
    and "unat (drop_bit 2 (push_bit 6 v) AND 0x3f) = unat x mod 4 * 16"
    and "unat (drop_bit 10 (push_bit 6 v) AND 0x3f) = unat y mod 4 * 16 + unat x div 16"
    and "unat (drop_bit 4 (push_bit 6 v) AND 0x3f) = unat x mod 16 * 4"
    and "unat (drop_bit 12 (push_bit 6 v) AND 0x3f) = unat y mod 16 * 4 + unat x div 64"
    and "unat (drop_bit 6 (push_bit 6 v) AND 0x3f) = unat x mod 64"
    and "unat (drop_bit 14 (push_bit 6 v) AND 0x3f) = unat y mod 64"
proof -
  have d: "z = k * (z div k) + z mod k" for z k :: nat by simp
  have l: "z mod 4 < 4" "z mod 16 < 16" "z mod 64 < 64" for z :: nat by simp_all
  note t = two_bytes [OF d l(1) d l(2) d l(3) unat_u8_less [of x] d l(1) d l(2) d l(3), of "unat y"]
  note e = emit_value [of _ v, unfolded assms]
  show "unat (drop_bit 8 (push_bit 6 v) AND 0x3f) = unat x div 4" using t(1) e [of 8] by simp
  show "unat (drop_bit 2 (push_bit 6 v) AND 0x3f) = unat x mod 4 * 16" using t(2) e [of 2] by simp
  show "unat (drop_bit 10 (push_bit 6 v) AND 0x3f) = unat y mod 4 * 16 + unat x div 16" using t(3) e [of 10] by simp
  show "unat (drop_bit 4 (push_bit 6 v) AND 0x3f) = unat x mod 16 * 4" using t(4) e [of 4] by simp
  show "unat (drop_bit 12 (push_bit 6 v) AND 0x3f) = unat y mod 16 * 4 + unat x div 64" using t(5) e [of 12] by simp
  show "unat (drop_bit 6 (push_bit 6 v) AND 0x3f) = unat x mod 64" using t(6) e [of 6] by simp
  show "unat (drop_bit 14 (push_bit 6 v) AND 0x3f) = unat y mod 64" using t(7) e [of 14] by simp
qed

lemma emit_steps:
  assumes "unat v mod 65536 = 256 * unat (y :: u8) + unat (x :: u8)"
  shows "b64_emit v 8 False = ([b64 ! (unat x div 4)], 2)"
    and "b64_emit v 8 True = (map ((!) b64) [unat x div 4, unat x mod 4 * 16], - 4)"
    and "b64_emit v 10 False = ([b64 ! (unat y mod 4 * 16 + unat x div 16)], 4)"
    and "b64_emit v 10 True = (map ((!) b64) [unat y mod 4 * 16 + unat x div 16, unat x mod 16 * 4], - 2)"
    and "b64_emit v 12 False = ([b64 ! (unat y mod 16 * 4 + unat x div 64)], 6)"
    and "b64_emit v 12 True = (map ((!) b64) [unat y mod 16 * 4 + unat x div 64, unat x mod 64], 0)"
    and "b64_emit v 14 False = (map ((!) b64) [unat y mod 64, unat x div 4], 2)"
    and "b64_emit v 14 True = (map ((!) b64) [unat y mod 64, unat x div 4, unat x mod 4 * 16], - 4)"
  using emit_cases [OF assms]
  by (simp_all add: b64_emit.simps [of v 14] b64_emit.simps [of v 12] b64_emit.simps [of v 10] b64_emit.simps [of v 8]
      b64_emit.simps [of v 6] b64_emit.simps [of v 4] b64_emit.simps [of v 2] Let_def)

text \<open>
  The encoder writes the groups. It holds back the last number of a group until the next byte or the end;
  \<open>y\<close> is the last byte it read.
\<close>

lemma encode_groups:
  assumes "sh = 0 \<and> p = [] \<or> sh = 6 \<and> p = [unat y mod 64] \<and> xs \<noteq> []" "unat v mod 256 = unat (y :: u8)"
  shows "base64_encode_loop v sh xs = map ((!) b64) (p @ sextets xs)"
  using assms
proof (induction xs arbitrary: v sh p y rule: sextets.induct)
  case (2 a)
  note s = emit_steps [OF next_bits [of v a, unfolded 2(2)]]
  show ?case using 2(1) s(2,8) by auto
next
  case (3 a b)
  define v1 where "v1 = push_bit 8 v + ucast a"
  note s = emit_steps [OF next_bits [of v a, unfolded 3(2)]] and n = next_byte [of v a]
  note s' = emit_steps [OF next_bits [of v1 b, unfolded v1_def n], folded v1_def]
  show ?case using 3(1) s(1,7) s'(4) by (auto simp: v1_def)
next
  case (4 a b c r)
  define v1 where "v1 = push_bit 8 v + ucast a"
  define v2 where "v2 = push_bit 8 v1 + ucast b"
  define v3 where "v3 = push_bit 8 v2 + ucast c"
  have n: "unat v1 mod 256 = unat a" "unat v2 mod 256 = unat b" "unat v3 mod 256 = unat c"
    unfolding v1_def v2_def v3_def by (rule next_byte)+
  note s1 = emit_steps [OF next_bits [of v a, unfolded 4(3)], folded v1_def]
    and s2 = emit_steps [OF next_bits [of v1 b, unfolded n], folded v2_def]
    and s3 = emit_steps [OF next_bits [of v2 c, unfolded n], folded v3_def]
  have ih: "base64_encode_loop v3 6 r = map ((!) b64) (unat c mod 64 # sextets r)" if "r \<noteq> []"
    using 4(1) [of 6 "[unat c mod 64]" c v3] that n(3) by simp
  show ?case
  proof (cases "r = []")
    case True
    then show ?thesis using 4(2) s1(1,7) s2(3) s3(6) by (auto simp: v1_def [symmetric] v2_def [symmetric] v3_def [symmetric] Let_def)
  next
    case False
    then show ?thesis using 4(2) s1(1,7) s2(3) s3(5) ih
      by (auto simp: v1_def [symmetric] v2_def [symmetric] v3_def [symmetric] Let_def)
  qed
qed simp

section \<open>Decoding what was encoded\<close>

lemma sint_ascii: "unat c < 128 \<Longrightarrow> sint (c :: u8) = int (unat c)"
proof -
  assume "unat c < 128"
  then have "int (unat c) < int 128" by (simp only: of_nat_less_iff)
  then have c: "int (unat c) < 2 ^ 7" by simp
  have n: "- (2 ^ 7) \<le> int (unat c)" by (rule order_trans [OF _ of_nat_0_le_iff]) simp
  have "sint c = signed_take_bit 7 (int (unat c))" by (simp add: sint_uint)
  also have "\<dots> = int (unat c)"
    using n c by (rule signed_take_bit_int_eq_self)
  finally show ?thesis .
qed

lemma b64_index_eq: "43 \<le> unat c \<Longrightarrow> unat c < 128 \<Longrightarrow> b64_index sc c = unat c - 43"
proof -
  assume c: "43 \<le> unat c" "unat c < 128"
  have "c_char sc c = int (unat c)"
    using sint_ascii [OF c(2)] by (simp add: c_char_def)
  then have "c_char sc c - 43 = int (unat c - 43)" using c(1) by (simp only: of_nat_diff of_nat_numeral)
  then show ?thesis using c(2) by (simp only: b64_index_def of_int_of_nat_eq) (simp add: unat_of_nat)
qed

lemma alphabet_table:
  "map (\<lambda>c. map2_table ! (unat c - 43)) b64 = [0..<64]"
  "list_all (\<lambda>c. 43 \<le> unat c \<and> unat c < 123 \<and> unat c \<noteq> 61) b64"
  by code_simp+

lemma alphabet:
  assumes "s < 64"
  shows "b64 ! s \<noteq> 0" "b64 ! s \<noteq> 61" "b64_index sc (b64 ! s) < 80" "map2_table ! b64_index sc (b64 ! s) = s"
proof -
  have l: "length b64 = 64" by (simp add: b64_def)
  then have c: "43 \<le> unat (b64 ! s)" "unat (b64 ! s) < 123" "unat (b64 ! s) \<noteq> 61"
    using alphabet_table(2) assms by (simp_all add: list_all_length)
  then show "b64 ! s \<noteq> 0" "b64 ! s \<noteq> 61" by auto
  have i: "b64_index sc (b64 ! s) = unat (b64 ! s) - 43" using c by (intro b64_index_eq) simp_all
  then show "b64_index sc (b64 ! s) < 80" using c by simp
  show "map2_table ! b64_index sc (b64 ! s) = s"
    using arg_cong [OF alphabet_table(1), of "\<lambda>xs. xs ! s"] assms l unfolding i by simp
qed

lemma decode_step:
  assumes "s < 64"
  shows "base64_decode_loop sc n i v dst (b64 ! s # inp) =
     base64_decode_loop sc n (i + 1) (push_bit 6 v + of_nat s)
       (if i mod 4 \<noteq> 0 \<and> length dst < n
        then dst @ [ucast (drop_bit (6 - 2 * (i mod 4)) (push_bit 6 v + of_nat s))] else dst) inp"
proof -
  have "length map2_table = 80" by (simp add: map2_table_def)
  with alphabet(1,2) [OF assms] alphabet(3,4) [OF assms, of sc] assms show ?thesis by (simp add: Let_def)
qed

lemma next_six: "s < 64 \<Longrightarrow> unat (push_bit 6 v + of_nat s :: u32) mod 4096 = 64 * (unat v mod 64) + s"
proof -
  assume s: "s < 64"
  have "unat (push_bit 6 v + of_nat s :: u32) mod 4096 = (unat v * 64 + s) mod 4096"
    by (simp add: unat_word_ariths unsigned_push_bit_eq push_bit_eq_mult take_bit_eq_mod unat_of_nat mod_simps mod_mod_cancel)
  also have "\<dots> = 64 * (unat v mod 64) + s"
    using mod_mult2_eq [of "unat v * 64 + s" 64 64] s by simp
  finally show ?thesis .
qed

text \<open>The byte out of two six-bit numbers, at each of its three positions.\<close>

lemma decoded_byte:
  assumes "t < 64" "s < 64" "j \<in> {0, 2, 4}"
  shows "ucast (drop_bit j (push_bit 6 (push_bit 6 v + of_nat t) + of_nat s :: u32)) = (of_nat ((64 * t + s) div 2 ^ j) :: u8)"
proof -
  let ?w = "push_bit 6 (push_bit 6 v + of_nat t) + of_nat s :: u32"
  have "unat (push_bit 6 v + of_nat t :: u32) mod 64 = t"
    using arg_cong [OF next_six [OF assms(1), of v], of "\<lambda>n. n mod 64"] assms(1) by (simp add: mod_mod_cancel)
  then have "unat ?w mod 4096 = 64 * t + s" using next_six [OF assms(2), of "push_bit 6 v + of_nat t"] by simp
  then obtain h where h: "unat ?w = 4096 * h + (64 * t + s)" by (metis mult_div_mod_eq)
  have m: "(4096 * h + m) mod 256 = m mod 256" "(4096 * h + m) div 4 mod 256 = m div 4 mod 256"
      "(4096 * h + m) div 16 mod 256 = m div 16 mod 256" for m
    using mod_mult_self3 [of "16 * h" 256 m] div_mult_self3 [of 4 "1024 * h" m] mod_mult_self3 [of "4 * h" 256 "m div 4"]
      div_mult_self3 [of 16 "256 * h" m] mod_mult_self3 [of h 256 "m div 16"]
    by (simp_all add: ac_simps)
  have "unat (ucast (drop_bit j ?w) :: u8) = (64 * t + s) div 2 ^ j mod 256"
    using assms(3) unat_drop_bit_u32 [of j ?w] unfolding h by (auto simp: unsigned_ucast_eq take_bit_eq_mod h m)
  then show ?thesis by (simp add: word_unat_eq_iff unat_of_nat)
qed

lemma sextet_bounds:
  "unat (a :: u8) div 4 < 64" "unat a mod 4 * 16 < 64" "unat a mod 4 * 16 + unat (b :: u8) div 16 < 64"
  "unat a mod 16 * 4 < 64" "unat a mod 16 * 4 + unat b div 64 < 64" "unat a mod 64 < 64"
proof -
  have d: "unat b div 16 < 16" "unat b div 64 < 4" "unat a mod 4 < 4" "unat a mod 16 < 16"
    using unat_u8_less [of b] by (simp_all add: less_mult_imp_div_less)
  show "unat a div 4 < 64" using unat_u8_less [of a] by (simp add: less_mult_imp_div_less)
  show "unat a mod 4 * 16 < 64" "unat a mod 4 * 16 + unat b div 16 < 64" using d by linarith+
  show "unat a mod 16 * 4 < 64" "unat a mod 16 * 4 + unat b div 64 < 64" using d by linarith+
qed simp

lemma joined_bits:
  "r < 16 \<Longrightarrow> x = 4 * p + q \<Longrightarrow> (64 * p + (q * 16 + r)) div 16 = (x :: nat)"
  "t < 4 \<Longrightarrow> x = 16 * r + s \<Longrightarrow> (64 * (q * 16 + r) + (s * 4 + t)) div 4 = 256 * q + (x :: nat)"
  "x = 64 * t + u \<Longrightarrow> 64 * (s * 4 + t) + u = 256 * s + (x :: nat)"
proof -
  assume "r < 16" "x = 4 * p + q"
  moreover from this(2) have "64 * p + (q * 16 + r) = r + x * 16" by simp
  ultimately show "(64 * p + (q * 16 + r)) div 16 = x" by simp
next
  assume "t < 4" "x = 16 * r + s"
  moreover from this(2) have "64 * (q * 16 + r) + (s * 4 + t) = t + (256 * q + x) * 4" by simp
  ultimately show "(64 * (q * 16 + r) + (s * 4 + t)) div 4 = 256 * q + x" by simp
qed simp

lemma u8_of_nat_high: "(of_nat (256 * h + unat (x :: u8)) :: u8) = x"
proof -
  have "(256 :: u8) = 0" by simp
  then show ?thesis by (simp only: of_nat_add of_nat_mult of_nat_numeral) simp
qed

lemma decoded_group:
  fixes a b c :: u8
  defines "w s t v \<equiv> push_bit 6 (push_bit 6 v + of_nat s) + of_nat t :: u32"
  shows "ucast (drop_bit 4 (w (unat a div 4) (unat a mod 4 * 16 + unat b div 16) v)) = a"
    and "ucast (drop_bit 4 (w (unat a div 4) (unat a mod 4 * 16) v)) = a"
    and "ucast (drop_bit 2 (w (unat a mod 4 * 16 + unat b div 16) (unat b mod 16 * 4 + unat c div 64) v)) = b"
    and "ucast (drop_bit 2 (w (unat a mod 4 * 16 + unat b div 16) (unat b mod 16 * 4) v)) = b"
    and "ucast (w (unat b mod 16 * 4 + unat c div 64) (unat c mod 64) v) = c"
proof -
  have d: "z = k * (z div k) + z mod k" for z k :: nat by simp
  have l: "unat b div 16 < 16" "unat c div 64 < 4"
    using unat_u8_less [of b] unat_u8_less [of c] by (simp_all add: less_mult_imp_div_less)
  note j = joined_bits(1) [OF l(1) d [of "unat a" 4]] joined_bits(1) [OF zero_less_numeral d [of "unat a" 4]]
    joined_bits(2) [OF l(2) d [of "unat b" 16]] joined_bits(2) [OF zero_less_numeral d [of "unat b" 16]]
    joined_bits(3) [OF d [of "unat c" 64]]
  note b = sextet_bounds
  show "ucast (drop_bit 4 (w (unat a div 4) (unat a mod 4 * 16 + unat b div 16) v)) = a"
    using decoded_byte [OF b(1) [of a] b(3) [of a b], of 4 v] j(1) by (simp add: w_def)
  show "ucast (drop_bit 4 (w (unat a div 4) (unat a mod 4 * 16) v)) = a"
    using decoded_byte [OF b(1) [of a] b(2) [of a], of 4 v] j(2) by (simp add: w_def)
  show "ucast (drop_bit 2 (w (unat a mod 4 * 16 + unat b div 16) (unat b mod 16 * 4 + unat c div 64) v)) = b"
    using decoded_byte [OF b(3) [of a b] b(5) [of b c], of 2 v] j(3) u8_of_nat_high [of _ b] by (simp add: w_def)
  show "ucast (drop_bit 2 (w (unat a mod 4 * 16 + unat b div 16) (unat b mod 16 * 4) v)) = b"
    using decoded_byte [OF b(3) [of a b] b(4) [of b], of 2 v] j(4) u8_of_nat_high [of _ b] by (simp add: w_def)
  show "ucast (w (unat b mod 16 * 4 + unat c div 64) (unat c mod 64) v) = c"
    using decoded_byte [OF b(5) [of b c] b(6) [of c], of 0 v] j(5) u8_of_nat_high [of _ c] by (simp add: w_def)
qed

text \<open>At the start of a group the decoder has written whole bytes, and what its accumulator holds does not matter.\<close>

lemma decode_groups:
  assumes "i mod 4 = 0" "length dst + length xs \<le> n"
  shows "base64_decode_loop sc n i v dst (map ((!) b64) (sextets xs) @ replicate k 61) = Some (dst @ xs)"
  using assms
proof (induction xs arbitrary: i v dst rule: sextets.induct)
  case 1
  show ?case by (cases k) simp_all
next
  case (2 a)
  have i: "Suc i mod 4 = 1" using 2(1) by (simp add: mod_Suc)
  have e: "base64_decode_loop sc n j w d (replicate k 61) = Some d" for j w d by (cases k) simp_all
  show ?case
    using 2 i decoded_group(2) [where a = a] by (simp add: decode_step sextet_bounds e del: base64_decode_loop.simps(2))
next
  case (3 a b)
  have i: "Suc i mod 4 = 1" "Suc (Suc i) mod 4 = 2" using 3(1) by (simp_all add: mod_Suc)
  have e: "base64_decode_loop sc n j w d (replicate k 61) = Some d" for j w d by (cases k) simp_all
  show ?case
    using 3 i decoded_group(1) [where a = a and b = b] decoded_group(4) [where a = a and b = b]
    by (simp add: decode_step sextet_bounds e del: base64_decode_loop.simps(2))
next
  case (4 a b c r)
  have i: "Suc i mod 4 = 1" "Suc (Suc i) mod 4 = 2" "Suc (Suc (Suc i)) mod 4 = 3" "Suc (Suc (Suc (Suc i))) mod 4 = 0"
    using 4(2) by (simp_all add: mod_Suc)
  have ih: "base64_decode_loop sc n (Suc (Suc (Suc (Suc i)))) w (dst @ [a, b, c]) (map ((!) b64) (sextets r) @ replicate k 61) =
      Some (dst @ a # b # c # r)" for w
    using 4(1) [OF i(4), of "dst @ [a, b, c]" w] 4(3) by simp
  show ?case
    using 4(2,3) i decoded_group(1) [where a = a and b = b] decoded_group(3) [where a = a and b = b and c = c]
      decoded_group(5) [where b = b and c = c]
    by (simp add: decode_step sextet_bounds ih del: base64_decode_loop.simps(2))
qed

lemma length_sextets: "length xs \<le> length (sextets xs)"
  by (induction xs rule: sextets.induct) simp_all

lemma base64_roundtrip:
  assumes "length xs < 2 ^ 30 - 1" "BASE64_SIZE (length xs) \<le> out_size"
  obtains out where "base64_encode out_size xs = Some out" "length xs \<le> length out"
    "\<And>n. length xs \<le> n \<Longrightarrow> base64_decode sc out n = Some xs"
proof -
  have "base64_encode_loop 0 0 xs = map ((!) b64) (sextets xs)"
    using encode_groups [of 0 "[]" 0 xs 0] by simp
  with assms decode_groups [of 0 "[]" xs] length_sextets [of xs] that show thesis
    by (simp add: base64_encode_def base64_decode_def Let_def)
qed

end
