(* ===== verification/SS_CryptoInit.thy ===== *)
theory SS_CryptoInit
  imports SS_StreamUdp SS_AeadUdp SS_Base64
begin

text \<open>
  From the configuration to a cipher: \<^verbatim>\<open>crypto_init\<close> and \<^verbatim>\<open>crypto_parse_key\<close> of \<^verbatim>\<open>src/crypto.c\<close>,
  \<^verbatim>\<open>stream_init\<close> and \<^verbatim>\<open>stream_key_init\<close> of \<^verbatim>\<open>src/stream.c\<close>, \<^verbatim>\<open>aead_init\<close> and \<^verbatim>\<open>aead_key_init\<close> of
  \<^verbatim>\<open>src/aead.c\<close>. An absent argument (\<^verbatim>\<open>NULL\<close>) is \<open>None\<close>; \<^verbatim>\<open>strlen\<close> of a null password is the fault
  \<open>SEGV\<close>. What is shown is that every table that \<^verbatim>\<open>crypto_init\<close> returns is one of those whose contract the
  theories below prove, and for which names it returns one.
\<close>

section \<open>Keys\<close>

text \<open>
  The key is written into the array of the new cipher. Where the text is not a key of that
  length, a random one is printed as a suggestion and the process ends.
\<close>

definition crypto_parse_key :: "bool \<Rightarrow> bytes \<Rightarrow> bytes \<Rightarrow> nat \<Rightarrow> fault + nat \<times> bytes" where
  "crypto_parse_key sc base64 k klen =
     (let out = base64_decode sc base64 (BASE64_SIZE (length base64))
      in case out of
           Some out \<Rightarrow>
             if 0 < length out \<and> klen \<le> length out then Inr (klen, memcpy_at k 0 (take klen out))
             else Inl (FATAL ''Please use the key above or input a valid key'')
         | None \<Rightarrow> Inl (FATAL ''Please use the key above or input a valid key''))"

text \<open>
  The choice that both families make. The \<^verbatim>\<open>int\<close> that the password-to-key function returns becomes a \<^verbatim>\<open>size_t\<close>.
  Its return of 0, for a digest context that could not be allocated, makes both callers end the process; like the
  other failing allocations it is left out here.
\<close>

definition choose_key :: "bool \<Rightarrow> bytes option \<Rightarrow> bytes option \<Rightarrow> bytes \<Rightarrow> nat \<Rightarrow> fault + nat \<times> bytes" where
  "choose_key sc pass ckey k klen =
     (case ckey of
        Some b \<Rightarrow> crypto_parse_key sc b k klen
      | None \<Rightarrow>
          (case pass of
             None \<Rightarrow> Inl SEGV
           | Some p \<Rightarrow>
               (case crypto_derive_key True mbedtls_md5_ret p k klen of
                  None \<Rightarrow> Inl ENDLESS
                | Some (Inl f) \<Rightarrow> Inl f
                | Some (Inr (rc, k)) \<Rightarrow> Inr (unat (of_int rc :: u64), k))))"

section \<open>Stream ciphers\<close>

record cipher_kt =
  kt_key_bitlen :: nat
  kt_iv_size :: nat

definition kt_of :: "cipher_info \<Rightarrow> cipher_kt" where
  "kt_of i = \<lparr>kt_key_bitlen = ci_key_bitlen i, kt_iv_size = ci_iv_size i\<rparr>"

definition cipher_nonce_size :: "cipher_kt \<Rightarrow> nat" where
  "cipher_nonce_size i = kt_iv_size i"

definition cipher_key_size :: "cipher_kt \<Rightarrow> nat" where
  "cipher_key_size i = kt_key_bitlen i div 8"

definition stream_key_init :: "bool \<Rightarrow> nat \<Rightarrow> bytes option \<Rightarrow> bytes option \<Rightarrow> fault + cipher_t option" where
  "stream_key_init sc meth pass ckey =
     (if meth \<le> TABLE \<or> meth \<ge> STREAM_CIPHER_NUM then Inr None
      else
        let info = (if meth = SALSA20 \<or> meth = CHACHA20 \<or> meth = CHACHA20IETF
                    then Some \<lparr>kt_key_bitlen = supported_stream_ciphers_key_size ! meth * 8,
                               kt_iv_size = supported_stream_ciphers_nonce_size ! meth\<rparr>
                    else map_option kt_of (stream_get_cipher_type meth))
        in case info of
             None \<Rightarrow> Inl (FATAL ''Cannot initialize cipher'')
           | Some info \<Rightarrow>
               (case choose_key sc pass ckey (replicate MAX_KEY_LENGTH 0) (cipher_key_size info) of
                  Inl f \<Rightarrow> Inl f
                | Inr (klen, k) \<Rightarrow>
                    if klen = 0 then Inl (FATAL ''Cannot generate key and NONCE'')
                    else Inr (Some \<lparr>cmethod = meth,
                                    nonce_len = (if meth = RC4_MD5 then 16 else cipher_nonce_size info),
                                    key_len = klen, tag_len = 0, key = k\<rparr>)))"

text \<open>The search loops of the four functions: the first index with that name, or the bound.\<close>

function find_method :: "string list \<Rightarrow> nat \<Rightarrow> string \<Rightarrow> nat \<Rightarrow> nat" where
  "find_method names num meth m =
     (if m < num then if meth = names ! m then m else find_method names num meth (m + 1) else m)"
  by pat_completeness auto

termination
  by (relation "measure (\<lambda>(names, num, meth, m). num - m)") auto

declare find_method.simps [simp del]

definition stream_init :: "bool \<Rightarrow> bytes option \<Rightarrow> bytes option \<Rightarrow> string option \<Rightarrow> fault + cipher_t option" where
  "stream_init sc pass ckey meth =
     (let m = (case meth of
                 None \<Rightarrow> TABLE
               | Some s \<Rightarrow>
                   (let m = find_method supported_stream_ciphers STREAM_CIPHER_NUM s TABLE
                    in if m \<ge> STREAM_CIPHER_NUM then CHACHA20IETF else m))
      in if m = TABLE then Inr None else stream_key_init sc m pass ckey)"

section \<open>AEAD ciphers\<close>

definition aead_key_init :: "bool \<Rightarrow> int \<Rightarrow> bytes option \<Rightarrow> bytes option \<Rightarrow> fault + cipher_t option" where
  "aead_key_init sc meth pass ckey =
     (if meth < int AES128GCM \<or> meth \<ge> int AEAD_CIPHER_NUM then Inr None
      else
        let m = nat meth;
            info = (if m \<ge> CHACHA20POLY1305IETF
                    then Some \<lparr>kt_key_bitlen = supported_aead_ciphers_key_size ! m * 8,
                               kt_iv_size = supported_aead_ciphers_nonce_size ! m\<rparr>
                    else map_option kt_of (aead_get_cipher_type meth))
        in case info of
             None \<Rightarrow> Inl (FATAL ''Cannot initialize cipher'')
           | Some info \<Rightarrow>
               (case choose_key sc pass ckey (replicate MAX_KEY_LENGTH 0) (supported_aead_ciphers_key_size ! m) of
                  Inl f \<Rightarrow> Inl f
                | Inr (klen, k) \<Rightarrow>
                    if klen = 0 then Inl (FATAL ''Cannot generate key and nonce'')
                    else Inr (Some \<lparr>cmethod = m, nonce_len = supported_aead_ciphers_nonce_size ! m,
                                    key_len = klen, tag_len = supported_aead_ciphers_tag_size ! m, key = k\<rparr>)))"

definition aead_init :: "bool \<Rightarrow> bytes option \<Rightarrow> bytes option \<Rightarrow> string option \<Rightarrow> fault + cipher_t option" where
  "aead_init sc pass ckey meth =
     (let m = (case meth of
                 None \<Rightarrow> AES128GCM
               | Some s \<Rightarrow>
                   (let m = find_method supported_aead_ciphers AEAD_CIPHER_NUM s AES128GCM
                    in if m \<ge> AEAD_CIPHER_NUM then CHACHA20POLY1305IETF else m))
      in aead_key_init sc (int m) pass ckey)"

section \<open>The table\<close>

definition BF_NUM_ENTRIES_FOR_CLIENT :: int where
  "BF_NUM_ENTRIES_FOR_CLIENT = 10000"

definition BF_ERROR_RATE_FOR_CLIENT :: "libc \<Rightarrow> rat" where
  "BF_ERROR_RATE_FOR_CLIENT lc = c_round lc (1 / 10 ^ 15)"

text \<open>
  The whole of \<^verbatim>\<open>crypto_init\<close>; \<open>sodium\<close> is what \<^verbatim>\<open>sodium_init\<close> returns. The check of the entropy only
  writes to the log, and the result of \<^verbatim>\<open>ppbloom_init\<close> is ignored.
\<close>

definition crypto_init ::
  "libc \<Rightarrow> cryptolib \<Rightarrow> bool \<Rightarrow> int \<Rightarrow> bytes option \<Rightarrow> bytes option \<Rightarrow> string option \<Rightarrow> crypto_state
     \<Rightarrow> fault + crypto_t option \<times> crypto_state" where
  "crypto_init lc lib sc sodium password ckey meth st =
     (if sodium = - 1 then Inl (FATAL ''Failed to initialize sodium'')
      else
        let st = st\<lparr>ppb := snd (ppbloom_init lc (ppb st) BF_NUM_ENTRIES_FOR_CLIENT (BF_ERROR_RATE_FOR_CLIENT lc))\<rparr>
        in case meth of
             None \<Rightarrow> Inr (None, st)
           | Some s \<Rightarrow>
               if find_method supported_stream_ciphers STREAM_CIPHER_NUM s 0 < STREAM_CIPHER_NUM then
                 (case stream_init sc password ckey meth of
                    Inl f \<Rightarrow> Inl f
                  | Inr None \<Rightarrow> Inr (None, st)
                  | Inr (Some c) \<Rightarrow> Inr (Some (stream_crypto lc c), st))
               else if find_method supported_aead_ciphers AEAD_CIPHER_NUM s 0 < AEAD_CIPHER_NUM then
                 (case aead_init sc password ckey meth of
                    Inl f \<Rightarrow> Inl f
                  | Inr None \<Rightarrow> Inr (None, st)
                  | Inr (Some c) \<Rightarrow> Inr (Some (aead_crypto lc lib c), st))
               else Inr (None, st))"

section \<open>What the initialisation returns\<close>

lemma find_method_name: "find_method names num s m < num \<Longrightarrow> names ! find_method names num s m = s"
proof (induction names num s m rule: find_method.induct)
  case (1 names num s m)
  then show ?case by (cases "m < num \<and> s \<noteq> names ! m") (auto simp: find_method.simps [of names num s m])
qed

lemma find_method_first: "m \<le> j \<Longrightarrow> j < num \<Longrightarrow> names ! j = s \<Longrightarrow> find_method names num s m \<le> j"
proof (induction names num s m rule: find_method.induct)
  case (1 names num s m)
  show ?case
  proof (cases "s = names ! m")
    case False
    with 1(2,4) have "m + 1 \<le> j" by (cases "m = j") auto
    moreover have "find_method names num s m = find_method names num s (m + 1)"
      using 1(2,3) False by (simp add: find_method.simps [of names num s m])
    ultimately show ?thesis using 1 False by simp
  qed (use 1(2,3) in \<open>simp add: find_method.simps [of names num "names ! m" m]\<close>)
qed

lemma find_method_iff: "num = length names \<Longrightarrow> find_method names num s 0 < num \<longleftrightarrow> s \<in> set names"
  using find_method_name [of names num s 0] find_method_first [of 0 _ num names s]
  by (metis in_set_conv_nth le0 le_less_trans)

lemma choose_key_password:
  assumes "n \<le> length k" "n \<le> MAX_KEY_LENGTH"
  shows "choose_key sc (Some p) None k n =
     Inr (n, memcpy_at k 0 (take n (concat (map (evp_D mbedtls_md5_ret p) [0..<ceil_div n md5_size]))))"
  using assms by (simp add: choose_key_def crypto_derive_key_eq md5_size_def MAX_KEY_LENGTH_def unat_of_nat)

lemma choose_key_props:
  assumes "choose_key sc pass ckey k n = Inr (n', k')" "length k = MAX_KEY_LENGTH" "n \<le> MAX_KEY_LENGTH"
  shows "n' = n \<and> length k' = MAX_KEY_LENGTH"
proof (cases ckey)
  case None
  then obtain p where "pass = Some p" using assms(1) by (cases pass) (simp_all add: choose_key_def)
  with None assms choose_key_password [of n k sc p] show ?thesis by (auto simp: length_memcpy_at)
qed (use assms in \<open>auto simp: choose_key_def crypto_parse_key_def length_memcpy_at Let_def split: option.splits if_splits\<close>)

text \<open>The cipher of a method with a key array.\<close>

definition keyed_stream :: "nat \<Rightarrow> bytes \<Rightarrow> cipher_t" where
  "keyed_stream m k = \<lparr>cmethod = m, nonce_len = supported_stream_ciphers_nonce_size ! m,
     key_len = supported_stream_ciphers_key_size ! m, tag_len = 0, key = k\<rparr>"

definition keyed_aead :: "nat \<Rightarrow> bytes \<Rightarrow> cipher_t" where
  "keyed_aead m k = \<lparr>cmethod = m, nonce_len = supported_aead_ciphers_nonce_size ! m,
     key_len = supported_aead_ciphers_key_size ! m, tag_len = supported_aead_ciphers_tag_size ! m, key = k\<rparr>"

lemma keyed_ok:
  "TABLE < m \<Longrightarrow> m < STREAM_CIPHER_NUM \<Longrightarrow> m \<notin> {13..17} \<Longrightarrow> length k = MAX_KEY_LENGTH \<Longrightarrow> stream_cipher_ok (keyed_stream m k)"
  "m' < AEAD_CIPHER_NUM \<Longrightarrow> length k = MAX_KEY_LENGTH \<Longrightarrow> cipher_ok (keyed_aead m' k)"
  by (simp_all add: stream_cipher_ok_def cipher_ok_def keyed_stream_def keyed_aead_def)

lemma stream_key_init_eq:
  assumes "TABLE < m" "m < STREAM_CIPHER_NUM"
  shows "stream_key_init sc m pass ckey =
     (if m \<in> {13..17} then Inl (FATAL ''Cannot initialize cipher'')
      else case choose_key sc pass ckey (replicate MAX_KEY_LENGTH 0) (supported_stream_ciphers_key_size ! m) of
             Inl f \<Rightarrow> Inl f
           | Inr (n, k) \<Rightarrow> Inr (Some (keyed_stream m k)))"
proof (cases "m \<in> {13..17}")
  case True
  then have "m = 13 \<or> m = 14 \<or> m = 15 \<or> m = 16 \<or> m = 17" by auto
  then have "stream_get_cipher_type m = None" "\<not> (m = SALSA20 \<or> m = CHACHA20 \<or> m = CHACHA20IETF)"
    by (elim disjE; simp add: stream_get_cipher_type_def stream_tables stream_method_defs)+
  with True assms show ?thesis by (simp add: stream_key_init_def)
next
  case False
  define c where "c = keyed_stream m (replicate MAX_KEY_LENGTH 0)"
  have c: "stream_cipher_ok c" "cmethod c = m" using keyed_ok(1) [OF assms False] by (simp_all add: c_def keyed_stream_def)
  have sz: "0 < supported_stream_ciphers_key_size ! m" "supported_stream_ciphers_key_size ! m \<le> MAX_KEY_LENGTH"
      "m = RC4_MD5 \<Longrightarrow> supported_stream_ciphers_nonce_size ! m = 16"
    using stream_method_cases [OF c(1)] c(2) by (auto simp: stream_tables MAX_KEY_LENGTH_def RC4_MD5_def)
  have info: "(if m = SALSA20 \<or> m = CHACHA20 \<or> m = CHACHA20IETF
        then Some \<lparr>kt_key_bitlen = supported_stream_ciphers_key_size ! m * 8, kt_iv_size = supported_stream_ciphers_nonce_size ! m\<rparr>
        else map_option kt_of (stream_get_cipher_type m)) =
      Some \<lparr>kt_key_bitlen = supported_stream_ciphers_key_size ! m * 8,
            kt_iv_size = (if m = RC4_MD5 then 0 else supported_stream_ciphers_nonce_size ! m)\<rparr>"
  proof (cases "sodium_method c")
    case True
    then have "m = SALSA20 \<or> m = CHACHA20 \<or> m = CHACHA20IETF"
      using stream_method_cases [OF c(1)] c(2) by (auto simp: sodium_method_def stream_method_defs)
    then show ?thesis by (auto simp: stream_method_defs)
  next
    case False
    then have "\<not> (m = SALSA20 \<or> m = CHACHA20 \<or> m = CHACHA20IETF)" using c(2) by (auto simp: sodium_method_def stream_method_defs)
    with stream_kt_props [OF c(1) False] c(2) show ?thesis by (simp add: kt_of_def c_def keyed_stream_def)
  qed
  have "n = supported_stream_ciphers_key_size ! m"
    if "choose_key sc pass ckey (replicate MAX_KEY_LENGTH 0) (supported_stream_ciphers_key_size ! m) = Inr (n, k)" for n k
    using choose_key_props [OF that _ sz(2)] by simp
  with assms False sz(1,3) show ?thesis
    by (cases "choose_key sc pass ckey (replicate MAX_KEY_LENGTH 0) (supported_stream_ciphers_key_size ! m)")
      (auto simp: stream_key_init_def info cipher_key_size_def cipher_nonce_size_def keyed_stream_def)
qed

lemma aead_key_init_eq:
  assumes "m < AEAD_CIPHER_NUM"
  shows "aead_key_init sc (int m) pass ckey =
     (case choose_key sc pass ckey (replicate MAX_KEY_LENGTH 0) (supported_aead_ciphers_key_size ! m) of
        Inl f \<Rightarrow> Inl f
      | Inr (n, k) \<Rightarrow> Inr (Some (keyed_aead m k)))"
proof -
  define c where "c = keyed_aead m (replicate MAX_KEY_LENGTH 0)"
  have c: "cipher_ok c" "cmethod c = m" "key_len c = supported_aead_ciphers_key_size ! m"
    using keyed_ok(2) [OF assms] by (simp_all add: c_def keyed_aead_def)
  have sz: "0 < supported_aead_ciphers_key_size ! m" "supported_aead_ciphers_key_size ! m \<le> MAX_KEY_LENGTH"
    using cipher_sizes(2) [OF c(1)] c(3) by (auto simp: MAX_KEY_LENGTH_def)
  obtain i where "(if CHACHA20POLY1305IETF \<le> m
        then Some \<lparr>kt_key_bitlen = supported_aead_ciphers_key_size ! m * 8, kt_iv_size = supported_aead_ciphers_nonce_size ! m\<rparr>
        else map_option kt_of (aead_get_cipher_type (int m))) = Some i"
    using gcm_info_props(1) [OF c(1)] c(2) by (cases "CHACHA20POLY1305IETF \<le> m") auto
  moreover have "n = supported_aead_ciphers_key_size ! m"
    if "choose_key sc pass ckey (replicate MAX_KEY_LENGTH 0) (supported_aead_ciphers_key_size ! m) = Inr (n, k)" for n k
    using choose_key_props [OF that _ sz(2)] by simp
  ultimately show ?thesis
    using assms sz(1)
    by (cases "choose_key sc pass ckey (replicate MAX_KEY_LENGTH 0) (supported_aead_ciphers_key_size ! m)")
      (auto simp: aead_key_init_def AES128GCM_def keyed_aead_def)
qed

lemma name_tables:
  "length supported_stream_ciphers = STREAM_CIPHER_NUM" "length supported_aead_ciphers = AEAD_CIPHER_NUM"
  "supported_stream_ciphers ! 0 = ''table''" "set supported_stream_ciphers \<inter> set supported_aead_ciphers = {}"
  by (simp_all add: supported_stream_ciphers_def supported_aead_ciphers_def STREAM_CIPHER_NUM_def AEAD_CIPHER_NUM_def)

lemmas find_method_stream = find_method_iff [OF name_tables(1) [symmetric]]
  and find_method_aead = find_method_iff [OF name_tables(2) [symmetric]]

text \<open>The state with an empty nonce filter.\<close>

definition init_state :: "libc \<Rightarrow> crypto_state \<Rightarrow> crypto_state" where
  "init_state lc st = st\<lparr>ppb := snd (ppbloom_init lc (ppb st) BF_NUM_ENTRIES_FOR_CLIENT (BF_ERROR_RATE_FOR_CLIENT lc))\<rparr>"

text \<open>The platform computes a size of the filter that can be allocated.\<close>

definition filter_fits :: "libc \<Rightarrow> bool" where
  "filter_fits lc \<longleftrightarrow> bloom_params_ok lc (c_div BF_NUM_ENTRIES_FOR_CLIENT 2) (BF_ERROR_RATE_FOR_CLIENT lc)
     \<and> 0 < snd (bloom_sizes lc (c_div BF_NUM_ENTRIES_FOR_CLIENT 2) (BF_ERROR_RATE_FOR_CLIENT lc))"

lemma init_state_props:
  assumes "filter_fits lc" "\<forall>i. buf_wf (tmps st i)"
  shows "state_wf lc (init_state lc st)" "ppbloom_check (ppb (init_state lc st)) s = 0"
  using assms ppbloom_init_wf(2) [of lc BF_NUM_ENTRIES_FOR_CLIENT "BF_ERROR_RATE_FOR_CLIENT lc" "ppb st"]
    ppbloom_init_empty [of lc BF_NUM_ENTRIES_FOR_CLIENT "BF_ERROR_RATE_FOR_CLIENT lc" "ppb st" s]
  by (simp_all add: filter_fits_def init_state_def state_wf_def)

definition UNAVAILABLE :: "string set" where
  "UNAVAILABLE = {''cast5-cfb'', ''des-cfb'', ''idea-cfb'', ''rc2-cfb'', ''seed-cfb''}"

lemma unavailable_names:
  assumes "m < STREAM_CIPHER_NUM"
  shows "m \<in> {13..17} \<longleftrightarrow> supported_stream_ciphers ! m \<in> UNAVAILABLE" "m = TABLE \<longleftrightarrow> supported_stream_ciphers ! m = ''table''"
proof -
  have "list_all (\<lambda>m. (13 \<le> m \<and> m \<le> 17 \<longleftrightarrow> supported_stream_ciphers ! m \<in> UNAVAILABLE)
     \<and> (m = TABLE \<longleftrightarrow> supported_stream_ciphers ! m = ''table'')) [0..<21]"
    unfolding UNAVAILABLE_def by code_simp
  then show "m \<in> {13..17} \<longleftrightarrow> supported_stream_ciphers ! m \<in> UNAVAILABLE" "m = TABLE \<longleftrightarrow> supported_stream_ciphers ! m = ''table''"
    using assms by (simp_all add: list_all_iff STREAM_CIPHER_NUM_def)
qed

text \<open>The result of \<^verbatim>\<open>crypto_init\<close>, by the name.\<close>

lemma crypto_init_stream:
  assumes "sodium \<noteq> - 1" "s \<in> set supported_stream_ciphers"
  shows "crypto_init lc lib sc sodium pass ckey (Some s) st =
     (if s = ''table'' then Inr (None, init_state lc st)
      else if s \<in> UNAVAILABLE then Inl (FATAL ''Cannot initialize cipher'')
      else let m = find_method supported_stream_ciphers STREAM_CIPHER_NUM s 0
           in case choose_key sc pass ckey (replicate MAX_KEY_LENGTH 0) (supported_stream_ciphers_key_size ! m) of
                Inl f \<Rightarrow> Inl f
              | Inr (n, k) \<Rightarrow> Inr (Some (stream_crypto lc (keyed_stream m k)), init_state lc st))"
proof -
  define m where "m = find_method supported_stream_ciphers STREAM_CIPHER_NUM s 0"
  have m: "m < STREAM_CIPHER_NUM" "supported_stream_ciphers ! m = s"
    using find_method_stream [of s] find_method_name [of supported_stream_ciphers STREAM_CIPHER_NUM s 0] assms(2)
    by (simp_all add: m_def)
  note n = unavailable_names [OF m(1), unfolded m(2)]
  have t: "TABLE < m" if "m \<noteq> TABLE" using that by (simp add: TABLE_def)
  have "stream_init sc pass ckey (Some s) = (if m = TABLE then Inr None else stream_key_init sc m pass ckey)"
    using m(1) by (simp add: stream_init_def m_def TABLE_def)
  then show ?thesis
    using assms(1) m(1) n stream_key_init_eq [OF t m(1), of sc pass ckey] unfolding m_def [symmetric]
    by (auto simp: crypto_init_def init_state_def [symmetric] m_def [symmetric] Let_def split: sum.splits)
qed

lemma crypto_init_aead:
  assumes "sodium \<noteq> - 1" "s \<in> set supported_aead_ciphers"
  shows "crypto_init lc lib sc sodium pass ckey (Some s) st =
     (let m = find_method supported_aead_ciphers AEAD_CIPHER_NUM s 0
      in case choose_key sc pass ckey (replicate MAX_KEY_LENGTH 0) (supported_aead_ciphers_key_size ! m) of
           Inl f \<Rightarrow> Inl f
         | Inr (n, k) \<Rightarrow> Inr (Some (aead_crypto lc lib (keyed_aead m k)), init_state lc st))"
proof -
  define m where "m = find_method supported_aead_ciphers AEAD_CIPHER_NUM s 0"
  have m: "m < AEAD_CIPHER_NUM" "supported_aead_ciphers ! m = s"
    using find_method_aead [of s] find_method_name [of supported_aead_ciphers AEAD_CIPHER_NUM s 0] assms(2)
    by (simp_all add: m_def)
  have ns: "\<not> find_method supported_stream_ciphers STREAM_CIPHER_NUM s 0 < STREAM_CIPHER_NUM"
    using find_method_stream [of s] name_tables(4) assms(2) by auto
  have "aead_init sc pass ckey (Some s) = aead_key_init sc (int m) pass ckey"
    using m(1) by (simp add: aead_init_def m_def AES128GCM_def)
  then show ?thesis
    using assms(1) m(1) ns aead_key_init_eq [OF m(1), of sc pass ckey]
    by (auto simp: crypto_init_def init_state_def [symmetric] m_def [symmetric] Let_def split: sum.splits)
qed

lemma crypto_init_unknown:
  assumes "sodium \<noteq> - 1" "s \<notin> set supported_stream_ciphers" "s \<notin> set supported_aead_ciphers"
  shows "crypto_init lc lib sc sodium pass ckey (Some s) st = Inr (None, init_state lc st)"
  using assms find_method_stream [of s] find_method_aead [of s]
  by (simp add: crypto_init_def init_state_def [symmetric] Let_def)

text \<open>Every table it returns is one of the two kinds, with a well-formed cipher of that name.\<close>

lemma crypto_init_cases:
  assumes "crypto_init lc lib sc sodium pass ckey meth st = Inr (Some cr, st')"
  obtains (stream) s m k where "meth = Some s" "cr = stream_crypto lc (keyed_stream m k)" "stream_cipher_ok (keyed_stream m k)"
      "m = find_method supported_stream_ciphers STREAM_CIPHER_NUM s 0" "supported_stream_ciphers ! m = s"
      "choose_key sc pass ckey (replicate MAX_KEY_LENGTH 0) (supported_stream_ciphers_key_size ! m) = Inr (key_len (keyed_stream m k), k)"
      "st' = init_state lc st"
  | (aead) s m k where "meth = Some s" "cr = aead_crypto lc lib (keyed_aead m k)" "cipher_ok (keyed_aead m k)"
      "m = find_method supported_aead_ciphers AEAD_CIPHER_NUM s 0" "supported_aead_ciphers ! m = s"
      "choose_key sc pass ckey (replicate MAX_KEY_LENGTH 0) (supported_aead_ciphers_key_size ! m) = Inr (key_len (keyed_aead m k), k)"
      "st' = init_state lc st"
proof -
  have sd: "sodium \<noteq> - 1" using assms by (auto simp: crypto_init_def)
  obtain s where s: "meth = Some s" using assms sd by (cases meth) (simp_all add: crypto_init_def Let_def)
  consider "s \<in> set supported_stream_ciphers" | "s \<in> set supported_aead_ciphers"
    | "s \<notin> set supported_stream_ciphers" "s \<notin> set supported_aead_ciphers" by blast
  then show thesis
  proof cases
    case 1
    define m where "m = find_method supported_stream_ciphers STREAM_CIPHER_NUM s 0"
    have m: "m < STREAM_CIPHER_NUM" "supported_stream_ciphers ! m = s"
      using find_method_stream [of s] find_method_name [of supported_stream_ciphers STREAM_CIPHER_NUM s 0] 1
      by (simp_all add: m_def)
    note e = assms [unfolded s crypto_init_stream [OF sd 1] m_def [symmetric] Let_def]
    have n: "s \<noteq> ''table''" "s \<notin> UNAVAILABLE" using e by (auto split: if_splits)
    then have ok: "TABLE < m" "m \<notin> {13..17}" using unavailable_names [OF m(1), unfolded m(2)] by (simp_all add: TABLE_def)
    obtain n' k where k: "choose_key sc pass ckey (replicate MAX_KEY_LENGTH 0) (supported_stream_ciphers_key_size ! m) = Inr (n', k)"
        "cr = stream_crypto lc (keyed_stream m k)" "st' = init_state lc st"
      using e n by (auto split: sum.splits)
    have "supported_stream_ciphers_key_size ! m \<le> MAX_KEY_LENGTH"
      using ok m(1) stream_method_cases [OF keyed_ok(1) [OF ok(1) m(1) ok(2) length_replicate]]
      by (auto simp: stream_tables MAX_KEY_LENGTH_def keyed_stream_def)
    then have "n' = key_len (keyed_stream m k)" "length k = MAX_KEY_LENGTH"
      using choose_key_props [OF k(1)] by (simp_all add: keyed_stream_def)
    then show thesis using stream [OF s k(2) keyed_ok(1) [OF ok(1) m(1) ok(2)] m_def m(2)] k by simp
  next
    case 2
    define m where "m = find_method supported_aead_ciphers AEAD_CIPHER_NUM s 0"
    have m: "m < AEAD_CIPHER_NUM" "supported_aead_ciphers ! m = s"
      using find_method_aead [of s] find_method_name [of supported_aead_ciphers AEAD_CIPHER_NUM s 0] 2
      by (simp_all add: m_def)
    note e = assms [unfolded s crypto_init_aead [OF sd 2] m_def [symmetric] Let_def]
    obtain n' k where k: "choose_key sc pass ckey (replicate MAX_KEY_LENGTH 0) (supported_aead_ciphers_key_size ! m) = Inr (n', k)"
        "cr = aead_crypto lc lib (keyed_aead m k)" "st' = init_state lc st"
      using e by (auto split: sum.splits)
    have "supported_aead_ciphers_key_size ! m \<le> MAX_KEY_LENGTH"
      using cipher_sizes(2) [OF keyed_ok(2) [OF m(1) length_replicate]] by (auto simp: keyed_aead_def MAX_KEY_LENGTH_def)
    then have "n' = key_len (keyed_aead m k)" "length k = MAX_KEY_LENGTH"
      using choose_key_props [OF k(1)] by (simp_all add: keyed_aead_def)
    then show thesis using aead [OF s k(2) keyed_ok(2) [OF m(1)] m_def m(2)] k by simp
  qed (use assms s crypto_init_unknown [OF sd] in simp)
qed

end
