(* ===== verification/SS_InitProps.thy ===== *)
theory SS_InitProps
  imports SS_CryptoInit SS_Example
begin

text \<open>
  The properties of the start-up of the ciphers: from a password, a key or a name to connections
  that deliver, and the Base64 form of a key.
\<close>

section \<open>Helper facts\<close>

text \<open>The key that a password stands for.\<close>

definition password_key :: "bytes \<Rightarrow> nat \<Rightarrow> bytes" where
  "password_key p n = take n (concat (map (evp_D mbedtls_md5_ret p) [0..<ceil_div n md5_size]))"

lemma length_password_key: "length (password_key p n) = n"
proof -
  have "length (concat (map (evp_D mbedtls_md5_ret p) [0..<ceil_div n md5_size])) = ceil_div n md5_size * md5_size"
    by (subst length_concat_map_const [where h = md5_size]) (simp_all add: length_evp_D md5_size_def)
  then show ?thesis
    using ceil_div_bounds(2) [of md5_size n] by (simp add: password_key_def md5_size_def)
qed

lemma key_sizes_fit:
  "m < STREAM_CIPHER_NUM \<Longrightarrow> supported_stream_ciphers_key_size ! m \<le> MAX_KEY_LENGTH"
  "m' < AEAD_CIPHER_NUM \<Longrightarrow> supported_aead_ciphers_key_size ! m' \<le> MAX_KEY_LENGTH"
proof -
  have "\<forall>n \<in> set supported_stream_ciphers_key_size. n \<le> MAX_KEY_LENGTH" "\<forall>n \<in> set supported_aead_ciphers_key_size. n \<le> MAX_KEY_LENGTH"
      "length supported_stream_ciphers_key_size = STREAM_CIPHER_NUM" "length supported_aead_ciphers_key_size = AEAD_CIPHER_NUM"
    by (simp_all add: stream_tables aead_tables MAX_KEY_LENGTH_def STREAM_CIPHER_NUM_def AEAD_CIPHER_NUM_def)
  then show "m < STREAM_CIPHER_NUM \<Longrightarrow> supported_stream_ciphers_key_size ! m \<le> MAX_KEY_LENGTH"
      "m' < AEAD_CIPHER_NUM \<Longrightarrow> supported_aead_ciphers_key_size ! m' \<le> MAX_KEY_LENGTH"
    by (metis nth_mem)+
qed

lemma password_choice:
  "n \<le> MAX_KEY_LENGTH \<Longrightarrow> choose_key sc (Some p) None (replicate MAX_KEY_LENGTH 0) n =
     Inr (n, memcpy_at (replicate MAX_KEY_LENGTH 0) 0 (password_key p n))"
  by (simp add: choose_key_password password_key_def)

text \<open>The choice for a method that was found by its name.\<close>

lemma password_choice_stream:
  "s \<in> set supported_stream_ciphers \<Longrightarrow> n = supported_stream_ciphers_key_size ! find_method supported_stream_ciphers STREAM_CIPHER_NUM s 0 \<Longrightarrow>
     choose_key sc (Some p) None (replicate MAX_KEY_LENGTH 0) n = Inr (n, memcpy_at (replicate MAX_KEY_LENGTH 0) 0 (password_key p n))"
  using find_method_stream [of s] by (auto intro!: password_choice key_sizes_fit)

lemma password_choice_aead:
  "s \<in> set supported_aead_ciphers \<Longrightarrow> n = supported_aead_ciphers_key_size ! find_method supported_aead_ciphers AEAD_CIPHER_NUM s 0 \<Longrightarrow>
     choose_key sc (Some p) None (replicate MAX_KEY_LENGTH 0) n = Inr (n, memcpy_at (replicate MAX_KEY_LENGTH 0) 0 (password_key p n))"
  using find_method_aead [of s] by (auto intro!: password_choice key_sizes_fit)

lemmas password_choices = password_choice_stream [OF _ refl] password_choice_aead [OF _ refl]

lemma take_password_key: "take n (memcpy_at k 0 (password_key p n)) = password_key p n"
  using take_memcpy_at_0 [of "password_key p n" k] by (simp add: length_password_key)

lemma filter_fits_ex: "filter_fits lc_ex"
proof -
  have "bloom_sizes lc_ex 5000 (1 / 10 ^ 15) = (20000, 3)" by code_simp
  then show ?thesis
    by (simp add: filter_fits_def BF_NUM_ENTRIES_FOR_CLIENT_def BF_ERROR_RATE_FOR_CLIENT_def bloom_params_ok_def c_div_def lc_ex_def)
qed

lemma tmps_ex: "\<forall>i. buf_wf (tmps state_ex i)"
  using state_ex_wf by (simp add: state_wf_def)

section \<open>Names\<close>

text \<open>C34: \<open>crypto_init\<close> with a password. It ends the process exactly for the five names of stream ciphers
  that mbed TLS does not have, returns no table for \<^verbatim>\<open>table\<close> and for unknown names, and for every
  other name the table of that family with the cipher of that name: sizes from the
  tables, the key that the password stands for, in an array of the full size. The nonce filter is
  new: well-formed and empty.\<close>

theorem crypto_init_by_name:
  assumes "sodium \<noteq> - 1" "filter_fits lc" "\<forall>i. buf_wf (tmps st i)"
  shows "case crypto_init lc lib sc sodium (Some pw) None (Some s) st of
      Inl f \<Rightarrow> s \<in> UNAVAILABLE \<and> f = FATAL ''Cannot initialize cipher''
    | Inr (None, st') \<Rightarrow> s = ''table'' \<or> s \<notin> set supported_stream_ciphers \<and> s \<notin> set supported_aead_ciphers
    | Inr (Some cr, st') \<Rightarrow>
        state_wf lc st' \<and> (\<forall>iv. ppbloom_check (ppb st') iv = 0)
        \<and> take (key_len (cr_cipher cr)) (key (cr_cipher cr)) = password_key pw (key_len (cr_cipher cr))
        \<and> (cr = stream_crypto lc (cr_cipher cr) \<and> stream_cipher_ok (cr_cipher cr) \<and> supported_stream_ciphers ! cmethod (cr_cipher cr) = s
           \<or> cr = aead_crypto lc lib (cr_cipher cr) \<and> cipher_ok (cr_cipher cr) \<and> supported_aead_ciphers ! cmethod (cr_cipher cr) = s)"
proof (cases "crypto_init lc lib sc sodium (Some pw) None (Some s) st")
  case (Inl f)
  then show ?thesis
    using crypto_init_stream [OF assms(1), of s lc lib sc "Some pw" None st] crypto_init_aead [OF assms(1), of s lc lib sc "Some pw" None st]
      crypto_init_unknown [OF assms(1), of s lc lib sc "Some pw" None st]
    by (cases "s \<in> set supported_stream_ciphers"; cases "s \<in> set supported_aead_ciphers")
      (auto simp: password_choices Let_def split: if_splits)
next
  case (Inr r)
  obtain ocr st' where r: "r = (ocr, st')" by fastforce
  show ?thesis
  proof (cases ocr)
    case None
    with Inr r show ?thesis
      using crypto_init_stream [OF assms(1), of s lc lib sc "Some pw" None st] crypto_init_aead [OF assms(1), of s lc lib sc "Some pw" None st]
      by (cases "s \<in> set supported_stream_ciphers"; cases "s \<in> set supported_aead_ciphers")
        (auto simp: password_choices Let_def split: if_splits)
  next
    case (Some cr)
    from Inr r Some have "crypto_init lc lib sc sodium (Some pw) None (Some s) st = Inr (Some cr, st')" by simp
    then show ?thesis
    proof (cases rule: crypto_init_cases)
      case (stream s' m k)
      then have "take (key_len (keyed_stream m k)) k = password_key pw (key_len (keyed_stream m k))"
        using key_sizes_fit(1) [of m] by (auto simp: stream_cipher_ok_def password_choice keyed_stream_def take_password_key)
      with Inr r Some stream init_state_props [OF assms(2,3)] show ?thesis by (simp add: keyed_stream_def)
    next
      case (aead s' m k)
      then have "take (key_len (keyed_aead m k)) k = password_key pw (key_len (keyed_aead m k))"
        using key_sizes_fit(2) [of m] by (auto simp: cipher_ok_def password_choice keyed_aead_def take_password_key)
      with Inr r Some aead init_state_props [OF assms(2,3)] show ?thesis by (simp add: keyed_aead_def aead_crypto_def)
    qed
  qed
qed

theorem crypto_init_by_name_witness:
  "\<exists>cr st'. crypto_init lc_ex lib_ex True 0 (Some [112]) None (Some ''aes-256-gcm'') state_ex = Inr (Some cr, st')
     \<and> take (key_len (cr_cipher cr)) (key (cr_cipher cr)) = password_key [112] (key_len (cr_cipher cr))"
proof -
  have "''aes-256-gcm'' \<notin> UNAVAILABLE" "''aes-256-gcm'' \<in> set supported_aead_ciphers"
    by (simp_all add: UNAVAILABLE_def supported_aead_ciphers_def)
  with crypto_init_by_name [OF _ filter_fits_ex tmps_ex, where sodium = 0 and lib = lib_ex and sc = True and pw = "[112]" and s = "''aes-256-gcm''"]
  show ?thesis by (auto split: sum.splits option.splits)
qed

section \<open>From the configuration to delivery\<close>

text \<open>C35: two ends that were configured alike understand each other. Let \<open>crypto_init\<close> with the same
  password or key and the same name succeed on two platforms, and let one end send payloads (of 1 to
  16383 bytes each) on a new connection through its table: they are encrypted, and however the network cuts what was sent,
  the other end's table delivers exactly these bytes. The total is below 256 GiB, which only the
  stream ciphers need.\<close>

theorem crypto_init_delivers:
  assumes "filter_fits lc" "\<forall>i. buf_wf (tmps st1 i)" "filter_fits lc'" "\<forall>i. buf_wf (tmps st2 i)"
    and "crypto_init lc lib sc sodium pass ckey meth st1 = Inr (Some cr, s1)"
    and "crypto_init lc' lib sc sodium' pass ckey meth st2 = Inr (Some cr', s2)"
    and "lib_ok lib (cr_cipher cr)"
    and "cr_ctx_init cr (cr_cipher cr) True s1 = Inr (ectx, s1')"
    and "cr_ctx_init cr' (cr_cipher cr') False s2 = Inr (dctx, s2')"
    and "ms \<noteq> []" "\<forall>m \<in> set ms. payload_ok m" "length (concat ms) < 2 ^ 38"
  shows "\<exists>wire ectx' s1''. crypto_send lc cr cap ectx s1' ms = Inr (CRYPTO_OK, wire, ectx', s1'')
     \<and> (\<forall>fs. concat fs = wire \<longrightarrow>
          (\<exists>dctx' s2''. crypto_recv lc' cr' cap' dctx s2' fs = Inr (CRYPTO_OK, concat ms, dctx', s2'')))"
proof -
  have sd: "sodium' \<noteq> - 1" using assms(6) by (auto simp: crypto_init_def)
  note i1 = init_state_props [OF assms(1,2)] and i2 = init_state_props [OF assms(3,4)]
  show ?thesis
    using assms(5)
  proof (cases rule: crypto_init_cases)
    case (stream s m k)
    have "s \<in> set supported_stream_ciphers"
      using stream(3,5) name_tables(1) by (auto simp: stream_cipher_ok_def keyed_stream_def)
    from crypto_init_stream [OF sd this] stream(1,4,6) assms(6)
    have c': "cr' = stream_crypto lc' (keyed_stream m k)" "s2 = init_state lc' st2"
      by (auto simp: Let_def split: if_splits)
    note law = stream_tcp_delivery_law [OF stream(3)]
    obtain sl where sl: "stream_sent (keyed_stream m k) sl [] ectx" "state_wf lc s1'"
      using tcp_crypto.init_sender [OF tcp_delivery.axioms(1) [OF law] i1(1)] assms(8) unfolding stream(2,7) by auto
    have "stream_fits (keyed_stream m k) ms" "stream_unseen (keyed_stream m k) sl (init_state lc' st2)"
      using assms(12) i2(2) by (auto simp: stream_fits_def stream_unseen_def stream_limit_def)
    then show ?thesis
      using two_sided_delivery [OF law law sl(2) i2(1) sl(1) assms(10,11)] assms(9) unfolding stream(2) c' by blast
  next
    case (aead s m k)
    have "s \<in> set supported_aead_ciphers"
      using aead(3,5) name_tables(2) by (auto simp: cipher_ok_def keyed_aead_def)
    from crypto_init_aead [OF sd this] aead(1,4,6) assms(6)
    have c': "cr' = aead_crypto lc' lib (keyed_aead m k)" "s2 = init_state lc' st2"
      by (auto simp: Let_def)
    have "lib_ok lib (keyed_aead m k)" using assms(7) aead(2) by (simp add: aead_crypto_def)
    note law = aead_tcp_delivery_law [OF aead(3) this]
    obtain sl where sl: "aead_sent lib (keyed_aead m k) sl [] ectx" "state_wf lc s1'"
      using tcp_crypto.init_sender [OF tcp_delivery.axioms(1) [OF law] i1(1)] assms(8) unfolding aead(2,7) by auto
    then show ?thesis
      using two_sided_delivery [OF law law sl(2) i2(1) sl(1) assms(10,11)] assms(9) i2(2) unfolding aead(2) c' by simp
  qed
qed

theorem crypto_init_delivers_witness:
  "\<exists>cr s1 ectx s1' dctx s2' wire ectx' s1''.
     crypto_init lc_ex lib_ex True 0 (Some [112]) None (Some ''aes-256-gcm'') state_ex = Inr (Some cr, s1)
     \<and> cr_ctx_init cr (cr_cipher cr) True s1 = Inr (ectx, s1') \<and> cr_ctx_init cr (cr_cipher cr) False s1 = Inr (dctx, s2')
     \<and> crypto_send lc_ex cr 2048 ectx s1' [[1, 2, 3], [4]] = Inr (CRYPTO_OK, wire, ectx', s1'')
     \<and> (\<forall>fs. concat fs = wire \<longrightarrow>
          (\<exists>dctx' s2''. crypto_recv lc_ex cr 2048 dctx s2' fs = Inr (CRYPTO_OK, [1, 2, 3, 4], dctx', s2'')))"
proof -
  have n: "''aes-256-gcm'' \<in> set supported_aead_ciphers" by (simp add: supported_aead_ciphers_def)
  define m where "m = find_method supported_aead_ciphers AEAD_CIPHER_NUM ''aes-256-gcm'' 0"
  define k where "k = memcpy_at (replicate MAX_KEY_LENGTH 0) 0 (password_key [112] (supported_aead_ciphers_key_size ! m))"
  have i: "crypto_init lc_ex lib_ex True 0 (Some [112]) None (Some ''aes-256-gcm'') state_ex =
      Inr (Some (aead_crypto lc_ex lib_ex (keyed_aead m k)), init_state lc_ex state_ex)"
    using crypto_init_aead [OF _ n, of 0 lc_ex lib_ex True "Some [112]" None state_ex] by (simp add: password_choices(2) [OF n] m_def k_def Let_def)
  have m: "m < AEAD_CIPHER_NUM" using find_method_aead [of "''aes-256-gcm''"] n by (simp add: m_def)
  have "supported_aead_ciphers_key_size ! m \<le> MAX_KEY_LENGTH"
    using cipher_sizes(2) [OF keyed_ok(2) [OF m length_replicate]] by (auto simp: keyed_aead_def MAX_KEY_LENGTH_def)
  then have ok: "cipher_ok (keyed_aead m k)"
    using choose_key_props [OF password_choice length_replicate, of "supported_aead_ciphers_key_size ! m"] by (intro keyed_ok(2) [OF m]) (simp add: k_def)
  let ?cr = "aead_crypto lc_ex lib_ex (keyed_aead m k)"
  note law = tcp_delivery.axioms(1) [OF aead_tcp_delivery_law [OF ok lib_ex_any, of lc_ex]] and w = init_state_props(1) [OF filter_fits_ex tmps_ex]
  obtain ectx s1' where e: "cr_ctx_init ?cr (cr_cipher ?cr) True (init_state lc_ex state_ex) = Inr (ectx, s1')"
    using tcp_crypto.init_sender [OF law w] by blast
  obtain dctx s2' where d: "cr_ctx_init ?cr (cr_cipher ?cr) False (init_state lc_ex state_ex) = Inr (dctx, s2')"
    using tcp_crypto.init_receiver [OF law w] by blast
  show ?thesis
    using i e d crypto_init_delivers [OF filter_fits_ex tmps_ex filter_fits_ex tmps_ex i i lib_ex_any e d, of "[[1, 2, 3], [4]]" 2048 2048]
    by (simp add: CHUNK_SIZE_MASK_def)
qed

section \<open>Keys in Base64\<close>

text \<open>C36: a key survives its textual form. The URL-safe Base64 text that \<open>base64_encode\<close> writes of a key
  is accepted by \<open>crypto_parse_key\<close> for a cipher with keys of that length and yields the key; in
  particular the random key that is suggested after an invalid one is valid.\<close>

theorem base64_key_roundtrip:
  assumes "0 < length k" "length k \<le> MAX_KEY_LENGTH" "length arr = MAX_KEY_LENGTH"
  shows "\<exists>out. base64_encode (BASE64_SIZE (length k)) k = Some out
     \<and> crypto_parse_key sc out arr (length k) = Inr (length k, memcpy_at arr 0 k)"
proof -
  have l: "length k < 2 ^ 30 - 1" using assms(2) by (simp add: MAX_KEY_LENGTH_def)
  obtain out where out: "base64_encode (BASE64_SIZE (length k)) k = Some out" "length k \<le> length out"
      "\<And>n. length k \<le> n \<Longrightarrow> base64_decode sc out n = Some k"
    by (rule base64_roundtrip [OF l order.refl, where sc = sc]) blast
  have "length k \<le> BASE64_SIZE (length out)" using out(2) by (simp add: BASE64_SIZE_def)
  with out assms(1) show ?thesis by (auto simp: crypto_parse_key_def)
qed

theorem base64_key_roundtrip_witness:
  "\<exists>out. base64_encode 25 (replicate 16 0xfe) = Some out
     \<and> crypto_parse_key True out (replicate 64 0) 16 = Inr (16, replicate 16 0xfe @ replicate 48 0)"
proof -
  have "BASE64_SIZE 16 = 25" by (simp add: BASE64_SIZE_def)
  then show ?thesis
    using base64_key_roundtrip [of "replicate 16 0xfe" "replicate 64 0" True]
    by (simp add: MAX_KEY_LENGTH_def memcpy_at_def)
qed

end
