(* ===== verification/SS_UdpApi.thy ===== *)
theory SS_UdpApi
  imports SS_CryptoApi SS_StreamUdp SS_AeadUdp
begin

text \<open>
  What a UDP relay relies on of the table \<^verbatim>\<open>crypto_t\<close>: the locale \<open>udp_crypto\<close> with \<open>opened\<close>, what a
  packet is opened to, as its only vocabulary. Encrypting a payload gives a packet that opens to it, and decrypting returns on every input, with the
  payload only where the packet opens. Both families of ciphers keep it.
\<close>

section \<open>The contract\<close>

locale udp_crypto =
  fixes cr :: crypto_t
    and stwf :: "crypto_state \<Rightarrow> bool"
    and opened :: "bytes \<Rightarrow> bytes option"
  assumes encrypt_packet: "stwf st \<Longrightarrow> buf_wf b \<Longrightarrow> len b \<noteq> 0 \<Longrightarrow> len b \<le> 65535 \<Longrightarrow>
          \<exists>b' st'. cr_encrypt_all cr b (cr_cipher cr) cap st = Inr (CRYPTO_OK, b', st')
            \<and> stwf st' \<and> opened (contents b') = Some (contents b)"
    and decrypt_packet: "stwf st \<Longrightarrow> buf_wf b \<Longrightarrow>
          \<exists>rc b' st'. cr_decrypt_all cr b (cr_cipher cr) cap st = Inr (rc, b', st')
            \<and> buf_wf b' \<and> capacity b \<le> capacity b' \<and> stwf st'
            \<and> (rc = CRYPTO_OK \<longrightarrow> opened (contents b) = Some (contents b'))"

section \<open>AEAD ciphers\<close>

definition aead_opened :: "cryptolib \<Rightarrow> cipher_t \<Rightarrow> bytes \<Rightarrow> bytes option" where
  "aead_opened lib c pkt =
     (if length pkt \<le> key_len c + 16 then None
      else aead_open lib c (nonce_at c 0) (subkey c (take (key_len c) pkt)) (drop (key_len c) pkt))"

lemma aead_decrypt_all_capacity:
  assumes "aead_decrypt_all lc lib b c cap st = Inr (rc, b', st')" "buf_wf b"
  shows "capacity b \<le> capacity b'"
  using assms bstore_props(4)
  by (auto simp: aead_decrypt_all_def Let_def split: option.splits if_splits sum.splits prod.splits)

lemma aead_udp_crypto:
  assumes "cipher_ok c" "lib_ok lib c"
  shows "udp_crypto (aead_crypto lc lib c) (state_wf lc) (aead_opened lib c)"
proof
  fix st b cap assume a: "state_wf lc st" "buf_wf b" "len b \<noteq> 0" "len b \<le> 65535"
  let ?s = "fst (rand_bytes lc st (key_len c))"
  obtain b' st' where e: "aead_encrypt_all lc lib b c cap st = Inr (CRYPTO_OK, b', st')"
      "contents b' = packet_wire lib c ?s (contents b)" "state_wf lc st'"
    by (rule encrypt_all_ok [OF assms a(1,2,4), where cap = cap]) blast
  have m: "length (contents b) \<le> 65535" "length (contents b) \<noteq> 0" using a by simp_all
  note sp = sealed_props [OF assms m(1), where i = 0 and s = ?s]
  have "aead_opened lib c (contents b') = Some (contents b)"
    using sp(2,3) m(2) by (simp add: aead_opened_def e(2) packet_wire_def)
  then show "\<exists>b' st'. cr_encrypt_all (aead_crypto lc lib c) b (cr_cipher (aead_crypto lc lib c)) cap st = Inr (CRYPTO_OK, b', st')
      \<and> state_wf lc st' \<and> aead_opened lib c (contents b') = Some (contents b)"
    using e by (simp add: aead_crypto_def)
next
  fix st b cap assume a: "state_wf lc st" "buf_wf b"
  have "\<exists>rc b' st'. aead_decrypt_all lc lib b c cap st = Inr (rc, b', st') \<and> buf_wf b' \<and> state_wf lc st'
      \<and> (rc = CRYPTO_OK \<longrightarrow> aead_opened lib c (contents b) = Some (contents b'))"
    using assms a by (cases rule: decrypt_all_cases [where cap = cap]) (use a in \<open>auto simp: aead_opened_def\<close>)
  with aead_decrypt_all_capacity [OF _ a(2)]
  show "\<exists>rc b' st'. cr_decrypt_all (aead_crypto lc lib c) b (cr_cipher (aead_crypto lc lib c)) cap st = Inr (rc, b', st')
      \<and> buf_wf b' \<and> capacity b \<le> capacity b' \<and> state_wf lc st'
      \<and> (rc = CRYPTO_OK \<longrightarrow> aead_opened lib c (contents b) = Some (contents b'))"
    by (fastforce simp: aead_crypto_def)
qed

interpretation chacha_udp: udp_crypto "aead_crypto lc lib (chacha_cipher k)" "state_wf lc" "aead_opened lib (chacha_cipher k)" for lc lib k
  by (rule aead_udp_crypto [OF chacha_cipher_ok])

section \<open>Stream ciphers\<close>

definition stream_opened :: "cipher_t \<Rightarrow> bytes \<Rightarrow> bytes option" where
  "stream_opened c pkt =
     (let iv = take (nonce_len c) pkt
      in if length pkt \<le> nonce_len c then None
         else Some (fst (ks_run c iv (ks_start c iv False) (drop (nonce_len c) pkt))))"

lemma stream_opened_wire:
  assumes "stream_cipher_ok c" "length iv = nonce_len c" "m \<noteq> []" "length m < stream_limit c"
  shows "stream_opened c (stream_packet_wire c iv m) = Some m"
proof -
  have wf: "ks_wf c True (ks_start c iv True)" by (rule ks_start_wf [OF assms(1,2)])
  have "fst (ks_run c iv (ks_start c iv False) (fst (ks_run c iv (ks_start c iv True) m))) = m"
    using ks_run_undo [OF assms(1) wf, of m iv] assms(4) by (simp add: ks_start_dec) (simp add: ks_start_def)
  with ks_run_props(1) [OF assms(1) wf, of iv m] assms(2,3) show ?thesis
    by (simp add: stream_opened_def stream_packet_wire_def)
qed

lemma stream_decrypt_all_capacity:
  assumes "stream_decrypt_all lc b c cap st = Inr (rc, b', st')" "buf_wf b"
  shows "capacity b \<le> capacity b'"
  using assms bstore_props(4)
  by (auto simp: stream_decrypt_all_def Let_def split: option.splits if_splits sum.splits prod.splits)

lemma stream_udp_crypto:
  assumes "stream_cipher_ok c"
  shows "udp_crypto (stream_crypto lc c) (state_wf lc) (stream_opened c)"
proof
  fix st b cap assume a: "state_wf lc st" "buf_wf b" "len b \<noteq> 0" "len b \<le> 65535"
  let ?iv = "fst (rand_bytes lc st (nonce_len c))"
  obtain b' st' where e: "stream_encrypt_all lc b c cap st = Inr (CRYPTO_OK, b', st')"
      "contents b' = stream_packet_wire c ?iv (contents b)" "state_wf lc st'"
    by (rule stream_encrypt_all_ok [OF assms a(1,2), where cap = cap]) blast
  have "length (contents b) < stream_limit c" using a by (simp add: stream_limit_def)
  moreover have "contents b \<noteq> []" using a(3) length_contents [OF a(2)] by (metis list.size(3))
  ultimately have "stream_opened c (contents b') = Some (contents b)"
    unfolding e(2) by (intro stream_opened_wire [OF assms]) simp_all
  then show "\<exists>b' st'. cr_encrypt_all (stream_crypto lc c) b (cr_cipher (stream_crypto lc c)) cap st = Inr (CRYPTO_OK, b', st')
      \<and> state_wf lc st' \<and> stream_opened c (contents b') = Some (contents b)"
    using e by (simp add: stream_crypto_def)
next
  fix st b cap assume a: "state_wf lc st" "buf_wf b"
  have "\<exists>rc b' st'. stream_decrypt_all lc b c cap st = Inr (rc, b', st') \<and> buf_wf b' \<and> state_wf lc st'
      \<and> (rc = CRYPTO_OK \<longrightarrow> stream_opened c (contents b) = Some (contents b'))"
    using assms a by (cases rule: stream_decrypt_all_cases [where cap = cap]) (use a in \<open>auto simp: stream_opened_def Let_def\<close>)
  with stream_decrypt_all_capacity [OF _ a(2)]
  show "\<exists>rc b' st'. cr_decrypt_all (stream_crypto lc c) b (cr_cipher (stream_crypto lc c)) cap st = Inr (rc, b', st')
      \<and> buf_wf b' \<and> capacity b \<le> capacity b' \<and> state_wf lc st'
      \<and> (rc = CRYPTO_OK \<longrightarrow> stream_opened c (contents b) = Some (contents b'))"
    by (fastforce simp: stream_crypto_def)
qed

interpretation salsa_udp: udp_crypto "stream_crypto lc (stream_cipher SALSA20 k)" "state_wf lc" "stream_opened (stream_cipher SALSA20 k)" for lc k
  by (rule stream_udp_crypto) (simp add: stream_cipher_is_ok stream_method_defs)

end
