(* ===== verification/SS_Udp.thy ===== *)
theory SS_Udp
  imports SS_UdpApi SS_Cache
begin

text \<open>
  The UDP relay of the client, \<^verbatim>\<open>src/udprelay.c\<close> as it is built into \<^verbatim>\<open>ss-local\<close> (\<^verbatim>\<open>MODULE_LOCAL\<close> on
  Android). Applications send SOCKS5 datagrams to one socket; for each source address the relay
  keeps an association, a socket of its own towards the shadowsocks server, in the cache of \<^verbatim>\<open>src/cache.c\<close>, which closes the least
  recently used one when it is full. The cache holds pointers, so the associations are in a store from
  addresses to \<^verbatim>\<open>remote_ctx_t\<close>; a freed one is \<open>None\<close>. Messages for the log are left out, and with them
  what only they use: the host and port of a request, and the size from which a packet is fragmented.
\<close>

section \<open>State\<close>

definition MAX_UDP_CONN_NUM :: nat where "MAX_UDP_CONN_NUM = 256"
definition PACKET_HEADER_SIZE :: int where "PACKET_HEADER_SIZE = 1 + 28 + 2 + 64"
definition DEFAULT_PACKET_SIZE :: int where "DEFAULT_PACKET_SIZE = 1397"
definition ADDRTYPE_MASK :: u8 where "ADDRTYPE_MASK = 0xF"

text \<open>A \<^verbatim>\<open>sockaddr_storage\<close> is its 128 bytes; the numbers are those of Linux.\<close>

definition SOCKADDR_STORAGE :: nat where "SOCKADDR_STORAGE = 128"
definition UDP_AF_INET :: nat where "UDP_AF_INET = 2"
definition UDP_AF_INET6 :: nat where "UDP_AF_INET6 = 10"

definition sin_family :: "bytes \<Rightarrow> nat" where
  "sin_family a = unat (a ! 0) + 256 * unat (a ! 1)"

definition sin_port :: "bytes \<Rightarrow> nat" where
  "sin_port a = unat (a ! 2) + 256 * unat (a ! 3)"

definition sin_addr :: "bytes \<Rightarrow> bytes" where
  "sin_addr a = take 4 (drop 4 a)"

definition sin6_addr :: "bytes \<Rightarrow> bytes" where
  "sin6_addr a = take 16 (drop 8 a)"

record remote_ctx =
  u_fd :: nat
  u_src_addr :: bytes
  u_af :: nat
  u_server_ctx :: bool
  u_io :: bool
  u_watcher :: bool

record udp_server =
  us_fd :: nat
  us_remote_addr :: bytes
  us_conn_cache :: "nat cache option"
  us_buf_size :: int
  us_store :: "nat \<Rightarrow> remote_ctx option"
  us_state :: crypto_state
  us_tx :: u64
  us_rx :: u64
  us_to_server :: "(nat \<times> bytes) list"
  us_to_client :: "(bytes \<times> bytes) list"

text \<open>
  What a callback takes from the system: the datagram with its source, or a failure; the results of
  \<^verbatim>\<open>socket\<close>, \<^verbatim>\<open>bind\<close>, \<^verbatim>\<open>protect_socket\<close> and \<^verbatim>\<open>sendto\<close>; the time; and the addresses that the
  allocations of a \<^verbatim>\<open>remote_ctx_t\<close> and of a cache entry return.
\<close>

record udp_env =
  ue_recv :: "(bytes \<times> bytes) option"
  ue_socket :: "nat option"
  ue_bind :: bool
  ue_protect :: bool
  ue_vpn :: bool
  ue_sendto :: bool
  ue_now :: rat
  ue_ctx_addr :: nat
  ue_entry_addr :: nat

section \<open>Addresses\<close>

definition get_sockaddr_len :: "bytes \<Rightarrow> nat" where
  "get_sockaddr_len a = (if sin_family a = UDP_AF_INET then 16 else if sin_family a = UDP_AF_INET6 then 28 else 0)"

fun memcmp :: "bytes \<Rightarrow> bytes \<Rightarrow> int" where
  "memcmp (x # xs) (y # ys) = (if x < y then - 1 else if y < x then 1 else memcmp xs ys)"
| "memcmp _ _ = 0"

definition sockaddr_cmp :: "bytes \<Rightarrow> bytes \<Rightarrow> nat \<Rightarrow> int" where
  "sockaddr_cmp a b n =
     (if sin_family a < sin_family b then - 1
      else if sin_family a > sin_family b then 1
      else if sin_family a = UDP_AF_INET then
        (if sin_port a < sin_port b then - 1
         else if sin_port a > sin_port b then 1
         else memcmp (sin_addr a) (sin_addr b))
      else if sin_family a = UDP_AF_INET6 then
        (if sin_port a < sin_port b then - 1
         else if sin_port a > sin_port b then 1
         else memcmp (sin6_addr a) (sin6_addr b))
      else memcmp (take n a) (take n b))"

text \<open>The key of an association: the family of the server's address and all bytes of the source.\<close>

definition hash_key :: "nat \<Rightarrow> bytes \<Rightarrow> bytes" where
  "hash_key af addr = memcpy_at (memcpy_at (replicate (SOCKADDR_STORAGE + 4) 0) 0 (le32 (of_nat af))) 4 addr"

text \<open>
  The header of a request or reply, read at \<open>ofs\<close> of the buffer: the number of its bytes, or 0 if it is not valid.
  \<open>blen\<close> is a \<^verbatim>\<open>size_t\<close>. The address itself goes to variables that only the log uses in this build; \<open>port\<close> is
  whether the caller asks for the port, which is read from the buffer then.
\<close>

definition parse_udprelay_header :: "bytes \<Rightarrow> nat \<Rightarrow> nat \<Rightarrow> bool \<Rightarrow> fault + nat" where
  "parse_udprelay_header buf ofs blen port =
     rd buf ofs (\<lambda>atyp.
       let finish = (\<lambda>offset. if offset = 1 then Inr 0
                       else if port then rd buf (ofs + offset + 1) (\<lambda>_. Inr (offset + 2))
                       else Inr (offset + 2))
       in if atyp AND ADDRTYPE_MASK = 1 then finish (if 4 + 3 \<le> blen then 1 + 4 else 1)
          else if atyp AND ADDRTYPE_MASK = 3 then
            rd buf (ofs + 1) (\<lambda>name_len. finish (if unat name_len + 4 \<le> blen then 1 + (1 + unat name_len) else 1))
          else if atyp AND ADDRTYPE_MASK = 4 then finish (if 16 + 3 \<le> blen then 1 + 16 else 1)
          else finish 1)"

section \<open>Associations\<close>

text \<open>\<open>Inr None\<close> is the result \<open>-1\<close>.\<close>

definition create_remote_socket :: "udp_env \<Rightarrow> fault + nat option" where
  "create_remote_socket env =
     (case ue_socket env of
        None \<Rightarrow> Inr None
      | Some fd \<Rightarrow> if ue_bind env then Inr (Some fd) else Inl (FATAL ''[udp] cannot bind remote''))"

definition udp_new_remote :: "nat \<Rightarrow> remote_ctx" where
  "udp_new_remote fd =
     \<lparr>u_fd = fd, u_src_addr = replicate SOCKADDR_STORAGE 0, u_af = 0, u_server_ctx = True, u_io = False, u_watcher = False\<rparr>"

text \<open>The watchers are stopped with it, and its descriptor is closed.\<close>

definition close_and_free_remote :: "nat \<Rightarrow> (nat \<Rightarrow> remote_ctx option) \<Rightarrow> (nat \<Rightarrow> remote_ctx option)" where
  "close_and_free_remote p store = store(p := None)"

text \<open>\<^verbatim>\<open>free_cb\<close> for each element that the cache releases.\<close>

definition free_cb :: "(bytes \<times> nat) list \<Rightarrow> (nat \<Rightarrow> remote_ctx option) \<Rightarrow> (nat \<Rightarrow> remote_ctx option)" where
  "free_cb fs store = fold (\<lambda>(k, p). close_and_free_remote p) fs store"

text \<open>An access to an association through its pointer.\<close>

definition with_remote :: "udp_server \<Rightarrow> nat \<Rightarrow> (remote_ctx \<Rightarrow> fault + 'a) \<Rightarrow> fault + 'a" where
  "with_remote s p k = (case us_store s p of None \<Rightarrow> Inl SEGV | Some r \<Rightarrow> k r)"

definition put_remote :: "nat \<Rightarrow> remote_ctx \<Rightarrow> udp_server \<Rightarrow> udp_server" where
  "put_remote p r s = s\<lparr>us_store := (us_store s)(p \<mapsto> r)\<rparr>"

definition remote_timeout_cb :: "nat \<Rightarrow> udp_server \<Rightarrow> fault + udp_server" where
  "remote_timeout_cb p s =
     with_remote s p (\<lambda>r.
       case cache_remove (us_conn_cache s) (Some (hash_key (u_af r) (u_src_addr r))) of
         (rc, fs, c) \<Rightarrow> Inr (s\<lparr>us_conn_cache := c, us_store := free_cb fs (us_store s)\<rparr>))"

text \<open>
  A new buffer of \<^verbatim>\<open>buf_size\<close> bytes with a received datagram, of which the kernel drops what does not
  fit. A negative size is a \<^verbatim>\<open>size_t\<close> that no allocation can satisfy, which ends the process.
\<close>

definition recv_packet :: "libc \<Rightarrow> udp_server \<Rightarrow> bytes \<Rightarrow> fault + buffer" where
  "recv_packet lc s bs =
     (if us_buf_size s < 0 then Inl (FATAL ''malloc'')
      else
        let b = snd (balloc lc (nat (us_buf_size s))); bs = take (nat (us_buf_size s)) bs
        in Inr (b\<lparr>data := memcpy_at (data b) 0 bs, len := length bs\<rparr>))"

section \<open>Replies\<close>

text \<open>The reply with the three bytes of the SOCKS5 header before it.\<close>

definition socks_reply :: "libc \<Rightarrow> buffer \<Rightarrow> nat \<Rightarrow> buffer" where
  "socks_reply lc b cap =
     (let b = brealloc_buf lc b (len b + 3) cap;
          d = memcpy_at (data b) 3 (take (len b) (data b))
      in b\<lparr>data := memcpy_at d 0 [0, 0, 0], len := len b + 3\<rparr>)"

definition udp_remote_recv_cb :: "libc \<Rightarrow> crypto_t \<Rightarrow> udp_env \<Rightarrow> nat \<Rightarrow> udp_server \<Rightarrow> fault + udp_server" where
  "udp_remote_recv_cb lc cr env p s =
     with_remote s p (\<lambda>r.
       if \<not> u_server_ctx r then Inr (s\<lparr>us_store := close_and_free_remote p (us_store s)\<rparr>)
       else
         case recv_packet lc s (case ue_recv env of None \<Rightarrow> [] | Some (bs, src) \<Rightarrow> bs) of
           Inl f \<Rightarrow> Inl f
         | Inr buf \<Rightarrow>
             if ue_recv env = None then Inr s
             else
               case cr_decrypt_all cr buf (cr_cipher cr) (nat (us_buf_size s)) (us_state s) of
                 Inl f \<Rightarrow> Inl f
               | Inr (rc, buf, st) \<Rightarrow>
                   let s = s\<lparr>us_state := st\<rparr>
                   in if rc \<noteq> CRYPTO_OK then Inr s
                      else
                        case parse_udprelay_header (data buf) 0 (len buf) False of
                          Inl f \<Rightarrow> Inl f
                        | Inr hlen \<Rightarrow>
                            if hlen = 0 then Inr s
                            else
                              let s = s\<lparr>us_rx := us_rx s + of_nat (len buf)\<rparr>;
                                  buf = socks_reply lc buf (nat (us_buf_size s))
                              in if ue_sendto env
                                 then Inr (put_remote p (r\<lparr>u_watcher := True\<rparr>)
                                        (s\<lparr>us_to_client := us_to_client s
                                             @ [(take (get_sockaddr_len (u_src_addr r)) (u_src_addr r), contents buf)]\<rparr>))
                                 else Inr s)"

section \<open>Requests\<close>

text \<open>The association of a source: \<open>None\<close> when there is none, or when the one found has another source.\<close>

definition find_remote :: "libc \<Rightarrow> udp_env \<Rightarrow> bytes \<Rightarrow> bytes \<Rightarrow> udp_server \<Rightarrow> fault + nat option \<times> udp_server" where
  "find_remote lc env k src s =
     (case cache_lookup lc (ue_now env) (us_conn_cache s) (Some k) True of
        Inl f \<Rightarrow> Inl f
      | Inr (rc, op, c) \<Rightarrow>
          let s = s\<lparr>us_conn_cache := c\<rparr>
          in case op of
               None \<Rightarrow> Inr (None, s)
             | Some p \<Rightarrow>
                 with_remote s p (\<lambda>r.
                   if sockaddr_cmp src (u_src_addr r) SOCKADDR_STORAGE \<noteq> 0 then Inr (None, s)
                   else Inr (Some p, put_remote p (r\<lparr>u_watcher := True\<rparr>) s)))"

text \<open>\<open>Inr (None, s)\<close> drops the packet.\<close>

definition open_remote :: "libc \<Rightarrow> udp_env \<Rightarrow> bytes \<Rightarrow> bytes \<Rightarrow> udp_server \<Rightarrow> fault + nat option \<times> udp_server" where
  "open_remote lc env k src s =
     (case create_remote_socket env of
        Inl f \<Rightarrow> Inl f
      | Inr None \<Rightarrow> Inr (None, s)
      | Inr (Some fd) \<Rightarrow>
          if ue_vpn env \<and> \<not> ue_protect env then Inr (None, s)
          else
            let p = ue_ctx_addr env;
                r = (udp_new_remote fd)\<lparr>u_src_addr := src, u_af := sin_family (us_remote_addr s)\<rparr>;
                s = put_remote p r s
            in case cache_insert lc (ue_now env) (ue_entry_addr env) (us_conn_cache s) k (Some p) of
                 Inl f \<Rightarrow> Inl f
               | Inr (rc, fs, c) \<Rightarrow>
                   let s = s\<lparr>us_conn_cache := c, us_store := free_cb fs (us_store s)\<rparr>
                   in with_remote s p (\<lambda>r. Inr (Some p, put_remote p (r\<lparr>u_io := True, u_watcher := True\<rparr>) s)))"

text \<open>The request without the first \<open>offset\<close> bytes; the length is a \<^verbatim>\<open>size_t\<close>, and moving more than the buffer holds is a fault.\<close>

definition size_sub :: "nat \<Rightarrow> nat \<Rightarrow> nat" where
  "size_sub a b = unat (of_nat a - of_nat b :: u64)"

definition strip_header :: "buffer \<Rightarrow> nat \<Rightarrow> fault + buffer" where
  "strip_header b offset =
     (let n = size_sub (len b) offset
      in if length (data b) < offset + n then Inl OOB
         else Inr (b\<lparr>len := n, data := memcpy_at (data b) 0 (take n (drop offset (data b)))\<rparr>))"

definition send_request :: "crypto_t \<Rightarrow> udp_env \<Rightarrow> buffer \<Rightarrow> nat \<Rightarrow> udp_server \<Rightarrow> fault + udp_server" where
  "send_request cr env buf p s =
     (case strip_header buf 3 of
        Inl f \<Rightarrow> Inl f
      | Inr buf \<Rightarrow>
          (case cr_encrypt_all cr buf (cr_cipher cr) (nat (us_buf_size s)) (us_state s) of
             Inl f \<Rightarrow> Inl f
           | Inr (rc, buf, st) \<Rightarrow>
               let s = s\<lparr>us_state := st\<rparr>
               in if rc \<noteq> CRYPTO_OK then Inr s
                  else with_remote s p (\<lambda>r.
                         Inr (if ue_sendto env then s\<lparr>us_to_server := us_to_server s @ [(u_fd r, contents buf)]\<rparr> else s))))"

definition udp_server_recv_cb :: "libc \<Rightarrow> crypto_t \<Rightarrow> udp_env \<Rightarrow> udp_server \<Rightarrow> fault + udp_server" where
  "udp_server_recv_cb lc cr env s =
     (case recv_packet lc s (case ue_recv env of None \<Rightarrow> [] | Some (bs, src) \<Rightarrow> bs) of
        Inl f \<Rightarrow> Inl f
      | Inr buf \<Rightarrow>
          (case ue_recv env of
             None \<Rightarrow> Inr s
           | Some (bs, src) \<Rightarrow>
               let s = s\<lparr>us_tx := us_tx s + of_nat (len buf)\<rparr>
               in rd (data buf) 2 (\<lambda>frag.
                    case parse_udprelay_header (data buf) 3 (size_sub (len buf) 3) True of
                      Inl f \<Rightarrow> Inl f
                    | Inr hlen \<Rightarrow>
                        if hlen = 0 then Inr s
                        else
                          let k = hash_key (sin_family (us_remote_addr s)) src
                          in case find_remote lc env k src s of
                               Inl f \<Rightarrow> Inl f
                             | Inr (found, s) \<Rightarrow>
                                 if frag \<noteq> 0 then Inr s
                                 else
                                   case (case found of None \<Rightarrow> open_remote lc env k src s | Some p \<Rightarrow> Inr (Some p, s)) of
                                     Inl f \<Rightarrow> Inl f
                                   | Inr (None, s) \<Rightarrow> Inr s
                                   | Inr (Some p, s) \<Rightarrow> send_request cr env buf p s)))"

section \<open>Start and end\<close>

definition udp_buf_size :: "int \<Rightarrow> int" where
  "udp_buf_size mtu = (if 0 < mtu then (mtu - PACKET_HEADER_SIZE) * 2 else DEFAULT_PACKET_SIZE * 2)"

text \<open>\<open>fd\<close> is what \<^verbatim>\<open>create_server_socket\<close> returns, \<open>st\<close> the state of the ciphers; the result of \<^verbatim>\<open>cache_create\<close> is ignored.\<close>

definition init_udprelay :: "libc \<Rightarrow> nat option \<Rightarrow> bytes \<Rightarrow> int \<Rightarrow> crypto_state \<Rightarrow> udp_server option" where
  "init_udprelay lc fd remote_addr mtu st =
     (case fd of
        None \<Rightarrow> None
      | Some fd \<Rightarrow>
          Some \<lparr>us_fd = fd, us_remote_addr = remote_addr,
                us_conn_cache = snd (cache_create lc True MAX_UDP_CONN_NUM), us_buf_size = udp_buf_size mtu,
                us_store = Map.empty, us_state = st, us_tx = 0, us_rx = 0, us_to_server = [], us_to_client = []\<rparr>)"

definition free_udprelay :: "udp_server \<Rightarrow> udp_server" where
  "free_udprelay s =
     s\<lparr>us_conn_cache := None, us_store := free_cb (snd (cache_delete (us_conn_cache s) False)) (us_store s)\<rparr>"

end
