(* ===== verification/SS_UdpInv.thy ===== *)
theory SS_UdpInv
  imports SS_Udp
begin

text \<open>
  The associations of the UDP relay: the invariant that ties the cache to the open sockets,
  and what each callback does to it. The proofs use the cache through its specification, the list of
  bindings of \<open>SS_Cache\<close>, and the ciphers through the contract \<open>udp_crypto\<close>.
\<close>

section \<open>Keys and headers\<close>

lemma hash_key_eq: "length a = SOCKADDR_STORAGE \<Longrightarrow> hash_key af a = le32 (of_nat af) @ a"
  by (simp add: hash_key_def memcpy_at_def SOCKADDR_STORAGE_def)

lemma hash_key_length: "length a = SOCKADDR_STORAGE \<Longrightarrow> length (hash_key af a) < 2 ^ 32"
  by (simp add: hash_key_eq SOCKADDR_STORAGE_def)

lemma hash_key_inj:
  "length a = SOCKADDR_STORAGE \<Longrightarrow> length b = SOCKADDR_STORAGE \<Longrightarrow> hash_key af a = hash_key af b \<longleftrightarrow> a = b"
  by (simp add: hash_key_eq)

lemma memcmp_refl: "memcmp a a = 0"
  by (induction a) simp_all

lemma sockaddr_cmp_refl: "sockaddr_cmp a a n = 0"
  by (simp add: sockaddr_cmp_def memcmp_refl)

text \<open>The headers that the protocol knows: an IPv4 address, a name or an IPv6 address, and a port.\<close>

definition udp_header :: "bytes \<Rightarrow> bool" where
  "udp_header h \<longleftrightarrow>
     (\<exists>ip port. length ip = 4 \<and> length port = 2 \<and> h = 1 # ip @ port)
   \<or> (\<exists>name port. length name < 256 \<and> length port = 2 \<and> h = 3 # of_nat (length name) # name @ port)
   \<or> (\<exists>ip port. length ip = 16 \<and> length port = 2 \<and> h = 4 # ip @ port)"

lemma parse_header_total:
  assumes "ofs + blen \<le> length d" "ofs + 1 < length d"
  obtains h where "parse_udprelay_header d ofs blen port = Inr h" "h \<noteq> 0 \<Longrightarrow> 4 \<le> h \<and> h \<le> blen"
proof -
  let ?r = "parse_udprelay_header d ofs blen port"
  have "\<exists>h. ?r = Inr h \<and> (h \<noteq> 0 \<longrightarrow> 4 \<le> h \<and> h \<le> blen)"
  proof -
    have fin: "\<exists>h. (if offset = 1 then Inr 0 else if port then rd d (ofs + offset + 1) (\<lambda>_. Inr (offset + 2)) else Inr (offset + 2)) = (Inr h :: fault + nat)
        \<and> (h \<noteq> 0 \<longrightarrow> 4 \<le> h \<and> h \<le> blen)" if "offset = 1 \<or> 2 \<le> offset \<and> offset + 2 \<le> blen" for offset
      using that assms by (cases "offset = 1") auto
    show ?thesis
      using assms by (auto simp: parse_udprelay_header_def Let_def intro!: fin)
  qed
  then show thesis using that by blast
qed

lemma parse_header_ok:
  assumes "udp_header h" "d = pre @ h @ post" "blen = length h + n"
  shows "parse_udprelay_header d (length pre) blen port = Inr (length h)"
proof -
  consider (v4) ip p where "length ip = 4" "length p = 2" "h = 1 # ip @ p"
    | (name) nm p where "length nm < 256" "length p = 2" "h = 3 # of_nat (length nm) # nm @ p"
    | (v6) ip p where "length ip = 16" "length p = 2" "h = 4 # ip @ p"
    using assms(1) by (auto simp: udp_header_def)
  then show ?thesis
  proof cases
    case v4
    then show ?thesis using assms(2,3)
      by (simp add: parse_udprelay_header_def ADDRTYPE_MASK_def nth_append)
  next
    case name
    then have "unat (of_nat (length nm) :: u8) = length nm" by (simp add: unat_of_nat)
    with name show ?thesis using assms(2,3)
      by (simp add: parse_udprelay_header_def ADDRTYPE_MASK_def nth_append)
  next
    case v6
    then show ?thesis using assms(2,3)
      by (simp add: parse_udprelay_header_def ADDRTYPE_MASK_def nth_append)
  qed
qed

section \<open>The invariant\<close>

text \<open>The key under which an association is kept, and what holds of each one.\<close>

definition remote_key :: "remote_ctx \<Rightarrow> bytes" where
  "remote_key r = hash_key (u_af r) (u_src_addr r)"

definition remote_ok :: "nat \<Rightarrow> remote_ctx \<Rightarrow> bool" where
  "remote_ok af r \<longleftrightarrow> length (u_src_addr r) = SOCKADDR_STORAGE \<and> u_af r = af \<and> u_server_ctx r \<and> u_io r \<and> u_watcher r"

text \<open>The bindings of the cache and the open associations correspond one to one; no two have the same socket.\<close>

definition assoc :: "nat \<Rightarrow> nat lru \<Rightarrow> (nat \<Rightarrow> remote_ctx option) \<Rightarrow> bool" where
  "assoc af l store \<longleftrightarrow>
     (\<forall>k d ts. (k, d, ts) \<in> set l \<longrightarrow> (\<exists>p r. d = Some p \<and> store p = Some r \<and> k = remote_key r))
   \<and> (\<forall>p r. store p = Some r \<longrightarrow> remote_ok af r \<and> (\<exists>ts. (remote_key r, Some p, ts) \<in> set l))
   \<and> (\<forall>p q r r'. store p = Some r \<longrightarrow> store q = Some r' \<longrightarrow> u_fd r = u_fd r' \<longrightarrow> p = q)"

lemma assocD:
  assumes "assoc af l store"
  shows "(k, d, ts) \<in> set l \<Longrightarrow> \<exists>p r. d = Some p \<and> store p = Some r \<and> k = remote_key r"
    and "store p = Some r \<Longrightarrow> remote_ok af r \<and> (\<exists>ts. (remote_key r, Some p, ts) \<in> set l)"
  using assms unfolding assoc_def by blast+

lemma filter_key: "distinct (map fst l) \<Longrightarrow> (k, v) \<in> set l \<Longrightarrow> filter (\<lambda>b. fst b = k) l = [(k, v)]"
  by (induction l) (auto simp: filter_empty_conv image_iff)

lemma assoc_key_unique:
  assumes "assoc af l store" "distinct (map fst l)" "store p = Some r" "store q = Some r'" "remote_key r = remote_key r'"
  shows "p = q"
proof -
  obtain ts ts' where "(remote_key r, Some p, ts) \<in> set l" "(remote_key r, Some q, ts') \<in> set l"
    using assms(1,3-5) unfolding assoc_def by metis
  with assms(2) show ?thesis using eq_key_imp_eq_value [OF assms(2)] by fastforce
qed

lemma assoc_touch:
  assumes "assoc af l store" "distinct (map fst l)"
  shows "assoc af (lru_touch now k l) store"
proof (cases "map_of l k")
  case (Some v)
  obtain d ts where v: "v = (d, ts)" by fastforce
  have kd: "(k, d, ts) \<in> set l" using Some v map_of_SomeD by fastforce
  have same: "(\<exists>t. (x, e, t) \<in> set (lru_touch now k l)) \<longleftrightarrow> (\<exists>t. (x, e, t) \<in> set l)" for x e
  proof (cases "x = k")
    case True
    have "e = d" if "(k, e, t) \<in> set l" for t using eq_key_imp_eq_value [OF assms(2) that kd] by simp
    with True kd show ?thesis by (auto simp: lru_touch_def Some v lru_remove_def)
  qed (auto simp: lru_touch_def Some v lru_remove_def)
  with assms(1) show ?thesis unfolding assoc_def by (metis (no_types, lifting))
qed (use assms in \<open>simp add: lru_touch_def\<close>)

lemma assoc_remove:
  assumes "assoc af l store" "distinct (map fst l)" "(k, Some q, ts) \<in> set l"
  shows "assoc af (lru_remove k l) (store(q := None))"
proof -
  obtain r where r: "store q = Some r" "k = remote_key r" using assms(1,3) unfolding assoc_def by blast
  have in_l: "\<exists>p r. d = Some p \<and> (store(q := None)) p = Some r \<and> x = remote_key r"
    if "(x, d, t) \<in> set (lru_remove k l)" for x d t
  proof -
    have m: "(x, d, t) \<in> set l" "x \<noteq> k" using that by (auto simp: lru_remove_def)
    obtain p r' where p: "d = Some p" "store p = Some r'" "x = remote_key r'" using assms(1) m(1) unfolding assoc_def by blast
    then have "p \<noteq> q" using r m(2) by auto
    with p show ?thesis by auto
  qed
  have in_store: "remote_ok af r' \<and> (\<exists>ts. (remote_key r', Some p, ts) \<in> set (lru_remove k l))"
    if "(store(q := None)) p = Some r'" for p r'
  proof -
    have p: "store p = Some r'" "p \<noteq> q" using that by (auto split: if_splits)
    have "remote_key r' \<noteq> k" using assoc_key_unique [OF assms(1,2) p(1) r(1)] r(2) p(2) by blast
    moreover obtain t where "remote_ok af r'" "(remote_key r', Some p, t) \<in> set l" using assms(1) p(1) unfolding assoc_def by blast
    ultimately show ?thesis by (auto simp: lru_remove_def)
  qed
  have "p = p'" if "(store(q := None)) p = Some r1" "(store(q := None)) p' = Some r2" "u_fd r1 = u_fd r2" for p p' r1 r2
  proof -
    have "store p = Some r1" "store p' = Some r2" using that(1,2) by (auto split: if_splits)
    with assms(1) that(3) show ?thesis unfolding assoc_def by blast
  qed
  with in_l in_store show ?thesis unfolding assoc_def by blast
qed

lemma assoc_insert:
  assumes "assoc af l store" "store p = None" "remote_ok af r" "\<forall>q r'. store q = Some r' \<longrightarrow> u_fd r' \<noteq> u_fd r"
  shows "assoc af (l @ [(remote_key r, Some p, now)]) (store(p \<mapsto> r))"
proof -
  let ?l = "l @ [(remote_key r, Some p, now)]" and ?store = "store(p \<mapsto> r)"
  have in_l: "\<exists>q r'. d = Some q \<and> ?store q = Some r' \<and> x = remote_key r'" if "(x, d, t) \<in> set ?l" for x d t
  proof (cases "(x, d, t) \<in> set l")
    case True
    then obtain q r' where q: "d = Some q" "store q = Some r'" "x = remote_key r'" using assms(1) unfolding assoc_def by blast
    with assms(2) have "q \<noteq> p" by auto
    with q show ?thesis by simp
  qed (use that in simp)
  have in_store: "remote_ok af r' \<and> (\<exists>ts. (remote_key r', Some q, ts) \<in> set ?l)" if "?store q = Some r'" for q r'
  proof (cases "q = p")
    case False
    then have "store q = Some r'" using that by simp
    then obtain ts where "remote_ok af r'" "(remote_key r', Some q, ts) \<in> set l" using assms(1) unfolding assoc_def by blast
    then show ?thesis by auto
  qed (use that assms(3) in auto)
  have "q = q'" if "?store q = Some r1" "?store q' = Some r2" "u_fd r1 = u_fd r2" for q q' r1 r2
  proof (cases "q = p \<or> q' = p")
    case True
    then show ?thesis using that assms(4) by (metis fun_upd_apply option.inject)
  next
    case False
    then have "store q = Some r1" "store q' = Some r2" using that(1,2) by simp_all
    with assms(1) that(3) show ?thesis unfolding assoc_def by blast
  qed
  with in_l in_store show ?thesis unfolding assoc_def by blast
qed

text \<open>A full cache gives up its oldest binding, which is not the new one.\<close>

lemma assoc_evict:
  assumes "assoc af (l @ [(k, Some p, ts)]) store" "distinct (map fst (l @ [(k, Some p, ts)]))" "2 \<le> cap"
    and "lru_evict cap (l @ [(k, Some p, ts)]) = (old, l')"
  obtains (room) "old = []" "l' = l @ [(k, Some p, ts)]"
  | (full) k0 q t where "old = [(k0, Some q, t)]" "q \<noteq> p" "assoc af l' (store(q := None))"
proof (cases "cap \<le> length (l @ [(k, Some p, ts)])")
  case True
  with assms(3) obtain k0 d t rest where l: "l = (k0, d, t) # rest" by (cases l) auto
  obtain q r where q: "d = Some q" "store q = Some r" "k0 = remote_key r" using assms(1) l by (auto dest: assocD(1) [of _ _ _ k0 d t])
  have "q \<noteq> p"
  proof
    assume "q = p"
    moreover have "\<exists>p' r'. Some p = Some p' \<and> store p' = Some r' \<and> k = remote_key r'"
      by (rule assocD(1) [OF assms(1), of k "Some p" ts]) simp
    ultimately show False using q assms(2) l by auto
  qed
  moreover have "l' = lru_remove k0 (l @ [(k, Some p, ts)])" "old = [(k0, Some q, t)]"
  proof -
    have "k0 \<notin> fst ` set rest" using assms(2) l by auto
    then have "filter (\<lambda>b. fst b \<noteq> k0) rest = rest" by (force simp: filter_id_conv)
    with assms(2,4) True l q(1) show "l' = lru_remove k0 (l @ [(k, Some p, ts)])" "old = [(k0, Some q, t)]"
      by (auto simp: lru_evict_def lru_remove_def)
  qed
  ultimately show thesis
    using full assoc_remove [OF assms(1,2), of k0 q t] l q(1) by simp
qed (use assms(4) room in \<open>simp add: lru_evict_def\<close>)

definition udp_inv :: "udp_server \<Rightarrow> bool" where
  "udp_inv s \<longleftrightarrow> (\<exists>c. us_conn_cache s = Some c \<and> cache_wf c \<and> max_entries c = MAX_UDP_CONN_NUM
     \<and> assoc (sin_family (us_remote_addr s)) (lru_of c) (us_store s))"

lemma udp_invE:
  assumes "udp_inv s"
  obtains c where "us_conn_cache s = Some c" "cache_wf c" "max_entries c = MAX_UDP_CONN_NUM"
    "assoc (sin_family (us_remote_addr s)) (lru_of c) (us_store s)" "distinct (map fst (lru_of c))" "length (lru_of c) < MAX_UDP_CONN_NUM"
proof -
  obtain c where "us_conn_cache s = Some c" "cache_wf c" "max_entries c = MAX_UDP_CONN_NUM"
      "assoc (sin_family (us_remote_addr s)) (lru_of c) (us_store s)"
    using assms unfolding udp_inv_def by blast
  then show thesis using that by (simp add: cache_wf_def MAX_UDP_CONN_NUM_def)
qed

lemma udp_inv_update [simp]:
  "udp_inv (s\<lparr>us_tx := x\<rparr>) = udp_inv s" "udp_inv (s\<lparr>us_rx := x\<rparr>) = udp_inv s" "udp_inv (s\<lparr>us_state := st\<rparr>) = udp_inv s"
  "udp_inv (s\<lparr>us_to_server := y\<rparr>) = udp_inv s" "udp_inv (s\<lparr>us_to_client := z\<rparr>) = udp_inv s"
  by (simp_all add: udp_inv_def)

text \<open>A source has at most one association.\<close>

lemma udp_inv_source:
  assumes "udp_inv s" "us_store s p = Some r" "us_store s q = Some r'" "u_src_addr r = u_src_addr r'"
  shows "p = q"
proof -
  obtain c where c: "assoc (sin_family (us_remote_addr s)) (lru_of c) (us_store s)" "distinct (map fst (lru_of c))"
    by (rule udp_invE [OF assms(1)])
  have "remote_key r = remote_key r'"
    using assms(4) assocD(2) [OF c(1) assms(2)] assocD(2) [OF c(1) assms(3)] by (simp add: remote_key_def remote_ok_def)
  then show ?thesis by (rule assoc_key_unique [OF c assms(2,3)])
qed

text \<open>Restarting the timer of an association changes nothing, as it always runs.\<close>

lemma udp_inv_remote:
  assumes "udp_inv s" "us_store s p = Some r"
  shows "remote_ok (sin_family (us_remote_addr s)) r" "put_remote p (r\<lparr>u_watcher := True\<rparr>) s = s"
proof -
  show ok: "remote_ok (sin_family (us_remote_addr s)) r" using assms unfolding udp_inv_def assoc_def by blast
  then have "r\<lparr>u_watcher := True\<rparr> = r" by (simp add: remote_ok_def)
  with assms(2) show "put_remote p (r\<lparr>u_watcher := True\<rparr>) s = s" by (simp add: put_remote_def fun_upd_idem)
qed

section \<open>Looking for an association, opening and closing one\<close>

lemma find_remote_cases:
  assumes "mem_ok lc" "udp_inv s" "length src = SOCKADDR_STORAGE"
  defines "k \<equiv> hash_key (sin_family (us_remote_addr s)) src"
  obtains (oom) "find_remote lc env k src s = Inl (FATAL ''out of memory'')"
  | (found) p r s' where "find_remote lc env k src s = Inr (Some p, s')" "us_store s p = Some r" "u_src_addr r = src"
      "udp_inv s'" "s' = s\<lparr>us_conn_cache := us_conn_cache s'\<rparr>"
  | (missing) "find_remote lc env k src s = Inr (None, s)" "\<forall>p r. us_store s p = Some r \<longrightarrow> u_src_addr r \<noteq> src"
proof -
  obtain c where c: "us_conn_cache s = Some c" "cache_wf c" "max_entries c = MAX_UDP_CONN_NUM"
      "assoc (sin_family (us_remote_addr s)) (lru_of c) (us_store s)" "distinct (map fst (lru_of c))"
    by (rule udp_invE [OF assms(2)])
  have kl: "length k < 2 ^ 32" using hash_key_length [OF assms(3)] by (simp add: k_def)
  have sim: "simulates lc c (Lookup (ue_now env) k)" using lookup_simulates [OF assms(1) c(2) kl] by blast
  show thesis
  proof (cases "cache_lookup lc (ue_now env) (Some c) (Some k) True")
    case (Inl f)
    then show thesis using sim oom by (simp add: simulates_def find_remote_def c(1))
  next
    case (Inr x)
    obtain rc d c' where x: "x = (rc, d, Some c')" "cache_wf c'" "max_entries c' = max_entries c"
        "lru_of c' = lru_touch (ue_now env) k (lru_of c)" "d = Option.bind (map_of (lru_of c) k) fst"
      using sim Inr by (cases x) (auto simp: simulates_def split: option.splits)
    let ?s = "s\<lparr>us_conn_cache := Some c'\<rparr>"
    have inv: "udp_inv ?s"
      unfolding udp_inv_def using x(2-4) c(3) assoc_touch [OF c(4,5)] by auto
    show thesis
    proof (cases "map_of (lru_of c) k")
      case None
      then have nk: "k \<notin> fst ` set (lru_of c)" by (simp add: map_of_eq_None_iff)
      have "u_src_addr r \<noteq> src" if r: "us_store s p = Some r" for p r
      proof
        assume "u_src_addr r = src"
        moreover obtain ts where "(remote_key r, Some p, ts) \<in> set (lru_of c)" "u_af r = sin_family (us_remote_addr s)"
          using c(4) r unfolding assoc_def remote_ok_def by blast
        ultimately show False using nk by (force simp: remote_key_def k_def)
      qed
      moreover have "HASH_FIND (entries c) k = None" using HASH_FIND_lru [OF c(2) kl] None by simp
      then have "find_remote lc env k src s = Inr (None, s\<lparr>us_conn_cache := us_conn_cache s\<rparr>)"
        by (simp add: find_remote_def c(1) cache_lookup_def)
      then have "find_remote lc env k src s = Inr (None, s)" by simp
      ultimately show thesis using missing by blast
    next
      case (Some v)
      then have "(k, v) \<in> set (lru_of c)" by (rule map_of_SomeD)
      then obtain p r where p: "fst v = Some p" "us_store s p = Some r" "k = remote_key r" "remote_ok (sin_family (us_remote_addr s)) r"
        using c(4) unfolding assoc_def by (metis prod.collapse)
      then have src: "u_src_addr r = src"
        using hash_key_inj [of src "u_src_addr r" "sin_family (us_remote_addr s)"] assms(3)
        by (simp add: k_def remote_key_def remote_ok_def)
      have "find_remote lc env k src s = Inr (Some p, ?s)"
        using Inr x Some p udp_inv_remote(2) [OF inv, of p r] src
        by (simp add: find_remote_def c(1) with_remote_def sockaddr_cmp_refl)
      then show thesis using found [of p ?s r] p(2) src inv by simp
    qed
  qed
qed

text \<open>
  The addresses that the allocations return are not in use, and neither is the descriptor of a new socket;
  the kernel fills in the address of the sender.
\<close>

definition MAX_UDP_PACKET_SIZE :: nat where "MAX_UDP_PACKET_SIZE = 65507"

definition udp_env_ok :: "udp_env \<Rightarrow> udp_server \<Rightarrow> bool" where
  "udp_env_ok env s \<longleftrightarrow>
     (\<forall>bs src. ue_recv env = Some (bs, src) \<longrightarrow> length src = SOCKADDR_STORAGE)
   \<and> (\<forall>bs src. ue_recv env = Some (bs, src) \<longrightarrow> length bs \<le> MAX_UDP_PACKET_SIZE)
   \<and> us_store s (ue_ctx_addr env) = None
   \<and> (\<forall>p r. us_store s p = Some r \<longrightarrow> ue_socket env \<noteq> Some (u_fd r))
   \<and> (\<forall>c. us_conn_cache s = Some c \<longrightarrow> ue_entry_addr env \<notin> el_addr ` set (HASH_ITER (entries c)))"

lemma free_cb_single [simp]: "free_cb [] store = store" "free_cb [(k, q)] store = store(q := None)"
  by (simp_all add: free_cb_def close_and_free_remote_def)

lemma open_remote_cases:
  assumes "mem_ok lc" "c_calloc lc 80" "udp_inv s" "length src = SOCKADDR_STORAGE" "\<forall>p r. us_store s p = Some r \<longrightarrow> u_src_addr r \<noteq> src"
    and "us_store s (ue_ctx_addr env) = None" "\<forall>p r. us_store s p = Some r \<longrightarrow> ue_socket env \<noteq> Some (u_fd r)"
    and "\<forall>c. us_conn_cache s = Some c \<longrightarrow> ue_entry_addr env \<notin> el_addr ` set (HASH_ITER (entries c))"
  defines "k \<equiv> hash_key (sin_family (us_remote_addr s)) src"
  obtains (fault) f where "open_remote lc env k src s = Inl f" "f = FATAL ''out of memory'' \<or> f = FATAL ''[udp] cannot bind remote'' \<and> \<not> ue_bind env"
  | (dropped) "open_remote lc env k src s = Inr (None, s)" "ue_socket env = None \<or> ue_vpn env \<and> \<not> ue_protect env"
  | (opened) fd r s' where "open_remote lc env k src s = Inr (Some (ue_ctx_addr env), s')" "ue_socket env = Some fd"
      "us_store s' (ue_ctx_addr env) = Some r" "u_src_addr r = src" "u_fd r = fd" "udp_inv s'"
      "\<forall>q. q \<noteq> ue_ctx_addr env \<longrightarrow> us_store s' q \<in> {None, us_store s q}"
      "s' = s\<lparr>us_conn_cache := us_conn_cache s', us_store := us_store s'\<rparr>"
proof -
  consider (bind) fd where "ue_socket env = Some fd" "\<not> ue_bind env"
    | (none) "ue_socket env = None \<or> (\<exists>fd. ue_socket env = Some fd \<and> ue_bind env) \<and> ue_vpn env \<and> \<not> ue_protect env"
    | (sock) fd where "ue_socket env = Some fd" "ue_bind env" "\<not> (ue_vpn env \<and> \<not> ue_protect env)"
    by (cases "ue_socket env") auto
  then show thesis
  proof cases
    case bind
    then show thesis using fault by (simp add: open_remote_def create_remote_socket_def)
  next
    case none
    then show thesis using dropped by (auto simp: open_remote_def create_remote_socket_def)
  next
    case sock
    obtain c where c: "us_conn_cache s = Some c" "cache_wf c" "max_entries c = MAX_UDP_CONN_NUM"
        "assoc (sin_family (us_remote_addr s)) (lru_of c) (us_store s)" "distinct (map fst (lru_of c))" "length (lru_of c) < MAX_UDP_CONN_NUM"
      by (rule udp_invE [OF assms(3)])
    let ?p = "ue_ctx_addr env" and ?af = "sin_family (us_remote_addr s)"
    define r0 where "r0 = (udp_new_remote fd)\<lparr>u_src_addr := src, u_af := ?af\<rparr>"
    define r1 where "r1 = r0\<lparr>u_io := True, u_watcher := True\<rparr>"
    have r1: "remote_ok ?af r1" "u_fd r1 = fd" "remote_key r1 = k" "u_src_addr r1 = src"
      using assms(4) by (simp_all add: r1_def r0_def udp_new_remote_def remote_ok_def remote_key_def k_def)
    have kl: "length k < 2 ^ 32" using hash_key_length [OF assms(4)] by (simp add: k_def)
    have nk: "map_of (lru_of c) k = None"
    proof (rule ccontr)
      assume "map_of (lru_of c) k \<noteq> None"
      then obtain v where "(k, v) \<in> set (lru_of c)" using map_of_SomeD by fastforce
      then obtain p r where "us_store s p = Some r" "k = remote_key r" "remote_ok ?af r"
        using c(4) unfolding assoc_def by (metis prod.collapse)
      with assms(4,5) show False
        using hash_key_inj [of src "u_src_addr r" ?af] by (auto simp: k_def remote_key_def remote_ok_def)
    qed
    have sim: "simulates lc c (Insert (ue_now env) (ue_entry_addr env) k (Some ?p))"
      using insert_simulates [OF assms(1) c(2) kl _ nk] assms(8) c(1) by blast
    have op: "open_remote lc env k src s = Inr (Some ?p, s\<lparr>us_conn_cache := c', us_store := store(?p \<mapsto> r1)\<rparr>)"
      if "cache_insert lc (ue_now env) (ue_entry_addr env) (Some c) k (Some ?p) = Inr (rc, fs, c')"
        "store = free_cb fs ((us_store s)(?p \<mapsto> r0))" "store ?p = Some r0" for rc fs c' store
      using sock c(1) that
      by (auto simp: open_remote_def create_remote_socket_def put_remote_def with_remote_def r0_def [symmetric] r1_def Let_def)
    have as: "assoc ?af (lru_of c @ [(k, Some ?p, ue_now env)]) ((us_store s)(?p \<mapsto> r1))"
    proof -
      have "\<forall>q r'. us_store s q = Some r' \<longrightarrow> u_fd r' \<noteq> u_fd r1" using assms(7) sock(1) r1(2) by metis
      then show ?thesis using assoc_insert [OF c(4) assms(6) r1(1)] r1(3) by simp
    qed
    have dis: "distinct (map fst (lru_of c @ [(k, Some ?p, ue_now env)]))"
      using c(5) nk by (auto simp: map_of_eq_None_iff)
    show thesis
    proof (cases "cache_insert lc (ue_now env) (ue_entry_addr env) (Some c) k (Some ?p)")
      case (Inl f)
      then have "open_remote lc env k src s = Inl f"
        using sock c(1) by (auto simp: open_remote_def create_remote_socket_def put_remote_def Let_def)
      then show thesis using fault sim Inl by (simp add: simulates_def)
    next
      case (Inr x)
      obtain rc fs c' old where x: "x = (rc, fs, Some c')" "cache_wf c'" "max_entries c' = max_entries c"
          "lru_evict (max_entries c) (lru_of c @ [(k, Some ?p, ue_now env)]) = (old, lru_of c')" "fs = lru_data old"
        using sim Inr assms(2) by (cases x) (auto simp: simulates_def split: option.splits prod.splits)
      have cap: "2 \<le> max_entries c" using c(3) by (simp add: MAX_UDP_CONN_NUM_def)
      have "\<exists>store. store = free_cb fs ((us_store s)(?p \<mapsto> r0)) \<and> store ?p = Some r0 \<and> assoc ?af (lru_of c') (store(?p \<mapsto> r1))
          \<and> (\<forall>q. q \<noteq> ?p \<longrightarrow> store q \<in> {None, us_store s q})"
      proof (rule assoc_evict [OF as dis cap x(4)])
        assume "old = []" "lru_of c' = lru_of c @ [(k, Some ?p, ue_now env)]"
        then show ?thesis using as x(5) by (simp add: lru_data_def List.map_filter_def)
      next
        fix k0 q t assume "old = [(k0, Some q, t)]" "q \<noteq> ?p" "assoc ?af (lru_of c') ((us_store s)(?p \<mapsto> r1, q := None))"
        then show ?thesis using x(5) by (simp add: lru_data_def List.map_filter_def fun_upd_twist)
      qed
      then obtain store where st: "store = free_cb fs ((us_store s)(?p \<mapsto> r0))" "store ?p = Some r0"
          "assoc ?af (lru_of c') (store(?p \<mapsto> r1))"
          "\<forall>q. q \<noteq> ?p \<longrightarrow> store q \<in> {None, us_store s q}" by blast
      let ?s = "s\<lparr>us_conn_cache := Some c', us_store := store(?p \<mapsto> r1)\<rparr>"
      have "udp_inv ?s" using st(3) x(2,3) c(3) unfolding udp_inv_def by auto
      then show thesis
        using opened [of ?s fd r1] op [OF _ st(1,2)] Inr x(1) sock(1) r1 st(4) by simp
    qed
  qed
qed

lemma remote_timeout_ok:
  assumes "udp_inv s" "us_store s p = Some r"
  obtains s' where "remote_timeout_cb p s = Inr s'" "us_store s' = (us_store s)(p := None)" "udp_inv s'"
    "s' = s\<lparr>us_conn_cache := us_conn_cache s', us_store := us_store s'\<rparr>"
proof -
  obtain c where c: "us_conn_cache s = Some c" "cache_wf c" "max_entries c = MAX_UDP_CONN_NUM"
      "assoc (sin_family (us_remote_addr s)) (lru_of c) (us_store s)" "distinct (map fst (lru_of c))"
    by (rule udp_invE [OF assms(1)])
  obtain ts where ok: "remote_ok (sin_family (us_remote_addr s)) r" "(remote_key r, Some p, ts) \<in> set (lru_of c)"
    using c(4) assms(2) unfolding assoc_def by blast
  then have kl: "length (remote_key r) < 2 ^ 32" using hash_key_length by (simp add: remote_key_def remote_ok_def)
  have "filter (\<lambda>b. fst b = remote_key r) (lru_of c) = [(remote_key r, Some p, ts)]"
    by (rule filter_key [OF c(5) ok(2)])
  then obtain c' where c': "cache_remove (Some c) (Some (remote_key r)) = (0, [(remote_key r, p)], Some c')"
      "cache_wf c'" "max_entries c' = max_entries c" "lru_of c' = lru_remove (remote_key r) (lru_of c)"
    using remove_simulates [OF c(2) kl, of lc]
    by (cases "cache_remove (Some c) (Some (remote_key r))") (auto simp: simulates_def lru_data_def List.map_filter_def split: option.splits)
  let ?s = "s\<lparr>us_conn_cache := Some c', us_store := (us_store s)(p := None)\<rparr>"
  have "remote_timeout_cb p s = Inr ?s"
    using c(1) c'(1) assms(2) by (simp add: remote_timeout_cb_def with_remote_def remote_key_def)
  moreover have "udp_inv ?s"
    using assoc_remove [OF c(4,5) ok(2)] c' c(3) unfolding udp_inv_def by auto
  ultimately show thesis using that by simp
qed

section \<open>Buffers\<close>

lemma recv_packet_ok:
  assumes "0 \<le> us_buf_size s"
  obtains b where "recv_packet lc s bs = Inr b" "buf_wf b" "contents b = take (nat (us_buf_size s)) bs"
    "len b = length (take (nat (us_buf_size s)) bs)" "capacity b = nat (us_buf_size s)"
    "data b = take (nat (us_buf_size s)) bs @ drop (length (take (nat (us_buf_size s)) bs)) (data b)"
proof -
  have "take (min (length bs) n) bs = take n bs" for n by (simp add: min_def)
  with assms that show thesis
    by (simp add: recv_packet_def balloc_def ss_malloc_def buf_wf_def contents_def memcpy_at_def Let_def)
qed

lemma size_sub_ok: "b \<le> a \<Longrightarrow> a < 2 ^ 64 \<Longrightarrow> size_sub a b = a - b"
proof -
  assume a: "b \<le> a" "a < 2 ^ 64"
  have "(of_nat a - of_nat b :: u64) = of_nat (a - b)" using a(1) by (simp add: of_nat_diff)
  then have "size_sub a b = unat (of_nat (a - b) :: u64)" by (simp only: size_sub_def)
  also have "\<dots> = a - b" unfolding unat_of_nat using a by simp
  finally show ?thesis .
qed

lemma strip_header_ok:
  assumes "buf_wf b" "n \<le> len b" "len b < 2 ^ 64"
  obtains b' where "strip_header b n = Inr b'" "buf_wf b'" "contents b' = drop n (contents b)" "len b' = len b - n"
proof -
  have s: "size_sub (len b) n = len b - n" by (rule size_sub_ok [OF assms(2,3)])
  have "take (len b - n) (drop n (data b)) = drop n (contents b)" by (simp add: contents_def drop_take)
  moreover have "length (drop n (contents b)) = len b - n" using assms(1) by simp
  ultimately show thesis
    using that assms by (auto simp: strip_header_def s Let_def buf_wf_def contents_def [of "_\<lparr>len := _, data := _\<rparr>"] memcpy_at_def)
qed

lemma socks_reply_ok:
  assumes "buf_wf b"
  shows "contents (socks_reply lc b cap) = [0, 0, 0] @ contents b"
proof -
  let ?g = "brealloc_buf lc b (len b + 3) cap"
  have g: "buf_wf ?g" "len ?g = len b" "take (len b) (data ?g) = contents b" "len b + 3 \<le> capacity ?g"
    using brealloc_buf_props [OF assms, where lc = lc and n = "len b + 3" and cap = cap] by (simp_all add: contents_def)
  have l: "length (contents b) = len b" using assms by simp
  show ?thesis
    using g l by (simp add: socks_reply_def Let_def contents_def [of "_\<lparr>data := _, len := _\<rparr>"] buf_wf_def memcpy_at_def eval_nat_numeral)
qed

section \<open>Requests and replies\<close>

text \<open>What a callback leaves as it is: the configuration and, but for what is said, what was sent.\<close>

definition udp_same :: "udp_server \<Rightarrow> udp_server \<Rightarrow> bool" where
  "udp_same s s' \<longleftrightarrow> us_remote_addr s' = us_remote_addr s \<and> us_buf_size s' = us_buf_size s"

definition only_associations :: "udp_server \<Rightarrow> udp_server \<Rightarrow> bool" where
  "only_associations s s' \<longleftrightarrow> s' = s\<lparr>us_conn_cache := us_conn_cache s', us_store := us_store s'\<rparr>"

lemma only_associationsI:
  "s' = s\<lparr>us_conn_cache := us_conn_cache s'\<rparr> \<Longrightarrow> us_store s' = us_store s \<Longrightarrow> only_associations s s'"
  "s' = s\<lparr>us_conn_cache := us_conn_cache s', us_store := us_store s'\<rparr> \<Longrightarrow> only_associations s s'"
  by (simp_all add: only_associations_def)

lemma only_associationsD:
  assumes "only_associations s s'"
  shows "us_state s' = us_state s" "us_remote_addr s' = us_remote_addr s" "us_buf_size s' = us_buf_size s"
    "us_to_server s' = us_to_server s" "us_to_client s' = us_to_client s"
  by (subst assms [unfolded only_associations_def], simp)+

text \<open>No association gets another source, and a new one has the source of the request.\<close>

definition keeps_sources :: "bytes \<Rightarrow> udp_server \<Rightarrow> udp_server \<Rightarrow> bool" where
  "keeps_sources src s s' \<longleftrightarrow> (\<forall>q r. us_store s' q = Some r \<longrightarrow> us_store s q = Some r \<or> u_src_addr r = src)"

lemma keeps_sources_refl: "us_store s' = us_store s \<Longrightarrow> keeps_sources src s s'"
  by (simp add: keeps_sources_def)

text \<open>The association of a source, if it has one.\<close>

definition only_association :: "bytes \<Rightarrow> udp_server \<Rightarrow> nat \<Rightarrow> remote_ctx \<Rightarrow> bool" where
  "only_association src s p r \<longleftrightarrow> (\<forall>q r'. us_store s q = Some r' \<longrightarrow> u_src_addr r' = src \<longrightarrow> q = p \<and> r' = r)"

text \<open>What the callback does with the result of the header, and how it gets there.\<close>

definition after_header :: "libc \<Rightarrow> crypto_t \<Rightarrow> udp_env \<Rightarrow> buffer \<Rightarrow> nat \<Rightarrow> u8 \<Rightarrow> bytes \<Rightarrow> bytes \<Rightarrow> udp_server \<Rightarrow> fault + udp_server" where
  "after_header lc cr env b h frag k src s =
     (if h = 0 then Inr s
      else case find_remote lc env k src s of
             Inl f \<Rightarrow> Inl f
           | Inr (found, s') \<Rightarrow>
               if frag \<noteq> 0 then Inr s'
               else case (case found of None \<Rightarrow> open_remote lc env k src s'
                                      | Some p \<Rightarrow> Inr (Some p, s')) of
                      Inl f \<Rightarrow> Inl f
                    | Inr (None, s) \<Rightarrow> Inr s
                    | Inr (Some p, s) \<Rightarrow> send_request cr env b p s)"

lemma parse_contents:
  assumes "buf_wf b" "contents b = pre @ hdr @ pay" "udp_header hdr"
  shows "parse_udprelay_header (data b) (length pre) (len b - length pre) port = Inr (length hdr)"
proof -
  have "data b = pre @ hdr @ pay @ drop (len b) (data b)"
    using assms(2) append_take_drop_id [of "len b" "data b"] by (simp add: contents_def)
  moreover have "len b = length pre + length hdr + length pay"
    using length_contents [OF assms(1)] unfolding assms(2) by simp
  ultimately show ?thesis
    using parse_header_ok [OF assms(3), of "data b" pre "pay @ drop (len b) (data b)" "len b - length pre" "length pay" port] by simp
qed

lemma udp_header_nonempty: "udp_header h \<Longrightarrow> length h \<noteq> 0"
  by (auto simp: udp_header_def)

lemma server_recv_header:
  assumes "recv_packet lc s bs = Inr b" "2 < length (data b)" "ue_recv env = Some (bs, src)"
    and "parse_udprelay_header (data b) 3 (size_sub (len b) 3) True = Inr h"
  shows "udp_server_recv_cb lc cr env s = after_header lc cr env b h (data b ! 2)
      (hash_key (sin_family (us_remote_addr s)) src) src (s\<lparr>us_tx := us_tx s + of_nat (len b)\<rparr>)"
  using assms by (simp add: udp_server_recv_cb_def after_header_def Let_def)

lemma server_recv_start:
  assumes "udp_env_ok env s" "5 \<le> us_buf_size s" "ue_recv env = Some (bs, src)" "3 \<le> length bs"
  obtains b h where "buf_wf b" "contents b = take (nat (us_buf_size s)) bs" "len b \<le> 65535" "h \<noteq> 0 \<longrightarrow> 3 < len b"
    "h = 0 \<longrightarrow> (\<nexists>hdr pay. udp_header hdr \<and> drop 3 (take (nat (us_buf_size s)) bs) = hdr @ pay)"
    "udp_server_recv_cb lc cr env s =
       after_header lc cr env b h (take (nat (us_buf_size s)) bs ! 2) (hash_key (sin_family (us_remote_addr s)) src) src
         (s\<lparr>us_tx := us_tx s + of_nat (len b)\<rparr>)"
proof -
  let ?n = "nat (us_buf_size s)" and ?m = "take (nat (us_buf_size s)) bs"
  obtain b where b: "recv_packet lc s bs = Inr b" "buf_wf b" "contents b = ?m" "len b = length ?m" "capacity b = ?n"
      "data b = ?m @ drop (length ?m) (data b)"
    by (rule recv_packet_ok) (use assms(2) in auto)
  have ml: "3 \<le> length ?m" "length ?m \<le> 65507" "length ?m \<le> ?n"
    using assms by (auto simp: udp_env_ok_def MAX_UDP_PACKET_SIZE_def min_def)
  have dl: "length (data b) = ?n" using b(2,5) by (simp add: buf_wf_def)
  have frag: "data b ! 2 = ?m ! 2" using ml(1) by (subst b(6)) (simp add: nth_append)
  have sz: "size_sub (len b) 3 = len b - 3" by (rule size_sub_ok) (use b(4) ml in simp_all)
  obtain h where h: "parse_udprelay_header (data b) 3 (len b - 3) True = Inr h" "h \<noteq> 0 \<Longrightarrow> 4 \<le> h \<and> h \<le> len b - 3"
    by (rule parse_header_total [of 3 "len b - 3" "data b"]) (use dl ml b(4) assms(2) in auto)
  have "\<not> (udp_header hdr \<and> drop 3 ?m = hdr @ pay)" if "h = 0" for hdr pay
  proof
    assume a: "udp_header hdr \<and> drop 3 ?m = hdr @ pay"
    then have "contents b = take 3 ?m @ hdr @ pay" using b(3) append_take_drop_id [of 3 ?m] by metis
    moreover have "length (take 3 ?m) = 3" using ml(1) by simp
    ultimately show False using parse_contents [OF b(2), of "take 3 ?m" hdr pay True] udp_header_nonempty [of hdr] a h(1) that by simp
  qed
  moreover have "udp_server_recv_cb lc cr env s = after_header lc cr env b h (data b ! 2)
      (hash_key (sin_family (us_remote_addr s)) src) src (s\<lparr>us_tx := us_tx s + of_nat (len b)\<rparr>)"
    by (rule server_recv_header [OF b(1) _ assms(3)]) (use dl assms(2) h(1) sz in simp_all)
  moreover have "3 < len b" if "h \<noteq> 0" using h(2) [OF that] by arith
  ultimately show thesis using that [of b h] b(2-4) ml(2) frag by simp
qed

context udp_crypto
begin

lemma send_request_ok:
  assumes "stwf (us_state s)" "us_store s p = Some r" "buf_wf b" "3 < len b" "len b \<le> 65535"
  obtains pkt st where "send_request cr env b p s =
      Inr (if ue_sendto env then s\<lparr>us_state := st, us_to_server := us_to_server s @ [(u_fd r, pkt)]\<rparr> else s\<lparr>us_state := st\<rparr>)"
    "stwf st" "opened pkt = Some (drop 3 (contents b))"
proof -
  obtain b1 where b1: "strip_header b 3 = Inr b1" "buf_wf b1" "contents b1 = drop 3 (contents b)" "len b1 = len b - 3"
    by (rule strip_header_ok [OF assms(3), of 3]) (use assms(4,5) in auto)
  obtain b2 st where b2: "cr_encrypt_all cr b1 (cr_cipher cr) (nat (us_buf_size s)) (us_state s) = Inr (CRYPTO_OK, b2, st)"
      "stwf st" "opened (contents b2) = Some (contents b1)"
  proof -
    have "len b1 \<noteq> 0" "len b1 \<le> 65535" using b1(4) assms(4,5) by simp_all
    from encrypt_packet [OF assms(1) b1(2) this, of "nat (us_buf_size s)"] show thesis using that by blast
  qed
  show thesis
    by (rule that [of "contents b2" st]) (use b1 b2 assms(2) in \<open>simp_all add: send_request_def with_remote_def\<close>)
qed

text \<open>
  A request of at least three bytes: it is sent on the association of its source, or dropped for one of
  the reasons that the code has.
\<close>

lemma server_recv_cases:
  assumes "mem_ok lc" "c_calloc lc 80" "udp_inv s" "stwf (us_state s)" "udp_env_ok env s" "5 \<le> us_buf_size s"
    and "ue_recv env = Some (bs, src)" "3 \<le> length bs"
  defines "m \<equiv> take (nat (us_buf_size s)) bs"
  obtains (fault) f where "udp_server_recv_cb lc cr env s = Inl f" "f = FATAL ''out of memory'' \<or> f = FATAL ''[udp] cannot bind remote'' \<and> \<not> ue_bind env"
  | (dropped) s' where "udp_server_recv_cb lc cr env s = Inr s'" "udp_inv s'" "stwf (us_state s')" "udp_same s s'"
      "us_to_server s' = us_to_server s" "us_to_client s' = us_to_client s" "keeps_sources src s s'"
      "(\<nexists>h pay. udp_header h \<and> drop 3 m = h @ pay) \<or> m ! 2 \<noteq> 0 \<or> ue_socket env = None \<or> ue_vpn env \<and> \<not> ue_protect env \<or> \<not> ue_sendto env"
  | (sent) s' p r pkt where "udp_server_recv_cb lc cr env s = Inr s'" "udp_inv s'" "stwf (us_state s')" "udp_same s s'"
      "us_store s' p = Some r" "u_src_addr r = src" "us_to_server s' = us_to_server s @ [(u_fd r, pkt)]"
      "us_to_client s' = us_to_client s" "opened pkt = Some (drop 3 m)" "keeps_sources src s s'"
      "only_association src s p r"
proof -
  let ?k = "hash_key (sin_family (us_remote_addr s)) src"
  obtain b h where b: "buf_wf b" "contents b = m" "len b \<le> 65535" "h \<noteq> 0 \<longrightarrow> 3 < len b"
      "h = 0 \<longrightarrow> (\<nexists>hdr pay. udp_header hdr \<and> drop 3 m = hdr @ pay)"
      "udp_server_recv_cb lc cr env s = after_header lc cr env b h (m ! 2) ?k src (s\<lparr>us_tx := us_tx s + of_nat (len b)\<rparr>)"
    unfolding m_def by (rule server_recv_start [OF assms(5-8), where lc = lc and cr = cr])
  define s1 where "s1 = s\<lparr>us_tx := us_tx s + of_nat (len b)\<rparr>"
  have s1: "udp_inv s1" "stwf (us_state s1)" "us_store s1 = us_store s" "us_remote_addr s1 = us_remote_addr s" "us_conn_cache s1 = us_conn_cache s"
      "udp_same s s1" "us_to_server s1 = us_to_server s" "us_to_client s1 = us_to_client s"
    using assms(3,4) by (simp_all add: s1_def udp_same_def)
  note cb = b(6) [folded s1_def s1(4), unfolded after_header_def]
  have env: "length src = SOCKADDR_STORAGE" "us_store s1 (ue_ctx_addr env) = None"
      "\<forall>p r. us_store s1 p = Some r \<longrightarrow> ue_socket env \<noteq> Some (u_fd r)"
      "\<forall>c. us_conn_cache s1 = Some c \<longrightarrow> ue_entry_addr env \<notin> el_addr ` set (HASH_ITER (entries c))"
    using assms(5,7) unfolding udp_env_ok_def s1(3,5) by blast+
  have send: thesis
    if r: "udp_server_recv_cb lc cr env s = send_request cr env b p s2" "us_store s2 p = Some r" "u_src_addr r = src" "udp_inv s2"
      "only_associations s1 s2" "keeps_sources src s s2" "only_association src s p r" and hz: "h \<noteq> 0" for p r s2
  proof -
    note e = only_associationsD [OF r(5)]
    obtain pkt st where p: "send_request cr env b p s2 =
        Inr (if ue_sendto env then s2\<lparr>us_state := st, us_to_server := us_to_server s2 @ [(u_fd r, pkt)]\<rparr> else s2\<lparr>us_state := st\<rparr>)"
        "stwf st" "opened pkt = Some (drop 3 (contents b))"
      using send_request_ok [of s2 p r b env] r(2) s1(2) e(1) b(1,3) b(4) [rule_format, OF hz] by metis
    show thesis
    proof (cases "ue_sendto env")
      case True
      then show thesis
        by (intro sent [of "s2\<lparr>us_state := st, us_to_server := us_to_server s2 @ [(u_fd r, pkt)]\<rparr>" p r pkt])
          (use r p e b(2) s1 in \<open>simp_all add: udp_same_def keeps_sources_def\<close>)
    next
      case False
      then show thesis
        by (intro dropped [of "s2\<lparr>us_state := st\<rparr>"]) (use r p e s1 in \<open>simp_all add: udp_same_def keeps_sources_def\<close>)
    qed
  qed
  show thesis
  proof (cases "h = 0")
    case True
    then show thesis using dropped [of s1] cb s1 b(5) by (simp add: keeps_sources_refl)
  next
    case h0: False
    from assms(1) s1(1) env(1) show thesis
    proof (cases rule: find_remote_cases [where env = env])
      case oom
      then show thesis using fault cb h0 by simp
    next
      case (found p r s')
      have st: "us_store s' = us_store s1" by (subst found(5)) simp
      have oa: "only_associations s1 s'" by (rule only_associationsI(1) [OF found(5) st])
      show thesis
      proof (cases "m ! 2 = 0")
        case True
        then have "udp_server_recv_cb lc cr env s = send_request cr env b p s'" using cb h0 found(1) by simp
        moreover have "us_store s' = us_store s" using st s1(3) by simp
        moreover have "only_association src s p r"
          using udp_inv_source [OF s1(1) found(2)] found(2,3) s1(3) unfolding only_association_def by (metis option.inject)
        ultimately show thesis
          using send [OF _ _ found(3,4) oa keeps_sources_refl _ h0] found(2) s1(3) by simp
      next
        case False
        then have "udp_server_recv_cb lc cr env s = Inr s'" using cb h0 found(1) by simp
        then show thesis
          by (rule dropped) (use found(4) only_associationsD [OF oa] s1 st False in \<open>simp_all add: udp_same_def keeps_sources_refl\<close>)
      qed
    next
      case missing
      show thesis
      proof (cases "m ! 2 = 0")
        case True
        from assms(1,2) s1(1) env(1) missing(2) env(2-4) show thesis
        proof (cases rule: open_remote_cases)
          case (fault f)
          then show thesis using that(1) cb h0 True missing(1) by simp
        next
          case dropped
          then show thesis using that(2) [of s1] cb h0 True missing(1) s1 keeps_sources_refl by auto
        next
          case (opened fd r s')
          then have "udp_server_recv_cb lc cr env s = send_request cr env b (ue_ctx_addr env) s'" using cb h0 True missing(1) by simp
          moreover have "only_association src s (ue_ctx_addr env) r"
            using missing(2) s1(3) by (simp add: only_association_def)
          moreover have "keeps_sources src s s'"
            using opened(3,4,7) s1(3) unfolding keeps_sources_def by (metis insertE option.distinct(1) option.inject singletonD)
          ultimately show thesis by (intro send [OF _ opened(3,4,6) only_associationsI(2) [OF opened(8)] _ _ h0])
        qed
      qed (use dropped [of s1] cb h0 missing(1) s1 in \<open>simp add: keeps_sources_refl\<close>)
    qed
  qed
qed

text \<open>
  A packet from the server on an association: what it opens to goes to the source of the association,
  or it is dropped.
\<close>

lemma remote_recv_cases:
  assumes "udp_inv s" "stwf (us_state s)" "5 \<le> us_buf_size s" "us_store s p = Some r"
  obtains (dropped) s' where "udp_remote_recv_cb lc cr env p s = Inr s'" "udp_inv s'" "stwf (us_state s')" "udp_same s s'"
      "us_store s' = us_store s" "us_to_server s' = us_to_server s" "us_to_client s' = us_to_client s"
      "\<not> ue_sendto env \<or> (\<forall>bs src. ue_recv env = Some (bs, src) \<longrightarrow>
         (\<exists>b rc b' st. recv_packet lc s bs = Inr b \<and> cr_decrypt_all cr b (cr_cipher cr) (nat (us_buf_size s)) (us_state s) = Inr (rc, b', st)
            \<and> (rc \<noteq> CRYPTO_OK \<or> (\<nexists>h pay. udp_header h \<and> contents b' = h @ pay))))"
  | (delivered) bs src m s' where "udp_remote_recv_cb lc cr env p s = Inr s'" "udp_inv s'" "stwf (us_state s')" "udp_same s s'"
      "us_store s' = us_store s" "us_to_server s' = us_to_server s"
      "ue_recv env = Some (bs, src)" "opened (take (nat (us_buf_size s)) bs) = Some m"
      "us_to_client s' = us_to_client s @ [(take (get_sockaddr_len (u_src_addr r)) (u_src_addr r), [0, 0, 0] @ m)]"
proof (cases "ue_recv env")
  case None
  obtain b where "recv_packet lc s [] = Inr b" by (rule recv_packet_ok [where bs = "[]"]) (use assms(3) in auto)
  then have "udp_remote_recv_cb lc cr env p s = Inr s"
    using None assms(4) udp_inv_remote(1) [OF assms(1,4)] by (simp add: udp_remote_recv_cb_def with_remote_def remote_ok_def)
  then show thesis using dropped [of s] assms None by (simp add: udp_same_def)
next
  case (Some x)
  obtain bs src where x: "x = (bs, src)" by fastforce
  let ?n = "nat (us_buf_size s)"
  obtain b where b: "recv_packet lc s bs = Inr b" "buf_wf b" "contents b = take ?n bs" "capacity b = ?n"
    by (rule recv_packet_ok) (use assms(3) in auto)
  obtain rc b' st where d: "cr_decrypt_all cr b (cr_cipher cr) ?n (us_state s) = Inr (rc, b', st)" "buf_wf b'" "capacity b \<le> capacity b'"
      "stwf st" "rc = CRYPTO_OK \<longrightarrow> opened (contents b) = Some (contents b')"
    using decrypt_packet [OF assms(2) b(2), of ?n] by blast
  have dl: "length (data b') = capacity b'" "len b' \<le> capacity b'" "5 \<le> capacity b'" using d(2,3) b(4) assms(3) by (auto simp: buf_wf_def)
  obtain h where h: "parse_udprelay_header (data b') 0 (len b') False = Inr h"
    by (rule parse_header_total [of 0 "len b'" "data b'"]) (use dl in auto)
  have header: "h \<noteq> 0" if "udp_header hdr" "contents b' = hdr @ pay" for hdr pay
    using parse_contents [OF d(2), of "[]" hdr pay False] udp_header_nonempty [of hdr] that h by simp
  define s1 where "s1 = s\<lparr>us_state := st\<rparr>"
  have s1: "udp_inv s1" "us_store s1 p = Some r" using assms(1,4) by (simp_all add: s1_def)
  have cb: "udp_remote_recv_cb lc cr env p s =
      (if rc \<noteq> CRYPTO_OK \<or> h = 0 then Inr s1
       else Inr (if ue_sendto env
                 then s1\<lparr>us_rx := us_rx s + of_nat (len b'), us_to_client := us_to_client s
                        @ [(take (get_sockaddr_len (u_src_addr r)) (u_src_addr r), [0, 0, 0] @ contents b')]\<rparr>
                 else s1\<lparr>us_rx := us_rx s + of_nat (len b')\<rparr>))"
  proof -
    have w: "put_remote p (r\<lparr>u_watcher := True\<rparr>) s' = s'" if "us_store s' = us_store s" "us_remote_addr s' = us_remote_addr s" "udp_inv s'" for s'
      using udp_inv_remote(2) [OF that(3), of p r] that(1) assms(4) by simp
    show ?thesis
      using assms(4) udp_inv_remote(1) [OF assms(1,4)] Some x b(1) d(1) h socks_reply_ok [OF d(2), of lc ?n] s1(1)
      by (simp add: udp_remote_recv_cb_def with_remote_def remote_ok_def s1_def w Let_def)
  qed
  show thesis
  proof (cases "rc = CRYPTO_OK \<and> h \<noteq> 0 \<and> ue_sendto env")
    case True
    then show thesis
      by (intro delivered [of "s1\<lparr>us_rx := us_rx s + of_nat (len b'), us_to_client := us_to_client s
              @ [(take (get_sockaddr_len (u_src_addr r)) (u_src_addr r), [0, 0, 0] @ contents b')]\<rparr>" bs src "contents b'"]) (use cb s1 d(4,5) b(3) Some x in \<open>auto simp: s1_def udp_same_def\<close>)
  next
    case False
    have "\<exists>s'. udp_remote_recv_cb lc cr env p s = Inr s' \<and> (s' = s1 \<or> s' = s1\<lparr>us_rx := us_rx s + of_nat (len b')\<rparr>)"
      using False cb by auto
    then obtain s' where s': "udp_remote_recv_cb lc cr env p s = Inr s'" "s' = s1 \<or> s' = s1\<lparr>us_rx := us_rx s + of_nat (len b')\<rparr>" by blast
    have "rc \<noteq> CRYPTO_OK \<or> (\<nexists>h pay. udp_header h \<and> contents b' = h @ pay)" if "ue_sendto env"
      using False header that by blast
    then show thesis
      by (intro dropped [OF s'(1)]) (use s'(2) s1 d(1,4) b(1) Some x in \<open>auto simp: s1_def udp_same_def\<close>)
  qed
qed

end

end
