(* ===== verification/SS_UdpRun.thy ===== *)
theory SS_UdpRun
  imports SS_UdpInv
begin

text \<open>
  Runs of the UDP relay: the events that libev reports to it, in any order, from the state
  of \<^verbatim>\<open>init_udprelay\<close> on. The watchers of an association are started with it and stopped before it
  is freed, so its events come only while it is open. Requests may be of any length; one of fewer
  than three bytes can make the relay move memory out of bounds, which ends the run.
\<close>

section \<open>Events\<close>

datatype udp_event = Request udp_env | Reply udp_env nat | Timeout nat

fun udp_step :: "libc \<Rightarrow> crypto_t \<Rightarrow> udp_event \<Rightarrow> udp_server \<Rightarrow> fault + udp_server" where
  "udp_step lc cr (Request env) s = udp_server_recv_cb lc cr env s"
| "udp_step lc cr (Reply env p) s = udp_remote_recv_cb lc cr env p s"
| "udp_step lc cr (Timeout p) s = remote_timeout_cb p s"

text \<open>
  What libev and the system guarantee of an event. The size of the buffers is an \<^verbatim>\<open>int\<close>; only a request
  without a header asks for that.
\<close>

fun udp_event_ok :: "udp_event \<Rightarrow> udp_server \<Rightarrow> bool" where
  "udp_event_ok (Request env) s \<longleftrightarrow> udp_env_ok env s \<and> (case ue_recv env of None \<Rightarrow> True | Some (bs, src) \<Rightarrow> 3 \<le> length bs \<or> us_buf_size s < 2 ^ 31)"
| "udp_event_ok (Reply env p) s \<longleftrightarrow> us_store s p \<noteq> None"
| "udp_event_ok (Timeout p) s \<longleftrightarrow> us_store s p \<noteq> None"

inductive udp_run :: "libc \<Rightarrow> crypto_t \<Rightarrow> udp_server \<Rightarrow> udp_event list \<Rightarrow> udp_server \<Rightarrow> bool"
  for lc cr s0 where
  start: "udp_run lc cr s0 [] s0"
| event: "udp_run lc cr s0 evs s \<Longrightarrow> udp_event_ok ev s \<Longrightarrow> udp_step lc cr ev s = Inr s' \<Longrightarrow> udp_run lc cr s0 (evs @ [ev]) s'"

text \<open>The sources that have sent a request.\<close>

fun request_source :: "udp_event \<Rightarrow> bytes option" where
  "request_source (Request env) = map_option snd (ue_recv env)"
| "request_source _ = None"

text \<open>A request of fewer than three bytes.\<close>

fun short_request :: "udp_event \<Rightarrow> bool" where
  "short_request (Request env) = (case ue_recv env of None \<Rightarrow> False | Some (bs, src) \<Rightarrow> length bs < 3)"
| "short_request _ = False"

section \<open>Start\<close>

text \<open>The sizes of the packets that the relay accepts: all but those of an MTU that leaves no room for data.\<close>

lemma udp_buf_size_ok: "mtu \<le> 0 \<or> 98 \<le> mtu \<Longrightarrow> 5 \<le> udp_buf_size mtu"
  by (auto simp: udp_buf_size_def PACKET_HEADER_SIZE_def DEFAULT_PACKET_SIZE_def)

lemma init_udprelay_ok:
  assumes "init_udprelay lc (Some fd) ra mtu st = Some s" "c_calloc lc 24"
  shows "udp_inv s" "us_state s = st" "us_buf_size s = udp_buf_size mtu" "us_store s = Map.empty"
    "us_to_server s = []" "us_to_client s = []"
proof -
  obtain c :: "nat cache" where c: "cache_create lc True MAX_UDP_CONN_NUM = (0, Some c)" "cache_wf c" "lru_of c = []" "max_entries c = MAX_UDP_CONN_NUM"
    using cache_create_wf [of lc MAX_UDP_CONN_NUM, where 'a = nat] assms(2) by (auto simp: MAX_UDP_CONN_NUM_def)
  from assms(1) show "us_state s = st" "us_buf_size s = udp_buf_size mtu" "us_store s = Map.empty" "us_to_server s = []" "us_to_client s = []"
    by (auto simp: init_udprelay_def)
  from assms(1) c show "udp_inv s"
    by (auto simp: init_udprelay_def udp_inv_def assoc_def)
qed

section \<open>Requests without a header\<close>

text \<open>
  A datagram of fewer than three bytes. The byte of the fragment is then one that \<^verbatim>\<open>malloc\<close> left in the
  buffer, the length after the subtraction of three is close to \<^term>\<open>(2::nat) ^ 64\<close>, and a header is read from what is in the buffer.
\<close>

lemma size_sub_wraps: "n < 3 \<Longrightarrow> size_sub n 3 = 2 ^ 64 - 3 + n"
proof -
  assume "n < 3"
  then consider "n = 0" | "n = 1" | "n = 2" by linarith
  then show ?thesis
  proof cases
    case 3
    then show ?thesis by (simp add: size_sub_def unsigned_minus_1_eq_mask mask_eq_exp_minus_1)
  qed (simp_all add: size_sub_def)
qed

lemma recv_packet_junk:
  assumes "recv_packet lc s bs = Inr b" "length bs \<le> i" "i < nat (us_buf_size s)"
  shows "data b ! i = c_junk lc i"
  using assms by (auto simp: recv_packet_def balloc_def ss_malloc_def memcpy_at_def nth_append fresh_def Let_def split: if_splits)

lemma short_datagram_faults:
  assumes "recv_packet lc s bs = Inr b" "length bs < 3" "5 \<le> us_buf_size s" "us_buf_size s < 2 ^ 31"
  shows "strip_header b 3 = Inl OOB"
proof -
  obtain b' where "recv_packet lc s bs = Inr b'" "len b' = length (take (nat (us_buf_size s)) bs)" "buf_wf b'" "capacity b' = nat (us_buf_size s)"
    by (rule recv_packet_ok) (use assms(3) in auto)
  with assms(1) have b: "len b \<le> length bs" "length (data b) = nat (us_buf_size s)" by (auto simp: buf_wf_def)
  have "2 ^ 64 - 3 \<le> size_sub (len b) 3" using size_sub_wraps [of "len b"] b(1) assms(2) by simp
  with b(2) assms(4) show ?thesis by (simp add: strip_header_def Let_def)
qed

text \<open>What such a request does: it is dropped, or its callback ends with one of the faults.\<close>

lemma parse_header_fault: "parse_udprelay_header buf ofs n port = Inl f \<Longrightarrow> f = OOB"
  by (auto simp: parse_udprelay_header_def rd_def Let_def split: if_splits)

lemma short_request_cases:
  assumes "mem_ok lc" "c_calloc lc 80" "udp_inv s" "udp_env_ok env s" "5 \<le> us_buf_size s" "us_buf_size s < 2 ^ 31"
    and "ue_recv env = Some (bs, src)" "length bs < 3"
  obtains (fault) f where "udp_server_recv_cb lc cr env s = Inl f" "f = FATAL ''out of memory'' \<or> f = FATAL ''[udp] cannot bind remote'' \<or> f = OOB"
  | (dropped) s' where "udp_server_recv_cb lc cr env s = Inr s'" "udp_inv s'" "us_state s' = us_state s" "udp_same s s'" "keeps_sources src s s'"
proof -
  obtain b where b: "recv_packet lc s bs = Inr b" "buf_wf b" "capacity b = nat (us_buf_size s)"
    by (rule recv_packet_ok) (use assms(5) in auto)
  then have l: "2 < length (data b)" using assms(5) by (simp add: buf_wf_def)
  define s1 where "s1 = s\<lparr>us_tx := us_tx s + of_nat (len b)\<rparr>"
  have s1: "udp_inv s1" "us_store s1 = us_store s" "us_remote_addr s1 = us_remote_addr s" "us_conn_cache s1 = us_conn_cache s"
      "us_state s1 = us_state s" "udp_same s s1"
    using assms(3) by (simp_all add: s1_def udp_same_def)
  have oob: "send_request cr env b p t = Inl OOB" for p t
    using short_datagram_faults [OF b(1) assms(8,5,6)] by (simp add: send_request_def)
  have env: "length src = SOCKADDR_STORAGE" "us_store s1 (ue_ctx_addr env) = None"
      "\<forall>p r. us_store s1 p = Some r \<longrightarrow> ue_socket env \<noteq> Some (u_fd r)"
      "\<forall>c. us_conn_cache s1 = Some c \<longrightarrow> ue_entry_addr env \<notin> el_addr ` set (HASH_ITER (entries c))"
    using assms(4,7) unfolding udp_env_ok_def s1(2,4) by blast+
  show thesis
  proof (cases "parse_udprelay_header (data b) 3 (size_sub (len b) 3) True")
    case (Inl f)
    then have "udp_server_recv_cb lc cr env s = Inl f"
      using b(1) l assms(7) by (simp add: udp_server_recv_cb_def Let_def)
    then show thesis using fault parse_header_fault [OF Inl] by blast
  next
    case (Inr h)
    note cb = server_recv_header [OF b(1) l assms(7) Inr, where cr = cr, folded s1_def s1(3), unfolded after_header_def]
    show thesis
    proof (cases "h = 0")
      case True
      then show thesis using dropped [of s1] cb s1 by (simp add: keeps_sources_refl)
    next
      case False
      from assms(1) s1(1) env(1) show thesis
      proof (cases rule: find_remote_cases [where env = env])
        case oom
        then show thesis using fault cb False by simp
      next
        case (found p r s')
        have st: "us_store s' = us_store s1" by (subst found(5)) simp
        note oa = only_associationsD [OF only_associationsI(1) [OF found(5) st]]
        show thesis
          by (cases "data b ! 2 = 0")
            (use fault [of OOB] dropped [of s'] cb False found(1,4) oa s1 st oob in \<open>simp_all add: udp_same_def keeps_sources_refl\<close>)
      next
        case missing
        from assms(1,2) s1(1) env(1) missing(2) env(2-4) show thesis
          by (cases rule: open_remote_cases)
            (use fault dropped [of s1] cb False missing(1) oob s1 keeps_sources_refl [of s1 s] in \<open>auto split: if_splits\<close>)
      qed
    qed
  qed
qed

section \<open>Every run keeps the invariant\<close>

context udp_crypto
begin

text \<open>One event: the process ends for want of memory or of a port, a request was too short, or the invariant is kept.\<close>

lemma udp_step_ok:
  assumes "mem_ok lc" "c_calloc lc 80" "udp_inv s" "stwf (us_state s)" "5 \<le> us_buf_size s" "udp_event_ok ev s"
  obtains (fault) f where "udp_step lc cr ev s = Inl f" "f = FATAL ''out of memory'' \<or> f = FATAL ''[udp] cannot bind remote'' \<or> f = OOB \<and> short_request ev"
  | (returned) s' where "udp_step lc cr ev s = Inr s'" "udp_inv s'" "stwf (us_state s')" "udp_same s s'"
      "\<forall>q r. us_store s' q = Some r \<longrightarrow> us_store s q = Some r \<or> request_source ev = Some (u_src_addr r)"
proof (cases ev)
  case (Request env)
  show thesis
  proof (cases "ue_recv env")
    case None
    obtain b where "recv_packet lc s [] = Inr b" by (rule recv_packet_ok [where bs = "[]"]) (use assms(5) in auto)
    then have "udp_step lc cr ev s = Inr s" using Request None by (simp add: udp_server_recv_cb_def)
    then show thesis using returned [of s] assms(3,4) by (simp add: udp_same_def)
  next
    case (Some x)
    obtain bs src where x: "ue_recv env = Some (bs, src)" using Some by (cases x) simp
    have src: "\<forall>q r. us_store s' q = Some r \<longrightarrow> us_store s q = Some r \<or> request_source ev = Some (u_src_addr r)"
      if "keeps_sources src s s'" for s'
      using that Request x unfolding keeps_sources_def by fastforce
    have env: "udp_env_ok env s" "3 \<le> length bs \<or> us_buf_size s < 2 ^ 31" using assms(6) Request x by simp_all
    show thesis
    proof (cases "3 \<le> length bs")
      case True
      from assms(1-4) env(1) assms(5) x True show thesis
      proof (cases rule: server_recv_cases)
        case (fault f)
        then show thesis using that(1) Request by auto
      next
        case (dropped s')
        then show thesis using returned [of s'] src Request by simp
      next
        case (sent s' p r pkt)
        then show thesis using returned [of s'] src Request by simp
      qed
    next
      case False
      then have short: "length bs < 3" "short_request ev" "us_buf_size s < 2 ^ 31" using env(2) Request x by simp_all
      from assms(1-3) env(1) assms(5) short(3) x short(1) show thesis
      proof (cases rule: short_request_cases [where cr = cr])
        case (fault f)
        then show thesis using that(1) Request short(2) by auto
      next
        case (dropped s')
        then show thesis using returned [of s'] src Request assms(4) by simp
      qed
    qed
  qed
next
  case (Reply env p)
  then obtain r where r: "us_store s p = Some r" using assms(6) by auto
  from assms(3-5) r show thesis
    by (cases rule: remote_recv_cases [where lc = lc and env = env]) (use Reply returned in auto)
next
  case (Timeout p)
  then obtain r where r: "us_store s p = Some r" using assms(6) by auto
  obtain s' where s': "remote_timeout_cb p s = Inr s'" "us_store s' = (us_store s)(p := None)" "udp_inv s'"
      "s' = s\<lparr>us_conn_cache := us_conn_cache s', us_store := us_store s'\<rparr>"
    by (rule remote_timeout_ok [OF assms(3) r])
  have "only_associations s s'" by (rule only_associationsI(2) [OF s'(4)])
  from only_associationsD [OF this] s' assms(4) Timeout show thesis
    by (intro returned [of s']) (auto simp: udp_same_def split: if_splits)
qed

lemma udp_run_ok:
  assumes "udp_run lc cr s0 evs s" "mem_ok lc" "c_calloc lc 80" "udp_inv s0" "stwf (us_state s0)" "5 \<le> us_buf_size s0" "us_store s0 = Map.empty"
  shows "udp_inv s \<and> stwf (us_state s) \<and> udp_same s0 s \<and> (\<forall>p r. us_store s p = Some r \<longrightarrow> Some (u_src_addr r) \<in> request_source ` set evs)"
  using assms(1)
proof induction
  case start
  then show ?case using assms by (simp add: udp_same_def)
next
  case (event evs s ev s')
  then have "udp_inv s" "stwf (us_state s)" "5 \<le> us_buf_size s" using assms(6) by (simp_all add: udp_same_def)
  from assms(2,3) this event.hyps(2) show ?case
  proof (cases rule: udp_step_ok)
    case (returned s'')
    then have "s'' = s'" using event.hyps(3) by simp
    with returned event.IH show ?thesis by (fastforce simp: udp_same_def)
  qed (use event.hyps(3) in simp)
qed

end

end
