(* ===== verification/SS_UdpProps.thy ===== *)
theory SS_UdpProps
  imports SS_UdpRun SS_NetProps SS_StreamProps
begin

text \<open>
  The properties of the UDP relay, for every cipher of both families, with the witnesses that
  apply them to the cipher \<^verbatim>\<open>salsa20\<close>.
\<close>

section \<open>The relay that is started\<close>

text \<open>A table of operations of one of the two families, and what it opens a packet to.\<close>

definition udp_ciphers :: "libc \<Rightarrow> crypto_t \<Rightarrow> (bytes \<Rightarrow> bytes option) \<Rightarrow> bool" where
  "udp_ciphers lc cr opened \<longleftrightarrow>
     (\<exists>lib c. cr = aead_crypto lc lib c \<and> cipher_ok c \<and> lib_ok lib c \<and> opened = aead_opened lib c)
   \<or> (\<exists>c. cr = stream_crypto lc c \<and> stream_cipher_ok c \<and> opened = stream_opened c)"

lemma udp_ciphers_crypto: "udp_ciphers lc cr opened \<Longrightarrow> udp_crypto cr (state_wf lc) opened"
  unfolding udp_ciphers_def using aead_udp_crypto stream_udp_crypto by blast

text \<open>A state from \<^verbatim>\<open>init_udprelay\<close>, where an MTU that is given leaves room for a packet.\<close>

definition udp_started :: "libc \<Rightarrow> udp_server \<Rightarrow> bool" where
  "udp_started lc s \<longleftrightarrow> mem_ok lc \<and> c_calloc lc 24 \<and> c_calloc lc 80
     \<and> (\<exists>fd ra mtu st. init_udprelay lc (Some fd) ra mtu st = Some s \<and> state_wf lc st \<and> (mtu \<le> 0 \<or> 98 \<le> mtu))"

lemma udp_started_ok:
  assumes "udp_started lc s0" "udp_ciphers lc cr opened" "udp_run lc cr s0 evs s"
  shows "mem_ok lc" "c_calloc lc 80" "udp_inv s" "state_wf lc (us_state s)" "5 \<le> us_buf_size s" "us_buf_size s = us_buf_size s0"
    "us_store s p = Some r \<Longrightarrow> Some (u_src_addr r) \<in> request_source ` set evs"
proof -
  obtain fd ra mtu st where i: "init_udprelay lc (Some fd) ra mtu st = Some s0" "state_wf lc st" "mtu \<le> 0 \<or> 98 \<le> mtu"
    and m: "mem_ok lc" "c_calloc lc 24" "c_calloc lc 80"
    using assms(1) unfolding udp_started_def by blast
  note i0 = init_udprelay_ok [OF i(1) m(2)]
  have bs: "5 \<le> us_buf_size s0" using i0(3) udp_buf_size_ok [OF i(3)] by simp
  have "udp_inv s \<and> state_wf lc (us_state s) \<and> udp_same s0 s
      \<and> (\<forall>p r. us_store s p = Some r \<longrightarrow> Some (u_src_addr r) \<in> request_source ` set evs)"
    by (rule udp_crypto.udp_run_ok [OF udp_ciphers_crypto [OF assms(2)] assms(3) m(1,3) i0(1) _ bs i0(4)])
      (use i0(2) i(2) in simp)
  with m bs show "mem_ok lc" "c_calloc lc 80" "udp_inv s" "state_wf lc (us_state s)" "5 \<le> us_buf_size s" "us_buf_size s = us_buf_size s0"
    "us_store s p = Some r \<Longrightarrow> Some (u_src_addr r) \<in> request_source ` set evs"
    by (auto simp: udp_same_def)
qed

text \<open>There are at most as many associations as bindings.\<close>

lemma assoc_card:
  assumes "assoc af l store" "distinct (map fst l)"
  shows "finite (dom store)" "card (dom store) \<le> length l"
proof -
  have sub: "dom store \<subseteq> (\<lambda>b. the (fst (snd b))) ` set l"
  proof
    fix p assume "p \<in> dom store"
    then obtain r ts where "(remote_key r, Some p, ts) \<in> set l" using assms(1) unfolding assoc_def by blast
    then show "p \<in> (\<lambda>b. the (fst (snd b))) ` set l" by force
  qed
  then show "finite (dom store)" by (rule finite_subset) simp
  have "card (dom store) \<le> card ((\<lambda>b. the (fst (snd b))) ` set l)" by (rule card_mono [OF _ sub]) simp
  also have "\<dots> \<le> card (set l)" by (rule card_image_le) simp
  also have "\<dots> \<le> length l" by (rule card_length)
  finally show "card (dom store) \<le> length l" .
qed

section \<open>Properties\<close>

text \<open>C37: the associations of the UDP relay, for every cipher and every order of requests of any length, replies and timeouts
  from the start on, where no MTU is given or one of at least 98 bytes and the small structures of the cache can be allocated. There are at most 255, and each is in the cache under the key of its source
  with both watchers running; no two have the same source or the same socket, and each has the source
  of a request that was received. Whatever event comes next, its callback returns, or it ends the
  process because no memory or no local port is left, or the event is a request of fewer than three bytes and the
  callback goes out of the bounds of its buffer. No pointer to an association that was closed is ever followed.\<close>

theorem udp_associations:
  assumes "udp_started lc s0" "udp_ciphers lc cr opened" "udp_run lc cr s0 evs s"
  shows "card (dom (us_store s)) \<le> 255 \<and> finite (dom (us_store s))
    \<and> (\<exists>c. us_conn_cache s = Some c \<and> length (lru_of c) \<le> 255 \<and> (\<forall>p r. us_store s p = Some r \<longrightarrow>
         u_io r \<and> u_watcher r \<and> Some (u_src_addr r) \<in> request_source ` set evs
         \<and> (\<exists>ts. (hash_key (u_af r) (u_src_addr r), Some p, ts) \<in> set (lru_of c))))
    \<and> (\<forall>p q r r'. us_store s p = Some r \<longrightarrow> us_store s q = Some r' \<longrightarrow> u_src_addr r = u_src_addr r' \<or> u_fd r = u_fd r' \<longrightarrow> p = q)
    \<and> (\<forall>ev. udp_event_ok ev s \<longrightarrow> (case udp_step lc cr ev s of
         Inl f \<Rightarrow> f = FATAL ''out of memory'' \<or> f = FATAL ''[udp] cannot bind remote'' \<or> f = OOB \<and> short_request ev
       | Inr s' \<Rightarrow> True))"
proof (intro conjI allI impI)
  note ok = udp_started_ok [OF assms]
  obtain c where c: "us_conn_cache s = Some c" "assoc (sin_family (us_remote_addr s)) (lru_of c) (us_store s)"
      "distinct (map fst (lru_of c))" "length (lru_of c) < MAX_UDP_CONN_NUM"
    by (rule udp_invE [OF ok(3)])
  have l: "length (lru_of c) \<le> 255" using c(4) by (simp add: MAX_UDP_CONN_NUM_def)
  with assoc_card [OF c(2,3)] show "card (dom (us_store s)) \<le> 255" "finite (dom (us_store s))" by simp_all
  show "\<exists>c. us_conn_cache s = Some c \<and> length (lru_of c) \<le> 255 \<and> (\<forall>p r. us_store s p = Some r \<longrightarrow>
         u_io r \<and> u_watcher r \<and> Some (u_src_addr r) \<in> request_source ` set evs
         \<and> (\<exists>ts. (hash_key (u_af r) (u_src_addr r), Some p, ts) \<in> set (lru_of c)))"
    using assocD(2) [OF c(2), unfolded remote_ok_def remote_key_def] ok(7) c(1) l by blast
  show "p = q" if s: "us_store s p = Some r" "us_store s q = Some r'" "u_src_addr r = u_src_addr r' \<or> u_fd r = u_fd r'" for p q r r'
    using s(3) udp_inv_source [OF ok(3) s(1,2)] c(2) s(1,2) unfolding assoc_def by blast
  show "case udp_step lc cr ev s of Inl f \<Rightarrow> f = FATAL ''out of memory'' \<or> f = FATAL ''[udp] cannot bind remote'' \<or> f = OOB \<and> short_request ev | Inr s' \<Rightarrow> True"
    if "udp_event_ok ev s" for ev
    by (rule udp_crypto.udp_step_ok [OF udp_ciphers_crypto [OF assms(2)] ok(1-5) that]) simp_all
qed

text \<open>C38: a request through the UDP relay. From every state of a run, a SOCKS5 datagram of up to the buffer's size, not a
  fragment, with an IPv4, name or IPv6 header, is sent once, on the association of its source and on no other socket, as a packet that opens
  to the datagram without its first three bytes; where the source has no association it gets one. Nothing goes to a client. Socket, bind, protection and
  sending must succeed; otherwise only want of memory ends the process.\<close>

theorem udp_request:
  assumes "udp_started lc s0" "udp_ciphers lc cr opened" "udp_run lc cr s0 evs s" "udp_env_ok env s"
    and "ue_recv env = Some ([a, b, 0] @ hdr @ pay, src)" "udp_header hdr" "int (3 + length hdr + length pay) \<le> us_buf_size s"
    and "ue_socket env \<noteq> None" "ue_bind env" "ue_protect env" "ue_sendto env"
  shows "udp_server_recv_cb lc cr env s = Inl (FATAL ''out of memory'')
    \<or> (\<exists>s' p r pkt. udp_server_recv_cb lc cr env s = Inr s' \<and> us_store s' p = Some r \<and> u_src_addr r = src
         \<and> us_to_server s' = us_to_server s @ [(u_fd r, pkt)] \<and> opened pkt = Some (hdr @ pay) \<and> us_to_client s' = us_to_client s
         \<and> (\<forall>q r'. us_store s q = Some r' \<longrightarrow> u_src_addr r' = src \<longrightarrow> q = p \<and> r' = r))"
proof -
  note ok = udp_started_ok [OF assms(1-3)]
  let ?bs = "[a, b, 0] @ hdr @ pay"
  have m: "take (nat (us_buf_size s)) ?bs = ?bs" using assms(7) by simp
  have t: "3 \<le> length ?bs" by simp
  from udp_ciphers_crypto [OF assms(2)] ok(1-4) assms(4) ok(5) assms(5) t show ?thesis
  proof (cases rule: udp_crypto.server_recv_cases [consumes 9, case_names fault dropped sent])
    case (fault f)
    then show ?thesis using assms(9) by simp
  next
    case (dropped s')
    then show ?thesis using assms(6,8,10,11) unfolding m by fastforce
  next
    case (sent s' p r pkt)
    then show ?thesis unfolding m only_association_def by (intro disjI2 exI [of _ s'] exI [of _ p] exI [of _ r] exI [of _ pkt]) simp
  qed
qed

text \<open>C39: a reply through the UDP relay. Whatever comes on the socket of an association, its callback returns, sends nothing to
  the server and changes no association. It sends to a client at most once: then it is to the source of this association, which has sent a request before, and it is
  three zero bytes and what the packet opens to. A packet is dropped only when it cannot be received or sent, when decryption
  refuses it, or when what it opens to has no header.\<close>

theorem udp_reply:
  assumes "udp_started lc s0" "udp_ciphers lc cr opened" "udp_run lc cr s0 evs s" "us_store s p = Some r"
  shows "\<exists>s'. udp_remote_recv_cb lc cr env p s = Inr s' \<and> us_store s' = us_store s \<and> us_to_server s' = us_to_server s
    \<and> ((\<exists>bs src m. ue_recv env = Some (bs, src) \<and> opened (take (nat (us_buf_size s)) bs) = Some m
          \<and> us_to_client s' = us_to_client s @ [(take (get_sockaddr_len (u_src_addr r)) (u_src_addr r), [0, 0, 0] @ m)]
          \<and> Some (u_src_addr r) \<in> request_source ` set evs)
      \<or> us_to_client s' = us_to_client s
          \<and> (\<not> ue_sendto env \<or> (\<forall>bs src. ue_recv env = Some (bs, src) \<longrightarrow>
               (\<exists>b rc b' st. recv_packet lc s bs = Inr b
                  \<and> cr_decrypt_all cr b (cr_cipher cr) (nat (us_buf_size s)) (us_state s) = Inr (rc, b', st)
                  \<and> (rc \<noteq> CRYPTO_OK \<or> (\<nexists>h pay. udp_header h \<and> contents b' = h @ pay))))))"
proof -
  note ok = udp_started_ok [OF assms(1-3)]
  from udp_ciphers_crypto [OF assms(2)] ok(3-5) assms(4) show ?thesis
  proof (cases rule: udp_crypto.remote_recv_cases [where lc = lc and env = env, consumes 5, case_names dropped delivered])
    case (dropped s')
    then show ?thesis by blast
  next
    case (delivered bs src m s')
    then show ?thesis using ok(7) [OF assms(4)] by blast
  qed
qed

text \<open>C40: a datagram of fewer than three bytes. Where the memory of the buffer happens to hold a zero and then the
  type of an IPv4 address, the callback takes it for a request, opens an association for it, and moves
  close to \<^term>\<open>(2::nat) ^ 64\<close> bytes, beyond the end of the buffer, unless the table of associations cannot be allocated first. Any application that can reach the relay's port can send one.\<close>

theorem udp_short_datagram:
  assumes "udp_started lc s0" "udp_ciphers lc cr opened" "udp_run lc cr s0 evs s" "udp_env_ok env s"
    and "ue_recv env = Some (bs, src)" "length bs < 3" "c_junk lc 2 = 0" "c_junk lc 3 = 1" "10 \<le> us_buf_size s" "us_buf_size s < 2 ^ 31"
    and "ue_socket env \<noteq> None" "ue_bind env" "ue_protect env"
  shows "udp_server_recv_cb lc cr env s = Inl OOB \<or> udp_server_recv_cb lc cr env s = Inl (FATAL ''out of memory'')"
proof -
  note ok = udp_started_ok [OF assms(1-3)]
  obtain b where b: "recv_packet lc s bs = Inr b" "buf_wf b" "len b = length (take (nat (us_buf_size s)) bs)" "capacity b = nat (us_buf_size s)"
    by (rule recv_packet_ok) (use ok(5) in auto)
  have l: "length (data b) = nat (us_buf_size s)" "len b < 3" using b(2-4) assms(6) by (auto simp: buf_wf_def)
  have junk: "data b ! 2 = 0" "data b ! 3 = 1"
    using recv_packet_junk [OF b(1), of 2] recv_packet_junk [OF b(1), of 3] assms(6-9) by simp_all
  have hdr: "parse_udprelay_header (data b) 3 (size_sub (len b) 3) True = Inr 7"
    using junk(2) l assms(9) size_sub_wraps [OF l(2)] by (simp add: parse_udprelay_header_def ADDRTYPE_MASK_def rd_def)
  have cb: "udp_server_recv_cb lc cr env s = after_header lc cr env b 7 (data b ! 2) (hash_key (sin_family (us_remote_addr s)) src) src
      (s\<lparr>us_tx := us_tx s + of_nat (len b)\<rparr>)"
    by (rule server_recv_header [OF b(1) _ assms(5) hdr]) (use l(1) assms(9) in simp)
  define s1 where "s1 = s\<lparr>us_tx := us_tx s + of_nat (len b)\<rparr>"
  have s1: "udp_inv s1" "us_store s1 = us_store s" "us_remote_addr s1 = us_remote_addr s" "us_conn_cache s1 = us_conn_cache s"
    using ok(3) by (simp_all add: s1_def)
  note cb' = cb [folded s1_def s1(3), unfolded after_header_def junk(1)]
  have oob: "send_request cr env b p t = Inl OOB" for p t
    using short_datagram_faults [OF b(1) assms(6) ok(5) assms(10)] by (simp add: send_request_def)
  have env: "length src = SOCKADDR_STORAGE" "us_store s1 (ue_ctx_addr env) = None"
      "\<forall>p r. us_store s1 p = Some r \<longrightarrow> ue_socket env \<noteq> Some (u_fd r)"
      "\<forall>c. us_conn_cache s1 = Some c \<longrightarrow> ue_entry_addr env \<notin> el_addr ` set (HASH_ITER (entries c))"
    using assms(4,5) unfolding udp_env_ok_def s1(2,4) by blast+
  from ok(1) s1(1) env(1) show ?thesis
  proof (cases rule: find_remote_cases [where env = env])
    case missing
    from ok(1,2) s1(1) env(1) missing(2) env(2-4) show ?thesis
      by (cases rule: open_remote_cases) (use cb' missing(1) oob assms(11-13) in auto)
  qed (use cb' oob in auto)
qed

section \<open>Examples\<close>

definition state_mem :: crypto_state where
  "state_mem = \<lparr>ppb = snd (ppbloom_init lc_mem
        \<lparr>pp_bloom = (\<lambda>_. blank_bloom), pp_count = (\<lambda>_. 0), pp_current = PING, pp_entries = 0, pp_error = 0\<rparr>
        100 (1 / 10 ^ 6)),
     rand_pos = 0, tmps = (\<lambda>_. \<lparr>idx = 0, len = 0, capacity = 0, data = []\<rparr>)\<rparr>"

definition src_ex :: bytes where
  "src_ex = [2, 0, 48, 57, 127, 0, 0, 1] @ replicate 120 0"

definition request_ex :: bytes where
  "request_ex = [1, 8, 8, 8, 8, 0, 53]"

definition udp_env_ex :: udp_env where
  "udp_env_ex = \<lparr>ue_recv = Some ([0, 0, 0] @ request_ex @ [7], src_ex), ue_socket = Some 9, ue_bind = True, ue_protect = True, ue_vpn = True,
     ue_sendto = True, ue_now = 1, ue_ctx_addr = 1000, ue_entry_addr = 2000\<rparr>"

definition udp_ex :: udp_server where
  "udp_ex = the (init_udprelay lc_mem (Some 3) src_ex 1500 state_mem)"

lemma state_mem_wf: "state_wf lc_mem state_mem"
proof -
  have "bloom_sizes lc_mem 50 (1 / 10 ^ 6) = (200, 3)"
    using sizes_ex by (simp add: bloom_sizes_def lc_mem_def)
  then have "bloom_params_ok lc_mem (c_div 100 2) (1 / 10 ^ 6)"
    by (simp add: bloom_params_ok_def c_div_def lc_mem_ok)
  from ppbloom_init_wf(2) [OF this] show ?thesis by (simp add: state_wf_def state_mem_def buf_wf_def)
qed

lemma udp_ex_started: "udp_started lc_mem udp_ex" "us_buf_size udp_ex = 2810" "us_store udp_ex = Map.empty"
  "us_conn_cache udp_ex = Some \<lparr>max_entries = 256, entries = None\<rparr>" "us_to_server udp_ex = []" "us_to_client udp_ex = []"
proof -
  have i: "init_udprelay lc_mem (Some 3) src_ex 1500 state_mem = Some udp_ex" by (simp add: udp_ex_def init_udprelay_def)
  show "udp_started lc_mem udp_ex"
    unfolding udp_started_def using lc_mem_ok state_mem_wf
    by (intro conjI exI [of _ 3] exI [of _ src_ex] exI [of _ 1500] exI [of _ state_mem]) (simp_all add: i)
qed (simp_all add: udp_ex_def init_udprelay_def udp_buf_size_def PACKET_HEADER_SIZE_def cache_create_def lc_mem_ok MAX_UDP_CONN_NUM_def)

lemma salsa_udp_ciphers: "udp_ciphers lc (stream_crypto lc salsa_ex) (stream_opened salsa_ex)"
  unfolding udp_ciphers_def using stream_ex_ok(2) by blast

lemma udp_env_ex_ok: "udp_env_ok udp_env_ex udp_ex"
  using udp_ex_started
  by (simp add: udp_env_ok_def udp_env_ex_def src_ex_def SOCKADDR_STORAGE_def MAX_UDP_PACKET_SIZE_def request_ex_def HASH_ITER_def)

lemma request_ex_header: "udp_header request_ex"
proof -
  have "request_ex = 1 # [8, 8, 8, 8] @ [0, 53]" "length [8, 8, 8, 8 :: u8] = 4" "length [0, 53 :: u8] = 2"
    by (simp_all add: request_ex_def)
  then show ?thesis unfolding udp_header_def by blast
qed

abbreviation salsa_relay :: crypto_t where
  "salsa_relay \<equiv> stream_crypto lc_mem salsa_ex"

text \<open>The first association does not exhaust the memory.\<close>

lemma first_association:
  assumes "us_conn_cache s = Some \<lparr>max_entries = 256, entries = None\<rparr>" "us_store s = Map.empty"
  shows "find_remote lc_mem env k src s = Inr (None, s)" "open_remote lc_mem env k src s \<noteq> Inl (FATAL ''out of memory'')"
proof -
  have "find_remote lc_mem env k src s = Inr (None, s\<lparr>us_conn_cache := us_conn_cache s\<rparr>)"
    by (simp add: find_remote_def assms cache_lookup_def HASH_FIND_def)
  then show "find_remote lc_mem env k src s = Inr (None, s)" by simp
  obtain t where "HASH_ADD_KEYPTR lc_mem None k (ue_entry_addr env) (Some (ue_ctx_addr env), ue_now env) = Inr t"
    using HASH_ADD_first [of k "ue_entry_addr env" "(Some (ue_ctx_addr env), ue_now env)"] by blast
  then show "open_remote lc_mem env k src s \<noteq> Inl (FATAL ''out of memory'')"
    by (auto simp: open_remote_def create_remote_socket_def put_remote_def with_remote_def cache_insert_def assms lc_mem_ok Let_def
        split: option.splits list.splits if_splits)
qed

lemma udp_ex_no_oom: "udp_server_recv_cb lc_mem salsa_relay udp_env_ex udp_ex \<noteq> Inl (FATAL ''out of memory'')"
proof -
  note ok = udp_started_ok [OF udp_ex_started(1) salsa_udp_ciphers udp_run.start]
  define bs where "bs = [0, 0, 0] @ request_ex @ [7]"
  have bs: "ue_recv udp_env_ex = Some (bs, src_ex)" "3 \<le> length bs" "take 2810 bs = [0, 0, 0] @ request_ex @ [7]"
    by (simp_all add: udp_env_ex_def request_ex_def bs_def)
  let ?k = "hash_key (sin_family (us_remote_addr udp_ex)) src_ex"
  obtain b h where b: "buf_wf b" "contents b = take (nat (us_buf_size udp_ex)) bs" "len b \<le> 65535" "h \<noteq> 0 \<longrightarrow> 3 < len b"
      "h = 0 \<longrightarrow> (\<nexists>hdr pay. udp_header hdr \<and> drop 3 (take (nat (us_buf_size udp_ex)) bs) = hdr @ pay)"
      "udp_server_recv_cb lc_mem salsa_relay udp_env_ex udp_ex = after_header lc_mem salsa_relay udp_env_ex b h
         (take (nat (us_buf_size udp_ex)) bs ! 2) ?k src_ex (udp_ex\<lparr>us_tx := us_tx udp_ex + of_nat (len b)\<rparr>)"
    by (rule server_recv_start [OF udp_env_ex_ok ok(5) bs(1,2), where lc = lc_mem and cr = salsa_relay])
  have "drop 3 (take (nat (us_buf_size udp_ex)) bs) = request_ex @ [7]" "take (nat (us_buf_size udp_ex)) bs ! 2 = 0"
    using bs(3) udp_ex_started(2) by simp_all
  then have h: "h \<noteq> 0" "take (nat (us_buf_size udp_ex)) bs ! 2 = 0" using b(5) request_ex_header by blast+
  define s1 where "s1 = udp_ex\<lparr>us_tx := us_tx udp_ex + of_nat (len b)\<rparr>"
  have s1: "us_conn_cache s1 = Some \<lparr>max_entries = 256, entries = None\<rparr>" "us_store s1 = Map.empty" "udp_inv s1" "state_wf lc_mem (us_state s1)"
      "us_remote_addr s1 = us_remote_addr udp_ex"
    using udp_ex_started ok(3,4) by (simp_all add: s1_def)
  have cb: "udp_server_recv_cb lc_mem salsa_relay udp_env_ex udp_ex =
      (case open_remote lc_mem udp_env_ex ?k src_ex s1 of
         Inl f \<Rightarrow> Inl f | Inr (None, s) \<Rightarrow> Inr s | Inr (Some p, s) \<Rightarrow> send_request salsa_relay udp_env_ex b p s)"
    using h first_association(1) [OF s1(1,2)] by (simp add: b(6) [folded s1_def] after_header_def)
  have len: "length src_ex = SOCKADDR_STORAGE" by (simp add: src_ex_def SOCKADDR_STORAGE_def)
  show ?thesis
  proof (rule open_remote_cases [OF ok(1,2) s1(3) len, where env = udp_env_ex, unfolded s1(5)])
    fix f assume "open_remote lc_mem udp_env_ex ?k src_ex s1 = Inl f" "f = FATAL ''out of memory'' \<or> f = FATAL ''[udp] cannot bind remote'' \<and> \<not> ue_bind udp_env_ex"
    then show ?thesis using first_association(2) [OF s1(1,2)] by (auto simp: udp_env_ex_def)
  next
    fix fd r s' assume o: "open_remote lc_mem udp_env_ex ?k src_ex s1 = Inr (Some (ue_ctx_addr udp_env_ex), s')" "us_store s' (ue_ctx_addr udp_env_ex) = Some r"
      "s' = s1\<lparr>us_conn_cache := us_conn_cache s', us_store := us_store s'\<rparr>"
    have "us_state s' = us_state s1" using only_associationsD(1) [OF only_associationsI(2) [OF o(3)]] .
    then have "state_wf lc_mem (us_state s')" "3 < len b" using s1(4) b(4) h(1) by simp_all
    then obtain t where "send_request salsa_relay udp_env_ex b (ue_ctx_addr udp_env_ex) s' = Inr t"
      by (rule udp_crypto.send_request_ok [OF udp_ciphers_crypto [OF salsa_udp_ciphers] _ o(2) b(1) _ b(3)])
    then show ?thesis using cb o(1) by simp
  next
    assume "open_remote lc_mem udp_env_ex ?k src_ex s1 = Inr (None, s1)"
    then show ?thesis using cb by simp
  qed (simp_all add: s1(1,2) HASH_ITER_def)
qed

lemma udp_ex_run:
  obtains s p r where "udp_run lc_mem salsa_relay udp_ex [Request udp_env_ex] s" "us_store s p = Some r" "u_src_addr r = src_ex"
proof -
  note ok = udp_started_ok [OF udp_ex_started(1) salsa_udp_ciphers udp_run.start]
  have recv: "ue_recv udp_env_ex = Some ([0, 0, 0] @ request_ex @ [7], src_ex)" "3 \<le> length ([0, 0, 0] @ request_ex @ [7])"
    by (simp_all add: udp_env_ex_def)
  have m: "drop 3 (take (nat (us_buf_size udp_ex)) ([0, 0, 0] @ request_ex @ [7])) = request_ex @ [7]"
      "take (nat (us_buf_size udp_ex)) ([0, 0, 0] @ request_ex @ [7]) ! 2 = 0"
    by (simp_all add: udp_ex_started(2) request_ex_def)
  from udp_ciphers_crypto [OF salsa_udp_ciphers] ok(1-4) udp_env_ex_ok ok(5) recv show thesis
  proof (cases rule: udp_crypto.server_recv_cases [consumes 9, case_names fault dropped sent])
    case (fault f)
    then show thesis using udp_ex_no_oom by (auto simp: udp_env_ex_def)
  next
    case (dropped s')
    then show thesis using m request_ex_header by (simp add: udp_env_ex_def) blast
  next
    case (sent s' p r pkt)
    have "udp_run lc_mem salsa_relay udp_ex ([] @ [Request udp_env_ex]) s'"
      by (rule udp_run.event [OF udp_run.start]) (use sent(1) udp_env_ex_ok recv in simp_all)
    then show thesis using that sent(5,6) by simp
  qed
qed

theorem udp_associations_witness:
  "\<exists>s p r. udp_run lc_mem salsa_relay udp_ex [Request udp_env_ex] s \<and> us_store s p = Some r
     \<and> card (dom (us_store s)) \<le> 255 \<and> u_io r \<and> u_watcher r \<and> (\<forall>q r'. us_store s q = Some r' \<and> u_src_addr r' = u_src_addr r \<longrightarrow> q = p)"
proof -
  obtain s p r where run: "udp_run lc_mem salsa_relay udp_ex [Request udp_env_ex] s" "us_store s p = Some r" by (rule udp_ex_run)
  from udp_associations [OF udp_ex_started(1) salsa_udp_ciphers run(1)] run show ?thesis by blast
qed

theorem udp_request_witness:
  "\<exists>s' p r pkt. udp_server_recv_cb lc_mem salsa_relay udp_env_ex udp_ex = Inr s' \<and> us_store s' p = Some r \<and> u_src_addr r = src_ex
     \<and> us_to_server s' = [(u_fd r, pkt)] \<and> stream_opened salsa_ex pkt = Some (request_ex @ [7])"
proof -
  have "udp_server_recv_cb lc_mem salsa_relay udp_env_ex udp_ex = Inl (FATAL ''out of memory'')
    \<or> (\<exists>s' p r pkt. udp_server_recv_cb lc_mem salsa_relay udp_env_ex udp_ex = Inr s' \<and> us_store s' p = Some r \<and> u_src_addr r = src_ex
         \<and> us_to_server s' = us_to_server udp_ex @ [(u_fd r, pkt)] \<and> stream_opened salsa_ex pkt = Some (request_ex @ [7]) \<and> us_to_client s' = us_to_client udp_ex
         \<and> (\<forall>q r'. us_store udp_ex q = Some r' \<longrightarrow> u_src_addr r' = src_ex \<longrightarrow> q = p \<and> r' = r))"
    by (rule udp_request [OF udp_ex_started(1) salsa_udp_ciphers udp_run.start udp_env_ex_ok _ request_ex_header])
      (simp_all add: udp_env_ex_def udp_ex_started(2) request_ex_def)
  with udp_ex_no_oom show ?thesis unfolding udp_ex_started(5) by auto
qed

theorem udp_reply_witness:
  "\<exists>s p r s'. udp_run lc_mem salsa_relay udp_ex [Request udp_env_ex] s \<and> us_store s p = Some r
     \<and> udp_remote_recv_cb lc_mem salsa_relay udp_env_ex p s = Inr s' \<and> us_store s' = us_store s \<and> us_to_server s' = us_to_server s"
proof -
  obtain s p r where run: "udp_run lc_mem salsa_relay udp_ex [Request udp_env_ex] s" "us_store s p = Some r" by (rule udp_ex_run)
  from udp_reply [OF udp_ex_started(1) salsa_udp_ciphers run, of udp_env_ex] run show ?thesis by blast
qed

text \<open>An empty datagram, with a library whose fresh memory reads 0, 0, 0, 1, 0, and so on.\<close>

definition lc_short :: libc where
  "lc_short = lc_mem\<lparr>c_junk := (\<lambda>i. if i = 3 then 1 else 0)\<rparr>"

definition udp_short_ex :: udp_server where
  "udp_short_ex = udp_ex\<lparr>us_state := (us_state udp_ex)\<lparr>ppb := snd (ppbloom_init lc_short
     \<lparr>pp_bloom = (\<lambda>_. blank_bloom), pp_count = (\<lambda>_. 0), pp_current = PING, pp_entries = 0, pp_error = 0\<rparr> 100 (1 / 10 ^ 6))\<rparr>\<rparr>"

lemma udp_short_ex_started: "udp_started lc_short udp_short_ex" "us_buf_size udp_short_ex = 2810"
proof -
  have "bloom_sizes lc_short 50 (1 / 10 ^ 6) = (200, 3)"
    using sizes_ex by (simp add: bloom_sizes_def lc_short_def lc_mem_def)
  then have p: "bloom_params_ok lc_short (c_div 100 2) (1 / 10 ^ 6)"
    by (simp add: bloom_params_ok_def c_div_def lc_short_def lc_mem_ok)
  have "state_wf lc_short (us_state udp_short_ex)"
    using ppbloom_init_wf(2) [OF p] by (simp add: state_wf_def udp_short_ex_def udp_ex_def init_udprelay_def state_mem_def buf_wf_def)
  moreover have "init_udprelay lc_short (Some 3) src_ex 1500 (us_state udp_short_ex) = Some udp_short_ex"
    by (simp add: init_udprelay_def udp_short_ex_def udp_ex_def cache_create_def lc_short_def lc_mem_ok)
  moreover have "mem_ok lc_short" "c_calloc lc_short 24" "c_calloc lc_short 80"
    using lc_mem_ok by (simp_all add: lc_short_def mem_ok_def)
  ultimately show "udp_started lc_short udp_short_ex"
    unfolding udp_started_def by (intro conjI exI [of _ 3] exI [of _ src_ex] exI [of _ 1500] exI [of _ "us_state udp_short_ex"]) simp_all
  show "us_buf_size udp_short_ex = 2810" by (simp add: udp_short_ex_def udp_ex_started(2))
qed

theorem udp_short_datagram_witness:
  "udp_server_recv_cb lc_short (stream_crypto lc_short salsa_ex) (udp_env_ex\<lparr>ue_recv := Some ([], src_ex)\<rparr>) udp_short_ex
     \<in> {Inl OOB, Inl (FATAL ''out of memory'')}"
proof -
  have "udp_env_ok (udp_env_ex\<lparr>ue_recv := Some ([], src_ex)\<rparr>) udp_short_ex"
    using udp_env_ex_ok by (simp add: udp_env_ok_def udp_short_ex_def udp_env_ex_def)
  from udp_short_datagram [OF udp_short_ex_started(1) salsa_udp_ciphers udp_run.start this]
  show ?thesis by (simp add: udp_short_ex_started(2) lc_short_def udp_env_ex_def)
qed

end
