(* ===== verification/Spec2Isabelle.thy ===== *)
theory Spec2Isabelle
  imports SS_AeadProps SS_PrimProps SS_NetProps SS_LocalProps SS_StreamProps SS_InitProps SS_UdpProps
begin

text \<open>
  \<^bold>\<open>A verification of the native core of shadowsocks for Android.\<close>

  The repository is the Android client of the shadowsocks proxy. Its Kotlin part starts native
  programs that are built from \<^verbatim>\<open>src/core/src/main/jni\<close>; all paths below are relative to that
  directory, and \<^verbatim>\<open>ss\<close> stands for \<^verbatim>\<open>shadowsocks-libev/src\<close>. The program's own logic is in
  shadowsocks-libev: \<^verbatim>\<open>ss-local\<close> (\<^verbatim>\<open>ss/local.c\<close>) is a SOCKS5 server for the applications of the device. It
  answers their handshake, looks for a host name in the first bytes (\<^verbatim>\<open>ss/tls.c\<close>, \<^verbatim>\<open>ss/http.c\<close>),
  asks the access control list whether to connect directly, and otherwise sends the requested
  address and all payload to the shadowsocks server, encrypted by one of the ciphers behind the
  function table \<^verbatim>\<open>crypto_t\<close> (\<^verbatim>\<open>ss/crypto.h\<close>). The AEAD ciphers (\<^verbatim>\<open>ss/aead.c\<close>) cut the stream into
  chunks that are sealed by primitives of libsodium and mbed TLS under a subkey which HKDF derives from the salt of the connection;
  the older stream ciphers (\<^verbatim>\<open>ss/stream.c\<close>) send an IV and the stream, encrypted by libsodium or mbed TLS;
  a Bloom filter (\<^verbatim>\<open>ss/ppbloom.c\<close> on \<^verbatim>\<open>libbloom\<close>) remembers salts against replay. \<^verbatim>\<open>ss/cache.c\<close> on
  \<^verbatim>\<open>ss/uthash.h\<close> is the cache that the UDP relay (\<^verbatim>\<open>ss/udprelay.c\<close>) and the block list use.

  \<^bold>\<open>How the code is modelled.\<close> C functions are HOL functions of the same name on the state they use,
  bytes are \<^typ>\<open>8 word\<close>, \<^verbatim>\<open>uint32_t\<close> and \<^verbatim>\<open>uint64_t\<close> are words that wrap around, and a length is a natural number where the
  code cannot overflow it, and a word or \<^verbatim>\<open>c_int\<close> where it could. \<open>Inl f\<close> is a fault (a read outside an object, a null access, a failed
  assertion, an exit of the process), \<open>Inr\<close> a return. A byte that C reads at an index goes through \<^const>\<open>rd\<close>, which is a fault
  out of range. What the program takes from its platform is the record \<open>libc\<close>: whether an allocation
  succeeds, what fresh memory contains, the random tape, the logarithm and the rounding of doubles. The AES-256-GCM of
  libsodium, which runs on hardware instructions and only where the processor has them, is
  the record \<open>cryptolib\<close> with the contract \<^const>\<open>lib_ok\<close> (what is sealed opens, and nothing else is
  assumed); all other ciphers are modelled down to their rounds, in the portable code of the two libraries. The system calls of a callback are its
  argument \<open>env\<close>, so a theorem about all \<open>env\<close> covers every behaviour of the kernel; the resolver, the conversion of addresses and the access control list are fields of
  \<open>config\<close>, of which \<^const>\<open>cfg_ok\<close> says what is relied on.

  \<^bold>\<open>Theories\<close>, from the bottom up.

  \<^item> \<open>SS_Prelude\<close>: the types, faults, checked reads, \<^verbatim>\<open>memcpy\<close>, byte order, and the collections of
    lemmas that the other theories share.
  \<^item> \<open>SS_Bloom\<close>, \<open>SS_Replay\<close>: \<^verbatim>\<open>libbloom\<close> with its hash and \<^verbatim>\<open>ss/ppbloom.c\<close>; the invariant of the two filters, no false
    negatives, and the window in which a salt is remembered.
  \<^item> \<open>SS_Buffer\<close>: \<^verbatim>\<open>buffer_t\<close>, \<^verbatim>\<open>balloc\<close>, \<^verbatim>\<open>brealloc\<close>, \<^verbatim>\<open>bprepend\<close> of \<^verbatim>\<open>ss/crypto.c\<close>.
  \<^item> \<open>SS_Digest\<close>, \<open>SS_Kdf\<close>: SHA-1 and MD5 of mbed TLS with their buffering (piecewise
    hashing is hashing the whole), HMAC, HKDF against RFC 5869, and the key derivation from a password, whose outer loop is a
    \<^theory_text>\<open>partial_function\<close>, as its counter of 32 bits never reaches a larger key.
  \<^item> \<open>SS_Chacha\<close>, \<open>SS_Poly1305\<close>, \<open>SS_AeadPrim\<close>: the libsodium code of ChaCha20, HChaCha20, Poly1305 on 32-bit limbs, and
    the two combined modes; opening undoes sealing. The locale \<open>aead_cipher\<close> is the interface of a mode.
  \<^item> \<open>SS_ChachaSpec\<close>: ChaCha20 as RFC 8439 describes it, on a matrix of words, and that the unrolled loop of libsodium XORs its numbered blocks.
  \<^item> \<open>SS_Aes\<close>, \<open>SS_Blowfish\<close>, \<open>SS_Camellia\<close>, \<open>SS_Modes\<close>, \<open>SS_Gcm\<close>, \<open>SS_Mbed\<close>: the block ciphers of mbed TLS with their tables and key
    schedules, the modes CFB and CTR, ARC4, GCM, and the generic layer of \<^verbatim>\<open>mbedtls/library/cipher.c\<close> that finds a cipher by its
    name and dispatches on its mode. No claim is made that one of these ciphers is the standardised one; what is shown is
    that decryption undoes encryption, under any cutting of the stream, and that a GCM context that was used is as good as new.
  \<^item> \<open>SS_Salsa\<close>: Salsa20 of libsodium.
  \<^item> \<open>SS_Crypto\<close>, \<open>SS_Aead\<close>: the cipher context, the nonce counter, and all of the
    TCP and UDP functions of \<^verbatim>\<open>ss/aead.c\<close>; the receiving loop needs no fuel, as each round consumes
    bytes of the buffer.
  \<^item> \<open>SS_AeadSession\<close>, \<open>SS_AeadUdp\<close>: the wire format as a function, the relations that say what a sender and a receiver
    have processed, that every function returns on arbitrary input, and the delivery lemmas.
  \<^item> \<open>SS_CryptoApi\<close>: the table \<^verbatim>\<open>crypto_t\<close> and the contract \<open>tcp_crypto\<close> that a TCP relay relies on, a
    locale that is interpreted on the AEAD ciphers; \<open>tcp_delivery\<close> extends it by what the receiving side promises.
  \<^item> \<open>SS_Stream\<close>, \<open>SS_StreamSession\<close>, \<open>SS_StreamConn\<close>, \<open>SS_StreamRecv\<close>, \<open>SS_StreamCrypto\<close>, \<open>SS_StreamUdp\<close>: the functions of
    \<^verbatim>\<open>ss/stream.c\<close>, the keystream as a state that both sides step through, the sending and the receiving
    side of a connection, the same two contracts for the stream ciphers, and packets.
  \<^item> \<open>SS_Base64\<close>, \<open>SS_CryptoInit\<close>: keys in Base64, and \<^verbatim>\<open>crypto_init\<close> with all that it calls to make a cipher from
    the name of a method and a password or key; every table it returns is one of those that keep the contracts.
  \<^item> \<open>SS_Uthash\<close>, \<open>SS_Cache\<close>: the hash table as its macros build it, with bucket expansion, and the cache; the table
    implements the contract \<open>keyed_table\<close>, and the cache a least-recently-used list.
  \<^item> \<open>SS_Tls\<close>, \<open>SS_Http\<close>: the two parsers of host names.
  \<^item> \<open>SS_Local\<close>: every callback of a connection of \<^verbatim>\<open>ss/local.c\<close>; libev watchers are flags, a freed connection is \<open>None\<close>, and a log records what
    passed the kernel. The \<^verbatim>\<open>while (1)\<close> loop of \<^verbatim>\<open>server_recv_cb\<close> is a \<^theory_text>\<open>partial_function\<close>, so that a loop that never ends would be \<open>None\<close>.
  \<^item> \<open>SS_LocalInv\<close>, \<open>SS_LocalLive\<close>, \<open>SS_LocalDialogue\<close>, \<open>SS_LocalDown\<close>: the step relation of the event loop, the invariant of a
    connection and its proof in the locale \<open>tcp_crypto\<close>, the address that belongs to a request (\<^const>\<open>header_for\<close>), the watchers that keep a connection alive, the run of a
    complete dialogue, and what the application is sent of the bytes that come back.
  \<^item> \<open>SS_UdpApi\<close>, \<open>SS_Udp\<close>: the contract \<open>udp_crypto\<close> of a cipher for packets, a locale that is interpreted on both
    families, and the UDP relay \<^verbatim>\<open>ss/udprelay.c\<close> as it is built into \<^verbatim>\<open>ss-local\<close>: the two callbacks, the timeout, the
    associations in a store that the cache points into, start and end.
  \<^item> \<open>SS_UdpInv\<close>, \<open>SS_UdpRun\<close>: the invariant that ties the cache to the open associations, what each callback does to it, and runs of
    events in any order, requests of fewer than three bytes included.
  \<^item> \<open>SS_Example\<close>: the concrete platform, cipher and state of the witnesses.
  \<^item> \<open>SS_AeadProps\<close>, \<open>SS_PrimProps\<close>, \<open>SS_NetProps\<close>, \<open>SS_LocalProps\<close>, \<open>SS_StreamProps\<close>, \<open>SS_InitProps\<close>, \<open>SS_UdpProps\<close>: the properties, each with its number, a
    statement in words, and a witness where it has hypotheses.

  \<^bold>\<open>What is shown.\<close> For TCP: what a sender passes through \<^verbatim>\<open>aead_encrypt\<close> arrives through \<^verbatim>\<open>aead_decrypt\<close>
  unchanged under any fragmentation, and likewise for the stream ciphers and for whatever \<^verbatim>\<open>crypto_init\<close> returns; the relay composes with this, so that the server's plaintext is the requested address (or the host name
  that was found in the payload) and exactly the payload of the SOCKS5 client, for any results of the system calls and any order of the callbacks. Every enabled callback
  returns, no open connection is without a started watcher, buffers stay in bounds, no side is read while bytes wait for
  the other, and the application gets all that was decrypted, once and in order. For UDP: packets round-trip, forged and replayed ones are refused within the window of the filter; the relay keeps at most 255 associations, one per source, never follows a pointer to a closed
  one, sends each request on the association of its source, and gives a reply to that source only. A datagram
  of fewer than three bytes is the exception that is shown to move memory out of bounds. Below that, the
  primitives agree with reference definitions, the parsers are total and find the names they look for, and the
  cache is a least-recently-used cache.

  \<^bold>\<open>What is not modelled.\<close> Confidentiality and unforgeability are assumptions about ciphers and not properties of this code. The assembly
  and vector variants of the ciphers (AES-NI, SSSE3, AVX2) compute the same functions and are left out. Left out so far are the access control list
  (\<^verbatim>\<open>ss/acl.c\<close>, \<^verbatim>\<open>ss/rule.c\<close>, a parameter of the relay), the parts of \<^verbatim>\<open>ss/udprelay.c\<close> for the server, the tunnel and the redirector, the configuration (\<^verbatim>\<open>ss/jconf.c\<close>), start-up and logging, the other programs of
  shadowsocks-libev (server, tunnel, redirector, manager), \<^verbatim>\<open>badvpn\<close>, \<^verbatim>\<open>redsocks\<close>, and the vendored libraries
  that the program only calls (libev, libevent, pcre, the rest of mbed TLS and libsodium). What would come next is the access
  control list and then the tools.
\<close>

end
